(* ===== verification/Selfai_Prelude.thy ===== *)
theory Selfai_Prelude
  imports Complex_Main "HOL-Library.Multiset" "HOL-Library.List_Lexorder" "HOL-Library.Char_ord"
begin

text \<open>
  The shared part of the development: the exceptions the Python sources raise, the Python
  idioms the components use (\<open>x or 0\<close>, \<open>max(xs, default=d)\<close>, \<open>max(xs, key=f)\<close>,
  \<open>list.sort(key=f)\<close>), and database tables. A table is the list of its rows in storage order; a
  statement \<open>db.query(T).filter_by(k=v).first()\<close> is \<open>find_by\<close> and an in-place update of the row
  with a primary key is \<open>update_by\<close>. The locale \<open>row_write\<close> is the interface every row writer
  of the components satisfies (it never changes the primary key); the lookup, uniqueness and
  summation laws of \<open>update_by\<close> are proved once there.
\<close>

named_theorems row_defs "row-level definitions of the registry writers"
named_theorems op_defs "table-level definitions of the operations"
named_theorems read_defs "read-only queries"

section \<open>Results\<close>

text \<open>The exceptions the modelled code raises; a fallible operation returns \<open>py_exn + 'a\<close>.\<close>

datatype py_exn =
    ValueError string
  | RuntimeError string
  | DbError
  | HTTPException nat
  | KeyError
  | TypeError
  | AttributeError
  | RecursionError

type_synonym 'a result = "py_exn + 'a"

section \<open>Python idioms\<close>

text \<open>\<open>x or 0\<close> on an optional integer.\<close>

definition or0 :: "int option \<Rightarrow> int" where
  "or0 x = (case x of None \<Rightarrow> 0 | Some v \<Rightarrow> v)"

lemma or0_simps [simp]: "or0 None = 0" "or0 (Some v) = v"
  by (simp_all add: or0_def)

text \<open>\<open>max(xs, default=d)\<close>.\<close>

definition max_default :: "int \<Rightarrow> int list \<Rightarrow> int" where
  "max_default d xs = (case xs of [] \<Rightarrow> d | y # ys \<Rightarrow> fold max ys y)"

lemma fold_max_ge_init: "(a::int) \<le> fold max xs a"
  by (induction xs arbitrary: a) (auto intro: order_trans [OF max.cobounded2])

lemma fold_max_ge_mem: "x \<in> set xs \<Longrightarrow> (x::int) \<le> fold max xs a"
proof (induction xs arbitrary: a)
  case (Cons y ys)
  show ?case
  proof (cases "x = y")
    case True
    have "y \<le> max y a" by simp
    also have "\<dots> \<le> fold max ys (max y a)" by (rule fold_max_ge_init)
    finally show ?thesis using True by simp
  qed (use Cons in auto)
qed simp

lemma fold_max_mem: "fold max xs (a::int) \<in> insert a (set xs)"
proof (induction xs arbitrary: a)
  case (Cons y ys)
  have "fold max ys (max y a) \<in> insert (max y a) (set ys)" by (rule Cons.IH)
  moreover have "max y a = y \<or> max y a = a" by linarith
  ultimately show ?case by auto
qed simp

lemma max_default_ge: "x \<in> set xs \<Longrightarrow> x \<le> max_default d xs"
  by (cases xs) (auto simp: max_default_def fold_max_ge_init fold_max_ge_mem)

lemma max_default_mem: "xs \<noteq> [] \<Longrightarrow> max_default d xs \<in> set xs"
  by (cases xs) (use fold_max_mem in \<open>auto simp: max_default_def\<close>)

lemma max_default_Nil [simp]: "max_default d [] = d"
  by (simp add: max_default_def)

lemma max_default_set: "max_default d xs = (if xs = [] then d else Max (set xs))"
  by (auto intro!: Max_eqI [symmetric] max_default_ge max_default_mem)

text \<open>\<open>max(xs, key=f)\<close> returns the first element with the largest key.\<close>

fun max_by :: "('a \<Rightarrow> int) \<Rightarrow> 'a \<Rightarrow> 'a list \<Rightarrow> 'a" where
  "max_by f b [] = b"
| "max_by f b (x # xs) = max_by f (if f b < f x then x else b) xs"

lemma max_by_mem: "max_by f b xs \<in> insert b (set xs)"
proof (induction f b xs rule: max_by.induct)
  case (2 f b x xs)
  then show ?case by (auto split: if_splits)
qed simp

lemma max_by_ge_init: "f b \<le> f (max_by f b xs)"
  by (induction f b xs rule: max_by.induct) (auto split: if_splits)

lemma max_by_ge: "x \<in> set xs \<Longrightarrow> f x \<le> f (max_by f b xs)"
proof (induction f b xs rule: max_by.induct)
  case (2 f b y ys)
  show ?case
  proof (cases "x = y")
    case True
    have "f y \<le> f (if f b < f y then y else b)" by simp
    also have "\<dots> \<le> f (max_by f (if f b < f y then y else b) ys)" by (rule max_by_ge_init)
    finally show ?thesis using True by simp
  next
    case False
    then show ?thesis using 2 by simp
  qed
qed simp

text \<open>A selection that looks at a view \<open>g\<close> of the elements only depends on the view.\<close>

lemma map_eq_induct [consumes 1, case_names Nil Cons]:
  assumes "map g xs = map g ys" and "P [] []"
    and "\<And>x xs y ys. g x = g y \<Longrightarrow> map g xs = map g ys \<Longrightarrow> P xs ys \<Longrightarrow> P (x # xs) (y # ys)"
  shows "P xs ys"
proof -
  have "length xs = length ys" using assms(1) by (rule map_eq_imp_length_eq)
  then show ?thesis using assms by (induction xs ys rule: list_induct2) auto
qed

lemma map_filter_cong:
  assumes "map g xs = map g ys" and "\<And>x y. g x = g y \<Longrightarrow> P x = P y"
  shows "map g (filter P xs) = map g (filter P ys)"
  using assms(1)
proof (induction rule: map_eq_induct)
  case (Cons x xs y ys)
  with assms(2) [OF Cons(1)] show ?case by simp
qed simp

lemma max_by_cong:
  assumes "map g xs = map g ys" and "g a = g b" and f: "\<And>x y. g x = g y \<Longrightarrow> f x = f y"
  shows "g (max_by f a xs) = g (max_by f b ys)"
  using assms(1,2)
proof (induction arbitrary: a b rule: map_eq_induct)
  case (Cons x xs y ys)
  show ?case
    using f [OF Cons(1)] f [OF Cons(4)] Cons(3) [OF Cons(1)] Cons(3) [OF Cons(4)] by simp
qed simp

lemma fold_max_mono_list:
  "list_all2 (\<le>) xs ys \<Longrightarrow> a \<le> b \<Longrightarrow> fold max xs (a::int) \<le> fold max ys b"
  by (induction xs ys arbitrary: a b rule: list_all2_induct) (auto intro: max.mono)

text \<open>A sum over a list in which one summand changes.\<close>

lemma sum_list_map_le:
  fixes f g :: "'a \<Rightarrow> int"
  assumes "\<And>x. x \<in> set xs \<Longrightarrow> f x \<le> g x"
  shows "sum_list (map f xs) \<le> sum_list (map g xs)"
  using assms by (rule sum_list_mono)

lemma sum_list_partition:
  fixes f :: "'a \<Rightarrow> int"
  shows "sum_list (map f xs) = sum_list (map f (filter P xs)) + sum_list (map f (filter (Not \<circ> P) xs))"
  by (induction xs) auto

section \<open>Strings\<close>

text \<open>
  Strings are lists of characters with code points below 256. \<open>is_space\<close> is \<open>str.isspace\<close> on
  one character, \<open>py_strip\<close> is \<open>str.strip()\<close>, \<open>rstrip_char\<close> is \<open>str.rstrip(c)\<close> and \<open>lower\<close>
  is \<open>str.lower()\<close> on ASCII letters, \<open>upper\<close> its converse.
\<close>

definition code :: "char \<Rightarrow> nat" where
  "code c = of_char c"

definition is_space :: "char \<Rightarrow> bool" where
  "is_space c = (let n = code c in 9 \<le> n \<and> n \<le> 13 \<or> 28 \<le> n \<and> n \<le> 32 \<or> n = 133 \<or> n = 160)"

definition rstrip_by :: "(char \<Rightarrow> bool) \<Rightarrow> string \<Rightarrow> string" where
  "rstrip_by P s = rev (dropWhile P (rev s))"

definition py_strip :: "string \<Rightarrow> string" where
  "py_strip s = rstrip_by is_space (dropWhile is_space s)"

definition rstrip_char :: "char \<Rightarrow> string \<Rightarrow> string" where
  "rstrip_char c s = rstrip_by (\<lambda>d. d = c) s"

definition lower_char :: "char \<Rightarrow> char" where
  "lower_char c = (let n = code c in if 65 \<le> n \<and> n \<le> 90 then char_of (n + 32) else c)"

definition lower :: "string \<Rightarrow> string" where
  "lower s = map lower_char s"

definition upper_char :: "char \<Rightarrow> char" where
  "upper_char c = (let n = code c in if 97 \<le> n \<and> n \<le> 122 then char_of (n - 32) else c)"

definition upper :: "string \<Rightarrow> string" where
  "upper s = map upper_char s"

definition is_lower :: "char \<Rightarrow> bool" where
  "is_lower c = (let n = code c in 97 \<le> n \<and> n \<le> 122)"

definition is_upper :: "char \<Rightarrow> bool" where
  "is_upper c = (let n = code c in 65 \<le> n \<and> n \<le> 90)"

definition is_digit :: "char \<Rightarrow> bool" where
  "is_digit c = (let n = code c in 48 \<le> n \<and> n \<le> 57)"

text \<open>\<open>$\<close> of \<open>re\<close> also matches before a newline at the end.\<close>

definition up_to_newline :: "(string \<Rightarrow> bool) \<Rightarrow> string \<Rightarrow> bool" where
  "up_to_newline r s \<longleftrightarrow> r s \<or> (s \<noteq> [] \<and> last s = CHR 0x0A \<and> r (butlast s))"

text \<open>A string that is there and not empty (\<open>if s\<close>).\<close>

definition nonempty :: "string option \<Rightarrow> string option" where
  "nonempty s = (case s of Some (c # cs) \<Rightarrow> Some (c # cs) | _ \<Rightarrow> None)"

lemma nonempty_simps [simp]:
  "nonempty None = None" "nonempty (Some []) = None" "nonempty (Some (c # cs)) = Some (c # cs)"
  by (simp_all add: nonempty_def)

text \<open>
  \<open>int(s)\<close> on a string: surrounding white space, one optional sign, then decimal digits with
  single underscores between digits. \<open>None\<close> is the \<open>ValueError\<close>.
\<close>

fun parse_digits :: "bool \<Rightarrow> int \<Rightarrow> string \<Rightarrow> int option" where
  "parse_digits prev acc [] = (if prev then Some acc else None)"
| "parse_digits prev acc (c # cs) =
     (let n = code c
      in if 48 \<le> n \<and> n \<le> 57 then parse_digits True (10 * acc + int (n - 48)) cs
         else if n = 95 \<and> prev then parse_digits False acc cs
         else None)"

definition py_int :: "string \<Rightarrow> int option" where
  "py_int s =
     (case py_strip s of
        [] \<Rightarrow> None
      | c # cs \<Rightarrow>
          if c = CHR ''-'' then map_option uminus (parse_digits False 0 cs)
          else if c = CHR ''+'' then parse_digits False 0 cs
          else parse_digits False 0 (c # cs))"

section \<open>Splitting and joining strings\<close>

text \<open>\<open>s.split(c)\<close> and \<open>sep.join(parts)\<close>.\<close>

fun split_on :: "char \<Rightarrow> string \<Rightarrow> string list" where
  "split_on q [] = [[]]"
| "split_on q (c # s) =
     (if c = q then [] # split_on q s
      else case split_on q s of [] \<Rightarrow> [[c]] | p # ps \<Rightarrow> (c # p) # ps)"

fun py_join :: "string \<Rightarrow> string list \<Rightarrow> string" where
  "py_join sep [] = []"
| "py_join sep [s] = s"
| "py_join sep (s # t # ss) = s @ sep @ py_join sep (t # ss)"

lemma split_on_not_Nil [simp]: "split_on q s \<noteq> []"
  by (induction s) (auto split: list.split)

lemma split_on_append: "split_on q (s @ q # t) = split_on q s @ split_on q t"
proof (induction s)
  case (Cons c s)
  obtain p ps where "split_on q s = p # ps" by (cases "split_on q s") simp_all
  with Cons show ?case by simp
qed simp

lemma split_on_free: "q \<notin> set s \<Longrightarrow> split_on q s = [s]"
  by (induction s) auto

section \<open>SQL pattern matching\<close>

text \<open>
  \<open>LIKE\<close> of the two databases the application runs on: \<open>%\<close> stands for any text and \<open>_\<close> for any
  character; SQLite ignores the case of ASCII letters, PostgreSQL does not and lets a backslash
  quote the next pattern character. \<open>ILIKE\<close> ignores the case on both.
\<close>

datatype dialect = Sqlite | Postgresql

fun sql_match :: "bool \<Rightarrow> (char \<Rightarrow> char) \<Rightarrow> string \<Rightarrow> string \<Rightarrow> bool" where
  "sql_match esc f [] s = (s = [])"
| "sql_match esc f (c # p) [] = (c = CHR ''%'' \<and> sql_match esc f p [])"
| "sql_match esc f (c # p) (d # s) =
     (if c = CHR ''%'' then sql_match esc f p (d # s) \<or> sql_match esc f (c # p) s
      else if c = CHR ''_'' then sql_match esc f p s
      else if esc \<and> c = CHR 0x5C
      then (case p of [] \<Rightarrow> False | q # p' \<Rightarrow> f q = f d \<and> sql_match esc f p' s)
      else f c = f d \<and> sql_match esc f p s)"

definition sql_like :: "dialect \<Rightarrow> string \<Rightarrow> string \<Rightarrow> bool" where
  "sql_like d p s = sql_match (d = Postgresql) (if d = Sqlite then lower_char else id) p s"

definition sql_ilike :: "dialect \<Rightarrow> string \<Rightarrow> string \<Rightarrow> bool" where
  "sql_ilike d p s = sql_match (d = Postgresql) lower_char p s"

definition sql_plain :: "char \<Rightarrow> bool" where
  "sql_plain c \<longleftrightarrow> c \<noteq> CHR ''%'' \<and> c \<noteq> CHR ''_'' \<and> c \<noteq> CHR 0x5C"

lemma sql_match_plain:
  "list_all sql_plain p \<Longrightarrow> sql_match esc f p s \<longleftrightarrow> map f p = map f s"
  by (induction esc f p s rule: sql_match.induct) (auto simp: sql_plain_def)

lemma sql_match_prefix:
  "list_all sql_plain p \<Longrightarrow> sql_match esc f (p @ [CHR ''%'']) s \<longleftrightarrow> (\<exists>u v. s = u @ v \<and> map f u = map f p)"
proof (induction p arbitrary: s)
  case Nil
  have "sql_match esc f [CHR ''%''] s" by (induction s) simp_all
  then show ?case by auto
next
  case (Cons c p)
  show ?case
  proof (cases s)
    case (Cons d t)
    have "sql_match esc f ((c # p) @ [CHR ''%'']) s \<longleftrightarrow> f c = f d \<and> sql_match esc f (p @ [CHR ''%'']) t"
      using Cons Cons.prems by (simp add: sql_plain_def)
    also have "\<dots> \<longleftrightarrow> f c = f d \<and> (\<exists>u v. t = u @ v \<and> map f u = map f p)" using Cons.IH Cons.prems by simp
    also have "\<dots> \<longleftrightarrow> (\<exists>u v. s = u @ v \<and> map f u = map f (c # p))"
    proof
      assume "f c = f d \<and> (\<exists>u v. t = u @ v \<and> map f u = map f p)"
      then obtain u v where "f c = f d" "t = u @ v" "map f u = map f p" by blast
      then show "\<exists>u v. s = u @ v \<and> map f u = map f (c # p)"
        using Cons by (intro exI [of _ "d # u"] exI [of _ v]) simp
    next
      assume "\<exists>u v. s = u @ v \<and> map f u = map f (c # p)"
      then obtain u v where u: "s = u @ v" "map f u = map f (c # p)" by blast
      with Cons show "f c = f d \<and> (\<exists>u v. t = u @ v \<and> map f u = map f p)" by (cases u) auto
    qed
    finally show ?thesis .
  qed (use Cons.prems in \<open>simp add: sql_plain_def\<close>)
qed

lemma sql_match_infix:
  assumes "list_all sql_plain p"
  shows "sql_match esc f (CHR ''%'' # p @ [CHR ''%'']) s \<longleftrightarrow> (\<exists>t u v. s = t @ u @ v \<and> map f u = map f p)"
proof (induction s)
  case Nil
  show ?case using sql_match_prefix [OF assms, of esc f "[]"] by simp
next
  case (Cons d s)
  have "sql_match esc f (CHR ''%'' # p @ [CHR ''%'']) (d # s) \<longleftrightarrow>
      sql_match esc f (p @ [CHR ''%'']) (d # s) \<or> sql_match esc f (CHR ''%'' # p @ [CHR ''%'']) s" by simp
  also have "\<dots> \<longleftrightarrow> (\<exists>u v. d # s = u @ v \<and> map f u = map f p) \<or> (\<exists>t u v. s = t @ u @ v \<and> map f u = map f p)"
    by (simp only: Cons.IH sql_match_prefix [OF assms])
  also have "\<dots> \<longleftrightarrow> (\<exists>t u v. d # s = t @ u @ v \<and> map f u = map f p)"
    by (auto simp: Cons_eq_append_conv) (metis append_Cons append_Nil)+
  finally show ?case .
qed

section \<open>JSON values\<close>

datatype json =
    JNull
  | JBool bool
  | JInt int
  | JFloat rat
  | JStr string
  | JList "json list"
  | JObj "(string \<times> json) list"

text \<open>\<open>bool(value)\<close>.\<close>

fun json_truthy :: "json \<Rightarrow> bool" where
  "json_truthy JNull = False"
| "json_truthy (JBool b) = b"
| "json_truthy (JInt n) = (n \<noteq> 0)"
| "json_truthy (JFloat q) = (q \<noteq> 0)"
| "json_truthy (JStr s) = (s \<noteq> [])"
| "json_truthy (JList xs) = (xs \<noteq> [])"
| "json_truthy (JObj kvs) = (kvs \<noteq> [])"

section \<open>Tables\<close>

definition find_by :: "('r \<Rightarrow> 'k) \<Rightarrow> 'k \<Rightarrow> 'r list \<Rightarrow> 'r option" where
  "find_by key k rows = find (\<lambda>r. key r = k) rows"

definition update_by :: "('r \<Rightarrow> 'k) \<Rightarrow> 'k \<Rightarrow> ('r \<Rightarrow> 'r) \<Rightarrow> 'r list \<Rightarrow> 'r list" where
  "update_by key k f rows = map (\<lambda>r. if key r = k then f r else r) rows"

definition unique_by :: "('r \<Rightarrow> 'k) \<Rightarrow> 'r list \<Rightarrow> bool" where
  "unique_by key rows = distinct (map key rows)"

lemma find_by_Nil [simp]: "find_by key k [] = None"
  by (simp add: find_by_def)

lemma find_by_Cons [simp]:
  "find_by key k (r # rs) = (if key r = k then Some r else find_by key k rs)"
  by (simp add: find_by_def)

lemma find_by_key: "find_by key k rows = Some r \<Longrightarrow> key r = k"
  by (induction rows) (auto split: if_splits)

lemma find_by_mem: "find_by key k rows = Some r \<Longrightarrow> r \<in> set rows"
  by (induction rows) (auto split: if_splits)

lemma find_by_None: "find_by key k rows = None \<longleftrightarrow> k \<notin> key ` set rows"
  by (induction rows) auto

lemma find_by_append:
  "find_by key k (xs @ ys) = (case find_by key k xs of Some r \<Rightarrow> Some r | None \<Rightarrow> find_by key k ys)"
  by (induction xs) auto

lemma unique_by_Nil [simp]: "unique_by key []"
  by (simp add: unique_by_def)

lemma unique_by_Cons [simp]:
  "unique_by key (r # rs) \<longleftrightarrow> key r \<notin> key ` set rs \<and> unique_by key rs"
  by (simp add: unique_by_def)

lemma unique_by_append_new:
  "unique_by key rows \<Longrightarrow> key r \<notin> key ` set rows \<Longrightarrow> unique_by key (rows @ [r])"
  by (induction rows) auto

lemma unique_by_find: "unique_by key rows \<Longrightarrow> r \<in> set rows \<Longrightarrow> find_by key (key r) rows = Some r"
  by (induction rows) (auto simp: image_iff)

lemma unique_by_eq:
  "unique_by key rows \<Longrightarrow> r \<in> set rows \<Longrightarrow> s \<in> set rows \<Longrightarrow> key r = key s \<Longrightarrow> r = s"
  by (metis unique_by_find option.inject)

lemma unique_by_filter: "unique_by key xs \<Longrightarrow> unique_by key (filter P xs)"
  by (induction xs) auto

lemma update_by_Nil [simp]: "update_by key k f [] = []"
  by (simp add: update_by_def)

lemma update_by_Cons [simp]:
  "update_by key k f (r # rs) = (if key r = k then f r else r) # update_by key k f rs"
  by (simp add: update_by_def)

lemma update_by_absent: "k \<notin> key ` set rows \<Longrightarrow> update_by key k f rows = rows"
  by (induction rows) auto

lemma length_update_by [simp]: "length (update_by key k f rows) = length rows"
  by (simp add: update_by_def)

lemma mem_update_by:
  "r' \<in> set (update_by key k f rows) \<longleftrightarrow>
     (\<exists>r \<in> set rows. r' = (if key r = k then f r else r))"
  unfolding update_by_def set_map by blast

text \<open>A field that the row function keeps is kept in the whole table.\<close>

lemma map_update_by_same:
  "(\<And>r. g (f r) = g r) \<Longrightarrow> map g (update_by key k f rows) = map g rows"
  by (induction rows) auto

lemma sum_update_by:
  fixes g :: "'r \<Rightarrow> int"
  assumes "unique_by key rows" and "find_by key k rows = Some r"
  shows "sum_list (map g (update_by key k f rows)) = sum_list (map g rows) - g r + g (f r)"
  using assms
proof (induction rows)
  case (Cons x xs)
  show ?case
  proof (cases "key x = k")
    case True
    with Cons.prems have "k \<notin> key ` set xs" and "x = r" by auto
    with True show ?thesis by (simp add: update_by_absent)
  next
    case False
    with Cons show ?thesis by simp
  qed
qed simp

text \<open>
  The interface of a row writer: a function on rows that never touches the primary key. Every
  writer of a table of the application is one, so a write keeps the key list (no row is inserted,
  dropped or renamed), hence uniqueness, and a lookup after it sees exactly the row written.
\<close>

locale row_write =
  fixes key :: "'r \<Rightarrow> 'k" and f :: "'r \<Rightarrow> 'r"
  assumes key_kept: "key (f r) = key r"
begin

lemma keys_kept: "map key (update_by key k f rows) = map key rows"
  by (rule map_update_by_same) (rule key_kept)

lemma unique_kept: "unique_by key (update_by key k f rows) = unique_by key rows"
  by (simp add: unique_by_def keys_kept)

lemma find_written: "find_by key k (update_by key k f rows) = map_option f (find_by key k rows)"
  by (induction rows) (auto simp: key_kept)

lemma find_other: "j \<noteq> k \<Longrightarrow> find_by key j (update_by key k f rows) = find_by key j rows"
  by (induction rows) (auto simp: key_kept)

lemma find_any:
  "find_by key j (update_by key k f rows) =
     (if j = k then map_option f (find_by key j rows) else find_by key j rows)"
  by (simp add: find_written find_other)

end

section \<open>Stable sorting\<close>

text \<open>\<open>list.sort(key=f)\<close> is \<open>sort_key\<close>: stable and ascending.\<close>

lemma set_sort_key [simp]: "set (sort_key f xs) = set xs"
  by simp

lemma sort_key_Nil_iff [simp]: "sort_key f xs = [] \<longleftrightarrow> xs = []"
  by (metis length_sort length_0_conv)

lemma sum_list_sort_key:
  fixes g :: "'a \<Rightarrow> int"
  shows "sum_list (map g (sort_key f xs)) = sum_list (map g xs)"
proof -
  have "mset (map g (sort_key f xs)) = mset (map g xs)" by simp
  then have "sum_mset (mset (map g (sort_key f xs))) = sum_mset (mset (map g xs))" by simp
  then show ?thesis by (simp only: sum_mset_sum_list)
qed

end
