(* ===== verification/Vram_Leases.thy ===== *)
theory Vram_Leases
  imports Selfai_Prelude
begin

text \<open>
  The VRAM lease registry of \<open>models/vram_leases.py\<close>: the table \<open>vram_consumer\<close>, every method of
  \<open>VramLeasesTable\<close> that writes it, and every query the broker, the admission checkpoint and the
  operator endpoints read. A method that reads the clock takes the value of \<open>int(time.time())\<close> as
  \<open>now\<close>; a method that commits takes \<open>ok\<close>, whether the commit succeeded, since the code returns
  \<open>None\<close> (and the session rolls back) when it does not. The two configuration constants are the
  record \<open>lease_config\<close>. Rows are in storage order, which is the order an unordered
  \<open>query(...).all()\<close> returns them in.

  The lemmas show: the table stays keyed by \<open>consumer_id\<close>; who may write \<open>held_bytes\<close> and
  with which value (the trust invariant); that holders split into eligible and stale ones in
  ascending priority; how reservations count and expire; the capacity arithmetic; and what
  \<open>set_exclusive\<close> guarantees.
\<close>

section \<open>Data\<close>

datatype lease_state = STEADY | RELEASE_REQUESTED | RELEASING | STALE

datatype lease_mode = SHARED | EXCLUSIVE

record lease_config =
  STALE_THRESHOLD_SECONDS :: int
  RESERVATION_TTL_SECONDS :: int

text \<open>The values used when neither environment variable is set.\<close>

definition default_lease_config :: lease_config where
  "default_lease_config = \<lparr>STALE_THRESHOLD_SECONDS = 120, RESERVATION_TTL_SECONDS = 120\<rparr>"

record vram_consumer =
  consumer_id :: string
  total_capacity_bytes :: int
  held_bytes :: int
  priority :: int
  lease_state :: lease_state
  lease_mode :: lease_mode
  reserved_bytes :: "int option"
  reserved_at :: "int option"
  last_reported_at :: "int option"
  last_observed_at :: "int option"
  created_at :: "int option"
  updated_at :: "int option"
  k8s_namespace :: "string option"
  k8s_pod_selector :: "string option"
  loaded_model_id :: "string option"
  loaded_model_reported_at :: "int option"
  device_used_bytes :: "int option"
  device_total_bytes :: "int option"
  device_unattributed_bytes :: "int option"
  device_reported_at :: "int option"

type_synonym registry = "vram_consumer list"

record device_occupancy_model =
  do_used_bytes :: int
  do_total_bytes :: "int option"
  do_unattributed_bytes :: int
  do_reported_by :: string
  do_reported_at :: int

record vram_consumer_status =
  cst_consumer :: vram_consumer
  cst_effective_state :: lease_state
  cst_is_stale :: bool

record vram_consumer_register_form =
  rf_consumer_id :: string
  rf_total_capacity_bytes :: int
  rf_held_bytes :: int
  rf_priority :: int
  rf_k8s_namespace :: "string option"
  rf_k8s_pod_selector :: "string option"

record capacity_summary_model =
  sum_total_capacity_bytes :: int
  sum_total_held_bytes :: int
  sum_free_bytes :: int
  sum_consumers :: "vram_consumer_status list"
  sum_device_occupancy :: "device_occupancy_model option"
  sum_unattributed_bytes :: int

text \<open>A registration form and a freshly polled consumer, for concrete states.\<close>

definition sample_form :: "string \<Rightarrow> int \<Rightarrow> int \<Rightarrow> int \<Rightarrow> vram_consumer_register_form" where
  "sample_form cid cap held prio =
     \<lparr>rf_consumer_id = cid, rf_total_capacity_bytes = cap, rf_held_bytes = held, rf_priority = prio,
      rf_k8s_namespace = None, rf_k8s_pod_selector = None\<rparr>"

definition sample_row :: "string \<Rightarrow> int \<Rightarrow> int \<Rightarrow> int \<Rightarrow> int \<Rightarrow> vram_consumer" where
  "sample_row cid cap held prio t =
     \<lparr>consumer_id = cid, total_capacity_bytes = cap, held_bytes = held, priority = prio,
      lease_state = STEADY, lease_mode = SHARED, reserved_bytes = None, reserved_at = None,
      last_reported_at = Some t, last_observed_at = Some t, created_at = Some t, updated_at = Some t,
      k8s_namespace = None, k8s_pod_selector = None, loaded_model_id = None,
      loaded_model_reported_at = None, device_used_bytes = None, device_total_bytes = None,
      device_unattributed_bytes = None, device_reported_at = None\<rparr>"

section \<open>Staleness and effective holding\<close>

definition is_stale :: "lease_config \<Rightarrow> int \<Rightarrow> int option \<Rightarrow> bool" where
  "is_stale cfg now reported =
     (case reported of None \<Rightarrow> True | Some t \<Rightarrow> now - t > STALE_THRESHOLD_SECONDS cfg)"

definition reservation_live :: "lease_config \<Rightarrow> int \<Rightarrow> vram_consumer \<Rightarrow> bool" where
  "reservation_live cfg now c =
     (if or0 (reserved_bytes c) \<le> 0 then False
      else case reserved_at c of None \<Rightarrow> False
           | Some t \<Rightarrow> now - t \<le> RESERVATION_TTL_SECONDS cfg)"

definition effective_held :: "lease_config \<Rightarrow> int \<Rightarrow> vram_consumer \<Rightarrow> int" where
  "effective_held cfg now c =
     (if \<not> reservation_live cfg now c then held_bytes c
      else max (held_bytes c) (or0 (reserved_bytes c)))"

definition effective_state :: "lease_config \<Rightarrow> int \<Rightarrow> vram_consumer \<Rightarrow> lease_state" where
  "effective_state cfg now c =
     (if lease_state c = STALE \<or> is_stale cfg now (last_reported_at c) then STALE
      else lease_state c)"

section \<open>Writers\<close>

definition get_consumer :: "string \<Rightarrow> registry \<Rightarrow> vram_consumer option" where
  "get_consumer cid reg = find_by consumer_id cid reg"

definition get_all :: "registry \<Rightarrow> vram_consumer list" where
  "get_all reg = sort_key consumer_id reg"

text \<open>
  The common shape of a guarded writer: look the row up, write it, commit; a missing row or a
  failed commit gives \<open>None\<close> and leaves the table as it was.
\<close>

definition write_row ::
    "bool \<Rightarrow> string \<Rightarrow> (vram_consumer \<Rightarrow> vram_consumer) \<Rightarrow> registry \<Rightarrow> registry \<times> vram_consumer option" where
  "write_row ok cid f reg =
     (case get_consumer cid reg of
        None \<Rightarrow> (reg, None)
      | Some _ \<Rightarrow>
          if ok then (let reg' = update_by consumer_id cid f reg in (reg', get_consumer cid reg'))
          else (reg, None))"

definition register_row :: "vram_consumer_register_form \<Rightarrow> int \<Rightarrow> vram_consumer \<Rightarrow> vram_consumer" where
  "register_row form now row = row\<lparr>
     total_capacity_bytes := rf_total_capacity_bytes form,
     held_bytes := rf_held_bytes form,
     priority := rf_priority form,
     k8s_namespace := rf_k8s_namespace form,
     k8s_pod_selector := rf_k8s_pod_selector form,
     last_reported_at := Some now,
     updated_at := Some now,
     lease_state := (if lease_state row = STALE then STEADY else lease_state row),
     lease_mode := SHARED\<rparr>"

definition new_consumer :: "vram_consumer_register_form \<Rightarrow> int \<Rightarrow> vram_consumer" where
  "new_consumer form now = \<lparr>
     consumer_id = rf_consumer_id form,
     total_capacity_bytes = rf_total_capacity_bytes form,
     held_bytes = rf_held_bytes form,
     priority = rf_priority form,
     lease_state = STEADY,
     lease_mode = SHARED,
     reserved_bytes = None,
     reserved_at = None,
     last_reported_at = Some now,
     last_observed_at = None,
     created_at = Some now,
     updated_at = Some now,
     k8s_namespace = rf_k8s_namespace form,
     k8s_pod_selector = rf_k8s_pod_selector form,
     loaded_model_id = None,
     loaded_model_reported_at = None,
     device_used_bytes = None,
     device_total_bytes = None,
     device_unattributed_bytes = None,
     device_reported_at = None\<rparr>"

definition register ::
    "bool \<Rightarrow> int \<Rightarrow> vram_consumer_register_form \<Rightarrow> registry \<Rightarrow> registry \<times> vram_consumer option" where
  "register ok now form reg =
     (let cid = rf_consumer_id form;
          reg' = (case get_consumer cid reg of
                    Some _ \<Rightarrow> update_by consumer_id cid (register_row form now) reg
                  | None \<Rightarrow> reg @ [new_consumer form now])
      in if ok then (reg', get_consumer cid reg') else (reg, None))"

definition heartbeat_row :: "int \<Rightarrow> int \<Rightarrow> vram_consumer \<Rightarrow> vram_consumer" where
  "heartbeat_row now held row =
     (let fulfilled = or0 (reserved_bytes row) > 0 \<and> held \<ge> or0 (reserved_bytes row)
      in row\<lparr>
        held_bytes := held,
        last_reported_at := Some now,
        last_observed_at := Some now,
        updated_at := Some now,
        reserved_bytes := (if fulfilled then None else reserved_bytes row),
        reserved_at := (if fulfilled then None else reserved_at row),
        lease_state := (if lease_state row = STALE then STEADY else lease_state row)\<rparr>)"

definition heartbeat ::
    "bool \<Rightarrow> int \<Rightarrow> string \<Rightarrow> int \<Rightarrow> registry \<Rightarrow> registry \<times> vram_consumer option" where
  "heartbeat ok now cid held reg = write_row ok cid (heartbeat_row now held) reg"

definition confirmed_release_row :: "int \<Rightarrow> int \<Rightarrow> vram_consumer \<Rightarrow> vram_consumer" where
  "confirmed_release_row now new_held row = row\<lparr>
     held_bytes := new_held,
     last_reported_at := Some now,
     last_observed_at := Some now,
     updated_at := Some now,
     reserved_bytes := None,
     reserved_at := None,
     lease_state := STEADY\<rparr>"

definition record_confirmed_release ::
    "bool \<Rightarrow> int \<Rightarrow> string \<Rightarrow> int \<Rightarrow> registry \<Rightarrow> registry \<times> vram_consumer option" where
  "record_confirmed_release ok now cid new_held reg =
     write_row ok cid (confirmed_release_row now new_held) reg"

definition grant_row :: "int \<Rightarrow> int \<Rightarrow> int option \<Rightarrow> vram_consumer \<Rightarrow> vram_consumer" where
  "grant_row now amount prio row = row\<lparr>
     reserved_bytes := Some (or0 (reserved_bytes row) + amount),
     reserved_at := Some now,
     priority := (case prio of Some p \<Rightarrow> p | None \<Rightarrow> priority row),
     last_reported_at := Some now,
     updated_at := Some now,
     lease_state := STEADY\<rparr>"

definition record_grant ::
    "bool \<Rightarrow> int \<Rightarrow> string \<Rightarrow> int \<Rightarrow> int option \<Rightarrow> registry \<Rightarrow> registry \<times> vram_consumer option" where
  "record_grant ok now cid amount prio reg = write_row ok cid (grant_row now amount prio) reg"

definition lease_state_row :: "int \<Rightarrow> lease_state \<Rightarrow> vram_consumer \<Rightarrow> vram_consumer" where
  "lease_state_row now st row = row\<lparr>lease_state := st, updated_at := Some now\<rparr>"

definition set_lease_state ::
    "bool \<Rightarrow> int \<Rightarrow> string \<Rightarrow> lease_state \<Rightarrow> registry \<Rightarrow> registry \<times> vram_consumer option" where
  "set_lease_state ok now cid st reg = write_row ok cid (lease_state_row now st) reg"

definition mark_stale ::
    "bool \<Rightarrow> int \<Rightarrow> string \<Rightarrow> registry \<Rightarrow> registry \<times> vram_consumer option" where
  "mark_stale ok now cid reg = write_row ok cid (lease_state_row now STALE) reg"

definition clear_row :: "int \<Rightarrow> vram_consumer \<Rightarrow> vram_consumer" where
  "clear_row now row = row\<lparr>
     held_bytes := 0,
     reserved_bytes := None,
     reserved_at := None,
     lease_mode := SHARED,
     lease_state := STEADY,
     updated_at := Some now\<rparr>"

definition reconcile ::
    "bool \<Rightarrow> int \<Rightarrow> string \<Rightarrow> registry \<Rightarrow> registry \<times> vram_consumer option" where
  "reconcile ok now cid reg = write_row ok cid (clear_row now) reg"

definition record_reaped_release ::
    "bool \<Rightarrow> int \<Rightarrow> string \<Rightarrow> registry \<Rightarrow> registry \<times> vram_consumer option" where
  "record_reaped_release ok now cid reg = write_row ok cid (clear_row now) reg"

section \<open>Holders and the exclusive lease\<close>

definition eligible_holders :: "lease_config \<Rightarrow> int \<Rightarrow> registry \<Rightarrow> vram_consumer list" where
  "eligible_holders cfg now reg =
     sort_key priority
       [r \<leftarrow> filter (\<lambda>r. held_bytes r > 0) reg. effective_state cfg now r \<noteq> STALE]"

definition stale_holders :: "lease_config \<Rightarrow> int \<Rightarrow> registry \<Rightarrow> vram_consumer list" where
  "stale_holders cfg now reg =
     sort_key priority
       [r \<leftarrow> filter (\<lambda>r. held_bytes r > 0) reg. effective_state cfg now r = STALE]"

definition active_exclusive :: "lease_config \<Rightarrow> int \<Rightarrow> registry \<Rightarrow> vram_consumer list" where
  "active_exclusive cfg now reg =
     [r \<leftarrow> filter (\<lambda>r. lease_mode r = EXCLUSIVE) reg. effective_state cfg now r \<noteq> STALE]"

definition active_exclusive_holder ::
    "lease_config \<Rightarrow> int \<Rightarrow> registry \<Rightarrow> vram_consumer option" where
  "active_exclusive_holder cfg now reg =
     (case sort_key priority (active_exclusive cfg now reg) of [] \<Rightarrow> None | c # _ \<Rightarrow> Some c)"

definition exclusive_row :: "int \<Rightarrow> lease_mode \<Rightarrow> vram_consumer \<Rightarrow> vram_consumer" where
  "exclusive_row now mode row = row\<lparr>lease_mode := mode, updated_at := Some now\<rparr>"

text \<open>
  The commit of \<open>set_exclusive\<close> is not guarded: a failure propagates as an exception.
\<close>

definition set_exclusive ::
    "lease_config \<Rightarrow> bool \<Rightarrow> int \<Rightarrow> string \<Rightarrow> bool \<Rightarrow> registry \<Rightarrow> (registry \<times> bool) result" where
  "set_exclusive cfg ok now cid exclusive reg =
     (case get_consumer cid reg of
        None \<Rightarrow> Inr (reg, False)
      | Some _ \<Rightarrow>
          if exclusive \<and>
             (\<exists>r \<in> set reg. lease_mode r = EXCLUSIVE \<and> consumer_id r \<noteq> cid \<and>
                            effective_state cfg now r \<noteq> STALE)
          then Inr (reg, False)
          else if \<not> ok then Inl DbError
          else Inr (update_by consumer_id cid
                      (exclusive_row now (if exclusive then EXCLUSIVE else SHARED)) reg, True))"

section \<open>Loaded model and card occupancy\<close>

definition loaded_model :: "string \<Rightarrow> registry \<Rightarrow> string option \<times> int option" where
  "loaded_model cid reg =
     (case get_consumer cid reg of
        None \<Rightarrow> (None, None)
      | Some row \<Rightarrow> (loaded_model_id row, loaded_model_reported_at row))"

definition loaded_model_row :: "int \<Rightarrow> string option \<Rightarrow> vram_consumer \<Rightarrow> vram_consumer" where
  "loaded_model_row now model row =
     row\<lparr>loaded_model_id := model, loaded_model_reported_at := Some now\<rparr>"

definition record_loaded_model ::
    "bool \<Rightarrow> int \<Rightarrow> string \<Rightarrow> string option \<Rightarrow> registry \<Rightarrow> registry result" where
  "record_loaded_model ok now cid model reg =
     (case get_consumer cid reg of
        None \<Rightarrow> Inr reg
      | Some _ \<Rightarrow>
          if ok then Inr (update_by consumer_id cid (loaded_model_row now model) reg)
          else Inl DbError)"

definition total_measured_held :: "registry \<Rightarrow> int" where
  "total_measured_held reg = sum_list (map held_bytes reg)"

definition device_row :: "int \<Rightarrow> int \<Rightarrow> int option \<Rightarrow> int \<Rightarrow> vram_consumer \<Rightarrow> vram_consumer" where
  "device_row now used tot held_now row = row\<lparr>
     device_used_bytes := Some used,
     device_total_bytes := tot,
     device_unattributed_bytes := Some (max 0 (used - held_now)),
     device_reported_at := Some now\<rparr>"

definition record_device_occupancy ::
    "bool \<Rightarrow> int \<Rightarrow> string \<Rightarrow> int \<Rightarrow> int option \<Rightarrow> registry \<Rightarrow> registry" where
  "record_device_occupancy ok now cid used tot reg =
     fst (write_row ok cid (device_row now used tot (total_measured_held reg)) reg)"

definition device_occupancy ::
    "lease_config \<Rightarrow> int \<Rightarrow> registry \<Rightarrow> device_occupancy_model option" where
  "device_occupancy cfg now reg =
     (let fresh = [r \<leftarrow> filter (\<lambda>r. device_reported_at r \<noteq> None) reg.
                     device_used_bytes r \<noteq> None \<and>
                     now - or0 (device_reported_at r) \<le> STALE_THRESHOLD_SECONDS cfg]
      in case fresh of
           [] \<Rightarrow> None
         | r # rs \<Rightarrow>
             (let best = max_by (\<lambda>r. or0 (device_reported_at r)) r rs
              in Some \<lparr>do_used_bytes = or0 (device_used_bytes best),
                       do_total_bytes = device_total_bytes best,
                       do_unattributed_bytes = or0 (device_unattributed_bytes best),
                       do_reported_by = consumer_id best,
                       do_reported_at = or0 (device_reported_at best)\<rparr>))"

definition unattributed_overhead :: "lease_config \<Rightarrow> int \<Rightarrow> registry \<Rightarrow> int" where
  "unattributed_overhead cfg now reg =
     (case device_occupancy cfg now reg of Some occ \<Rightarrow> do_unattributed_bytes occ | None \<Rightarrow> 0)"

section \<open>Capacity\<close>

definition total_held :: "lease_config \<Rightarrow> int \<Rightarrow> registry \<Rightarrow> int" where
  "total_held cfg now reg = sum_list (map (effective_held cfg now) reg)"

definition total_capacity :: "registry \<Rightarrow> int" where
  "total_capacity reg = max_default 0 (map total_capacity_bytes reg)"

definition free_capacity :: "lease_config \<Rightarrow> int \<Rightarrow> registry \<Rightarrow> int" where
  "free_capacity cfg now reg =
     max 0 (total_capacity reg - total_held cfg now reg - unattributed_overhead cfg now reg)"

definition consumer_status :: "lease_config \<Rightarrow> int \<Rightarrow> vram_consumer \<Rightarrow> vram_consumer_status" where
  "consumer_status cfg now r =
     \<lparr>cst_consumer = r, cst_effective_state = effective_state cfg now r,
      cst_is_stale = is_stale cfg now (last_reported_at r)\<rparr>"

definition capacity_summary :: "lease_config \<Rightarrow> int \<Rightarrow> registry \<Rightarrow> capacity_summary_model" where
  "capacity_summary cfg now reg =
     (let rows = sort_key consumer_id reg;
          total_cap = max_default 0 (map total_capacity_bytes rows);
          held = sum_list (map (effective_held cfg now) rows);
          occ = device_occupancy cfg now reg;
          overhead = (case occ of Some d \<Rightarrow> do_unattributed_bytes d | None \<Rightarrow> 0)
      in \<lparr>sum_total_capacity_bytes = total_cap,
          sum_total_held_bytes = held,
          sum_free_bytes = max 0 (total_cap - held - overhead),
          sum_consumers = map (consumer_status cfg now) rows,
          sum_device_occupancy = occ,
          sum_unattributed_bytes = overhead\<rparr>)"

section \<open>Operations as data\<close>

text \<open>
  Every writer of the table, so that a sequence of calls is a list. A raised exception and a
  failed commit both leave the table unchanged.
\<close>

datatype reg_op =
    Op_register vram_consumer_register_form
  | Op_heartbeat string int
  | Op_confirmed_release string int
  | Op_grant string int "int option"
  | Op_set_lease_state string lease_state
  | Op_mark_stale string
  | Op_reconcile string
  | Op_reaped string
  | Op_set_exclusive string bool
  | Op_loaded_model string "string option"
  | Op_device string int "int option"

fun exec_op :: "lease_config \<Rightarrow> bool \<Rightarrow> int \<Rightarrow> reg_op \<Rightarrow> registry \<Rightarrow> registry" where
  "exec_op cfg ok now (Op_register form) reg = fst (register ok now form reg)"
| "exec_op cfg ok now (Op_heartbeat c h) reg = fst (heartbeat ok now c h reg)"
| "exec_op cfg ok now (Op_confirmed_release c h) reg = fst (record_confirmed_release ok now c h reg)"
| "exec_op cfg ok now (Op_grant c a p) reg = fst (record_grant ok now c a p reg)"
| "exec_op cfg ok now (Op_set_lease_state c st) reg = fst (set_lease_state ok now c st reg)"
| "exec_op cfg ok now (Op_mark_stale c) reg = fst (mark_stale ok now c reg)"
| "exec_op cfg ok now (Op_reconcile c) reg = fst (reconcile ok now c reg)"
| "exec_op cfg ok now (Op_reaped c) reg = fst (record_reaped_release ok now c reg)"
| "exec_op cfg ok now (Op_set_exclusive c e) reg =
     (case set_exclusive cfg ok now c e reg of Inl _ \<Rightarrow> reg | Inr (reg', _) \<Rightarrow> reg')"
| "exec_op cfg ok now (Op_loaded_model c m) reg =
     (case record_loaded_model ok now c m reg of Inl _ \<Rightarrow> reg | Inr reg' \<Rightarrow> reg')"
| "exec_op cfg ok now (Op_device c u t) reg = record_device_occupancy ok now c u t reg"

text \<open>A run is a sequence of calls, each with its clock reading and commit outcome.\<close>

fun run_ops :: "lease_config \<Rightarrow> (int \<times> bool \<times> reg_op) list \<Rightarrow> registry \<Rightarrow> registry" where
  "run_ops cfg [] reg = reg"
| "run_ops cfg ((now, ok, op) # ops) reg = run_ops cfg ops (exec_op cfg ok now op reg)"

text \<open>The consumer whose row an operation addresses.\<close>

fun op_target :: "reg_op \<Rightarrow> string" where
  "op_target (Op_register form) = rf_consumer_id form"
| "op_target (Op_heartbeat c h) = c"
| "op_target (Op_confirmed_release c h) = c"
| "op_target (Op_grant c a p) = c"
| "op_target (Op_set_lease_state c st) = c"
| "op_target (Op_mark_stale c) = c"
| "op_target (Op_reconcile c) = c"
| "op_target (Op_reaped c) = c"
| "op_target (Op_set_exclusive c e) = c"
| "op_target (Op_loaded_model c m) = c"
| "op_target (Op_device c u t) = c"

text \<open>
  The holding an operation asserts for a consumer: the consumer's own report, or zero for the
  operator's and the reaper's clears. Every other operation asserts nothing.
\<close>

fun asserted_held :: "reg_op \<Rightarrow> int option" where
  "asserted_held (Op_register form) = Some (rf_held_bytes form)"
| "asserted_held (Op_heartbeat c h) = Some h"
| "asserted_held (Op_confirmed_release c h) = Some h"
| "asserted_held (Op_reconcile c) = Some 0"
| "asserted_held (Op_reaped c) = Some 0"
| "asserted_held _ = None"

section \<open>Row writers keep the key\<close>

lemmas row_simps =
  register_row_def heartbeat_row_def confirmed_release_row_def grant_row_def lease_state_row_def
  clear_row_def exclusive_row_def loaded_model_row_def device_row_def Let_def

declare row_simps [row_defs]

text \<open>
  A registry writer is a row writer of the table \<open>vram_consumer\<close>. A \<open>measure_keeper\<close> is one
  that leaves the measured holding alone, a \<open>holding_keeper\<close> one that leaves the reservation
  alone too, so that no capacity figure moves.
\<close>

locale registry_writer = row_write consumer_id f for f :: "vram_consumer \<Rightarrow> vram_consumer"
begin

lemma write_fst_get:
  "get_consumer j (fst (write_row ok cid f reg)) =
     (if j = cid \<and> ok then map_option f (get_consumer j reg) else get_consumer j reg)"
  by (auto simp: write_row_def get_consumer_def find_any Let_def split: option.split)

lemma write_fst_unique:
  "unique_by consumer_id (fst (write_row ok cid f reg)) = unique_by consumer_id reg"
  by (auto simp: write_row_def unique_kept Let_def split: option.split)

lemma write_fst_ids: "map consumer_id (fst (write_row ok cid f reg)) = map consumer_id reg"
  by (auto simp: write_row_def keys_kept Let_def split: option.split)

lemma write_snd:
  "snd (write_row ok cid f reg) = (if ok then map_option f (get_consumer cid reg) else None)"
  by (auto simp: write_row_def get_consumer_def find_written Let_def split: option.split)

lemma write_sum:
  fixes g :: "vram_consumer \<Rightarrow> int"
  assumes "unique_by consumer_id reg" and "get_consumer cid reg = Some r"
  shows "sum_list (map g (fst (write_row True cid f reg))) = sum_list (map g reg) - g r + g (f r)"
  using assms sum_update_by [of consumer_id reg cid r g f]
  by (simp add: write_row_def get_consumer_def Let_def)

end

locale measure_keeper = registry_writer +
  assumes held_kept: "held_bytes (f r) = held_bytes r"
begin

lemma total_measured_kept:
  "total_measured_held (fst (write_row ok cid f reg)) = total_measured_held reg"
proof -
  have "map held_bytes (update_by consumer_id cid f reg) = map held_bytes reg"
    by (rule map_update_by_same) (rule held_kept)
  then show ?thesis
    by (simp add: write_row_def total_measured_held_def Let_def split: option.split)
qed

end

locale holding_keeper = measure_keeper +
  assumes reserved_kept: "reserved_bytes (f r) = reserved_bytes r" "reserved_at (f r) = reserved_at r"
begin

lemma effective_kept: "effective_held cfg now (f r) = effective_held cfg now r"
  by (simp add: effective_held_def reservation_live_def held_kept reserved_kept)

lemma total_held_kept: "total_held cfg now (fst (write_row ok cid f reg)) = total_held cfg now reg"
proof -
  have "map (effective_held cfg now) (update_by consumer_id cid f reg) = map (effective_held cfg now) reg"
    by (rule map_update_by_same) (rule effective_kept)
  then show ?thesis by (simp add: write_row_def total_held_def Let_def split: option.split)
qed

end

interpretation register_w: registry_writer "register_row form now" for form now
  by unfold_locales (simp add: row_defs)

interpretation heartbeat_w: registry_writer "heartbeat_row now held" for now held
  by unfold_locales (simp add: row_defs)

interpretation confirmed_w: registry_writer "confirmed_release_row now held" for now held
  by unfold_locales (simp add: row_defs)

interpretation clear_w: registry_writer "clear_row now" for now
  by unfold_locales (simp add: row_defs)

interpretation grant_w: measure_keeper "grant_row now amount prio" for now amount prio
  by unfold_locales (simp_all add: row_defs)

interpretation lease_state_w: holding_keeper "lease_state_row now st" for now st
  by unfold_locales (simp_all add: row_defs)

interpretation exclusive_w: holding_keeper "exclusive_row now mode" for now mode
  by unfold_locales (simp_all add: row_defs)

interpretation loaded_model_w: holding_keeper "loaded_model_row now model" for now model
  by unfold_locales (simp_all add: row_defs)

interpretation device_w: holding_keeper "device_row now used tot h" for now used tot h
  by unfold_locales (simp_all add: row_defs)

lemmas writer_defs =
  heartbeat_def record_confirmed_release_def record_grant_def set_lease_state_def mark_stale_def
  reconcile_def record_reaped_release_def record_device_occupancy_def

lemmas writer_gets =
  heartbeat_w.write_fst_get confirmed_w.write_fst_get clear_w.write_fst_get grant_w.write_fst_get
  lease_state_w.write_fst_get device_w.write_fst_get

lemmas writer_uniques =
  heartbeat_w.write_fst_unique confirmed_w.write_fst_unique clear_w.write_fst_unique
  grant_w.write_fst_unique lease_state_w.write_fst_unique device_w.write_fst_unique

declare writer_defs [op_defs]

section \<open>What one operation does to the table\<close>

text \<open>The row function each operation applies to the row it addresses.\<close>

fun op_row :: "int \<Rightarrow> int \<Rightarrow> reg_op \<Rightarrow> vram_consumer \<Rightarrow> vram_consumer" where
  "op_row now h (Op_register form) = register_row form now"
| "op_row now h (Op_heartbeat c held) = heartbeat_row now held"
| "op_row now h (Op_confirmed_release c held) = confirmed_release_row now held"
| "op_row now h (Op_grant c a p) = grant_row now a p"
| "op_row now h (Op_set_lease_state c st) = lease_state_row now st"
| "op_row now h (Op_mark_stale c) = lease_state_row now STALE"
| "op_row now h (Op_reconcile c) = clear_row now"
| "op_row now h (Op_reaped c) = clear_row now"
| "op_row now h (Op_set_exclusive c e) = exclusive_row now (if e then EXCLUSIVE else SHARED)"
| "op_row now h (Op_loaded_model c m) = loaded_model_row now m"
| "op_row now h (Op_device c u t) = device_row now u t h"

interpretation op_w: registry_writer "op_row now h op" for now h op
  by unfold_locales (cases op, simp_all add: row_defs)

text \<open>
  Every operation is one of three things: nothing, the update of the addressed row by its row
  function, or (registration of a new consumer only) one appended row.
\<close>

lemma exec_op_shape:
  "exec_op cfg ok now op reg = reg \<or>
   (\<exists>r. get_consumer (op_target op) reg = Some r) \<and>
     exec_op cfg ok now op reg =
       update_by consumer_id (op_target op) (op_row now (total_measured_held reg) op) reg \<or>
   (\<exists>form. op = Op_register form \<and> get_consumer (op_target op) reg = None \<and>
     exec_op cfg ok now op reg = reg @ [new_consumer form now])"
  by (cases op)
    (auto simp: op_defs write_row_def register_def set_exclusive_def record_loaded_model_def Let_def
       split: option.splits if_splits)

lemma exec_op_unique: "unique_by consumer_id reg \<Longrightarrow> unique_by consumer_id (exec_op cfg ok now op reg)"
  using exec_op_shape [of cfg ok now op reg]
  by (auto simp: op_w.unique_kept get_consumer_def find_by_None new_consumer_def
      intro!: unique_by_append_new)

lemma exec_op_get_other:
  assumes "j \<noteq> op_target op"
  shows "get_consumer j (exec_op cfg ok now op reg) = get_consumer j reg"
  using exec_op_shape [of cfg ok now op reg] assms
  by (auto simp: get_consumer_def op_w.find_other find_by_append new_consumer_def split: option.split)

lemma exec_op_get_target:
  assumes "get_consumer (op_target op) reg = Some r"
  shows "get_consumer (op_target op) (exec_op cfg ok now op reg) = Some r \<or>
         get_consumer (op_target op) (exec_op cfg ok now op reg) =
           Some (op_row now (total_measured_held reg) op r)"
  using exec_op_shape [of cfg ok now op reg] assms
  by (auto simp: get_consumer_def op_w.find_written)

lemma exec_op_keeps_consumer:
  "get_consumer j reg \<noteq> None \<Longrightarrow> get_consumer j (exec_op cfg ok now op reg) \<noteq> None"
  by (cases "j = op_target op") (use exec_op_get_target in \<open>fastforce simp: exec_op_get_other\<close>)+

lemma run_ops_append: "run_ops cfg (xs @ ys) reg = run_ops cfg ys (run_ops cfg xs reg)"
  by (induction cfg xs reg rule: run_ops.induct) auto

lemma run_ops_unique: "unique_by consumer_id reg \<Longrightarrow> unique_by consumer_id (run_ops cfg ops reg)"
  by (induction cfg ops reg rule: run_ops.induct) (auto intro: exec_op_unique)

lemma op_row_held:
  "held_bytes (op_row now h op r) = (case asserted_held op of Some v \<Rightarrow> v | None \<Rightarrow> held_bytes r)"
  by (cases op) (simp_all add: row_defs)

lemma exec_op_held:
  assumes "get_consumer j reg = Some r"
  shows "\<exists>r'. get_consumer j (exec_op cfg ok now op reg) = Some r' \<and>
              (held_bytes r' = held_bytes r \<or> j = op_target op \<and> asserted_held op = Some (held_bytes r'))"
proof (cases "j = op_target op")
  case True
  then show ?thesis
    using exec_op_get_target [of op reg r cfg ok now] assms
    by (auto simp: op_row_held split: option.splits)
qed (use assms exec_op_get_other in auto)

section \<open>Properties: the table and the trust invariant\<close>

text \<open>
  The primary key survives every sequence of calls: starting from a table keyed by
  \<open>consumer_id\<close>, any calls with any clock readings and commit outcomes leave it keyed by
  \<open>consumer_id\<close>, and no registered consumer ever disappears.
\<close>

theorem registry_stays_keyed:
  assumes "unique_by consumer_id reg"
  shows "unique_by consumer_id (run_ops cfg ops reg) \<and>
         consumer_id ` set reg \<subseteq> consumer_id ` set (run_ops cfg ops reg)"
proof -
  have "get_consumer j reg \<noteq> None \<Longrightarrow> get_consumer j (run_ops cfg ops reg) \<noteq> None" for j
    by (induction cfg ops reg rule: run_ops.induct) (simp_all add: exec_op_keeps_consumer)
  then have "consumer_id ` set reg \<subseteq> consumer_id ` set (run_ops cfg ops reg)"
    unfolding get_consumer_def find_by_None by blast
  with assms show ?thesis by (simp add: run_ops_unique)
qed

lemmas query_defs =
  get_consumer_def write_row_def Let_def register_def new_consumer_def set_exclusive_def
  record_loaded_model_def eligible_holders_def stale_holders_def active_exclusive_def
  active_exclusive_holder_def effective_state_def is_stale_def effective_held_def
  reservation_live_def total_measured_held_def total_held_def total_capacity_def
  free_capacity_def unattributed_overhead_def device_occupancy_def max_default_def

declare query_defs [read_defs]

lemmas sample_defs = sample_form_def sample_row_def default_lease_config_def

theorem registry_stays_keyed_witness:
  "unique_by consumer_id [sample_row ''self.speak'' 24 4 5 0] \<and>
   unique_by consumer_id
     (run_ops default_lease_config
        [(3, True, Op_register (sample_form ''self.speak'' 24 6 5)),
         (4, True, Op_register (sample_form ''self.sketch'' 24 0 3))]
        [sample_row ''self.speak'' 24 4 5 0])"
proof -
  have u: "unique_by consumer_id [sample_row ''self.speak'' 24 4 5 0]" by simp
  show ?thesis using u registry_stays_keyed [OF u] by blast
qed

text \<open>
  The trust invariant (R1-AC4) over whole executions. After any sequence of calls, a
  registered consumer's measured holding is either the one it had at the start or the value some
  call of the sequence asserted for that very consumer: its own registration, heartbeat or
  confirmed release, or the zero of an operator's reconcile or a confirmed reap. No grant, state
  change, occupancy reading or passage of time ever writes it.
\<close>

theorem held_only_from_reports:
  assumes "get_consumer c reg = Some r"
  shows "\<exists>r'. get_consumer c (run_ops cfg ops reg) = Some r' \<and>
              (held_bytes r' = held_bytes r \<or>
               (\<exists>(now, ok, op) \<in> set ops. op_target op = c \<and> asserted_held op = Some (held_bytes r')))"
  using assms
proof (induction cfg ops reg arbitrary: r rule: run_ops.induct)
  case (2 cfg now ok op ops reg)
  from exec_op_held [OF 2(2), of cfg ok now op] obtain r1
    where r1: "get_consumer c (exec_op cfg ok now op reg) = Some r1"
      and h1: "held_bytes r1 = held_bytes r \<or> c = op_target op \<and> asserted_held op = Some (held_bytes r1)"
    by blast
  from 2(1) [OF r1] h1 show ?case by fastforce
qed simp

theorem held_only_from_reports_witness:
  "\<exists>r'. get_consumer ''a''
      (run_ops default_lease_config
        [(9, True, Op_grant ''a'' 5 None), (10, True, Op_heartbeat ''a'' 7), (5000, True, Op_mark_stale ''a'')]
        [sample_row ''a'' 24 4 5 0]) = Some r' \<and>
     (held_bytes r' = held_bytes (sample_row ''a'' 24 4 5 0) \<or>
      (\<exists>(now, ok, op) \<in> set [(9, True, Op_grant ''a'' 5 None), (10, True, Op_heartbeat ''a'' 7),
                               (5000::int, True, Op_mark_stale ''a'')].
         op_target op = ''a'' \<and> asserted_held op = Some (held_bytes r')))"
  by (rule held_only_from_reports) (simp add: get_consumer_def sample_row_def)

text \<open>
  C13: A stale hold is never freed by time or by anything but an explicit report or clear
  (R1-AC7): a sequence of calls none of which asserts a holding for the consumer leaves its
  measured holding exactly as it was, however late the clock readings are, and the consumer
  still counts at least that much in the total held.
\<close>

theorem stale_hold_never_auto_freed:
  assumes "get_consumer c reg = Some r"
    and "\<forall>(now, ok, op) \<in> set ops. op_target op = c \<longrightarrow> asserted_held op = None"
  shows "\<exists>r'. get_consumer c (run_ops cfg ops reg) = Some r' \<and> held_bytes r' = held_bytes r \<and>
              held_bytes r \<le> effective_held cfg now' r'"
  using assms
proof (induction cfg ops reg arbitrary: r rule: run_ops.induct)
  case (1 cfg reg)
  then show ?case by (auto simp: effective_held_def)
next
  case (2 cfg now ok op ops reg)
  from exec_op_held [OF 2(2), of cfg ok now op] 2(3) obtain r1
    where r1: "get_consumer c (exec_op cfg ok now op reg) = Some r1" and h1: "held_bytes r1 = held_bytes r"
    by fastforce
  from 2(1) [OF r1] 2(3) h1 show ?case by fastforce
qed

theorem stale_hold_never_auto_freed_witness:
  "\<exists>r'. get_consumer ''a''
      (run_ops default_lease_config
        [(10, True, Op_mark_stale ''a''), (999999, True, Op_set_lease_state ''a'' STALE)]
        [sample_row ''a'' 24 4 5 0]) = Some r' \<and>
     held_bytes r' = held_bytes (sample_row ''a'' 24 4 5 0) \<and>
     held_bytes (sample_row ''a'' 24 4 5 0) \<le> effective_held default_lease_config 1000000 r'"
  by (rule stale_hold_never_auto_freed) (auto simp: get_consumer_def sample_row_def)

section \<open>Properties: holders\<close>

text \<open>
  The holders asked cooperatively and the holders only a force-reap may touch partition the
  consumers that hold VRAM (no holder is missed, none is in both pools), and each pool is in
  ascending priority.
\<close>

theorem holders_partition:
  "mset (eligible_holders cfg now reg) + mset (stale_holders cfg now reg) =
     mset (filter (\<lambda>r. held_bytes r > 0) reg) \<and>
   set (eligible_holders cfg now reg) \<inter> set (stale_holders cfg now reg) = {} \<and>
   sorted (map priority (eligible_holders cfg now reg)) \<and>
   sorted (map priority (stale_holders cfg now reg))"
proof -
  have "mset (filter P xs) + mset (filter (\<lambda>r. \<not> P r) xs) = mset xs"
    for P and xs :: "vram_consumer list"
    using multiset_partition [of "mset xs" P] by simp
  from this [of "\<lambda>r. effective_state cfg now r \<noteq> STALE" "filter (\<lambda>r. held_bytes r > 0) reg"]
  show ?thesis unfolding eligible_holders_def stale_holders_def by (auto simp del: filter_filter)
qed

lemma eligible_mem:
  "r \<in> set (eligible_holders cfg now reg) \<longleftrightarrow>
     r \<in> set reg \<and> held_bytes r > 0 \<and> effective_state cfg now r \<noteq> STALE"
  by (auto simp: eligible_holders_def)

lemma stale_mem:
  "r \<in> set (stale_holders cfg now reg) \<longleftrightarrow>
     r \<in> set reg \<and> held_bytes r > 0 \<and> effective_state cfg now r = STALE"
  by (auto simp: stale_holders_def)

section \<open>Capacity arithmetic\<close>

text \<open>The card reading is a function of the device columns alone.\<close>

definition device_view ::
    "vram_consumer \<Rightarrow> string \<times> int option \<times> int option \<times> int option \<times> int option" where
  "device_view r = (consumer_id r, device_used_bytes r, device_total_bytes r,
                    device_unattributed_bytes r, device_reported_at r)"

lemma device_occupancy_cong:
  assumes "map device_view reg = map device_view reg'"
  shows "device_occupancy cfg now reg = device_occupancy cfg now reg'"
proof -
  define P where "P r \<longleftrightarrow> device_reported_at r \<noteq> None \<and> device_used_bytes r \<noteq> None \<and>
      now - or0 (device_reported_at r) \<le> STALE_THRESHOLD_SECONDS cfg" for r :: vram_consumer
  have fresh: "[r \<leftarrow> filter (\<lambda>r. device_reported_at r \<noteq> None) xs. device_used_bytes r \<noteq> None \<and>
      now - or0 (device_reported_at r) \<le> STALE_THRESHOLD_SECONDS cfg] = filter P xs" for xs
    by (auto simp: P_def intro: filter_cong)
  have m: "map device_view (filter P reg) = map device_view (filter P reg')"
    by (rule map_filter_cong [OF assms]) (simp add: P_def device_view_def)
  show ?thesis
  proof (cases "filter P reg")
    case Nil
    then have "filter P reg' = []" using m by simp
    with Nil show ?thesis unfolding device_occupancy_def fresh by simp
  next
    case (Cons a as)
    then obtain b bs where b: "filter P reg' = b # bs"
      and v: "device_view a = device_view b" "map device_view as = map device_view bs"
      using m by (cases "filter P reg'") auto
    have "device_view (max_by (\<lambda>r. or0 (device_reported_at r)) a as) =
          device_view (max_by (\<lambda>r. or0 (device_reported_at r)) b bs)"
      by (rule max_by_cong [OF v(2,1)]) (simp add: device_view_def)
    with Cons b show ?thesis unfolding device_occupancy_def fresh by (simp add: device_view_def Let_def)
  qed
qed

text \<open>A writer that leaves the pool ceiling and the card reading alone.\<close>

locale ceiling_keeper = registry_writer +
  assumes capacity_kept: "total_capacity_bytes (f r) = total_capacity_bytes r"
    and device_kept: "device_view (f r) = device_view r"
begin

lemma total_capacity_kept: "total_capacity (fst (write_row ok cid f reg)) = total_capacity reg"
proof -
  have "map total_capacity_bytes (update_by consumer_id cid f reg) = map total_capacity_bytes reg"
    by (rule map_update_by_same) (rule capacity_kept)
  then show ?thesis by (simp add: write_row_def total_capacity_def Let_def split: option.split)
qed

lemma overhead_kept:
  "unattributed_overhead cfg now (fst (write_row ok cid f reg)) = unattributed_overhead cfg now reg"
proof -
  have "map device_view (update_by consumer_id cid f reg) = map device_view reg"
    by (rule map_update_by_same) (rule device_kept)
  then have "device_occupancy cfg now (update_by consumer_id cid f reg) = device_occupancy cfg now reg"
    by (rule device_occupancy_cong)
  then show ?thesis by (simp add: write_row_def unattributed_overhead_def Let_def split: option.split)
qed

lemma free_after_write:
  assumes "unique_by consumer_id reg" and "get_consumer cid reg = Some r"
  shows "free_capacity cfg now (fst (write_row True cid f reg)) =
     max 0 (total_capacity reg -
            (total_held cfg now reg - effective_held cfg now r + effective_held cfg now (f r)) -
            unattributed_overhead cfg now reg)"
  using write_sum [OF assms, of "effective_held cfg now"]
  by (simp add: free_capacity_def total_capacity_kept overhead_kept total_held_def)

end

interpretation heartbeat_c: ceiling_keeper "heartbeat_row now held" for now held
  by unfold_locales (simp_all add: row_defs device_view_def)

interpretation confirmed_c: ceiling_keeper "confirmed_release_row now held" for now held
  by unfold_locales (simp_all add: row_defs device_view_def)

interpretation clear_c: ceiling_keeper "clear_row now" for now
  by unfold_locales (simp_all add: row_defs device_view_def)

interpretation grant_c: ceiling_keeper "grant_row now amount prio" for now amount prio
  by unfold_locales (simp_all add: row_defs device_view_def)

interpretation lease_state_c: ceiling_keeper "lease_state_row now st" for now st
  by unfold_locales (simp_all add: row_defs device_view_def)

interpretation exclusive_c: ceiling_keeper "exclusive_row now mode" for now mode
  by unfold_locales (simp_all add: row_defs device_view_def)

interpretation loaded_model_c: ceiling_keeper "loaded_model_row now model" for now model
  by unfold_locales (simp_all add: row_defs device_view_def)

text \<open>
  A confirmed release counts at once. Recording that a consumer now holds \<open>new_held\<close>
  replaces its whole effective holding (reservation included) by that figure in the free
  capacity, with no wait for a card reading; in particular a release that lowers the holding never
  lowers the free capacity.
\<close>

theorem confirmed_release_frees_at_once:
  assumes "unique_by consumer_id reg" and "get_consumer cid reg = Some r"
  shows "free_capacity cfg now (fst (record_confirmed_release True now cid new_held reg)) =
           max 0 (total_capacity reg - (total_held cfg now reg - effective_held cfg now r + new_held) -
                  unattributed_overhead cfg now reg) \<and>
         (new_held \<le> effective_held cfg now r \<longrightarrow>
            free_capacity cfg now reg
              \<le> free_capacity cfg now (fst (record_confirmed_release True now cid new_held reg)))"
proof -
  have "effective_held cfg now (confirmed_release_row now new_held r) = new_held"
    by (simp add: effective_held_def reservation_live_def row_defs)
  then have eq: "free_capacity cfg now (fst (record_confirmed_release True now cid new_held reg)) =
      max 0 (total_capacity reg - (total_held cfg now reg - effective_held cfg now r + new_held) -
             unattributed_overhead cfg now reg)"
    using confirmed_c.free_after_write [OF assms, of cfg now now new_held]
    by (simp add: record_confirmed_release_def)
  show ?thesis unfolding eq by (auto simp: free_capacity_def)
qed

theorem confirmed_release_frees_at_once_witness:
  "free_capacity default_lease_config 10
     (fst (record_confirmed_release True 10 ''b'' 2
        [sample_row ''a'' 24 10 5 0, sample_row ''b'' 24 9 3 0])) = 12"
proof -
  let ?reg = "[sample_row ''a'' 24 10 5 0, sample_row ''b'' 24 9 3 0]"
  have u: "unique_by consumer_id ?reg" by (simp add: sample_row_def)
  have g: "get_consumer ''b'' ?reg = Some (sample_row ''b'' 24 9 3 0)"
    by (simp add: sample_row_def get_consumer_def)
  show ?thesis
    using confirmed_release_frees_at_once [OF u g, of default_lease_config 10 2]
    by (simp add: read_defs sample_defs)
qed

text \<open>
  The operator's view and the grant decision never disagree: the capacity, held, overhead and
  free figures of the summary are the registry's own queries at that instant, whatever the order
  in which the rows are listed, and free is never negative.
\<close>

theorem summary_agrees_with_grant_decision:
  "sum_total_capacity_bytes (capacity_summary cfg now reg) = total_capacity reg \<and>
   sum_total_held_bytes (capacity_summary cfg now reg) = total_held cfg now reg \<and>
   sum_unattributed_bytes (capacity_summary cfg now reg) = unattributed_overhead cfg now reg \<and>
   sum_free_bytes (capacity_summary cfg now reg) = free_capacity cfg now reg \<and>
   0 \<le> free_capacity cfg now reg"
proof -
  have cap: "max_default 0 (map total_capacity_bytes (sort_key consumer_id reg)) = total_capacity reg"
    by (simp add: total_capacity_def max_default_set)
  have held: "sum_list (map (effective_held cfg now) (sort_key consumer_id reg)) = total_held cfg now reg"
    by (simp add: total_held_def sum_list_sort_key)
  show ?thesis
    by (simp add: capacity_summary_def Let_def cap held free_capacity_def unattributed_overhead_def)
qed

section \<open>Properties: reservations\<close>

text \<open>A consumer whose reservation is not an expired residue above its measured holding.\<close>

definition no_dead_residue :: "lease_config \<Rightarrow> int \<Rightarrow> vram_consumer \<Rightarrow> bool" where
  "no_dead_residue cfg now c \<longleftrightarrow>
     reservation_live cfg now c \<or> or0 (reserved_bytes c) \<le> held_bytes c"

text \<open>
  A grant raises the effective holding by at most the amount, unless an expired reservation of the
  same consumer comes back to life with it.
\<close>

lemma effective_held_grant_le:
  assumes "0 \<le> amount" and "no_dead_residue cfg now c"
  shows "effective_held cfg now (grant_row now amount prio c) \<le> effective_held cfg now c + amount"
  using assms
  by (auto simp: effective_held_def reservation_live_def no_dead_residue_def row_defs split: if_splits)

lemma heartbeat_keeps_reservation:
  assumes "reserved_bytes r = Some v" and "0 < v" and "h < v"
  shows "reserved_bytes (heartbeat_row now h r) = Some v \<and>
         reserved_at (heartbeat_row now h r) = reserved_at r"
  using assms by (simp add: row_defs)

text \<open>
  A granted reservation survives every poll cycle that has not caught up with it and expires
  on its own (self.ai#76). After a sequence of calls in which the consumer is only ever polled
  with a measurement below the reserved amount \<open>v\<close>, the reservation is still there with its
  original timestamp \<open>t\<close>: until \<open>t + RESERVATION_TTL_SECONDS\<close> the consumer counts for at least
  \<open>v\<close>, and after it for exactly its measurement.
\<close>

theorem reservation_survives_polls_until_expiry:
  assumes "get_consumer c reg = Some r" and "reserved_bytes r = Some v" and "reserved_at r = Some t"
    and "0 < v"
    and "\<forall>(now, ok, op) \<in> set ops. op_target op = c \<longrightarrow> (\<exists>h < v. op = Op_heartbeat c h)"
  shows "\<exists>r'. get_consumer c (run_ops cfg ops reg) = Some r' \<and>
              (\<forall>now'. effective_held cfg now' r' =
                 (if now' - t \<le> RESERVATION_TTL_SECONDS cfg then max (held_bytes r') v else held_bytes r'))"
  using assms
proof (induction cfg ops reg arbitrary: r rule: run_ops.induct)
  case (1 cfg reg)
  then show ?case by (auto simp: effective_held_def reservation_live_def)
next
  case (2 cfg now ok op ops reg)
  have "\<exists>r1. get_consumer c (exec_op cfg ok now op reg) = Some r1 \<and>
             reserved_bytes r1 = Some v \<and> reserved_at r1 = Some t"
  proof (cases "op_target op = c")
    case False
    then show ?thesis using 2(2,3,4) exec_op_get_other [of c op cfg ok now reg] by auto
  next
    case True
    with 2(6) obtain h where "h < v" "op = Op_heartbeat c h" by auto
    with 2(2-5) heartbeat_keeps_reservation [of r v h now] show ?thesis
      by (auto simp: heartbeat_def heartbeat_w.write_fst_get)
  qed
  then obtain r1 where r1: "get_consumer c (exec_op cfg ok now op reg) = Some r1"
    "reserved_bytes r1 = Some v" "reserved_at r1 = Some t" by blast
  from 2(1) [OF r1 2(5)] 2(6) show ?case by simp
qed

theorem reservation_survives_polls_until_expiry_witness:
  "\<exists>r'. get_consumer ''a''
      (run_ops default_lease_config
        [(30, True, Op_heartbeat ''a'' 0), (60, True, Op_heartbeat ''a'' 3)]
        [(sample_row ''a'' 24 0 5 0)\<lparr>reserved_bytes := Some 8, reserved_at := Some 10\<rparr>]) = Some r' \<and>
     (\<forall>now'. effective_held default_lease_config now' r' =
        (if now' - 10 \<le> RESERVATION_TTL_SECONDS default_lease_config
         then max (held_bytes r') 8 else held_bytes r'))"
  by (rule reservation_survives_polls_until_expiry) (auto simp: get_consumer_def sample_row_def)

section \<open>Properties: the exclusive lease\<close>

text \<open>
  \<open>set_exclusive\<close> enforces the at-most-one rule at the instant it answers: if it reports
  success for \<open>exclusive=True\<close>, no other consumer holds an active exclusive lease, and if a
  different consumer held one it refused and changed nothing.
\<close>

theorem set_exclusive_at_most_one:
  assumes "unique_by consumer_id reg" and "set_exclusive cfg ok now cid True reg = Inr (reg', won)"
  shows "(won \<longrightarrow> (\<forall>r \<in> set (active_exclusive cfg now reg'). consumer_id r = cid) \<and>
                 (\<exists>r. get_consumer cid reg' = Some r \<and> lease_mode r = EXCLUSIVE)) \<and>
         ((\<exists>r \<in> set (active_exclusive cfg now reg). consumer_id r \<noteq> cid) \<longrightarrow> \<not> won \<and> reg' = reg)"
proof (cases "get_consumer cid reg")
  case None
  then show ?thesis using assms by (simp add: set_exclusive_def)
next
  case (Some r0)
  show ?thesis
  proof (cases "\<exists>r \<in> set reg. lease_mode r = EXCLUSIVE \<and> consumer_id r \<noteq> cid \<and>
                              effective_state cfg now r \<noteq> STALE")
    case True
    then have "set_exclusive cfg ok now cid True reg = Inr (reg, False)"
      using Some by (simp add: set_exclusive_def)
    with assms(2) show ?thesis by simp
  next
    case False
    then have reg': "reg' = update_by consumer_id cid (exclusive_row now EXCLUSIVE) reg" and "won"
      using assms(2) Some by (auto simp: set_exclusive_def split: if_splits)
    have other: "consumer_id r = cid" if "r \<in> set (active_exclusive cfg now reg')" for r
      using that False unfolding reg' active_exclusive_def
      by (auto simp: mem_update_by exclusive_w.key_kept split: if_splits)
    have "get_consumer cid reg' = Some (exclusive_row now EXCLUSIVE r0)"
      using Some unfolding reg' get_consumer_def by (simp add: exclusive_w.find_written)
    with other \<open>won\<close> False show ?thesis by (auto simp: active_exclusive_def row_defs)
  qed
qed

theorem set_exclusive_at_most_one_witness:
  "\<exists>reg' won. set_exclusive default_lease_config True 5 ''b'' True
       [sample_row ''a'' 24 1 5 0, sample_row ''b'' 24 0 8 0] = Inr (reg', won) \<and> won \<and>
     (\<forall>r \<in> set (active_exclusive default_lease_config 5 reg'). consumer_id r = ''b'')"
proof -
  let ?reg = "[sample_row ''a'' 24 1 5 0, sample_row ''b'' 24 0 8 0]"
  have u: "unique_by consumer_id ?reg" by (simp add: sample_row_def)
  have "\<exists>reg'. set_exclusive default_lease_config True 5 ''b'' True ?reg = Inr (reg', True)"
    by (simp add: set_exclusive_def get_consumer_def sample_row_def)
  then obtain reg' where e: "set_exclusive default_lease_config True 5 ''b'' True ?reg = Inr (reg', True)"
    by blast
  show ?thesis using e set_exclusive_at_most_one [OF u e] by blast
qed

text \<open>
  The at-most-one rule as a property of the table: any two active exclusive holders are the same
  consumer.
\<close>

definition exclusive_active :: "lease_config \<Rightarrow> int \<Rightarrow> vram_consumer \<Rightarrow> bool" where
  "exclusive_active cfg now r \<longleftrightarrow> lease_mode r = EXCLUSIVE \<and> effective_state cfg now r \<noteq> STALE"

definition one_exclusive :: "lease_config \<Rightarrow> int \<Rightarrow> registry \<Rightarrow> bool" where
  "one_exclusive cfg now reg \<longleftrightarrow>
     (\<forall>r \<in> set reg. \<forall>s \<in> set reg. exclusive_active cfg now r \<and> exclusive_active cfg now s \<longrightarrow>
        consumer_id r = consumer_id s)"

lemma set_active_exclusive: "set (active_exclusive cfg now reg) = {r \<in> set reg. exclusive_active cfg now r}"
  by (auto simp: active_exclusive_def exclusive_active_def)

lemma exclusive_active_mono: "exclusive_active cfg now r \<Longrightarrow> now0 \<le> now \<Longrightarrow> exclusive_active cfg now0 r"
  by (auto simp: exclusive_active_def effective_state_def is_stale_def split: option.splits if_splits)

lemma op_row_exclusive:
  assumes "exclusive_active cfg now (op_row now h op r)"
  shows "lease_mode r = EXCLUSIVE \<or> (\<exists>c. op = Op_set_exclusive c True)"
  using assms by (cases op) (auto simp: exclusive_active_def row_defs split: if_splits)

text \<open>An operation that does not address a stale exclusive holder (which it would revive).\<close>

definition no_revival :: "lease_config \<Rightarrow> int \<Rightarrow> reg_op \<Rightarrow> registry \<Rightarrow> bool" where
  "no_revival cfg now op reg \<longleftrightarrow>
     (\<forall>r \<in> set reg. consumer_id r = op_target op \<and> lease_mode r = EXCLUSIVE \<longrightarrow>
        effective_state cfg now r \<noteq> STALE)"

lemma set_exclusive_row_alone:
  assumes "set_exclusive cfg ok now c True reg = Inr (reg', True)" and "s \<in> set reg"
    and "exclusive_active cfg now s"
  shows "consumer_id s = c"
  using assms by (auto simp: set_exclusive_def exclusive_active_def split: option.splits if_splits)

text \<open>
  C28: The at-most-one rule is an invariant as long as no call revives a stale exclusive holder:
  if at most one exclusive lease was active at \<open>now0\<close>, then after any later call that does not
  address a stale exclusive row at most one is active.
\<close>

theorem at_most_one_exclusive_preserved:
  assumes "one_exclusive cfg now0 reg" and "now0 \<le> now" and "no_revival cfg now op reg"
  shows "one_exclusive cfg now (exec_op cfg ok now op reg)"
proof -
  have one: "one_exclusive cfg now reg"
    using assms(1,2) by (auto simp: one_exclusive_def dest: exclusive_active_mono)
  let ?h = "total_measured_held reg"
  have step: "consumer_id s = op_target op"
    if r: "r \<in> set reg" "consumer_id r = op_target op" "exclusive_active cfg now (op_row now ?h op r)"
      and s: "s \<in> set reg" "exclusive_active cfg now s"
      and upd: "exec_op cfg ok now op reg = update_by consumer_id (op_target op) (op_row now ?h op) reg"
      and ne: "exec_op cfg ok now op reg \<noteq> reg" for r s
  proof (cases "\<exists>c. op = Op_set_exclusive c True")
    case True
    then obtain c where op: "op = Op_set_exclusive c True" by blast
    then obtain reg' where "set_exclusive cfg ok now c True reg = Inr (reg', True)"
      using ne by (auto simp: set_exclusive_def split: option.splits if_splits)
    from set_exclusive_row_alone [OF this s] op show ?thesis by simp
  next
    case False
    with op_row_exclusive [OF r(3)] have "lease_mode r = EXCLUSIVE" by blast
    with assms(3) r have "exclusive_active cfg now r" by (auto simp: no_revival_def exclusive_active_def)
    with one r(1) s have "consumer_id r = consumer_id s" unfolding one_exclusive_def by blast
    with r(2) show ?thesis by simp
  qed
  consider "exec_op cfg ok now op reg = reg"
    | "exec_op cfg ok now op reg \<noteq> reg"
      "exec_op cfg ok now op reg = update_by consumer_id (op_target op) (op_row now ?h op) reg"
    | form where "exec_op cfg ok now op reg = reg @ [new_consumer form now]"
    using exec_op_shape [of cfg ok now op reg] by blast
  then show ?thesis
  proof cases
    case 1
    with one show ?thesis by simp
  next
    case 2
    show ?thesis unfolding one_exclusive_def
    proof (intro ballI impI, elim conjE)
      fix x y
      assume "x \<in> set (exec_op cfg ok now op reg)" "y \<in> set (exec_op cfg ok now op reg)"
        and a: "exclusive_active cfg now x" "exclusive_active cfg now y"
      then obtain r s where rs: "r \<in> set reg" "s \<in> set reg"
        "x = (if consumer_id r = op_target op then op_row now ?h op r else r)"
        "y = (if consumer_id s = op_target op then op_row now ?h op s else s)"
        unfolding 2(2) mem_update_by by blast
      have keys: "consumer_id x = consumer_id r" "consumer_id y = consumer_id s"
        using rs(3,4) by (simp_all add: op_w.key_kept)
      show "consumer_id x = consumer_id y"
      proof (cases "consumer_id r = op_target op"; cases "consumer_id s = op_target op")
        assume "consumer_id r = op_target op" "consumer_id s \<noteq> op_target op"
        with rs a step [OF rs(1) _ _ rs(2) _ 2(2,1)] show ?thesis by simp
      next
        assume "consumer_id r \<noteq> op_target op" "consumer_id s = op_target op"
        with rs a step [OF rs(2) _ _ rs(1) _ 2(2,1)] show ?thesis by simp
      next
        assume "consumer_id r \<noteq> op_target op" "consumer_id s \<noteq> op_target op"
        with rs(3,4) have "x = r" "y = s" by simp_all
        with rs(1,2) a one show ?thesis unfolding one_exclusive_def by blast
      qed (simp add: keys)
    qed
  next
    case 3
    have "\<not> exclusive_active cfg now (new_consumer form now)"
      by (simp add: exclusive_active_def new_consumer_def)
    then have "x \<in> set reg"
      if "x \<in> set (exec_op cfg ok now op reg)" "exclusive_active cfg now x" for x
      using that unfolding 3 by auto
    with one show ?thesis unfolding one_exclusive_def by blast
  qed
qed

theorem at_most_one_exclusive_preserved_witness:
  "one_exclusive default_lease_config 60
     (exec_op default_lease_config True 60 (Op_heartbeat ''b'' 3)
        [(sample_row ''a'' 24 1 5 0)\<lparr>lease_mode := EXCLUSIVE\<rparr>, sample_row ''b'' 24 0 8 0])"
proof -
  let ?reg = "[(sample_row ''a'' 24 1 5 0)\<lparr>lease_mode := EXCLUSIVE\<rparr>, sample_row ''b'' 24 0 8 0]"
  have "one_exclusive default_lease_config 0 ?reg"
    by (simp add: one_exclusive_def exclusive_active_def sample_row_def)
  then show ?thesis
    by (rule at_most_one_exclusive_preserved) (simp_all add: no_revival_def sample_row_def)
qed

text \<open>
  The at-most-one rule is not an invariant of the registry as written. A window holder that
  goes quiet past the staleness bound, a second consumer that then takes the exclusive lease, and
  a heartbeat of the first one leave two active exclusive holders: a heartbeat clears staleness
  but not the exclusive flag (only a re-registration does).
\<close>

theorem heartbeat_revives_second_exclusive:
  "let cfg = default_lease_config;
       reg = run_ops cfg
         [(0, True, Op_register (sample_form ''self.curator'' 24 0 8)),
          (0, True, Op_register (sample_form ''self.publish'' 24 0 8)),
          (1, True, Op_set_exclusive ''self.curator'' True),
          (200, True, Op_heartbeat ''self.publish'' 0),
          (201, True, Op_set_exclusive ''self.publish'' True),
          (230, True, Op_heartbeat ''self.curator'' 0)] []
   in map consumer_id (active_exclusive cfg 230 reg) = [''self.curator'', ''self.publish'']"
  by (simp add: read_defs op_defs row_defs sample_defs)

end
