(* ===== verification/Vram_K8s.thy ===== *)
theory Vram_K8s
  imports Selfai_Prelude
begin

text \<open>
  The force-reap capability of \<open>utils/vram_k8s.py\<close>: \<open>KubernetesPodReaper.reap\<close> lists the pods
  that match a selector, deletes each, and reports \<open>CONFIRMED\<close> only once the very pods it deleted
  are gone. The Kubernetes client is third-party code and is the parameter \<open>pod_api\<close>: what each
  successive call answers and how long it takes. Time is a rational number of seconds on the
  monotonic clock. The explanatory \<open>reason\<close> texts are the constructors of \<open>reap_reason\<close>, one per
  text of the source.

  The lemmas show what a confirmed reap is evidence of, that the confirmation loop always ends
  when the poll interval is positive, and that the time bound does not cover the API calls
  themselves.
\<close>

section \<open>Data\<close>

datatype reap_status = CONFIRMED_REAP | FAILED_REAP

datatype api_phase = LIST_PHASE | DELETE_PHASE

datatype reap_reason =
    No_pods_matched string string
  | Rbac_denied api_phase
  | Not_found api_phase
  | Api_error api_phase int
  | Transport_error api_phase
  | Confirmed_absent nat
  | Not_confirmed_gone
  | Unexpected_error

record reap_outcome =
  ro_status :: reap_status
  ro_reason :: reap_reason
  ro_pods_deleted :: nat

definition reap_confirmed :: "nat \<Rightarrow> reap_reason \<Rightarrow> reap_outcome" where
  "reap_confirmed n reason = \<lparr>ro_status = CONFIRMED_REAP, ro_reason = reason, ro_pods_deleted = n\<rparr>"

definition reap_failed :: "reap_reason \<Rightarrow> nat \<Rightarrow> reap_outcome" where
  "reap_failed reason n = \<lparr>ro_status = FAILED_REAP, ro_reason = reason, ro_pods_deleted = n\<rparr>"

text \<open>The \<open>status\<close> attribute of an exception: absent, a bool, an int, or something printed.\<close>

datatype status_attr = St_none | St_bool bool | St_int int | St_text string

text \<open>One listed item: its name and uid where they are strings.\<close>

record pod_item =
  pi_name :: "string option"
  pi_uid :: "string option"

type_synonym pod_target = "string \<times> string option"

record pod_api =
  api_list :: "nat \<Rightarrow> string \<Rightarrow> string \<Rightarrow> (status_attr + pod_item list) \<times> rat"
  api_delete :: "nat \<Rightarrow> string \<Rightarrow> string \<Rightarrow> (status_attr + unit) \<times> rat"

section \<open>Helpers\<close>

definition status_code :: "status_attr \<Rightarrow> int option" where
  "status_code a =
     (case a of St_none \<Rightarrow> None | St_bool _ \<Rightarrow> None | St_int n \<Rightarrow> Some n | St_text s \<Rightarrow> py_int s)"

fun pod_targets :: "pod_item list \<Rightarrow> pod_target list" where
  "pod_targets [] = []"
| "pod_targets (item # items) =
     (case nonempty (pi_name item) of
        Some name \<Rightarrow> (name, nonempty (pi_uid item)) # pod_targets items
      | None \<Rightarrow> pod_targets items)"

definition pod_names :: "pod_item list \<Rightarrow> string list" where
  "pod_names items = map fst (pod_targets items)"

definition failed_from_exc :: "api_phase \<Rightarrow> status_attr \<Rightarrow> nat \<Rightarrow> reap_outcome" where
  "failed_from_exc phase exc deleted =
     (case status_code exc of
        Some n \<Rightarrow> reap_failed (if n = 403 then Rbac_denied phase
                               else if n = 404 then Not_found phase
                               else Api_error phase n) deleted
      | None \<Rightarrow> reap_failed (Transport_error phase) deleted)"

section \<open>Confirmation\<close>

text \<open>
  Whether a deleted target is still there: by uid when the listing gave one, by name otherwise.
  A replacement pod with another identity does not count.
\<close>

definition still_present :: "pod_target list \<Rightarrow> pod_item list \<Rightarrow> bool" where
  "still_present targets items =
     (let current = pod_targets items
      in (\<exists>(n, u) \<in> set targets. u \<noteq> None \<and> u \<in> snd ` set current) \<or>
         (\<exists>(n, u) \<in> set targets. u = None \<and> n \<in> fst ` set current))"

definition confirms_gone :: "pod_target list \<Rightarrow> (status_attr + pod_item list) \<Rightarrow> bool" where
  "confirms_gone targets ans =
     (case ans of
        Inr items \<Rightarrow> \<not> still_present targets items
      | Inl exc \<Rightarrow> status_code exc = Some 404)"

text \<open>
  The polling loop. \<open>fuel\<close> bounds the rounds; \<open>None\<close> is a loop that has not returned yet. The
  result carries the call counter and the time at which the loop returned.
\<close>

fun confirm_absent ::
    "nat \<Rightarrow> pod_api \<Rightarrow> rat \<Rightarrow> string \<Rightarrow> string \<Rightarrow> pod_target list \<Rightarrow> rat \<Rightarrow> nat \<Rightarrow> rat
       \<Rightarrow> (bool \<times> nat \<times> rat) option" where
  "confirm_absent 0 api interval ns sel targets deadline k t = None"
| "confirm_absent (Suc fuel) api interval ns sel targets deadline k t =
     (let (ans, d) = api_list api k ns sel; t1 = t + max 0 d
      in if confirms_gone targets ans then Some (True, Suc k, t1)
         else if t1 \<ge> deadline then Some (False, Suc k, t1)
         else confirm_absent fuel api interval ns sel targets deadline (Suc k)
                (t1 + min interval (max 0 (deadline - t1))))"

text \<open>Rounds that always suffice when the interval is positive.\<close>

definition confirm_rounds :: "rat \<Rightarrow> rat \<Rightarrow> nat" where
  "confirm_rounds interval timeout = nat \<lceil>max 0 timeout / interval\<rceil> + 2"

section \<open>Reaping\<close>

text \<open>The delete loop: \<open>Inl\<close> is the early return of a failed outcome.\<close>

fun delete_pods ::
    "pod_api \<Rightarrow> string \<Rightarrow> string list \<Rightarrow> nat \<Rightarrow> nat \<Rightarrow> rat \<Rightarrow> (reap_outcome + nat) \<times> nat \<times> rat" where
  "delete_pods api ns [] deleted k t = (Inr deleted, k, t)"
| "delete_pods api ns (name # names) deleted k t =
     (let (ans, d) = api_delete api k name ns; t1 = t + max 0 d
      in case ans of
           Inr _ \<Rightarrow> delete_pods api ns names (Suc deleted) (Suc k) t1
         | Inl exc \<Rightarrow>
             if status_code exc = Some 404 then delete_pods api ns names (Suc deleted) (Suc k) t1
             else (Inl (failed_from_exc DELETE_PHASE exc deleted), Suc k, t1))"

text \<open>
  \<open>factory_ok\<close> says whether the client session could be opened; an error there is caught by the
  outer handler. The result is the outcome with the time at which it was returned.
\<close>

definition reap ::
    "pod_api \<Rightarrow> rat \<Rightarrow> bool \<Rightarrow> string \<Rightarrow> string \<Rightarrow> rat \<Rightarrow> nat \<Rightarrow> rat \<Rightarrow> (reap_outcome \<times> nat \<times> rat) option" where
  "reap api interval factory_ok ns sel timeout k t =
     (if \<not> factory_ok then Some (reap_failed Unexpected_error 0, k, t)
      else (let (ans, d) = api_list api k ns sel; t1 = t + max 0 d
            in case ans of
                 Inl exc \<Rightarrow> Some (failed_from_exc LIST_PHASE exc 0, Suc k, t1)
               | Inr items \<Rightarrow>
                   (let targets = pod_targets items
                    in if targets = [] then Some (reap_failed (No_pods_matched sel ns) 0, Suc k, t1)
                       else (case delete_pods api ns (map fst targets) 0 (Suc k) t1 of
                               (Inl out, k2, t2) \<Rightarrow> Some (out, k2, t2)
                             | (Inr deleted, k2, t2) \<Rightarrow>
                                 (case confirm_absent (confirm_rounds interval timeout) api interval
                                         ns sel targets (t2 + max 0 timeout) k2 t2 of
                                    None \<Rightarrow> None
                                  | Some (True, k3, t3) \<Rightarrow>
                                      Some (reap_confirmed deleted (Confirmed_absent deleted), k3, t3)
                                  | Some (False, k3, t3) \<Rightarrow>
                                      Some (reap_failed Not_confirmed_gone deleted, k3, t3))))))"

section \<open>Lemmas\<close>

lemma confirm_absent_True:
  assumes "confirm_absent fuel api interval ns sel targets deadline k t = Some (True, k', t')"
  shows "\<exists>j \<ge> k. confirms_gone targets (fst (api_list api j ns sel))"
  using assms
proof (induction fuel arbitrary: k t)
  case (Suc fuel)
  show ?case
  proof (cases "confirms_gone targets (fst (api_list api k ns sel))")
    case True
    then show ?thesis by blast
  next
    case False
    obtain t2 where "confirm_absent fuel api interval ns sel targets deadline (Suc k) t2 = Some (True, k', t')"
      using Suc.prems False by (auto simp: Let_def split: prod.splits if_splits)
    from Suc.IH [OF this] show ?thesis by (meson Suc_leD)
  qed
qed simp

lemma confirm_absent_enough:
  assumes "0 < interval" and "deadline - t \<le> of_nat n * interval"
  shows "confirm_absent (n + 2) api interval ns sel targets deadline k t \<noteq> None"
  using assms(2)
proof (induction n arbitrary: k t)
  case 0
  then show ?case by (auto simp: Let_def numeral_2_eq_2 split: prod.split)
next
  case (Suc n)
  obtain ans d where a: "api_list api k ns sel = (ans, d)" by fastforce
  define t1 where "t1 = t + max 0 d"
  define t2 where "t2 = t1 + min interval (max 0 (deadline - t1))"
  have "t \<le> t1" by (simp add: t1_def)
  have "deadline - t2 \<le> of_nat n * interval"
  proof (cases "interval \<le> max 0 (deadline - t1)")
    case True
    then have "t2 = t1 + interval" by (simp add: t2_def)
    with Suc.prems \<open>t \<le> t1\<close> show ?thesis by (simp add: algebra_simps)
  next
    case False
    then have "deadline - t2 \<le> 0" by (auto simp: t2_def)
    also have "0 \<le> of_nat n * interval" using assms(1) by simp
    finally show ?thesis .
  qed
  from Suc.IH [OF this] obtain r
    where r: "confirm_absent (n + 2) api interval ns sel targets deadline (Suc k) t2 = Some r" by blast
  have "confirm_absent (Suc n + 2) api interval ns sel targets deadline k t =
      (if confirms_gone targets ans then Some (True, Suc k, t1)
       else if t1 \<ge> deadline then Some (False, Suc k, t1) else Some r)"
    unfolding add_Suc confirm_absent.simps(2) [of "n + 2"] r [symmetric] a t2_def t1_def Let_def prod.case
    by (rule refl)
  then show ?case by (metis option.distinct(1))
qed

lemma failed_status [simp]:
  "ro_status (failed_from_exc p e n) = FAILED_REAP" "ro_status (reap_failed r n) = FAILED_REAP"
  "ro_status (reap_confirmed n r) = CONFIRMED_REAP" "ro_pods_deleted (reap_confirmed n r) = n"
  by (auto simp: failed_from_exc_def reap_failed_def reap_confirmed_def split: option.split)

text \<open>One delete either returns a failure or goes on with the rest.\<close>

lemma delete_pods_cases:
  obtains out where "delete_pods api ns (name # names) deleted k t = (Inl out, Suc k, t + max 0 (snd (api_delete api k name ns)))"
      "ro_status out = FAILED_REAP"
  | "delete_pods api ns (name # names) deleted k t =
       delete_pods api ns names (Suc deleted) (Suc k) (t + max 0 (snd (api_delete api k name ns)))"
proof (cases "api_delete api k name ns")
  case (Pair ans d)
  show thesis
  proof (cases "\<exists>exc. ans = Inl exc \<and> status_code exc \<noteq> Some 404")
    case True
    then show thesis using Pair that(1) by (auto simp: Let_def)
  next
    case False
    have "delete_pods api ns (name # names) deleted k t =
        delete_pods api ns names (Suc deleted) (Suc k) (t + max 0 d)"
      using False Pair by (cases ans) (auto simp: Let_def)
    then show thesis using Pair that(2) by simp
  qed
qed

lemma delete_pods_spec:
  assumes "delete_pods api ns names deleted k t = (r, k', t')"
  shows "k \<le> k' \<and> (case r of Inr n \<Rightarrow> n = deleted + length names | Inl out \<Rightarrow> ro_status out = FAILED_REAP)"
  using assms
proof (induction names arbitrary: deleted k t)
  case (Cons name names)
  show ?case
  proof (rule delete_pods_cases [of api ns name names deleted k t])
    fix out
    assume "delete_pods api ns (name # names) deleted k t =
        (Inl out, Suc k, t + max 0 (snd (api_delete api k name ns)))" "ro_status out = FAILED_REAP"
    with Cons.prems show ?thesis by (simp del: delete_pods.simps) auto
  next
    assume "delete_pods api ns (name # names) deleted k t =
        delete_pods api ns names (Suc deleted) (Suc k) (t + max 0 (snd (api_delete api k name ns)))"
    with Cons.prems have "Suc k \<le> k' \<and> (case r of Inr n \<Rightarrow> n = Suc deleted + length names
        | Inl out \<Rightarrow> ro_status out = FAILED_REAP)" by (intro Cons.IH) simp
    then show ?thesis by (auto split: sum.splits)
  qed
qed auto

section \<open>Evidence\<close>

lemma reap_evidence:
  assumes "reap api interval factory_ok ns sel timeout k t = Some (out, k', t')"
    and "ro_status out = CONFIRMED_REAP"
  shows "\<exists>items j. fst (api_list api k ns sel) = Inr items \<and> pod_targets items \<noteq> [] \<and>
           ro_pods_deleted out = length (pod_targets items) \<and> k < j \<and>
           confirms_gone (pod_targets items) (fst (api_list api j ns sel))"
proof -
  obtain ans d where a: "api_list api k ns sel = (ans, d)" by fastforce
  have f: "factory_ok" using assms by (auto simp: reap_def split: if_splits)
  obtain items where ans: "ans = Inr items" and ne: "pod_targets items \<noteq> []"
    using assms f a by (auto simp: reap_def Let_def split: sum.splits if_splits)
  let ?names = "map fst (pod_targets items)"
  obtain r k2 t2 where del: "delete_pods api ns ?names 0 (Suc k) (t + max 0 d) = (r, k2, t2)"
    by (metis prod_cases3)
  note spec = delete_pods_spec [OF del]
  obtain n where r: "r = Inr n" and n: "n = length (pod_targets items)" and k2: "Suc k \<le> k2"
    using assms f a ans ne del spec by (cases r) (auto simp: reap_def Let_def)
  obtain b k3 t3 where c: "confirm_absent (confirm_rounds interval timeout) api interval ns sel
      (pod_targets items) (t2 + max 0 timeout) k2 t2 = Some (b, k3, t3)"
    using assms f a ans ne del r by (auto simp: reap_def Let_def split: option.splits)
  have "b" and out: "out = reap_confirmed n (Confirmed_absent n)"
    using assms f a ans ne del r c by (cases b; auto simp: reap_def Let_def)+
  from confirm_absent_True c \<open>b\<close> obtain j
    where "k2 \<le> j" "confirms_gone (pod_targets items) (fst (api_list api j ns sel))" by (metis (full_types))
  with a ans ne n out k2 show ?thesis by (intro exI [of _ items] exI [of _ j]) auto
qed

section \<open>Properties\<close>


text \<open>A cluster whose controller replaces the deleted pod under the same labels at once.\<close>

definition sample_cluster :: pod_api where
  "sample_cluster = \<lparr>
     api_list = (\<lambda>k ns sel. (Inr [\<lparr>pi_name = Some ''llamolotl-0'',
        pi_uid = Some (if k < 2 then ''uid-old'' else ''uid-new'')\<rparr>], 1)),
     api_delete = (\<lambda>k name ns. (Inr (), 1))\<rparr>"

lemmas sample_reap_defs =
  reap_def sample_cluster_def nonempty_def confirm_rounds_def confirms_gone_def still_present_def
  numeral_2_eq_2 Let_def


text \<open>
  The reaper always answers: with a positive poll interval and whatever the API answers and
  however long each call takes, \<open>reap\<close> returns an outcome. The confirmation loop ends within
  \<open>\<lceil>timeout / interval\<rceil> + 2\<close> rounds.
\<close>

theorem reap_always_returns:
  assumes "0 < interval"
  shows "\<exists>out k' t'. reap api interval factory_ok ns sel timeout k t = Some (out, k', t')"
proof -
  let ?n = "nat \<lceil>max 0 timeout / interval\<rceil>"
  have "max 0 timeout / interval \<le> of_nat ?n" by linarith
  from mult_right_mono [OF this, of interval] assms
  have le: "max 0 timeout \<le> of_nat ?n * interval" by (simp add: less_imp_le)
  have loop: "confirm_absent (confirm_rounds interval timeout) api interval ns sel targets
      (t2 + max 0 timeout) k2 t2 \<noteq> None" for targets k2 t2
    unfolding confirm_rounds_def by (rule confirm_absent_enough [OF assms]) (use le in linarith)
  have "reap api interval factory_ok ns sel timeout k t \<noteq> None"
    by (auto simp: reap_def Let_def loop split: prod.split sum.split option.split bool.split)
  then show ?thesis by auto
qed

theorem reap_always_returns_witness:
  "0 < (1/2 :: rat) \<and> (\<exists>out k' t'. reap sample_cluster (1/2) True ''ai'' ''app=x'' 30 0 0 = Some (out, k', t'))"
  using reap_always_returns [of "1/2" sample_cluster True "''ai''" "''app=x''" 30 0 0] by simp

text \<open>
  Only the confirmation wait is bounded by \<open>timeout_seconds\<close>. The first listing and the
  deletes are awaited without a bound: for every duration \<open>d\<close> there is an API with which a reap
  called with a timeout of one second returns only after \<open>d\<close> seconds.
\<close>

theorem reap_not_bounded_by_timeout:
  "\<exists>api out k' t'. reap api (1/2) True ns sel 1 k 0 = Some (out, k', t') \<and> d \<le> t'"
proof -
  define api where "api = \<lparr>api_list = \<lambda>k ns sel. (Inr ([] :: pod_item list) :: status_attr + pod_item list, d),
      api_delete = \<lambda>k name ns. (Inr () :: status_attr + unit, 0 :: rat)\<rparr>"
  have "reap api (1/2) True ns sel 1 k 0 = Some (reap_failed (No_pods_matched sel ns) 0, Suc k, max 0 d)"
    by (simp add: reap_def api_def Let_def)
  then show ?thesis by (metis max.cobounded2)
qed

end
