(* ===== verification/Vram_Broker.thy ===== *)
theory Vram_Broker
  imports Vram_Leases Vram_K8s
begin

text \<open>
  The VRAM lease broker of \<open>utils/vram_broker.py\<close>: release requests (R2), lease grants with
  reclamation and force-reap escalation (R3, R5) and the exclusive lease (Decision 6), over the
  registry of \<open>Vram_Leases\<close>.

  The broker is a coroutine. Between two \<open>await\<close>s its code runs without interruption, so the model
  threads one \<open>world\<close> through it (the registry table, the monotonic time, the number of awaits and
  commits so far, and the remembered release reasons) and time passes only at an \<open>await\<close>. What an
  awaited call answers, how long it takes and which registry calls other coroutines make meanwhile
  (heartbeats of the poller, registrations, operator actions) come from the environment: the
  transport, the reaper and the commit outcomes are functions of the await counter and are
  arbitrary in every theorem. Wall-clock seconds are the floor of the monotonic time. The
  explanatory texts are constructors, one per text of the source; nothing branches on them.

  The lemmas show that a grant is backed by free capacity at the instant it is written, that a
  denial leaves no trace on the requester, that equal and higher priority consumers are never
  touched, which holders can be reaped, how long the grant lock is held, and what an exclusive
  acquire guarantees; and they exhibit two ways the reservation accounting over-commits the card.
\<close>

section \<open>Data\<close>

datatype release_outcome = CONFIRMED | DENIED | TIMEOUT

datatype holder_outcome =
    HOLDER_OUTCOME_CONFIRMED
  | HOLDER_OUTCOME_DENIED
  | HOLDER_OUTCOME_TIMEOUT
  | HOLDER_OUTCOME_INELIGIBLE_STALE
  | HOLDER_OUTCOME_REAPED
  | HOLDER_OUTCOME_REAP_FAILED
  | HOLDER_OUTCOME_INELIGIBLE_NO_POD_IDENTITY
  | HOLDER_OUTCOME_INELIGIBLE_NEVER_OBSERVED

definition outcome_value :: "release_outcome \<Rightarrow> holder_outcome" where
  "outcome_value out =
     (case out of CONFIRMED \<Rightarrow> HOLDER_OUTCOME_CONFIRMED | DENIED \<Rightarrow> HOLDER_OUTCOME_DENIED
      | TIMEOUT \<Rightarrow> HOLDER_OUTCOME_TIMEOUT)"

datatype holder_reason = Consumer_said string | Never_observed | Reaper_said reap_reason

record holder_asked =
  ha_consumer_id :: string
  ha_requested_release :: int
  ha_actually_released :: int
  ha_outcome :: holder_outcome
  ha_reason :: "holder_reason option"

record lease_denied =
  ld_requested_bytes :: int
  ld_free_bytes :: int
  ld_freeable_bytes :: int
  ld_holders_asked :: "holder_asked list"
  ld_exclusive_holder :: "string option"

record lease_granted =
  lg_consumer_id :: string
  lg_granted_bytes :: int
  lg_held_bytes :: int
  lg_priority :: int
  lg_reclaimed :: "holder_asked list"

datatype lease_result = LeaseGranted lease_granted | LeaseDenied lease_denied

datatype exclusive_reason = Other_holds_exclusive string | Card_not_cleared nat | Lost_race | Card_cleared

record exclusive_result =
  er_acquired :: bool
  er_consumer_id :: string
  er_reason :: exclusive_reason
  er_reclaimed :: "holder_asked list"
  er_blocking_holder :: "string option"

record release_response =
  rr_outcome :: release_outcome
  rr_new_held_bytes :: "int option"
  rr_reason :: "string option"

section \<open>The environment and the world\<close>

text \<open>
  An awaited release call: after how many seconds it answers (\<open>None\<close>: never), with what
  (\<open>None\<close>: it raises), and the registry calls made by other coroutines while it is awaited.
\<close>

record transport_answer =
  ta_after :: "rat option"
  ta_reply :: "release_response option"
  ta_meanwhile :: "reg_op list"

type_synonym transport = "nat \<Rightarrow> string \<Rightarrow> int \<Rightarrow> rat \<Rightarrow> bool \<Rightarrow> transport_answer"

record reap_answer =
  ra_outcome :: reap_outcome
  ra_elapsed :: rat
  ra_meanwhile :: "reg_op list"

type_synonym reaper = "nat \<Rightarrow> string \<Rightarrow> string \<Rightarrow> rat \<Rightarrow> reap_answer"

record world =
  w_reg :: registry
  w_time :: rat
  w_tick :: nat
  w_reasons :: "string \<Rightarrow> string option"

record broker =
  b_cfg :: lease_config
  b_transport :: "transport option"
  b_reaper :: "reaper option"
  b_reap_targets :: "string \<rightharpoonup> string \<times> string"
  b_commit :: "nat \<Rightarrow> bool"
  GRANT_RELEASE_TIMEOUT_SECONDS :: rat
  GRANT_TOTAL_TIMEOUT_SECONDS :: rat

definition now_of :: "world \<Rightarrow> int" where
  "now_of w = \<lfloor>w_time w\<rfloor>"

definition free_now :: "broker \<Rightarrow> world \<Rightarrow> int" where
  "free_now b w = free_capacity (b_cfg b) (now_of w) (w_reg w)"

text \<open>An \<open>await\<close>: time passes, other coroutines run.\<close>

definition pass_time :: "broker \<Rightarrow> rat \<Rightarrow> reg_op list \<Rightarrow> world \<Rightarrow> world" where
  "pass_time b d ops w =
     (let t = w_time w + max 0 d
      in w\<lparr>w_time := t, w_tick := Suc (w_tick w),
           w_reg := run_ops (b_cfg b) (map (\<lambda>op. (\<lfloor>t\<rfloor>, True, op)) ops) (w_reg w)\<rparr>)"

text \<open>A registry write of the broker itself: its commit may fail.\<close>

definition reg_call ::
    "broker \<Rightarrow> (bool \<Rightarrow> int \<Rightarrow> registry \<Rightarrow> registry \<times> 'a) \<Rightarrow> world \<Rightarrow> world \<times> 'a" where
  "reg_call b f w =
     (let (reg', res) = f (b_commit b (w_tick w)) (now_of w) (w_reg w)
      in (w\<lparr>w_reg := reg', w_tick := Suc (w_tick w)\<rparr>, res))"

section \<open>Budget\<close>

definition new_budget :: "rat \<Rightarrow> world \<Rightarrow> rat" where
  "new_budget total_seconds w = w_time w + max 0 total_seconds"

definition remaining :: "rat \<Rightarrow> world \<Rightarrow> rat" where
  "remaining deadline w = max 0 (deadline - w_time w)"

definition spent :: "rat \<Rightarrow> world \<Rightarrow> bool" where
  "spent deadline w = (remaining deadline w \<le> 0)"

definition bound :: "rat \<Rightarrow> rat \<Rightarrow> world \<Rightarrow> rat" where
  "bound deadline per_call w = min per_call (remaining deadline w)"

section \<open>Configuration and small helpers\<close>

definition ever_observed :: "vram_consumer \<Rightarrow> bool" where
  "ever_observed holder = (last_observed_at holder \<noteq> None)"

definition granted_effective_held :: "vram_consumer option \<Rightarrow> int \<Rightarrow> int" where
  "granted_effective_held granted amount =
     (case granted of None \<Rightarrow> amount
      | Some row \<Rightarrow> max (held_bytes row) (or0 (reserved_bytes row)))"

definition last_release_reason :: "world \<Rightarrow> string \<Rightarrow> string option" where
  "last_release_reason w cid = w_reasons w cid"

definition set_transport :: "transport \<Rightarrow> broker \<Rightarrow> broker" where
  "set_transport tr b = b\<lparr>b_transport := Some tr\<rparr>"

definition get_transport :: "broker \<Rightarrow> transport option" where
  "get_transport b = b_transport b"

definition set_reaper :: "reaper \<Rightarrow> broker \<Rightarrow> broker" where
  "set_reaper rp b = b\<lparr>b_reaper := Some rp\<rparr>"

text \<open>
  The trusted reap targets: an entry whose namespace or selector is missing or blank is dropped.
\<close>

fun clean_targets ::
    "(string \<times> (string option \<times> string option) option) list \<Rightarrow> (string \<times> string \<times> string) list" where
  "clean_targets [] = []"
| "clean_targets ((cid, None) # rest) = clean_targets rest"
| "clean_targets ((cid, Some (ns, sel)) # rest) =
     (let n = py_strip (case ns of None \<Rightarrow> [] | Some s \<Rightarrow> s);
          s = py_strip (case sel of None \<Rightarrow> [] | Some s \<Rightarrow> s)
      in if n \<noteq> [] \<and> s \<noteq> [] then (cid, n, s) # clean_targets rest else clean_targets rest)"

definition set_reap_targets ::
    "(string \<times> (string option \<times> string option) option) list \<Rightarrow> broker \<Rightarrow> broker" where
  "set_reap_targets targets b = b\<lparr>b_reap_targets := map_of (clean_targets targets)\<rparr>"

definition reap_target_for :: "broker \<Rightarrow> string \<Rightarrow> (string \<times> string) option" where
  "reap_target_for b cid = b_reap_targets b cid"

section \<open>Release requests (R2)\<close>

definition resolve_response ::
    "broker \<Rightarrow> string \<Rightarrow> release_response \<Rightarrow> world \<Rightarrow> world \<times> release_outcome" where
  "resolve_response b cid resp w =
     (let w1 = w\<lparr>w_reasons := (w_reasons w)(cid := rr_reason resp)\<rparr>
      in case rr_outcome resp of
           CONFIRMED \<Rightarrow>
             (case rr_new_held_bytes resp of
                None \<Rightarrow> (fst (reg_call b (\<lambda>ok now. mark_stale ok now cid) w1), TIMEOUT)
              | Some h \<Rightarrow>
                  (fst (reg_call b (\<lambda>ok now. record_confirmed_release ok now cid h) w1), CONFIRMED))
         | DENIED \<Rightarrow> (fst (reg_call b (\<lambda>ok now. set_lease_state ok now cid STEADY) w1), DENIED)
         | TIMEOUT \<Rightarrow> (fst (reg_call b (\<lambda>ok now. mark_stale ok now cid) w1), TIMEOUT))"

definition timeout_response :: release_response where
  "timeout_response = \<lparr>rr_outcome = TIMEOUT, rr_new_held_bytes = None, rr_reason = None\<rparr>"

text \<open>
  \<open>asyncio.wait_for\<close>: the answer if it comes before the timeout, otherwise the timeout; a raised
  exception is treated as a timeout too.
\<close>

definition wait_for :: "rat \<Rightarrow> transport_answer \<Rightarrow> release_response \<times> rat" where
  "wait_for timeout ans =
     (case ta_after ans of
        None \<Rightarrow> (timeout_response, timeout)
      | Some d \<Rightarrow>
          if max 0 d < timeout
          then ((case ta_reply ans of Some resp \<Rightarrow> resp | None \<Rightarrow> timeout_response), max 0 d)
          else (timeout_response, timeout))"

definition request_release ::
    "broker \<Rightarrow> transport option \<Rightarrow> string \<Rightarrow> int \<Rightarrow> rat \<Rightarrow> world \<Rightarrow> (world \<times> release_outcome) result" where
  "request_release b override cid amount timeout w =
     (case (case override of Some tr \<Rightarrow> Some tr | None \<Rightarrow> b_transport b) of
        None \<Rightarrow> Inl (RuntimeError ''no release transport configured'')
      | Some tr \<Rightarrow>
          (let w1 = fst (reg_call b (\<lambda>ok now. set_lease_state ok now cid RELEASE_REQUESTED) w);
               w2 = fst (reg_call b (\<lambda>ok now. set_lease_state ok now cid RELEASING) w1);
               ans = tr (w_tick w2) cid amount timeout False;
               (resp, d) = wait_for timeout ans;
               w3 = pass_time b d (ta_meanwhile ans) w2
           in Inr (resolve_response b cid resp w3)))"

section \<open>Grants (R3, R5)\<close>

definition commit_grant ::
    "broker \<Rightarrow> string \<Rightarrow> int \<Rightarrow> int \<Rightarrow> holder_asked list \<Rightarrow> int \<Rightarrow> world \<Rightarrow> world \<times> lease_result" where
  "commit_grant b cid amount prio reclaimed freeable w =
     (let (w1, granted) = reg_call b (\<lambda>ok now. record_grant ok now cid amount (Some prio)) w
      in case granted of
           None \<Rightarrow>
             (w1, LeaseDenied \<lparr>ld_requested_bytes = amount, ld_free_bytes = free_now b w1,
                               ld_freeable_bytes = freeable, ld_holders_asked = reclaimed,
                               ld_exclusive_holder = None\<rparr>)
         | Some row \<Rightarrow>
             (w1, LeaseGranted \<lparr>lg_consumer_id = cid, lg_granted_bytes = amount,
                                lg_held_bytes = granted_effective_held (Some row) amount,
                                lg_priority = prio, lg_reclaimed = reclaimed\<rparr>))"

text \<open>The holders a grant may ask: not the requester, and strictly lower priority.\<close>

definition lease_holders :: "broker \<Rightarrow> string \<Rightarrow> int \<Rightarrow> world \<Rightarrow> vram_consumer list" where
  "lease_holders b cid prio w =
     [h \<leftarrow> eligible_holders (b_cfg b) (now_of w) (w_reg w). consumer_id h \<noteq> cid \<and> priority h < prio]"

definition reap_holders :: "broker \<Rightarrow> string \<Rightarrow> int \<Rightarrow> world \<Rightarrow> vram_consumer list" where
  "reap_holders b cid prio w =
     [h \<leftarrow> stale_holders (b_cfg b) (now_of w) (w_reg w). consumer_id h \<noteq> cid \<and> priority h < prio]"

definition reapable_bytes :: "broker \<Rightarrow> string \<Rightarrow> int \<Rightarrow> world \<Rightarrow> int" where
  "reapable_bytes b cid prio w =
     (case b_reaper b of
        None \<Rightarrow> 0
      | Some _ \<Rightarrow> sum_list (map held_bytes
          [h \<leftarrow> reap_holders b cid prio w.
             reap_target_for b (consumer_id h) \<noteq> None \<and> ever_observed h]))"

definition held_of :: "string \<Rightarrow> int \<Rightarrow> world \<Rightarrow> int" where
  "held_of cid dflt w =
     (case get_consumer cid (w_reg w) of Some row \<Rightarrow> held_bytes row | None \<Rightarrow> dflt)"

fun reclaim ::
    "broker \<Rightarrow> transport option \<Rightarrow> int \<Rightarrow> rat \<Rightarrow> rat \<Rightarrow> vram_consumer list \<Rightarrow> world \<Rightarrow> holder_asked list
       \<Rightarrow> (world \<times> holder_asked list) result" where
  "reclaim b override amount rel_timeout deadline [] w asked = Inr (w, asked)"
| "reclaim b override amount rel_timeout deadline (h # hs) w asked =
     (if free_now b w \<ge> amount then Inr (w, asked)
      else if spent deadline w then Inr (w, asked)
      else (let shortfall = amount - free_now b w;
                before_held = held_of (consumer_id h) (held_bytes h) w
            in case request_release b override (consumer_id h) shortfall
                      (bound deadline rel_timeout w) w of
                 Inl e \<Rightarrow> Inl e
               | Inr (w', outcome) \<Rightarrow>
                   (let after_held = held_of (consumer_id h) before_held w';
                        released = (if outcome = CONFIRMED then max 0 (before_held - after_held) else 0)
                    in reclaim b override amount rel_timeout deadline hs w'
                         (asked @ [\<lparr>ha_consumer_id = consumer_id h,
                                    ha_requested_release = shortfall,
                                    ha_actually_released = released,
                                    ha_outcome = outcome_value outcome,
                                    ha_reason = map_option Consumer_said
                                                  (last_release_reason w' (consumer_id h))\<rparr>]))))"

text \<open>One force-reap at a trusted target, shared by the grant and the exclusive acquire.\<close>

definition reap_holder ::
    "broker \<Rightarrow> reaper \<Rightarrow> string \<Rightarrow> int \<Rightarrow> int \<Rightarrow> string \<times> string \<Rightarrow> rat \<Rightarrow> world \<Rightarrow> world \<times> holder_asked" where
  "reap_holder b rp cid requested before_held target timeout w =
     (let ans = rp (w_tick w) (fst target) (snd target) timeout;
          w1 = pass_time b (ra_elapsed ans) (ra_meanwhile ans) w;
          out = ra_outcome ans
      in if ro_status out = CONFIRMED_REAP
         then (let w2 = fst (reg_call b (\<lambda>ok now. record_reaped_release ok now cid) w1);
                   after_held = held_of cid 0 w2
               in (w2, \<lparr>ha_consumer_id = cid, ha_requested_release = requested,
                        ha_actually_released = max 0 (before_held - after_held),
                        ha_outcome = HOLDER_OUTCOME_REAPED,
                        ha_reason = Some (Reaper_said (ro_reason out))\<rparr>))
         else (w1, \<lparr>ha_consumer_id = cid, ha_requested_release = requested,
                    ha_actually_released = 0, ha_outcome = HOLDER_OUTCOME_REAP_FAILED,
                    ha_reason = Some (Reaper_said (ro_reason out))\<rparr>))"

definition never_observed_entry :: "string \<Rightarrow> int \<Rightarrow> holder_asked" where
  "never_observed_entry cid requested =
     \<lparr>ha_consumer_id = cid, ha_requested_release = requested, ha_actually_released = 0,
      ha_outcome = HOLDER_OUTCOME_INELIGIBLE_NEVER_OBSERVED, ha_reason = Some Never_observed\<rparr>"

definition no_identity_entry :: "string \<Rightarrow> int \<Rightarrow> holder_asked" where
  "no_identity_entry cid requested =
     \<lparr>ha_consumer_id = cid, ha_requested_release = requested, ha_actually_released = 0,
      ha_outcome = HOLDER_OUTCOME_INELIGIBLE_NO_POD_IDENTITY, ha_reason = None\<rparr>"

fun escalate ::
    "broker \<Rightarrow> reaper \<Rightarrow> int \<Rightarrow> rat \<Rightarrow> rat \<Rightarrow> vram_consumer list \<Rightarrow> world \<Rightarrow> holder_asked list
       \<Rightarrow> world \<times> holder_asked list" where
  "escalate b rp amount rel_timeout deadline [] w asked = (w, asked)"
| "escalate b rp amount rel_timeout deadline (h # hs) w asked =
     (if free_now b w \<ge> amount then (w, asked)
      else if spent deadline w then (w, asked)
      else (let shortfall = amount - free_now b w; cid = consumer_id h
            in if \<not> ever_observed h
               then escalate b rp amount rel_timeout deadline hs w
                      (asked @ [never_observed_entry cid shortfall])
               else case reap_target_for b cid of
                      None \<Rightarrow> escalate b rp amount rel_timeout deadline hs w
                                (asked @ [no_identity_entry cid shortfall])
                    | Some target \<Rightarrow>
                        (let before_held = held_of cid (held_bytes h) w;
                             (w', entry) = reap_holder b rp cid shortfall before_held target
                                             (bound deadline rel_timeout w) w
                         in escalate b rp amount rel_timeout deadline hs w' (asked @ [entry]))))"

text \<open>The capacity decision, once the requester is known and no other exclusive lease is active.\<close>

definition decide_capacity ::
    "broker \<Rightarrow> transport option \<Rightarrow> string \<Rightarrow> int \<Rightarrow> int \<Rightarrow> rat \<Rightarrow> rat \<Rightarrow> world
       \<Rightarrow> (world \<times> lease_result) result" where
  "decide_capacity b override cid amount prio rel_timeout deadline w =
     (let free = free_now b w;
          holders = lease_holders b cid prio w;
          releasable = sum_list (map held_bytes holders);
          freeable = free + releasable + reapable_bytes b cid prio w;
          denied = (\<lambda>w' free_after asked.
             (w', LeaseDenied \<lparr>ld_requested_bytes = amount, ld_free_bytes = free_after,
                               ld_freeable_bytes = freeable, ld_holders_asked = asked,
                               ld_exclusive_holder = None\<rparr>))
      in if amount > freeable then Inr (denied w free [])
         else if free \<ge> amount then Inr (commit_grant b cid amount prio [] freeable w)
         else case reclaim b override amount rel_timeout deadline holders w [] of
           Inl e \<Rightarrow> Inl e
         | Inr (w1, asked) \<Rightarrow>
             if free_now b w1 \<ge> amount then Inr (commit_grant b cid amount prio asked freeable w1)
             else case b_reaper b of
               None \<Rightarrow> Inr (denied w1 (free_now b w1) asked)
             | Some rp \<Rightarrow>
                 (let (w2, asked2) = escalate b rp amount rel_timeout deadline
                                       (reap_holders b cid prio w1) w1 asked
                  in if free_now b w2 \<ge> amount
                     then Inr (commit_grant b cid amount prio asked2 freeable w2)
                     else Inr (denied w2 (free_now b w2) asked2)))"

definition decide_lease ::
    "broker \<Rightarrow> transport option \<Rightarrow> string \<Rightarrow> int \<Rightarrow> int \<Rightarrow> rat \<Rightarrow> rat \<Rightarrow> world
       \<Rightarrow> (world \<times> lease_result) result" where
  "decide_lease b override cid amount prio rel_timeout deadline w =
     (if get_consumer cid (w_reg w) = None
      then Inl (ValueError ''lease requester is not registered'')
      else case active_exclusive_holder (b_cfg b) (now_of w) (w_reg w) of
        Some ex \<Rightarrow>
          if consumer_id ex \<noteq> cid
          then Inr (w, LeaseDenied \<lparr>ld_requested_bytes = amount, ld_free_bytes = free_now b w,
                                    ld_freeable_bytes = 0, ld_holders_asked = [],
                                    ld_exclusive_holder = Some (consumer_id ex)\<rparr>)
          else decide_capacity b override cid amount prio rel_timeout deadline w
      | None \<Rightarrow> decide_capacity b override cid amount prio rel_timeout deadline w)"

text \<open>
  The lock: its holder before this request takes \<open>lk_wait\<close> seconds, in which the registry calls
  \<open>lk_meanwhile\<close> happen (grants among them). The budget starts before the wait.
\<close>

record lock_wait =
  lk_wait :: rat
  lk_meanwhile :: "reg_op list"

definition lock_free :: lock_wait where
  "lock_free = \<lparr>lk_wait = 0, lk_meanwhile = []\<rparr>"

definition request_lease ::
    "broker \<Rightarrow> transport option \<Rightarrow> lock_wait \<Rightarrow> string \<Rightarrow> int \<Rightarrow> int \<Rightarrow> rat option \<Rightarrow> world
       \<Rightarrow> (world \<times> lease_result) result" where
  "request_lease b override lk cid amount prio release_timeout w =
     (let rel_timeout = (case release_timeout of None \<Rightarrow> GRANT_RELEASE_TIMEOUT_SECONDS b | Some s \<Rightarrow> s);
          deadline = new_budget (GRANT_TOTAL_TIMEOUT_SECONDS b) w
      in decide_lease b override cid amount prio rel_timeout deadline
           (pass_time b (lk_wait lk) (lk_meanwhile lk) w))"

section \<open>The exclusive lease (Decision 6)\<close>

text \<open>Ask every other live holder for all it holds.\<close>

fun clear_card ::
    "broker \<Rightarrow> transport option \<Rightarrow> rat \<Rightarrow> rat \<Rightarrow> vram_consumer list \<Rightarrow> world \<Rightarrow> holder_asked list
       \<Rightarrow> world \<times> holder_asked list result" where
  "clear_card b override rel_timeout deadline [] w asked = (w, Inr asked)"
| "clear_card b override rel_timeout deadline (h # hs) w asked =
     (let before_held = held_of (consumer_id h) (held_bytes h) w
      in if before_held \<le> 0 then clear_card b override rel_timeout deadline hs w asked
         else if spent deadline w then (w, Inr asked)
         else case request_release b override (consumer_id h) before_held
                     (bound deadline rel_timeout w) w of
                Inl e \<Rightarrow> (w, Inl e)
              | Inr (w', outcome) \<Rightarrow>
                  (let after_held = held_of (consumer_id h) before_held w';
                       released = (if outcome = CONFIRMED then max 0 (before_held - after_held) else 0)
                   in clear_card b override rel_timeout deadline hs w'
                        (asked @ [\<lparr>ha_consumer_id = consumer_id h,
                                   ha_requested_release = before_held,
                                   ha_actually_released = released,
                                   ha_outcome = outcome_value outcome,
                                   ha_reason = map_option Consumer_said
                                                 (last_release_reason w' (consumer_id h))\<rparr>])))"

text \<open>Force-reap every other stale holder.\<close>

fun reap_card ::
    "broker \<Rightarrow> reaper \<Rightarrow> rat \<Rightarrow> rat \<Rightarrow> vram_consumer list \<Rightarrow> world \<Rightarrow> holder_asked list
       \<Rightarrow> world \<times> holder_asked list" where
  "reap_card b rp rel_timeout deadline [] w asked = (w, asked)"
| "reap_card b rp rel_timeout deadline (h # hs) w asked =
     (let cid = consumer_id h; before_held = held_of cid (held_bytes h) w
      in if before_held \<le> 0 then reap_card b rp rel_timeout deadline hs w asked
         else if \<not> ever_observed h
         then reap_card b rp rel_timeout deadline hs w (asked @ [never_observed_entry cid before_held])
         else case reap_target_for b cid of
                None \<Rightarrow> reap_card b rp rel_timeout deadline hs w
                          (asked @ [no_identity_entry cid before_held])
              | Some target \<Rightarrow>
                  if spent deadline w then (w, asked)
                  else (let (w', entry) = reap_holder b rp cid before_held before_held target
                                            (bound deadline rel_timeout w) w
                        in reap_card b rp rel_timeout deadline hs w' (asked @ [entry])))"

definition others :: "string \<Rightarrow> vram_consumer list \<Rightarrow> vram_consumer list" where
  "others cid hs = [h \<leftarrow> hs. consumer_id h \<noteq> cid]"

definition still_holding :: "broker \<Rightarrow> string \<Rightarrow> world \<Rightarrow> vram_consumer list" where
  "still_holding b cid w =
     [h \<leftarrow> others cid (eligible_holders (b_cfg b) (now_of w) (w_reg w) @
                       stale_holders (b_cfg b) (now_of w) (w_reg w)). held_bytes h > 0]"

text \<open>Confirmed or nothing: the flag is set only on a cleared card.\<close>

definition seize ::
    "broker \<Rightarrow> string \<Rightarrow> holder_asked list \<Rightarrow> world \<Rightarrow> world \<times> exclusive_result result" where
  "seize b cid asked w =
     (let left = still_holding b cid w
      in if left \<noteq> []
         then (w, Inr \<lparr>er_acquired = False, er_consumer_id = cid,
                        er_reason = Card_not_cleared (length left), er_reclaimed = asked,
                        er_blocking_holder = None\<rparr>)
         else case set_exclusive (b_cfg b) (b_commit b (w_tick w)) (now_of w) cid True (w_reg w) of
           Inl e \<Rightarrow> (w\<lparr>w_tick := Suc (w_tick w)\<rparr>, Inl e)
         | Inr (reg', won) \<Rightarrow>
             (w\<lparr>w_reg := reg', w_tick := Suc (w_tick w)\<rparr>,
              Inr \<lparr>er_acquired = won, er_consumer_id = cid,
                   er_reason = (if won then Card_cleared else Lost_race), er_reclaimed = asked,
                   er_blocking_holder = None\<rparr>))"

definition acquire_exclusive ::
    "broker \<Rightarrow> transport option \<Rightarrow> lock_wait \<Rightarrow> string \<Rightarrow> rat option \<Rightarrow> world
       \<Rightarrow> world \<times> exclusive_result result" where
  "acquire_exclusive b override lk cid release_timeout w0 =
     (let rel_timeout = (case release_timeout of None \<Rightarrow> GRANT_RELEASE_TIMEOUT_SECONDS b | Some s \<Rightarrow> s);
          deadline = new_budget (GRANT_TOTAL_TIMEOUT_SECONDS b) w0;
          w = pass_time b (lk_wait lk) (lk_meanwhile lk) w0;
          go = (case clear_card b override rel_timeout deadline
                       (others cid (eligible_holders (b_cfg b) (now_of w) (w_reg w))) w [] of
                  (w1, Inl e) \<Rightarrow> (w1, Inl e)
                | (w1, Inr asked) \<Rightarrow>
                    (case b_reaper b of
                       None \<Rightarrow> seize b cid asked w1
                     | Some rp \<Rightarrow>
                         (let (w2, asked2) = reap_card b rp rel_timeout deadline
                                (others cid (stale_holders (b_cfg b) (now_of w1) (w_reg w1))) w1 asked
                          in seize b cid asked2 w2)))
      in if get_consumer cid (w_reg w) = None
         then (w, Inl (ValueError ''exclusive-lease requester is not registered''))
         else case active_exclusive_holder (b_cfg b) (now_of w) (w_reg w) of
           Some ex \<Rightarrow>
             if consumer_id ex \<noteq> cid
             then (w, Inr \<lparr>er_acquired = False, er_consumer_id = cid,
                            er_reason = Other_holds_exclusive (consumer_id ex), er_reclaimed = [],
                            er_blocking_holder = Some (consumer_id ex)\<rparr>)
             else go
         | None \<Rightarrow> go)"

definition release_exclusive ::
    "broker \<Rightarrow> lock_wait \<Rightarrow> string \<Rightarrow> world \<Rightarrow> world \<times> bool result" where
  "release_exclusive b lk cid w0 =
     (let w = pass_time b (lk_wait lk) (lk_meanwhile lk) w0;
          was_holder = (case active_exclusive_holder (b_cfg b) (now_of w) (w_reg w) of
                          None \<Rightarrow> False | Some ex \<Rightarrow> consumer_id ex = cid)
      in case set_exclusive (b_cfg b) (b_commit b (w_tick w)) (now_of w) cid False (w_reg w) of
           Inl e \<Rightarrow> (w\<lparr>w_tick := Suc (w_tick w)\<rparr>, Inl e)
         | Inr (reg', _) \<Rightarrow> (w\<lparr>w_reg := reg', w_tick := Suc (w_tick w)\<rparr>, Inr was_holder))"

section \<open>What a decision does to the registry\<close>

text \<open>
  The abstract machine of a decision: the registry and the clock move by waiting and by registry
  calls, each of which satisfies \<open>P\<close>.
\<close>

type_synonym snapshot = "registry \<times> rat"

definition view :: "world \<Rightarrow> snapshot" where
  "view w = (w_reg w, w_time w)"

inductive evolves :: "lease_config \<Rightarrow> (reg_op \<Rightarrow> bool) \<Rightarrow> snapshot \<Rightarrow> snapshot \<Rightarrow> bool" for cfg P s where
  start: "evolves cfg P s s"
| act: "evolves cfg P s (reg, t) \<Longrightarrow> P op \<Longrightarrow> evolves cfg P s (exec_op cfg ok \<lfloor>t\<rfloor> op reg, t)"
| elapse: "evolves cfg P s (reg, t) \<Longrightarrow> t \<le> t' \<Longrightarrow> evolves cfg P s (reg, t')"

lemma evolves_trans: "evolves cfg P s1 s2 \<Longrightarrow> evolves cfg P s0 s1 \<Longrightarrow> evolves cfg P s0 s2"
  by (induction rule: evolves.induct) (auto intro: evolves.intros)

lemma evolves_mono: "evolves cfg P s s' \<Longrightarrow> (\<And>op. P op \<Longrightarrow> Q op) \<Longrightarrow> evolves cfg Q s s'"
  by (induction rule: evolves.induct) (auto intro: evolves.intros)

lemma evolves_time: "evolves cfg P s s' \<Longrightarrow> snd s \<le> snd s'"
  by (induction rule: evolves.induct) auto

lemma evolves_unique:
  "evolves cfg P s s' \<Longrightarrow> unique_by consumer_id (fst s) \<Longrightarrow> unique_by consumer_id (fst s')"
  by (induction rule: evolves.induct) (auto intro: exec_op_unique)

lemma evolves_get_other:
  assumes "evolves cfg P s s'" and "\<And>op. P op \<Longrightarrow> op_target op \<noteq> c"
  shows "get_consumer c (fst s') = get_consumer c (fst s)"
  using assms(1)
proof (induction rule: evolves.induct)
  case (act reg t op ok)
  with exec_op_get_other [of c op cfg ok "\<lfloor>t\<rfloor>" reg] assms(2) [of op] show ?case by auto
qed auto

lemma evolves_registered:
  "evolves cfg P s s' \<Longrightarrow> get_consumer c (fst s) \<noteq> None \<Longrightarrow> get_consumer c (fst s') \<noteq> None"
  by (induction rule: evolves.induct) (use exec_op_keeps_consumer in auto)

lemma run_ops_evolves:
  assumes "\<forall>op \<in> set ops. P op"
  shows "evolves cfg P (reg, t) (run_ops cfg (map (\<lambda>op. (\<lfloor>t\<rfloor>, True, op)) ops) reg, t)"
  using assms
proof (induction ops arbitrary: reg)
  case (Cons op ops)
  have "evolves cfg P (reg, t) (exec_op cfg True \<lfloor>t\<rfloor> op reg, t)"
    using Cons.prems by (auto intro: evolves.intros)
  with Cons.IH [of "exec_op cfg True \<lfloor>t\<rfloor> op reg"] Cons.prems show ?case
    by (auto intro: evolves_trans)
qed (auto intro: evolves.intros)

lemma pass_time_evolves:
  assumes "\<forall>op \<in> set ops. P op"
  shows "evolves (b_cfg b) P (view w) (view (pass_time b d ops w))"
proof -
  let ?t = "w_time w + max 0 d"
  have "evolves (b_cfg b) P (w_reg w, w_time w) (w_reg w, ?t)"
    by (rule elapse [OF start]) simp
  moreover note run_ops_evolves [OF assms, of "b_cfg b" "w_reg w" ?t]
  ultimately show ?thesis unfolding view_def pass_time_def Let_def by (auto intro: evolves_trans)
qed

lemma pass_time_simps [simp]:
  "w_time (pass_time b d ops w) = w_time w + max 0 d"
  "w_reasons (pass_time b d ops w) = w_reasons w"
  by (simp_all add: pass_time_def Let_def)

lemma reg_call_simps [simp]:
  "w_time (fst (reg_call b f w)) = w_time w"
  "w_reg (fst (reg_call b f w)) = fst (f (b_commit b (w_tick w)) (now_of w) (w_reg w))"
  "w_reasons (fst (reg_call b f w)) = w_reasons w"
  "snd (reg_call b f w) = snd (f (b_commit b (w_tick w)) (now_of w) (w_reg w))"
  by (simp_all add: reg_call_def split: prod.split)

lemma now_of_reg_call [simp]: "now_of (fst (reg_call b f w)) = now_of w"
  by (simp add: now_of_def)

lemma reg_call_evolves:
  assumes "P op" and "\<And>ok now reg. fst (f ok now reg) = exec_op (b_cfg b) ok now op reg"
  shows "evolves (b_cfg b) P (view w) (view (fst (reg_call b f w)))"
  using act [OF start, where P = P, OF assms(1)] by (simp add: view_def assms(2) now_of_def)

text \<open>The registry calls a decision makes on a holder, and those that happen while it waits.\<close>

fun release_op :: "reg_op \<Rightarrow> bool" where
  "release_op (Op_set_lease_state c st) = True"
| "release_op (Op_confirmed_release c h) = True"
| "release_op (Op_mark_stale c) = True"
| "release_op (Op_reaped c) = True"
| "release_op _ = False"

definition meanwhile :: "broker \<Rightarrow> transport option \<Rightarrow> reg_op set" where
  "meanwhile b override =
     (\<Union>tr \<in> set_option override \<union> set_option (b_transport b).
        \<Union>k c a t f. set (ta_meanwhile (tr k c a t f))) \<union>
     (\<Union>rp \<in> set_option (b_reaper b). \<Union>k ns sel t. set (ra_meanwhile (rp k ns sel t)))"

definition may_do :: "broker \<Rightarrow> transport option \<Rightarrow> string set \<Rightarrow> reg_op \<Rightarrow> bool" where
  "may_do b override allowed op \<longleftrightarrow>
     op \<in> meanwhile b override \<or> release_op op \<and> op_target op \<in> allowed"

lemma may_do_own: "release_op op \<Longrightarrow> op_target op \<in> allowed \<Longrightarrow> may_do b override allowed op"
  by (simp add: may_do_def)

lemma transport_may_do:
  assumes "tr \<in> set_option override \<union> set_option (b_transport b)"
  shows "\<forall>op \<in> set (ta_meanwhile (tr k c a t f)). may_do b override allowed op"
proof
  fix op
  assume "op \<in> set (ta_meanwhile (tr k c a t f))"
  then have *: "op \<in> (\<Union>k c a t f. set (ta_meanwhile (tr k c a t f)))" by (intro UN_I) auto
  show "may_do b override allowed op"
    unfolding may_do_def meanwhile_def by (rule disjI1, rule UnI1, rule UN_I, rule assms, rule *)
qed

lemma reaper_may_do:
  assumes "b_reaper b = Some rp"
  shows "\<forall>op \<in> set (ra_meanwhile (rp k ns sel t)). may_do b override allowed op"
proof
  fix op
  assume "op \<in> set (ra_meanwhile (rp k ns sel t))"
  then have "op \<in> (\<Union>k ns sel t. set (ra_meanwhile (rp k ns sel t)))" by (intro UN_I) auto
  with assms show "may_do b override allowed op" unfolding may_do_def meanwhile_def by simp
qed

lemma own_calls:
  assumes "c \<in> allowed"
  shows
    "evolves (b_cfg b) (may_do b override allowed) (view w)
       (view (fst (reg_call b (\<lambda>ok now. set_lease_state ok now c st) w)))"
    "evolves (b_cfg b) (may_do b override allowed) (view w)
       (view (fst (reg_call b (\<lambda>ok now. record_confirmed_release ok now c h) w)))"
    "evolves (b_cfg b) (may_do b override allowed) (view w)
       (view (fst (reg_call b (\<lambda>ok now. mark_stale ok now c) w)))"
    "evolves (b_cfg b) (may_do b override allowed) (view w)
       (view (fst (reg_call b (\<lambda>ok now. record_reaped_release ok now c) w)))"
proof -
  note own = reg_call_evolves [OF may_do_own]
  show "evolves (b_cfg b) (may_do b override allowed) (view w)
       (view (fst (reg_call b (\<lambda>ok now. set_lease_state ok now c st) w)))"
    by (rule own [where op = "Op_set_lease_state c st"]) (simp_all add: assms)
  show "evolves (b_cfg b) (may_do b override allowed) (view w)
       (view (fst (reg_call b (\<lambda>ok now. record_confirmed_release ok now c h) w)))"
    by (rule own [where op = "Op_confirmed_release c h"]) (simp_all add: assms)
  show "evolves (b_cfg b) (may_do b override allowed) (view w)
       (view (fst (reg_call b (\<lambda>ok now. mark_stale ok now c) w)))"
    by (rule own [where op = "Op_mark_stale c"]) (simp_all add: assms)
  show "evolves (b_cfg b) (may_do b override allowed) (view w)
       (view (fst (reg_call b (\<lambda>ok now. record_reaped_release ok now c) w)))"
    by (rule own [where op = "Op_reaped c"]) (simp_all add: assms)
qed

lemma resolve_response_evolves:
  assumes "cid \<in> allowed"
  shows "evolves (b_cfg b) (may_do b override allowed) (view w) (view (fst (resolve_response b cid resp w)))"
proof -
  let ?w = "w\<lparr>w_reasons := (w_reasons w)(cid := rr_reason resp)\<rparr>"
  have v: "view ?w = view w" by (simp add: view_def)
  show ?thesis
    using own_calls [OF assms, of b override ?w]
    unfolding v by (auto simp: resolve_response_def Let_def split: release_outcome.split option.split)
qed

lemma wait_for_time: "max 0 (snd (wait_for timeout ans)) \<le> max 0 timeout"
  by (auto simp: wait_for_def split: option.split)

text \<open>A release request as its three parts: two state writes, the await, the resolution.\<close>

lemma request_release_parts:
  assumes "request_release b override cid amount timeout w = Inr (w', outcome)"
  obtains tr w2 ans where
    "tr \<in> set_option override \<union> set_option (b_transport b)"
    "w2 = fst (reg_call b (\<lambda>ok now. set_lease_state ok now cid RELEASING)
            (fst (reg_call b (\<lambda>ok now. set_lease_state ok now cid RELEASE_REQUESTED) w)))"
    "ans = tr (w_tick w2) cid amount timeout False"
    "(w', outcome) = resolve_response b cid (fst (wait_for timeout ans))
       (pass_time b (snd (wait_for timeout ans)) (ta_meanwhile ans) w2)"
proof (cases "case override of Some tr \<Rightarrow> Some tr | None \<Rightarrow> b_transport b")
  case None
  with assms show thesis by (simp add: request_release_def)
next
  case (Some tr)
  then have "tr \<in> set_option override \<union> set_option (b_transport b)" by (cases override) auto
  then show thesis
    by (rule that [OF _ refl refl]) (use assms Some in \<open>simp add: request_release_def split_beta Let_def\<close>)
qed

lemma request_release_evolves:
  assumes "request_release b override cid amount timeout w = Inr (w', outcome)" and "cid \<in> allowed"
  shows "evolves (b_cfg b) (may_do b override allowed) (view w) (view w')"
proof (rule request_release_parts [OF assms(1)])
  fix tr w2 ans
  assume tr: "tr \<in> set_option override \<union> set_option (b_transport b)"
    and w2: "w2 = fst (reg_call b (\<lambda>ok now. set_lease_state ok now cid RELEASING)
            (fst (reg_call b (\<lambda>ok now. set_lease_state ok now cid RELEASE_REQUESTED) w)))"
    and ans: "ans = tr (w_tick w2) cid amount timeout False"
    and r: "(w', outcome) = resolve_response b cid (fst (wait_for timeout ans))
       (pass_time b (snd (wait_for timeout ans)) (ta_meanwhile ans) w2)"
  let ?P = "may_do b override allowed" and ?w3 = "pass_time b (snd (wait_for timeout ans)) (ta_meanwhile ans) w2"
  have "evolves (b_cfg b) ?P (view w) (view w2)"
    unfolding w2 by (rule evolves_trans [OF own_calls(1) [OF assms(2)] own_calls(1) [OF assms(2)]])
  moreover have "\<forall>op \<in> set (ta_meanwhile ans). ?P op"
    unfolding ans by (rule transport_may_do [OF tr])
  then have "evolves (b_cfg b) ?P (view w2) (view ?w3)" by (rule pass_time_evolves)
  moreover have "evolves (b_cfg b) ?P (view ?w3) (view w')"
    using resolve_response_evolves [of cid allowed b override ?w3 "fst (wait_for timeout ans)"] assms(2)
    unfolding r [symmetric] by simp
  ultimately show ?thesis by (blast intro: evolves_trans)
qed

lemma reclaim_evolves:
  assumes "reclaim b override amount rel_timeout deadline hs w asked = Inr (w', asked')"
    and "\<forall>h \<in> set hs. consumer_id h \<in> allowed"
  shows "evolves (b_cfg b) (may_do b override allowed) (view w) (view w')"
  using assms
proof (induction b override amount rel_timeout deadline hs w asked rule: reclaim.induct)
  case (2 b override amount rel_timeout deadline h hs w asked)
  show ?case
  proof (cases "free_now b w \<ge> amount \<or> spent deadline w")
    case True
    with 2(2) show ?thesis by (auto intro: start split: if_splits)
  next
    case False
    let ?q = "request_release b override (consumer_id h) (amount - free_now b w) (bound deadline rel_timeout w) w"
    from False 2(2) obtain w1 out where q: "?q = Inr (w1, out)" by (auto simp: Let_def split: sum.splits)
    have "evolves (b_cfg b) (may_do b override allowed) (view w1) (view w')"
      using 2(2,3) False q by (intro 2(1) [OF _ _ refl refl q refl refl refl]) (auto simp: Let_def)
    with request_release_evolves [OF q] 2(3) show ?thesis by (auto intro: evolves_trans)
  qed
qed (auto intro: start)

lemma reap_holder_evolves:
  assumes "b_reaper b = Some rp" and "cid \<in> allowed"
  shows "evolves (b_cfg b) (may_do b override allowed) (view w)
           (view (fst (reap_holder b rp cid requested before_held target timeout w)))"
proof -
  let ?P = "may_do b override allowed" and ?ans = "rp (w_tick w) (fst target) (snd target) timeout"
  let ?w1 = "pass_time b (ra_elapsed ?ans) (ra_meanwhile ?ans) w"
  have "\<forall>op \<in> set (ra_meanwhile ?ans). ?P op"
    by (rule reaper_may_do [OF assms(1)])
  then have p: "evolves (b_cfg b) ?P (view w) (view ?w1)" by (rule pass_time_evolves)
  have "evolves (b_cfg b) ?P (view ?w1)
      (view (fst (reg_call b (\<lambda>ok now. record_reaped_release ok now cid) ?w1)))"
    by (rule own_calls(4) [OF assms(2)])
  with p show ?thesis by (auto simp: reap_holder_def Let_def intro: evolves_trans)
qed

lemma escalate_evolves:
  assumes "b_reaper b = Some rp" and "\<forall>h \<in> set hs. consumer_id h \<in> allowed"
  shows "evolves (b_cfg b) (may_do b override allowed) (view w)
           (view (fst (escalate b rp amount rel_timeout deadline hs w asked)))"
  using assms(2)
proof (induction hs arbitrary: w asked)
  case (Cons h hs)
  let ?esc = "escalate b rp amount rel_timeout deadline"
  have IH: "evolves (b_cfg b) (may_do b override allowed) (view w1) (view (fst (?esc hs w1 asked1)))"
    for w1 asked1 using Cons by simp
  let ?r = "\<lambda>target. reap_holder b rp (consumer_id h) (amount - free_now b w)
       (held_of (consumer_id h) (held_bytes h) w) target (bound deadline rel_timeout w) w"
  have "evolves (b_cfg b) (may_do b override allowed) (view w) (view (fst (?r target)))" for target
    by (rule reap_holder_evolves [OF assms(1)]) (use Cons in simp)
  with IH have "evolves (b_cfg b) (may_do b override allowed) (view w)
      (view (fst (?esc hs (fst (?r target)) asked1)))" for target asked1
    by (blast intro: evolves_trans)
  with IH show ?case by (auto simp: Let_def split_beta intro: start split: option.split)
qed (auto intro: start)

section \<open>The outcomes of a decision\<close>

lemma lease_holder_facts:
  assumes "h \<in> set (lease_holders b cid prio w)"
  shows "h \<in> set (w_reg w)" "0 < held_bytes h" "consumer_id h \<noteq> cid" "priority h < prio"
  using assms by (auto simp: lease_holders_def eligible_mem)

lemma reap_holder_facts:
  assumes "h \<in> set (reap_holders b cid prio w)"
  shows "h \<in> set (w_reg w)" "0 < held_bytes h" "consumer_id h \<noteq> cid" "priority h < prio"
    "effective_state (b_cfg b) (now_of w) h = STALE"
  using assms by (auto simp: reap_holders_def stale_mem)

lemma reclaimable_nonneg:
  "0 \<le> sum_list (map held_bytes (lease_holders b cid prio w))" "0 \<le> reapable_bytes b cid prio w"
  using lease_holder_facts(2) reap_holder_facts(2)
  by (fastforce simp: reapable_bytes_def intro!: sum_list_nonneg split: option.split)+

text \<open>
  A decision that passes the guards ends in one of two ways: a commit at an instant at which the
  free capacity covers the amount, or a denial at one at which it does not. \<open>A\<close> is any set of
  consumers that contains all the ones asked.
\<close>

definition decided ::
    "broker \<Rightarrow> transport option \<Rightarrow> string set \<Rightarrow> string \<Rightarrow> int \<Rightarrow> int \<Rightarrow> world \<Rightarrow> world \<times> lease_result \<Rightarrow> bool" where
  "decided b override A cid amount prio w out \<longleftrightarrow>
     (\<exists>w0 asked freeable. evolves (b_cfg b) (may_do b override A) (view w) (view w0) \<and>
        amount \<le> free_now b w0 \<and> out = commit_grant b cid amount prio asked freeable w0) \<or>
     (\<exists>d. evolves (b_cfg b) (may_do b override A) (view w) (view (fst out)) \<and>
        snd out = LeaseDenied d \<and> ld_requested_bytes d = amount \<and> ld_exclusive_holder d = None \<and>
        ld_free_bytes d = free_now b (fst out) \<and> free_now b (fst out) < amount)"

lemma decidedI_commit:
  "evolves (b_cfg b) (may_do b override A) (view w) (view w0) \<Longrightarrow> amount \<le> free_now b w0 \<Longrightarrow>
   decided b override A cid amount prio w (commit_grant b cid amount prio asked freeable w0)"
  unfolding decided_def by blast

lemma decidedI_deny:
  "evolves (b_cfg b) (may_do b override A) (view w) (view w') \<Longrightarrow> free_now b w' < amount \<Longrightarrow>
   decided b override A cid amount prio w
     (w', LeaseDenied \<lparr>ld_requested_bytes = amount, ld_free_bytes = free_now b w',
                       ld_freeable_bytes = freeable, ld_holders_asked = asked,
                       ld_exclusive_holder = None\<rparr>)"
  unfolding decided_def by simp

lemma decide_capacity_decided:
  assumes dec: "decide_capacity b override cid amount prio rel_timeout deadline w = Inr out"
    and A: "\<forall>h \<in> set (lease_holders b cid prio w). consumer_id h \<in> A"
    and A': "\<And>w1. evolves (b_cfg b) (may_do b override A) (view w) (view w1) \<Longrightarrow>
               \<forall>h \<in> set (reap_holders b cid prio w1). consumer_id h \<in> A"
  shows "decided b override A cid amount prio w out"
proof -
  let ?holders = "lease_holders b cid prio w"
  let ?freeable = "free_now b w + sum_list (map held_bytes ?holders) + reapable_bytes b cid prio w"
  have ge: "free_now b w \<le> ?freeable" using reclaimable_nonneg [where b = b and cid = cid and prio = prio and w = w] by linarith
  consider "amount > ?freeable" | "amount \<le> ?freeable" "amount \<le> free_now b w"
    | "amount \<le> ?freeable" "free_now b w < amount" by linarith
  then show ?thesis
  proof cases
    case 1
    then have "out = (w, LeaseDenied \<lparr>ld_requested_bytes = amount, ld_free_bytes = free_now b w,
        ld_freeable_bytes = ?freeable, ld_holders_asked = [], ld_exclusive_holder = None\<rparr>)"
      using dec by (simp add: decide_capacity_def Let_def)
    with 1 ge show ?thesis by (auto intro!: decidedI_deny start)
  next
    case 2
    then have "out = commit_grant b cid amount prio [] ?freeable w"
      using dec by (simp add: decide_capacity_def Let_def)
    with 2 show ?thesis by (auto intro: decidedI_commit start)
  next
    case 3
    then obtain w1 asked where r: "reclaim b override amount rel_timeout deadline ?holders w [] = Inr (w1, asked)"
      using dec by (auto simp: decide_capacity_def Let_def split: sum.splits)
    note e1 = reclaim_evolves [OF r A]
    show ?thesis
    proof (cases "amount \<le> free_now b w1")
      case True
      then have "out = commit_grant b cid amount prio asked ?freeable w1"
        using dec 3 r by (simp add: decide_capacity_def Let_def)
      with True e1 show ?thesis by (auto intro: decidedI_commit)
    next
      case short: False
      show ?thesis
      proof (cases "b_reaper b")
        case None
        with short 3 r dec have "out = (w1, LeaseDenied \<lparr>ld_requested_bytes = amount,
            ld_free_bytes = free_now b w1, ld_freeable_bytes = ?freeable, ld_holders_asked = asked,
            ld_exclusive_holder = None\<rparr>)" by (simp add: decide_capacity_def Let_def)
        with short e1 show ?thesis by (auto intro!: decidedI_deny)
      next
        case (Some rp)
        let ?esc = "escalate b rp amount rel_timeout deadline (reap_holders b cid prio w1) w1 asked"
        have e2: "evolves (b_cfg b) (may_do b override A) (view w) (view (fst ?esc))"
          by (rule evolves_trans [OF escalate_evolves [OF Some A' [OF e1]] e1])
        have "out = (if amount \<le> free_now b (fst ?esc)
            then commit_grant b cid amount prio (snd ?esc) ?freeable (fst ?esc)
            else (fst ?esc, LeaseDenied \<lparr>ld_requested_bytes = amount, ld_free_bytes = free_now b (fst ?esc),
              ld_freeable_bytes = ?freeable, ld_holders_asked = snd ?esc, ld_exclusive_holder = None\<rparr>))"
          using dec 3 r short Some by (auto simp: decide_capacity_def Let_def split_beta split: if_splits)
        with e2 show ?thesis by (auto intro!: decidedI_commit decidedI_deny)
      qed
    qed
  qed
qed

text \<open>The three ways the whole decision ends.\<close>

lemma decide_lease_outcome:
  assumes dec: "decide_lease b override cid amount prio rel_timeout deadline w = Inr out"
    and "\<forall>h \<in> set (lease_holders b cid prio w). consumer_id h \<in> A"
    and "\<And>w1. evolves (b_cfg b) (may_do b override A) (view w) (view w1) \<Longrightarrow>
               \<forall>h \<in> set (reap_holders b cid prio w1). consumer_id h \<in> A"
  shows "get_consumer cid (w_reg w) \<noteq> None \<and>
         ((\<exists>ex d. active_exclusive_holder (b_cfg b) (now_of w) (w_reg w) = Some ex \<and> consumer_id ex \<noteq> cid \<and>
              out = (w, LeaseDenied d) \<and> ld_exclusive_holder d = Some (consumer_id ex) \<and> ld_holders_asked d = []) \<or>
          (\<forall>ex. active_exclusive_holder (b_cfg b) (now_of w) (w_reg w) = Some ex \<longrightarrow> consumer_id ex = cid) \<and>
            decided b override A cid amount prio w out)"
  using dec decide_capacity_decided [OF _ assms(2,3)]
  by (fastforce simp: decide_lease_def split: if_splits option.splits)

text \<open>The set of everybody always contains the ones asked.\<close>

lemmas decide_lease_any = decide_lease_outcome [where A = UNIV, simplified]

section \<open>Properties: grants\<close>

lemma commit_grant_granted:
  assumes "commit_grant b cid amount prio asked freeable w0 = (w', LeaseGranted g)"
  shows "\<exists>r. get_consumer cid (w_reg w0) = Some r \<and> b_commit b (w_tick w0) \<and> w_time w' = w_time w0 \<and>
           w_reg w' = fst (record_grant True (now_of w0) cid amount (Some prio) (w_reg w0)) \<and>
           g = \<lparr>lg_consumer_id = cid, lg_granted_bytes = amount,
                lg_held_bytes = max (held_bytes r) (or0 (reserved_bytes r) + amount),
                lg_priority = prio, lg_reclaimed = asked\<rparr>"
  using assms grant_w.write_snd [of "b_commit b (w_tick w0)" cid "now_of w0" amount "Some prio" "w_reg w0"]
  by (auto simp: commit_grant_def reg_call_def record_grant_def granted_effective_held_def row_defs
      split: prod.splits option.splits if_splits)

lemma commit_grant_denied:
  assumes "commit_grant b cid amount prio asked freeable w0 = (w', LeaseDenied d)"
  shows "w_reg w' = w_reg w0 \<and> w_time w' = w_time w0 \<and> ld_holders_asked d = asked \<and>
         (get_consumer cid (w_reg w0) = None \<or> \<not> b_commit b (w_tick w0))"
  using assms grant_w.write_snd [of "b_commit b (w_tick w0)" cid "now_of w0" amount "Some prio" "w_reg w0"]
  by (auto simp: commit_grant_def reg_call_def record_grant_def write_row_def
      split: prod.splits option.splits if_splits)

lemma grant_fits:
  assumes "unique_by consumer_id reg" and "get_consumer cid reg = Some r" and "0 < amount"
    and "amount \<le> free_capacity cfg now reg" and "no_dead_residue cfg now r"
  shows "let reg' = fst (record_grant True now cid amount prio reg)
         in total_held cfg now reg' + unattributed_overhead cfg now reg' \<le> total_capacity reg'"
proof -
  have "total_held cfg now (fst (record_grant True now cid amount prio reg)) =
      total_held cfg now reg - effective_held cfg now r + effective_held cfg now (grant_row now amount prio r)"
    using grant_w.write_sum [OF assms(1,2), of "effective_held cfg now" now amount prio]
    by (simp add: total_held_def record_grant_def)
  moreover have "effective_held cfg now (grant_row now amount prio r) \<le> effective_held cfg now r + amount"
    using assms by (intro effective_held_grant_le) auto
  moreover have "amount \<le> total_capacity reg - total_held cfg now reg - unattributed_overhead cfg now reg"
    using assms(3,4) by (auto simp: free_capacity_def)
  ultimately show ?thesis
    by (simp add: Let_def record_grant_def grant_c.overhead_kept grant_c.total_capacity_kept)
qed


text \<open>A card of 24 units: llamolotl (priority 5) holds 20 of them and yields 16 when asked.\<close>

definition yielding :: transport where
  "yielding k cid amount timeout force =
     \<lparr>ta_after = Some 1, ta_reply = Some \<lparr>rr_outcome = CONFIRMED, rr_new_held_bytes = Some 4, rr_reason = None\<rparr>,
      ta_meanwhile = []\<rparr>"

definition sample_broker :: broker where
  "sample_broker = \<lparr>b_cfg = default_lease_config, b_transport = Some yielding, b_reaper = None,
     b_reap_targets = Map.empty, b_commit = (\<lambda>k. True), GRANT_RELEASE_TIMEOUT_SECONDS = 30,
     GRANT_TOTAL_TIMEOUT_SECONDS = 60\<rparr>"

definition sample_world :: world where
  "sample_world = \<lparr>w_reg = [sample_row ''llamolotl'' 24 20 5 0, sample_row ''speak'' 24 0 8 0],
     w_time = 10, w_tick = 0, w_reasons = (\<lambda>c. None)\<rparr>"

lemmas broker_run_defs =
  request_lease_def decide_lease_def decide_capacity_def lease_holders_def reap_holders_def
  reapable_bytes_def request_release_def resolve_response_def wait_for_def commit_grant_def
  reg_call_def pass_time_def free_now_def now_of_def new_budget_def spent_def remaining_def
  bound_def held_of_def lock_free_def granted_effective_held_def last_release_reason_def
  outcome_value_def sample_broker_def sample_world_def yielding_def

lemma sample_grant:
  "\<exists>w' g. request_lease sample_broker None lock_free ''speak'' 10 8 None sample_world = Inr (w', LeaseGranted g)"
  by (simp add: broker_run_defs read_defs op_defs row_defs sample_defs)


text \<open>
  A consumer that is the requester, or of equal or higher priority, and that nobody else calls
  about, keeps its row through a decision, the requester's own grant apart.
\<close>

lemma decide_lease_untouched:
  assumes dec: "decide_lease b override cid amount prio rel_timeout deadline w = Inr (w', res)"
    and u: "unique_by consumer_id (w_reg w)"
    and quiet: "\<forall>op \<in> meanwhile b override. op_target op \<noteq> c"
    and row: "c = cid \<or> (\<exists>r. get_consumer c (w_reg w) = Some r \<and> prio \<le> priority r)"
  shows "get_consumer c (w_reg w') = get_consumer c (w_reg w) \<or> c = cid \<and> (\<exists>g. res = LeaseGranted g)"
proof -
  have P: "op_target op \<noteq> c" if "may_do b override (- {c}) op" for op
    using that quiet by (auto simp: may_do_def)
  have other: "consumer_id h \<noteq> c"
    if e: "evolves (b_cfg b) (may_do b override (- {c})) (view w) (view w1)"
      and h: "h \<in> set (w_reg w1)" "consumer_id h \<noteq> cid" "priority h < prio" for w1 h
  proof
    assume c: "consumer_id h = c"
    with h row obtain r where r: "get_consumer c (w_reg w) = Some r" "prio \<le> priority r" by auto
    have "unique_by consumer_id (w_reg w1)" using evolves_unique [OF e] u by (simp add: view_def)
    then have "get_consumer c (w_reg w1) = Some h"
      using unique_by_find [of consumer_id "w_reg w1" h] h(1) c by (simp add: get_consumer_def)
    moreover have "get_consumer c (w_reg w1) = get_consumer c (w_reg w)"
      using evolves_get_other [OF e P] by (simp add: view_def)
    ultimately show False using r h(3) by simp
  qed
  have A: "\<forall>h \<in> set (lease_holders b cid prio w). consumer_id h \<in> - {c}"
    using other [OF start] by (auto dest: lease_holder_facts)
  have A': "\<forall>h \<in> set (reap_holders b cid prio w1). consumer_id h \<in> - {c}"
    if "evolves (b_cfg b) (may_do b override (- {c})) (view w) (view w1)" for w1
    using other [OF that] by (auto dest: reap_holder_facts)
  have keep: "get_consumer c (w_reg w1) = get_consumer c (w_reg w)"
    if "evolves (b_cfg b) (may_do b override (- {c})) (view w) (view w1)" for w1
    using evolves_get_other [OF that P] by (simp add: view_def)
  from decide_lease_outcome [OF dec A A']
  consider "w' = w" | w0 asked freeable where
      "evolves (b_cfg b) (may_do b override (- {c})) (view w) (view w0)"
      "commit_grant b cid amount prio asked freeable w0 = (w', res)"
    | "evolves (b_cfg b) (may_do b override (- {c})) (view w) (view w')"
    unfolding decided_def by auto
  then show ?thesis
  proof cases
    case 2
    show ?thesis
    proof (cases res)
      case (LeaseDenied d)
      with commit_grant_denied 2 keep [OF 2(1)] show ?thesis by metis
    next
      case (LeaseGranted g)
      with commit_grant_granted 2(2) have
        "w_reg w' = fst (record_grant True (now_of w0) cid amount (Some prio) (w_reg w0))" by blast
      then have "c \<noteq> cid \<Longrightarrow> get_consumer c (w_reg w') = get_consumer c (w_reg w0)"
        by (simp add: record_grant_def grant_w.write_fst_get)
      with keep [OF 2(1)] LeaseGranted show ?thesis by auto
    qed
  qed (use keep in auto)
qed

text \<open>
  A denial leaves nothing behind on the requester (R3-AC5): if \<open>request_lease\<close> denies, then
  unless another coroutine wrote it meanwhile the requester's row is exactly the one it had when
  the decision started, so there is no partial hold to unwind.
\<close>

theorem denial_leaves_no_hold:
  assumes "request_lease b override lk cid amount prio timeout w = Inr (w', LeaseDenied d)"
    and "unique_by consumer_id (w_reg w)"
    and "\<forall>op \<in> meanwhile b override. op_target op \<noteq> cid"
  shows "get_consumer cid (w_reg w') =
         get_consumer cid (w_reg (pass_time b (lk_wait lk) (lk_meanwhile lk) w))"
proof -
  let ?w1 = "pass_time b (lk_wait lk) (lk_meanwhile lk) w"
  have "evolves (b_cfg b) (\<lambda>op. True) (view w) (view ?w1)" by (rule pass_time_evolves) simp
  from evolves_unique [OF this] assms(2) have u: "unique_by consumer_id (w_reg ?w1)" by (simp add: view_def)
  from decide_lease_untouched [OF assms(1) [unfolded request_lease_def Let_def] u assms(3)]
  show ?thesis by auto
qed

definition refusing :: transport where
  "refusing k cid amount timeout force =
     \<lparr>ta_after = Some 1, ta_reply = Some \<lparr>rr_outcome = DENIED, rr_new_held_bytes = None, rr_reason = None\<rparr>,
      ta_meanwhile = []\<rparr>"

lemma sample_meanwhile:
  "meanwhile sample_broker None = {}" "meanwhile sample_broker (Some refusing) = {}"
  by (simp_all add: meanwhile_def sample_broker_def yielding_def refusing_def)

lemma sample_denial:
  "\<exists>w' d. request_lease sample_broker (Some refusing) lock_free ''speak'' 10 8 None sample_world =
     Inr (w', LeaseDenied d)"
  by (simp add: broker_run_defs refusing_def read_defs op_defs row_defs sample_defs)

theorem denial_leaves_no_hold_witness:
  "\<exists>w' d. request_lease sample_broker (Some refusing) lock_free ''speak'' 10 8 None sample_world =
       Inr (w', LeaseDenied d) \<and>
     get_consumer ''speak'' (w_reg w') =
       get_consumer ''speak'' (w_reg (pass_time sample_broker (lk_wait lock_free) (lk_meanwhile lock_free) sample_world))"
proof -
  obtain w' d where e: "request_lease sample_broker (Some refusing) lock_free ''speak'' 10 8 None sample_world =
      Inr (w', LeaseDenied d)" using sample_denial by blast
  have u: "unique_by consumer_id (w_reg sample_world)" by (simp add: sample_world_def sample_row_def)
  from denial_leaves_no_hold [OF e u] e show ?thesis by (auto simp: sample_meanwhile)
qed

text \<open>
  C15: The priority gate (R3, #3): a grant never touches a consumer of equal or higher priority.
  Unless another coroutine writes it, its row after the decision is the one before: it is not
  asked to release, not marked stale, and not force-reaped.
\<close>

theorem grant_never_touches_equal_or_higher_priority:
  assumes "request_lease b override lk cid amount prio timeout w = Inr (w', res)"
    and "unique_by consumer_id (w_reg w)" and "c \<noteq> cid"
    and "get_consumer c (w_reg (pass_time b (lk_wait lk) (lk_meanwhile lk) w)) = Some r"
    and "prio \<le> priority r"
    and "\<forall>op \<in> meanwhile b override. op_target op \<noteq> c"
  shows "get_consumer c (w_reg w') = Some r"
proof -
  let ?w1 = "pass_time b (lk_wait lk) (lk_meanwhile lk) w"
  have "evolves (b_cfg b) (\<lambda>op. True) (view w) (view ?w1)" by (rule pass_time_evolves) simp
  from evolves_unique [OF this] assms(2) have u: "unique_by consumer_id (w_reg ?w1)" by (simp add: view_def)
  from decide_lease_untouched [OF assms(1) [unfolded request_lease_def Let_def] u assms(6)] assms(3,4,5)
  show ?thesis by auto
qed

theorem grant_never_touches_equal_or_higher_priority_witness:
  "\<exists>w' res. request_lease sample_broker None lock_free ''speak'' 10 5 None sample_world = Inr (w', res) \<and>
     get_consumer ''llamolotl'' (w_reg w') = Some (sample_row ''llamolotl'' 24 20 5 0)"
proof -
  have "\<exists>w' res. request_lease sample_broker None lock_free ''speak'' 10 5 None sample_world = Inr (w', res)"
    by (simp add: broker_run_defs read_defs op_defs row_defs sample_defs)
  then obtain w' res where
    e: "request_lease sample_broker None lock_free ''speak'' 10 5 None sample_world = Inr (w', res)" by blast
  have u: "unique_by consumer_id (w_reg sample_world)" by (simp add: sample_world_def sample_row_def)
  have g: "get_consumer ''llamolotl'' (w_reg (pass_time sample_broker (lk_wait lock_free)
      (lk_meanwhile lock_free) sample_world)) = Some (sample_row ''llamolotl'' 24 20 5 0)"
    by (simp add: pass_time_def lock_free_def sample_world_def get_consumer_def sample_row_def)
  from grant_never_touches_equal_or_higher_priority [OF e u _ g] e
  show ?thesis by (simp add: sample_meanwhile sample_row_def)
qed

section \<open>Properties: force-reap\<close>

text \<open>
  What the broker relies on in a reaper: a confirmed outcome is evidence that the pods of the
  target are gone.
\<close>

locale pod_reaper =
  fixes rp :: reaper and gone :: "nat \<Rightarrow> string \<Rightarrow> string \<Rightarrow> bool"
  assumes confirmed_gone: "ro_status (ra_outcome (rp k ns sel t)) = CONFIRMED_REAP \<Longrightarrow> gone k ns sel"
begin

lemma reap_holder_entry:
  "ha_consumer_id (snd (reap_holder b rp cid requested before_held target timeout w)) = cid \<and>
   (ha_outcome (snd (reap_holder b rp cid requested before_held target timeout w)) = HOLDER_OUTCOME_REAPED \<longrightarrow>
      gone (w_tick w) (fst target) (snd target))"
  by (auto simp: reap_holder_def Let_def intro: confirmed_gone)

lemma escalate_entries:
  assumes "e \<in> set (snd (escalate b rp amount rel_timeout deadline hs w asked))"
  shows "e \<in> set asked \<or>
         (\<exists>h \<in> set hs. consumer_id h = ha_consumer_id e \<and>
            (ha_outcome e = HOLDER_OUTCOME_REAPED \<longrightarrow> ever_observed h \<and>
               (\<exists>target k. reap_target_for b (consumer_id h) = Some target \<and>
                  gone k (fst target) (snd target))))"
  using assms
proof (induction hs arbitrary: w asked)
  case (Cons h hs)
  let ?esc = "escalate b rp amount rel_timeout deadline"
  let ?good = "\<lambda>h e. consumer_id h = ha_consumer_id e \<and>
            (ha_outcome e = HOLDER_OUTCOME_REAPED \<longrightarrow> ever_observed h \<and>
               (\<exists>target k. reap_target_for b (consumer_id h) = Some target \<and>
                  gone k (fst target) (snd target)))"
  have step: ?case if "e \<in> set (snd (?esc hs w1 (asked @ [x])))" and "?good h x" for w1 x
    using Cons.IH [OF that(1)] that(2) by auto
  show ?case
  proof (cases "free_now b w \<ge> amount \<or> spent deadline w")
    case True
    with Cons.prems have "e \<in> set asked" by (auto split: if_splits)
    then show ?thesis by blast
  next
    case False
    show ?thesis
    proof (cases "ever_observed h")
      case False
      with Cons.prems \<open>\<not> (free_now b w \<ge> amount \<or> spent deadline w)\<close> show ?thesis
        by (intro step [of w "never_observed_entry (consumer_id h) (amount - free_now b w)"])
          (auto simp: Let_def never_observed_entry_def)
    next
      case True
      show ?thesis
      proof (cases "reap_target_for b (consumer_id h)")
        case None
        with Cons.prems False True show ?thesis
          by (intro step [of w "no_identity_entry (consumer_id h) (amount - free_now b w)"])
            (auto simp: Let_def no_identity_entry_def)
      next
        case (Some target)
        let ?r = "reap_holder b rp (consumer_id h) (amount - free_now b w)
             (held_of (consumer_id h) (held_bytes h) w) target (bound deadline rel_timeout w) w"
        have "?good h (snd ?r)"
          using reap_holder_entry [of b "consumer_id h" "amount - free_now b w"
              "held_of (consumer_id h) (held_bytes h) w" target "bound deadline rel_timeout w" w] True Some
          by auto
        moreover have "e \<in> set (snd (?esc hs (fst ?r) (asked @ [snd ?r])))"
          using Cons.prems False True Some by (simp add: Let_def split_beta)
        ultimately show ?thesis by (rule step [rotated])
      qed
    qed
  qed
qed simp

end

text \<open>The Kubernetes reaper as the broker calls it: one cluster view per call.\<close>

definition k8s_reaper :: "(nat \<Rightarrow> pod_api) \<Rightarrow> rat \<Rightarrow> bool \<Rightarrow> (nat \<Rightarrow> reg_op list) \<Rightarrow> reaper" where
  "k8s_reaper apis interval factory_ok ops tick ns sel timeout =
     (case reap (apis tick) interval factory_ok ns sel timeout 0 0 of
        Some (out, k, t) \<Rightarrow> \<lparr>ra_outcome = out, ra_elapsed = t, ra_meanwhile = ops tick\<rparr>
      | None \<Rightarrow> \<lparr>ra_outcome = reap_failed Unexpected_error 0, ra_elapsed = 0, ra_meanwhile = []\<rparr>)"

definition pods_gone :: "(nat \<Rightarrow> pod_api) \<Rightarrow> nat \<Rightarrow> string \<Rightarrow> string \<Rightarrow> bool" where
  "pods_gone apis tick ns sel \<longleftrightarrow>
     (\<exists>items j. fst (api_list (apis tick) 0 ns sel) = Inr items \<and> pod_targets items \<noteq> [] \<and> 0 < j \<and>
        confirms_gone (pod_targets items) (fst (api_list (apis tick) j ns sel)))"

interpretation k8s: pod_reaper "k8s_reaper apis interval factory_ok ops" "pods_gone apis"
  for apis interval factory_ok ops
proof
  fix k ns sel t
  assume a: "ro_status (ra_outcome (k8s_reaper apis interval factory_ok ops k ns sel t)) = CONFIRMED_REAP"
  then obtain out k' t' where r: "reap (apis k) interval factory_ok ns sel t 0 0 = Some (out, k', t')"
    and "ro_status out = CONFIRMED_REAP"
    by (auto simp: k8s_reaper_def split: option.splits)
  from reap_evidence [OF this] show "pods_gone apis k ns sel" unfolding pods_gone_def by blast
qed

lemma reclaim_not_reaped:
  assumes "reclaim b override amount rel_timeout deadline hs w asked = Inr (w', asked')"
    and "e \<in> set asked'" and "ha_outcome e = HOLDER_OUTCOME_REAPED"
  shows "e \<in> set asked"
  using assms
proof (induction b override amount rel_timeout deadline hs w asked rule: reclaim.induct)
  case (2 b override amount rel_timeout deadline h hs w asked)
  show ?case
  proof (cases "free_now b w \<ge> amount \<or> spent deadline w")
    case True
    with 2 show ?thesis by (auto split: if_splits)
  next
    case False
    let ?q = "request_release b override (consumer_id h) (amount - free_now b w) (bound deadline rel_timeout w) w"
    from False 2(2) obtain w1 out where q: "?q = Inr (w1, out)" by (auto simp: Let_def split: sum.splits)
    note IH = 2(1) [OF _ _ refl refl q refl refl refl _ 2(3,4)]
    have "ha_outcome e \<noteq> outcome_value out" using 2(4) by (cases out) (auto simp: outcome_value_def)
    with 2(2) False q IH show ?thesis by (auto simp: Let_def)
  qed
qed simp

definition breakdown :: "lease_result \<Rightarrow> holder_asked list" where
  "breakdown res = (case res of LeaseGranted g \<Rightarrow> lg_reclaimed g | LeaseDenied d \<Rightarrow> ld_holders_asked d)"

lemma breakdown_simps [simp]:
  "breakdown (LeaseGranted g) = lg_reclaimed g" "breakdown (LeaseDenied d) = ld_holders_asked d"
  by (simp_all add: breakdown_def)

lemma breakdown_commit: "breakdown (snd (commit_grant b cid amount prio asked freeable w)) = asked"
  by (simp add: commit_grant_def breakdown_def split_beta split: option.split)

lemma decide_capacity_reaped:
  assumes dec: "decide_capacity b override cid amount prio rel_timeout deadline w = Inr out"
    and e: "e \<in> set (breakdown (snd out))" "ha_outcome e = HOLDER_OUTCOME_REAPED"
  shows "\<exists>rp w1 w2 asked. b_reaper b = Some rp \<and>
           evolves (b_cfg b) (may_do b override UNIV) (view w) (view w1) \<and> e \<notin> set asked \<and>
           e \<in> set (snd (escalate b rp amount rel_timeout deadline (reap_holders b cid prio w1) w1 asked))"
proof -
  let ?holders = "lease_holders b cid prio w"
  let ?freeable = "free_now b w + sum_list (map held_bytes ?holders) + reapable_bytes b cid prio w"
  have short: "amount \<le> ?freeable" "\<not> amount \<le> free_now b w"
    using dec e by (auto simp: decide_capacity_def Let_def breakdown_commit split: if_splits)
  then obtain w1 asked where r: "reclaim b override amount rel_timeout deadline ?holders w [] = Inr (w1, asked)"
    using dec by (auto simp: decide_capacity_def Let_def split: sum.splits)
  from reclaim_not_reaped [OF r _ e(2)] have ne: "e \<notin> set asked" by auto
  then have s2: "\<not> amount \<le> free_now b w1"
    using dec e short r by (auto simp: decide_capacity_def Let_def breakdown_commit)
  then obtain rp where rp: "b_reaper b = Some rp"
    using dec e short r ne by (cases "b_reaper b") (auto simp: decide_capacity_def Let_def)
  have "e \<in> set (snd (escalate b rp amount rel_timeout deadline (reap_holders b cid prio w1) w1 asked))"
    using dec e short r s2 rp
    by (auto simp: decide_capacity_def Let_def breakdown_commit split_beta split: if_splits)
  with rp ne reclaim_evolves [OF r, of UNIV] show ?thesis by auto
qed


text \<open>The same card at a time at which llamolotl is stale, with the reaper of \<open>sample_cluster\<close>.\<close>

definition reaping_broker :: broker where
  "reaping_broker = set_reap_targets [(''llamolotl'', Some (Some ''ai '', Some ''app=llamolotl''))]
     (set_reaper (k8s_reaper (\<lambda>k. sample_cluster) (1/2) True (\<lambda>k. [])) sample_broker)"

definition stale_world :: world where
  "stale_world = sample_world\<lparr>w_time := 1000\<rparr>"

lemmas reaping_run_defs =
  broker_run_defs reaping_broker_def set_reap_targets_def set_reaper_def k8s_reaper_def stale_world_def
  reap_target_for_def reap_holder_def ever_observed_def py_strip_def rstrip_by_def is_space_def code_def
  sample_reap_defs reap_confirmed_def

lemma sample_reap:
  "\<exists>w' res e. request_lease reaping_broker None lock_free ''speak'' 10 8 (Some 0) stale_world = Inr (w', res) \<and>
     e \<in> set (breakdown res) \<and> ha_outcome e = HOLDER_OUTCOME_REAPED \<and> ha_consumer_id e = ''llamolotl''"
  by (simp add: reaping_run_defs read_defs op_defs row_defs sample_defs)


section \<open>Properties: how long the grant lock is held\<close>

lemma bound_in_budget: "\<not> spent deadline w \<Longrightarrow> w_time w + max 0 (bound deadline per_call w) \<le> deadline"
  by (auto simp: spent_def bound_def remaining_def)

lemma resolve_response_time [simp]: "w_time (fst (resolve_response b cid resp w)) = w_time w"
  by (auto simp: resolve_response_def Let_def split: release_outcome.split option.split)

lemma request_release_time:
  assumes "request_release b override cid amount timeout w = Inr (w', outcome)"
  shows "w_time w' \<le> w_time w + max 0 timeout"
proof (rule request_release_parts [OF assms])
  fix tr w2 ans
  assume w2: "w2 = fst (reg_call b (\<lambda>ok now. set_lease_state ok now cid RELEASING)
            (fst (reg_call b (\<lambda>ok now. set_lease_state ok now cid RELEASE_REQUESTED) w)))"
    and r: "(w', outcome) = resolve_response b cid (fst (wait_for timeout ans))
       (pass_time b (snd (wait_for timeout ans)) (ta_meanwhile ans) w2)"
  from arg_cong [OF r, of "\<lambda>x. w_time (fst x)"]
  have "w_time w' = w_time w + max 0 (snd (wait_for timeout ans))" by (simp add: w2)
  with wait_for_time [of timeout ans] show ?thesis by linarith
qed

lemma reclaim_time:
  assumes "reclaim b override amount rel_timeout deadline hs w asked = Inr (w', asked')"
  shows "w_time w' \<le> max (w_time w) deadline"
  using assms
proof (induction b override amount rel_timeout deadline hs w asked rule: reclaim.induct)
  case (2 b override amount rel_timeout deadline h hs w asked)
  show ?case
  proof (cases "free_now b w \<ge> amount \<or> spent deadline w")
    case True
    with 2(2) show ?thesis by (auto split: if_splits)
  next
    case False
    let ?q = "request_release b override (consumer_id h) (amount - free_now b w) (bound deadline rel_timeout w) w"
    from False 2(2) obtain w1 out where q: "?q = Inr (w1, out)" by (auto simp: Let_def split: sum.splits)
    have "w_time w1 \<le> deadline"
      using request_release_time [OF q] bound_in_budget [of deadline w rel_timeout] False by linarith
    moreover have "w_time w' \<le> max (w_time w1) deadline"
      using 2(2) False q by (intro 2(1) [OF _ _ refl refl q refl refl refl]) (auto simp: Let_def)
    ultimately show ?thesis by linarith
  qed
qed auto

text \<open>A reaper that keeps to the bound it is given.\<close>

definition keeps_bound :: "reaper \<Rightarrow> bool" where
  "keeps_bound rp \<longleftrightarrow> (\<forall>k ns sel t. ra_elapsed (rp k ns sel t) \<le> max 0 t)"

lemma reap_holder_time:
  assumes "keeps_bound rp"
  shows "w_time (fst (reap_holder b rp cid requested before_held target timeout w)) \<le> w_time w + max 0 timeout"
proof -
  have "ra_elapsed (rp (w_tick w) (fst target) (snd target) timeout) \<le> max 0 timeout"
    using assms unfolding keeps_bound_def by blast
  then show ?thesis by (auto simp: reap_holder_def Let_def)
qed

lemma escalate_time:
  assumes "keeps_bound rp"
  shows "w_time (fst (escalate b rp amount rel_timeout deadline hs w asked)) \<le> max (w_time w) deadline"
proof (induction hs arbitrary: w asked)
  case (Cons h hs)
  let ?esc = "escalate b rp amount rel_timeout deadline"
  have reaped: "w_time (fst (?esc hs (fst r) asked1)) \<le> max (w_time w) deadline"
    if "\<not> spent deadline w" and "r = reap_holder b rp (consumer_id h) (amount - free_now b w)
          (held_of (consumer_id h) (held_bytes h) w) target (bound deadline rel_timeout w) w"
      for r target asked1
    using reap_holder_time [OF assms, of b "consumer_id h" "amount - free_now b w"
        "held_of (consumer_id h) (held_bytes h) w" target "bound deadline rel_timeout w" w]
      bound_in_budget [OF that(1), of rel_timeout] Cons.IH [of "fst r" asked1] unfolding that(2) by linarith
  show ?case
    using Cons.IH [of w] reaped [OF _ refl] by (auto simp: Let_def split_beta split: option.split)
qed auto

lemma commit_grant_time [simp]: "w_time (fst (commit_grant b cid amount prio asked freeable w)) = w_time w"
  by (simp add: commit_grant_def split_beta split: option.split)

lemma decide_capacity_time:
  assumes dec: "decide_capacity b override cid amount prio rel_timeout deadline w = Inr out"
    and rp: "\<And>rp. b_reaper b = Some rp \<Longrightarrow> keeps_bound rp"
  shows "w_time (fst out) \<le> max (w_time w) deadline"
proof -
  let ?holders = "lease_holders b cid prio w"
  let ?freeable = "free_now b w + sum_list (map held_bytes ?holders) + reapable_bytes b cid prio w"
  show ?thesis
  proof (cases "amount > ?freeable \<or> amount \<le> free_now b w")
    case True
    with dec show ?thesis by (auto simp: decide_capacity_def Let_def split: if_splits)
  next
    case False
    then obtain w1 asked where r: "reclaim b override amount rel_timeout deadline ?holders w [] = Inr (w1, asked)"
      using dec by (auto simp: decide_capacity_def Let_def split: sum.splits)
    note t1 = reclaim_time [OF r]
    have t2: "w_time (fst (escalate b rp amount rel_timeout deadline hs w1 asked)) \<le> max (w_time w) deadline"
      if "b_reaper b = Some rp" for rp hs
      using escalate_time [OF rp [OF that], of b amount rel_timeout deadline hs w1 asked] t1 by linarith
    show ?thesis using dec False r t1 t2
      by (auto simp: decide_capacity_def Let_def split_beta split: if_splits option.splits)
  qed
qed


text \<open>A consumer that never answers.\<close>

definition hanging :: transport where
  "hanging k cid amount timeout force = \<lparr>ta_after = None, ta_reply = None, ta_meanwhile = []\<rparr>"


text \<open>
  With the Kubernetes reaper that bound is lost: \<open>reap\<close> awaits its listing and its deletes
  without a timeout, so for every duration there is a cluster with which one lease decision keeps
  the grant lock longer, although each step was given at most what is left of the budget.
\<close>

theorem grant_lock_unbounded_with_slow_cluster:
  "\<exists>api w' res. request_lease
      (reaping_broker\<lparr>b_reaper := Some (k8s_reaper (\<lambda>k. api) (1/2) True (\<lambda>k. []))\<rparr>) None lock_free
      ''speak'' 10 8 None stale_world = Inr (w', res) \<and> d \<le> w_time w'"
proof -
  define api where "api = \<lparr>api_list = \<lambda>k ns sel. (Inr ([] :: pod_item list) :: status_attr + pod_item list, d),
      api_delete = \<lambda>k name ns. (Inr () :: status_attr + unit, 0 :: rat)\<rparr>"
  have r: "reap api (1/2) True ns sel t k 0 = Some (reap_failed (No_pods_matched sel ns) 0, Suc k, max 0 d)" for ns sel t k
    by (simp add: reap_def api_def Let_def)
  let ?b = "reaping_broker\<lparr>b_reaper := Some (k8s_reaper (\<lambda>k. api) (1/2) True (\<lambda>k. []))\<rparr>"
  have "\<exists>w' res. request_lease ?b None lock_free ''speak'' 10 8 None stale_world = Inr (w', res) \<and>
      w_time w' = 1000 + max 0 d"
    by (simp add: broker_run_defs reaping_broker_def set_reap_targets_def set_reaper_def k8s_reaper_def r
        stale_world_def reap_target_for_def reap_holder_def ever_observed_def py_strip_def rstrip_by_def
        is_space_def code_def reap_failed_def Let_def read_defs op_defs row_defs sample_defs)
  moreover have "d \<le> 1000 + max 0 d" by linarith
  ultimately show ?thesis by metis
qed

section \<open>Properties: release requests\<close>

lemma get_pass_time_quiet:
  assumes "\<forall>op \<in> set ops. op_target op \<noteq> c"
  shows "get_consumer c (w_reg (pass_time b d ops w)) = get_consumer c (w_reg w)"
  using evolves_get_other [OF pass_time_evolves [OF assms, of b w d]] by (simp add: view_def)

text \<open>
  A release request never fabricates a success and never leaves a consumer mid-release (R2).
  With the transport answering anything at all, or nothing, and as long as the commits succeed and
  nobody else writes the consumer's row, the row afterwards is \<open>steady\<close> after a confirmation or a
  refusal and \<open>stale\<close> after a timeout; only a confirmation changes what the consumer holds, and
  then to the figure the consumer itself reported, with its reservation gone.
\<close>

theorem release_outcome_faithful:
  assumes "request_release b override cid amount timeout w = Inr (w', outcome)"
    and "get_consumer cid (w_reg w) = Some r" and "\<forall>k. b_commit b k"
    and "\<forall>op \<in> meanwhile b override. op_target op \<noteq> cid"
  shows "\<exists>r'. get_consumer cid (w_reg w') = Some r' \<and>
           lease_state r' = (if outcome = TIMEOUT then STALE else STEADY) \<and>
           (if outcome = CONFIRMED
            then reserved_bytes r' = None \<and>
                 (\<exists>tr k resp. tr \<in> set_option override \<union> set_option (b_transport b) \<and>
                    ta_reply (tr k cid amount timeout False) = Some resp \<and> rr_outcome resp = CONFIRMED \<and>
                    rr_new_held_bytes resp = Some (held_bytes r'))
            else held_bytes r' = held_bytes r \<and> reserved_bytes r' = reserved_bytes r)"
proof (rule request_release_parts [OF assms(1)])
  fix tr w2 ans
  assume tr: "tr \<in> set_option override \<union> set_option (b_transport b)"
    and w2: "w2 = fst (reg_call b (\<lambda>ok now. set_lease_state ok now cid RELEASING)
            (fst (reg_call b (\<lambda>ok now. set_lease_state ok now cid RELEASE_REQUESTED) w)))"
    and ans: "ans = tr (w_tick w2) cid amount timeout False"
    and res: "(w', outcome) = resolve_response b cid (fst (wait_for timeout ans))
       (pass_time b (snd (wait_for timeout ans)) (ta_meanwhile ans) w2)"
  let ?w3 = "pass_time b (snd (wait_for timeout ans)) (ta_meanwhile ans) w2"
  have "\<forall>op \<in> set (ta_meanwhile ans). op_target op \<noteq> cid"
    using transport_may_do [OF tr, of "w_tick w2" cid amount timeout False "{}"] assms(4)
    unfolding ans may_do_def by blast
  then have g3: "get_consumer cid (w_reg ?w3) = get_consumer cid (w_reg w2)" by (rule get_pass_time_quiet)
  have "\<exists>r3. get_consumer cid (w_reg w2) = Some r3 \<and> held_bytes r3 = held_bytes r \<and>
      reserved_bytes r3 = reserved_bytes r"
    unfolding w2 using assms(2,3)
    by (auto simp: set_lease_state_def lease_state_w.write_fst_get row_defs)
  then obtain r3 where r3: "get_consumer cid (w_reg ?w3) = Some r3" "held_bytes r3 = held_bytes r"
      "reserved_bytes r3 = reserved_bytes r"
    unfolding g3 by blast
  have conf: "rr_outcome (fst (wait_for timeout ans)) = CONFIRMED \<Longrightarrow> ta_reply ans = Some (fst (wait_for timeout ans))"
    by (auto simp: wait_for_def timeout_response_def split: option.splits if_splits)
  show ?thesis
  proof (cases "rr_outcome (fst (wait_for timeout ans))")
    case CONFIRMED
    then show ?thesis using res r3 assms(3) tr conf ans
      by (cases "rr_new_held_bytes (fst (wait_for timeout ans))")
        (auto simp: resolve_response_def Let_def op_defs lease_state_w.write_fst_get confirmed_w.write_fst_get row_defs)
  qed (use res r3 assms(3) in
        \<open>auto simp: resolve_response_def Let_def op_defs lease_state_w.write_fst_get row_defs\<close>)
qed

theorem release_outcome_faithful_witness:
  "\<exists>w' r'. request_release sample_broker None ''llamolotl'' 6 30 sample_world = Inr (w', CONFIRMED) \<and>
     get_consumer ''llamolotl'' (w_reg w') = Some r' \<and> lease_state r' = STEADY \<and> held_bytes r' = 4"
proof -
  have "\<exists>w'. request_release sample_broker None ''llamolotl'' 6 30 sample_world = Inr (w', CONFIRMED)"
    by (simp add: broker_run_defs op_defs row_defs read_defs sample_defs)
  then obtain w' where e: "request_release sample_broker None ''llamolotl'' 6 30 sample_world = Inr (w', CONFIRMED)"
    by blast
  have g: "get_consumer ''llamolotl'' (w_reg sample_world) = Some (sample_row ''llamolotl'' 24 20 5 0)"
    by (simp add: sample_world_def get_consumer_def sample_row_def)
  have ok: "\<forall>k. b_commit sample_broker k" by (simp add: sample_broker_def)
  have q: "\<forall>op \<in> meanwhile sample_broker None. op_target op \<noteq> ''llamolotl''" by (simp add: sample_meanwhile)
  have t: "b_transport sample_broker = Some yielding" by (simp add: sample_broker_def)
  from release_outcome_faithful [OF e g ok q] e show ?thesis by (auto simp: t yielding_def)
qed

section \<open>Properties: the exclusive lease\<close>

lemma acquire_exclusive_seize:
  assumes "acquire_exclusive b override lk cid timeout w = (w', Inr res)"
  shows "(\<exists>ex. w' = pass_time b (lk_wait lk) (lk_meanwhile lk) w \<and> \<not> er_acquired res \<and>
            er_blocking_holder res = Some ex \<and> ex \<noteq> cid) \<or>
         (\<exists>w2 asked. seize b cid asked w2 = (w', Inr res))"
  using assms
  by (auto simp: acquire_exclusive_def Let_def split_beta split: if_splits option.splits sum.splits)

lemma seize_acquired:
  assumes "seize b cid asked w = (w', Inr res)" and "er_acquired res"
  shows "still_holding b cid w = [] \<and> w_time w' = w_time w \<and>
         set_exclusive (b_cfg b) (b_commit b (w_tick w)) (now_of w) cid True (w_reg w) = Inr (w_reg w', True)"
  using assms by (auto simp: seize_def Let_def split: if_splits sum.splits)

lemma still_holding_Nil:
  assumes "still_holding b cid w = []" and "r \<in> set (w_reg w)" and "consumer_id r \<noteq> cid"
  shows "held_bytes r \<le> 0"
proof (rule ccontr)
  assume "\<not> held_bytes r \<le> 0"
  with assms(2,3) have "r \<in> set (still_holding b cid w)"
    by (auto simp: still_holding_def others_def eligible_mem stale_mem)
  with assms(1) show False by simp
qed

lemma set_exclusive_won:
  assumes "set_exclusive cfg ok now cid e reg = Inr (reg', True)"
  shows "reg' = update_by consumer_id cid (exclusive_row now (if e then EXCLUSIVE else SHARED)) reg \<and>
         (\<exists>r. get_consumer cid reg = Some r) \<and>
         (e \<longrightarrow> (\<forall>r \<in> set reg. lease_mode r = EXCLUSIVE \<and> effective_state cfg now r \<noteq> STALE \<longrightarrow> consumer_id r = cid))"
  using assms by (auto simp: set_exclusive_def split: option.splits if_splits)

lemma acquired_card:
  assumes "acquire_exclusive b override lk cid timeout w = (w', Inr res)" and "er_acquired res"
  shows "(\<forall>r \<in> set (w_reg w'). consumer_id r \<noteq> cid \<longrightarrow>
            held_bytes r \<le> 0 \<and> \<not> exclusive_active (b_cfg b) (now_of w') r) \<and>
         (\<exists>r. get_consumer cid (w_reg w') = Some r \<and> lease_mode r = EXCLUSIVE)"
proof -
  from acquire_exclusive_seize [OF assms(1)] assms(2) obtain w2 asked
    where "seize b cid asked w2 = (w', Inr res)" by auto
  note s = seize_acquired [OF this assms(2)]
  have now: "now_of w' = now_of w2" using s by (simp add: now_of_def)
  from s set_exclusive_won [of "b_cfg b" "b_commit b (w_tick w2)" "now_of w2" cid True "w_reg w2" "w_reg w'"]
  obtain r where reg': "w_reg w' = update_by consumer_id cid (exclusive_row (now_of w2) EXCLUSIVE) (w_reg w2)"
    and r: "get_consumer cid (w_reg w2) = Some r"
    and only: "\<forall>r \<in> set (w_reg w2). lease_mode r = EXCLUSIVE \<and>
        effective_state (b_cfg b) (now_of w2) r \<noteq> STALE \<longrightarrow> consumer_id r = cid" by auto
  have "held_bytes x \<le> 0 \<and> \<not> exclusive_active (b_cfg b) (now_of w') x"
    if x: "x \<in> set (w_reg w')" "consumer_id x \<noteq> cid" for x
  proof -
    from x have "x \<in> set (w_reg w2)"
      unfolding reg' mem_update_by by (auto simp: exclusive_w.key_kept split: if_splits)
    with s x(2) only show ?thesis unfolding exclusive_active_def now by (blast intro: still_holding_Nil)
  qed
  moreover have "get_consumer cid (w_reg w') = Some (exclusive_row (now_of w2) EXCLUSIVE r)"
    unfolding reg' using r by (simp add: get_consumer_def exclusive_w.find_written)
  ultimately show ?thesis by (auto simp: row_defs)
qed

text \<open>
  C2: Confirmed or nothing (R1-AC4, Decision 6). If \<open>acquire_exclusive\<close> reports success then, in
  the registry it leaves, no other consumer has a measured holding, no other consumer holds an
  active exclusive lease, and the requester's row is marked exclusive.
\<close>

theorem exclusive_only_on_cleared_card:
  assumes "acquire_exclusive b override lk cid timeout w = (w', Inr res)" and "er_acquired res"
  shows "(\<forall>r \<in> set (w_reg w'). consumer_id r \<noteq> cid \<longrightarrow>
            held_bytes r \<le> 0 \<and> \<not> exclusive_active (b_cfg b) (now_of w') r) \<and>
         (\<exists>r. get_consumer cid (w_reg w') = Some r \<and> lease_mode r = EXCLUSIVE)"
  using acquired_card [OF assms] .

definition clearing :: transport where
  "clearing k cid amount timeout force =
     \<lparr>ta_after = Some 1, ta_reply = Some \<lparr>rr_outcome = CONFIRMED, rr_new_held_bytes = Some 0, rr_reason = None\<rparr>,
      ta_meanwhile = []\<rparr>"

lemmas exclusive_run_defs =
  acquire_exclusive_def clearing_def seize_def still_holding_def others_def

theorem exclusive_only_on_cleared_card_witness:
  "\<exists>w' res. acquire_exclusive sample_broker (Some clearing) lock_free ''speak'' None sample_world = (w', Inr res) \<and>
     er_acquired res \<and> (\<forall>r \<in> set (w_reg w'). consumer_id r \<noteq> ''speak'' \<longrightarrow> held_bytes r \<le> 0)"
proof -
  have "\<exists>w' res. acquire_exclusive sample_broker (Some clearing) lock_free ''speak'' None sample_world = (w', Inr res) \<and>
      er_acquired res"
    by (simp add: exclusive_run_defs broker_run_defs op_defs row_defs read_defs sample_defs)
  then obtain w' res where e: "acquire_exclusive sample_broker (Some clearing) lock_free ''speak'' None sample_world = (w', Inr res)"
    "er_acquired res" by blast
  from exclusive_only_on_cleared_card [OF e] e show ?thesis by blast
qed

lemma clear_card_evolves:
  assumes "clear_card b override rel_timeout deadline hs w asked = (w', Inr asked')"
    and "\<forall>h \<in> set hs. consumer_id h \<in> A"
  shows "evolves (b_cfg b) (may_do b override A) (view w) (view w')"
  using assms
proof (induction hs arbitrary: w asked)
  case (Cons h hs)
  let ?held = "held_of (consumer_id h) (held_bytes h) w"
  let ?q = "request_release b override (consumer_id h) ?held (bound deadline rel_timeout w) w"
  have IH: "clear_card b override rel_timeout deadline hs w1 asked1 = (w', Inr asked') \<Longrightarrow>
      evolves (b_cfg b) (may_do b override A) (view w1) (view w')" for w1 asked1
    using Cons by simp
  consider "?held \<le> 0" | "0 < ?held" "spent deadline w" | "0 < ?held" "\<not> spent deadline w" by linarith
  then show ?case
  proof cases
    case 1
    with Cons.prems(1) IH show ?thesis by (simp add: Let_def)
  next
    case 2
    with Cons.prems(1) show ?thesis by (auto simp: Let_def intro: start)
  next
    case 3
    with Cons.prems(1) obtain w1 out where q: "?q = Inr (w1, out)" by (auto simp: Let_def split: sum.splits)
    with 3 Cons.prems(1) IH have "evolves (b_cfg b) (may_do b override A) (view w1) (view w')"
      by (auto simp: Let_def)
    with request_release_evolves [OF q] Cons.prems(2) show ?thesis by (auto intro: evolves_trans)
  qed
qed (auto intro: start)

lemma reap_card_evolves:
  assumes "b_reaper b = Some rp" and "\<forall>h \<in> set hs. consumer_id h \<in> A"
  shows "evolves (b_cfg b) (may_do b override A) (view w)
           (view (fst (reap_card b rp rel_timeout deadline hs w asked)))"
  using assms(2)
proof (induction hs arbitrary: w asked)
  case (Cons h hs)
  let ?card = "reap_card b rp rel_timeout deadline" and ?held = "held_of (consumer_id h) (held_bytes h) w"
  have IH: "evolves (b_cfg b) (may_do b override A) (view w1) (view (fst (?card hs w1 asked1)))"
    for w1 asked1 using Cons by simp
  let ?r = "\<lambda>target. reap_holder b rp (consumer_id h) ?held ?held target (bound deadline rel_timeout w) w"
  have "evolves (b_cfg b) (may_do b override A) (view w) (view (fst (?r target)))" for target
    by (rule reap_holder_evolves [OF assms(1)]) (use Cons in simp)
  with IH have "evolves (b_cfg b) (may_do b override A) (view w)
      (view (fst (?card hs (fst (?r target)) asked1)))" for target asked1
    by (blast intro: evolves_trans)
  with IH show ?case by (auto simp: Let_def split_beta intro: start split: option.split)
qed (auto intro: start)

text \<open>Only \<open>set_exclusive\<close> adds a consumer to the ones marked exclusive.\<close>

definition marked :: "registry \<Rightarrow> string set" where
  "marked reg = consumer_id ` {r \<in> set reg. lease_mode r = EXCLUSIVE}"

lemma exec_op_marked:
  assumes "\<And>c. op \<noteq> Op_set_exclusive c True"
  shows "marked (exec_op cfg ok now op reg) \<subseteq> marked reg"
proof -
  have row: "lease_mode (op_row now h op r) = EXCLUSIVE \<Longrightarrow> lease_mode r = EXCLUSIVE" for h r
    using assms by (cases op) (auto simp: row_defs split: if_splits)
  have upd: "marked (update_by consumer_id k (op_row now h op) reg) \<subseteq> marked reg" for k h
    unfolding marked_def by (auto simp: mem_update_by op_w.key_kept dest: row)
  have app: "marked (reg @ [new_consumer form now]) = marked reg" for form
    by (auto simp: marked_def new_consumer_def)
  from exec_op_shape [of cfg ok now op reg] upd app show ?thesis by (elim disjE) auto
qed

lemma evolves_marked:
  assumes "evolves cfg P s s'" and "\<And>op c. P op \<Longrightarrow> op \<noteq> Op_set_exclusive c True"
  shows "marked (fst s') \<subseteq> marked (fst s)"
  using assms(1)
proof (induction rule: evolves.induct)
  case (act reg t op ok)
  with exec_op_marked [OF assms(2), of op cfg ok "\<lfloor>t\<rfloor>" reg] show ?case by auto
qed auto

lemma acquire_exclusive_path:
  assumes "acquire_exclusive b override lk cid timeout w = (w', Inr res)"
  shows "w' = pass_time b (lk_wait lk) (lk_meanwhile lk) w \<and> \<not> er_acquired res \<or>
         (\<exists>w2 asked. evolves (b_cfg b) (may_do b override (- {cid}))
                        (view (pass_time b (lk_wait lk) (lk_meanwhile lk) w)) (view w2) \<and>
            seize b cid asked w2 = (w', Inr res))"
proof -
  let ?w = "pass_time b (lk_wait lk) (lk_meanwhile lk) w"
  let ?to = "case timeout of None \<Rightarrow> GRANT_RELEASE_TIMEOUT_SECONDS b | Some s \<Rightarrow> s"
  let ?dl = "new_budget (GRANT_TOTAL_TIMEOUT_SECONDS b) w"
  let ?e = "others cid (eligible_holders (b_cfg b) (now_of ?w) (w_reg ?w))"
  show ?thesis
  proof (cases "w' = ?w \<and> \<not> er_acquired res")
    case False
    with assms obtain w1 asked where c: "clear_card b override ?to ?dl ?e ?w [] = (w1, Inr asked)"
      by (auto simp: acquire_exclusive_def Let_def split: if_splits option.splits sum.splits prod.splits)
    have e1: "evolves (b_cfg b) (may_do b override (- {cid})) (view ?w) (view w1)"
      by (rule clear_card_evolves [OF c]) (simp add: others_def)
    show ?thesis
    proof (cases "b_reaper b")
      case None
      with False assms c have "seize b cid asked w1 = (w', Inr res)"
        by (auto simp: acquire_exclusive_def Let_def split: if_splits option.splits)
      with e1 show ?thesis by blast
    next
      case (Some rp)
      let ?r = "reap_card b rp ?to ?dl (others cid (stale_holders (b_cfg b) (now_of w1) (w_reg w1))) w1 asked"
      have "evolves (b_cfg b) (may_do b override (- {cid})) (view w1) (view (fst ?r))"
        by (rule reap_card_evolves [OF Some]) (simp add: others_def)
      moreover have "seize b cid (snd ?r) (fst ?r) = (w', Inr res)"
        using False assms c Some by (auto simp: acquire_exclusive_def Let_def split_beta split: if_splits option.splits)
      ultimately show ?thesis using e1 by (blast intro: evolves_trans)
    qed
  qed simp
qed

text \<open>
  No half-held exclusive lease. When \<open>acquire_exclusive\<close> does not succeed, no consumer is
  marked exclusive that was not before it, as long as no other coroutine marks one meanwhile; the
  card may have been partly cleared, but the flag that blocks every grant is not set. When it
  succeeds the only new one is the requester.
\<close>

theorem failed_acquire_marks_nobody:
  assumes "acquire_exclusive b override lk cid timeout w = (w', Inr res)"
    and "\<forall>op \<in> meanwhile b override. \<forall>c. op \<noteq> Op_set_exclusive c True"
  shows "marked (w_reg w') \<subseteq> marked (w_reg (pass_time b (lk_wait lk) (lk_meanwhile lk) w)) \<union>
           (if er_acquired res then {cid} else {})"
proof -
  let ?w = "pass_time b (lk_wait lk) (lk_meanwhile lk) w"
  have P: "op \<noteq> Op_set_exclusive c True" if "may_do b override (- {cid}) op" for op c
    using that assms(2) by (auto simp: may_do_def)
  from acquire_exclusive_path [OF assms(1)] consider "w' = ?w"
    | w2 asked where "evolves (b_cfg b) (may_do b override (- {cid})) (view ?w) (view w2)"
        "seize b cid asked w2 = (w', Inr res)" by blast
  then show ?thesis
  proof cases
    case 2
    from evolves_marked [OF 2(1) P] have m: "marked (w_reg w2) \<subseteq> marked (w_reg ?w)" by (simp add: view_def)
    have "marked (w_reg w') \<subseteq> marked (w_reg w2) \<union> (if er_acquired res then {cid} else {})"
    proof (cases "er_acquired res")
      case True
      from seize_acquired [OF 2(2) True] set_exclusive_won
      have "w_reg w' = update_by consumer_id cid (exclusive_row (now_of w2) EXCLUSIVE) (w_reg w2)" by fastforce
      with True show ?thesis unfolding marked_def
        by (auto simp: mem_update_by exclusive_w.key_kept image_iff split: if_splits)
    next
      case False
      with 2(2) have "w_reg w' = w_reg w2"
        by (auto simp: seize_def Let_def set_exclusive_def split: if_splits sum.splits option.splits)
      then show ?thesis by simp
    qed
    with m show ?thesis by blast
  qed auto
qed

theorem failed_acquire_marks_nobody_witness:
  "\<exists>w' res. acquire_exclusive sample_broker (Some refusing) lock_free ''speak'' None sample_world = (w', Inr res) \<and>
     \<not> er_acquired res \<and> marked (w_reg w') = {}"
proof -
  have "\<exists>w' res. acquire_exclusive sample_broker (Some refusing) lock_free ''speak'' None sample_world = (w', Inr res) \<and>
      \<not> er_acquired res"
    by (simp add: exclusive_run_defs refusing_def broker_run_defs op_defs row_defs read_defs sample_defs)
  then obtain w' res where e: "acquire_exclusive sample_broker (Some refusing) lock_free ''speak'' None sample_world = (w', Inr res)"
    "\<not> er_acquired res" by blast
  have "marked (w_reg (pass_time sample_broker (lk_wait lock_free) (lk_meanwhile lock_free) sample_world)) = {}"
    by (auto simp: marked_def pass_time_def lock_free_def sample_world_def sample_row_def)
  with failed_acquire_marks_nobody [OF e(1)] e show ?thesis by (auto simp: sample_meanwhile)
qed

lemma active_exclusive_holder_Some:
  assumes "active_exclusive_holder cfg now reg = Some ex"
  shows "ex \<in> set reg \<and> exclusive_active cfg now ex"
proof -
  have "set (sort_key priority (active_exclusive cfg now reg)) = set (active_exclusive cfg now reg)" by simp
  moreover have "ex \<in> set (sort_key priority (active_exclusive cfg now reg))"
    using assms unfolding active_exclusive_holder_def
    by (cases "sort_key priority (active_exclusive cfg now reg)") simp_all
  ultimately show ?thesis by (auto simp: set_active_exclusive)
qed

lemma active_exclusive_holder_None:
  "active_exclusive_holder cfg now reg = None \<longleftrightarrow> (\<forall>r \<in> set reg. \<not> exclusive_active cfg now r)"
proof
  assume "active_exclusive_holder cfg now reg = None"
  then have "sort_key priority (active_exclusive cfg now reg) = []"
    unfolding active_exclusive_holder_def
    by (cases "sort_key priority (active_exclusive cfg now reg)") simp_all
  then have "set (active_exclusive cfg now reg) = {}" unfolding sort_key_Nil_iff by simp
  then show "\<forall>r \<in> set reg. \<not> exclusive_active cfg now r" unfolding set_active_exclusive by blast
qed (metis active_exclusive_holder_Some not_None_eq)

text \<open>
  \<open>release_exclusive\<close> ends the window at once (R1-AC3). When it returns, the consumer is not
  marked exclusive any more, every other row is untouched, and if it reports that it cleared an
  active lease and at most one was active, then no exclusive lease is active: the next request
  is decided on capacity alone.
\<close>

theorem release_exclusive_resumes_grants:
  assumes "release_exclusive b lk cid w = (w', Inr was_holder)"
    and "one_exclusive (b_cfg b) (now_of (pass_time b (lk_wait lk) (lk_meanwhile lk) w))
           (w_reg (pass_time b (lk_wait lk) (lk_meanwhile lk) w))"
  shows "(\<forall>r \<in> set (w_reg w'). consumer_id r = cid \<longrightarrow> lease_mode r = SHARED) \<and>
         (\<forall>c. c \<noteq> cid \<longrightarrow> get_consumer c (w_reg w') =
            get_consumer c (w_reg (pass_time b (lk_wait lk) (lk_meanwhile lk) w))) \<and>
         (was_holder \<longrightarrow> active_exclusive_holder (b_cfg b) (now_of w') (w_reg w') = None)"
proof -
  let ?w = "pass_time b (lk_wait lk) (lk_meanwhile lk) w"
  from assms(1) have time: "now_of w' = now_of ?w"
    by (auto simp: release_exclusive_def Let_def now_of_def split: sum.splits)
  show ?thesis
  proof (cases "get_consumer cid (w_reg ?w)")
    case None
    then have reg': "w_reg w' = w_reg ?w" using assms(1)
      by (auto simp: release_exclusive_def Let_def set_exclusive_def)
    have absent: "consumer_id r \<noteq> cid" if "r \<in> set (w_reg ?w)" for r
      using that None by (auto simp: get_consumer_def find_by_None)
    have "\<not> was_holder" using assms(1) absent
      by (auto simp: release_exclusive_def Let_def dest!: active_exclusive_holder_Some split: sum.splits option.splits)
    with reg' absent show ?thesis by auto
  next
    case (Some r0)
    then have reg': "w_reg w' = update_by consumer_id cid (exclusive_row (now_of ?w) SHARED) (w_reg ?w)"
      using assms(1) by (auto simp: release_exclusive_def Let_def set_exclusive_def split: if_splits)
    have shared: "lease_mode r = SHARED" if "r \<in> set (w_reg w')" "consumer_id r = cid" for r
    proof -
      from that(1) obtain y where y: "r = (if consumer_id y = cid then exclusive_row (now_of ?w) SHARED y else y)"
        unfolding reg' mem_update_by by blast
      with that(2) have "consumer_id y = cid" by (cases "consumer_id y = cid") simp_all
      with y show ?thesis by (simp add: exclusive_row_def)
    qed
    have None': "active_exclusive_holder (b_cfg b) (now_of w') (w_reg w') = None" if was_holder
    proof -
      from that assms(1) obtain ex where ex: "active_exclusive_holder (b_cfg b) (now_of ?w) (w_reg ?w) = Some ex"
        "consumer_id ex = cid" by (auto simp: release_exclusive_def Let_def split: sum.splits option.splits)
      have "\<not> exclusive_active (b_cfg b) (now_of ?w) x" if x: "x \<in> set (w_reg w')" for x
      proof (cases "consumer_id x = cid")
        case True
        with shared x show ?thesis by (simp add: exclusive_active_def)
      next
        case False
        with x have "x \<in> set (w_reg ?w)" unfolding reg' mem_update_by
          by (auto simp: exclusive_w.key_kept split: if_splits)
        with False ex active_exclusive_holder_Some [OF ex(1)] assms(2) show ?thesis
          unfolding one_exclusive_def by blast
      qed
      then show ?thesis unfolding active_exclusive_holder_None time by blast
    qed
    have "get_consumer c (w_reg w') = get_consumer c (w_reg ?w)" if "c \<noteq> cid" for c
      unfolding reg' using that by (simp add: get_consumer_def exclusive_w.find_other)
    with shared None' show ?thesis by blast
  qed
qed

theorem release_exclusive_resumes_grants_witness:
  "\<exists>w'. release_exclusive sample_broker lock_free ''speak''
       (sample_world\<lparr>w_reg := [sample_row ''llamolotl'' 24 20 5 0, (sample_row ''speak'' 24 0 8 0)\<lparr>lease_mode := EXCLUSIVE\<rparr>]\<rparr>) =
       (w', Inr True) \<and> active_exclusive_holder (b_cfg sample_broker) (now_of w') (w_reg w') = None"
proof -
  let ?w = "sample_world\<lparr>w_reg := [sample_row ''llamolotl'' 24 20 5 0, (sample_row ''speak'' 24 0 8 0)\<lparr>lease_mode := EXCLUSIVE\<rparr>]\<rparr>"
  have "\<exists>w'. release_exclusive sample_broker lock_free ''speak'' ?w = (w', Inr True)"
    by (simp add: release_exclusive_def broker_run_defs op_defs row_defs read_defs sample_defs)
  then obtain w' where e: "release_exclusive sample_broker lock_free ''speak'' ?w = (w', Inr True)" by blast
  have "one_exclusive (b_cfg sample_broker)
      (now_of (pass_time sample_broker (lk_wait lock_free) (lk_meanwhile lock_free) ?w))
      (w_reg (pass_time sample_broker (lk_wait lock_free) (lk_meanwhile lock_free) ?w))"
    by (simp add: one_exclusive_def exclusive_active_def pass_time_def lock_free_def sample_row_def)
  from release_exclusive_resumes_grants [OF e this] e show ?thesis by blast
qed

lemma clear_card_error:
  "snd (clear_card b override rel_timeout deadline hs w asked) \<noteq> Inl (ValueError m)"
proof (induction hs arbitrary: w asked)
  case (Cons h hs)
  then show ?case
    by (auto simp: Let_def request_release_def split: if_splits sum.splits option.splits prod.splits)
qed simp

lemma set_exclusive_error: "set_exclusive cfg ok now cid e reg = Inl x \<Longrightarrow> x = DbError"
  by (auto simp: set_exclusive_def split: option.splits if_splits)

lemma registered_after_wait:
  "get_consumer cid (w_reg w) \<noteq> None \<Longrightarrow> get_consumer cid (w_reg (pass_time b d ops w)) \<noteq> None"
  using evolves_registered [OF pass_time_evolves [of ops "\<lambda>op. True" b w d]] by (simp add: view_def)

lemma acquire_exclusive_no_value_error:
  assumes "get_consumer cid (w_reg w) \<noteq> None"
  shows "acquire_exclusive b override lk cid timeout w \<noteq> (w', Inl (ValueError m))"
proof
  assume a: "acquire_exclusive b override lk cid timeout w = (w', Inl (ValueError m))"
  have seize_ok: "snd (seize b cid asked w2) \<noteq> Inl (ValueError m)" for asked w2
    by (auto simp: seize_def Let_def split: sum.splits dest: set_exclusive_error)
  from a have "snd (acquire_exclusive b override lk cid timeout w) = Inl (ValueError m)" by simp
  with registered_after_wait [OF assms, of b "lk_wait lk" "lk_meanwhile lk"] show False
    unfolding acquire_exclusive_def Let_def split_beta
    by (auto simp: clear_card_error seize_ok split: if_splits option.splits sum.splits prod.splits)
qed

section \<open>Where the accounting over-commits the card\<close>

definition lapsed_world :: world where
  "lapsed_world = sample_world\<lparr>w_time := 201, w_reg := run_ops default_lease_config
     [(0, True, Op_register (sample_form ''llamolotl'' 24 0 5)),
      (0, True, Op_register (sample_form ''speak'' 24 0 8)),
      (0, True, Op_grant ''speak'' 10 (Some 8)),
      (200, True, Op_heartbeat ''llamolotl'' 20),
      (200, True, Op_heartbeat ''speak'' 0)] []\<rparr>"

text \<open>
  A grant revives an expired reservation. Speak was granted 10 of 24 units and never
  allocated them; the reservation expired and llamolotl took 20 units. A request of speak for the
  4 free units is granted, but the write adds them to the expired 10 and renews the timestamp, so
  34 of 24 units are accounted for afterwards and free capacity is pinned at zero.
\<close>

theorem expired_reservation_revived_by_grant:
  "\<exists>w' g. free_now sample_broker lapsed_world = 4 \<and>
     request_lease sample_broker None lock_free ''speak'' 4 8 None lapsed_world = Inr (w', LeaseGranted g) \<and>
     total_held default_lease_config (now_of w') (w_reg w') = 34 \<and> total_capacity (w_reg w') = 24"
  by (simp add: lapsed_world_def broker_run_defs op_defs row_defs read_defs sample_defs)

definition holding_world :: world where
  "holding_world = sample_world\<lparr>w_reg := [sample_row ''speak'' 24 10 8 0, sample_row ''sketch'' 24 0 8 0]\<rparr>"

text \<open>
  A second grant to a consumer that already holds VRAM is not counted. Speak holds 10 of 24
  units and is granted 10 more (a grant adds to what it holds); the effective holding is the
  larger of measurement and reservation, still 10, so the same 14 units are granted again to the
  next requester: 34 units are promised on a card of 24.
\<close>

theorem grant_to_holder_double_spends:
  "\<exists>w1 g1 w2 g2.
     request_lease sample_broker None lock_free ''speak'' 10 8 None holding_world = Inr (w1, LeaseGranted g1) \<and>
     request_lease sample_broker None lock_free ''sketch'' 14 8 None w1 = Inr (w2, LeaseGranted g2) \<and>
     total_measured_held (w_reg holding_world) + lg_granted_bytes g1 + lg_granted_bytes g2 = 34 \<and>
     total_capacity (w_reg w2) = 24"
  by (simp add: holding_world_def broker_run_defs op_defs row_defs read_defs sample_defs)

text \<open>
  The exclusive acquire looks at measured holdings only. A consumer that was granted 10 units
  and is about to allocate them does not stop another one from seizing the whole card.
\<close>

theorem exclusive_ignores_reservations:
  "\<exists>w1 g w2 res.
     request_lease sample_broker None lock_free ''sketch'' 10 8 None
       (holding_world\<lparr>w_reg := [sample_row ''curator'' 24 0 8 0, sample_row ''sketch'' 24 0 8 0]\<rparr>) =
       Inr (w1, LeaseGranted g) \<and>
     acquire_exclusive sample_broker None lock_free ''curator'' None w1 = (w2, Inr res) \<and>
     er_acquired res \<and> total_held default_lease_config (now_of w2) (w_reg w2) = 10"
  by (simp add: holding_world_def exclusive_run_defs broker_run_defs op_defs row_defs read_defs sample_defs)

end
