(* ===== verification/Vram_Transports.thy ===== *)
theory Vram_Transports
  imports Vram_Broker
begin

text \<open>
  The outbound side of the broker: the release transports of \<open>utils/vram_llamolotl.py\<close>,
  \<open>utils/vram_speak.py\<close>, \<open>utils/vram_sketch.py\<close> and \<open>utils/vram_curator.py\<close>, and the dispatcher
  that routes a release by consumer. The HTTP client and the ticket service are parameters: whether
  a ticket can be minted and what a POST answers and how long it takes. A decoded JSON body is a
  \<open>json\<close> value. The transports read the registry when the reply arrives, so they take that
  registry as an argument. Exception texts interpolated into the \<open>reason\<close> of a response are left out.

  The lemmas show that a reply counts as a release only when it is an unambiguous one, that a
  confirmed figure can only lower what the registry believed, hence never lowers the free
  capacity, that nothing is sent without a base URL and a ticket, and that the dispatcher sends
  each consumer's release to its own endpoint.
\<close>

section \<open>Data\<close>

text \<open>An HTTP reply: its status where that is an int, and its body where it decodes.\<close>

record http_reply =
  hr_status :: "int option"
  hr_json :: "json option"

record app_config =
  LLAMOLOTL_CONTROL_BASE_URLS :: "string list option"
  TTS_CONTROL_BASE_URL :: "string option"
  SKETCH_CONTROL_BASE_URL :: "string option"
  CURATOR_CONTROL_BASE_URL :: "string option"

record release_body =
  rb_target_bytes :: int
  rb_timeout_seconds :: rat
  rb_force :: bool

record http_env =
  he_mint :: "string \<Rightarrow> string \<Rightarrow> bool"
  he_post :: "string \<Rightarrow> release_body \<Rightarrow> http_reply option \<times> rat"

text \<open>What a transport call answers, after how long, and the POSTs it made.\<close>

record release_call =
  rc_response :: release_response
  rc_elapsed :: rat
  rc_posts :: "(string \<times> release_body) list"

definition is_2xx :: "http_reply \<Rightarrow> bool" where
  "is_2xx reply = (case hr_status reply of None \<Rightarrow> False | Some s \<Rightarrow> 200 \<le> s \<and> s < 300)"

definition LLAMOLOTL_AUDIENCE :: string where "LLAMOLOTL_AUDIENCE = ''self.llamolotl''"
definition SPEAK_AUDIENCE :: string where "SPEAK_AUDIENCE = ''self.speak''"
definition SKETCH_AUDIENCE :: string where "SKETCH_AUDIENCE = ''self.sketch''"
definition CURATOR_AUDIENCE :: string where "CURATOR_AUDIENCE = ''self.curator''"
definition RELEASE_SCOPE :: string where "RELEASE_SCOPE = ''system:write''"
definition RELEASE_PATH :: string where "RELEASE_PATH = ''/api/system/vram-release''"

definition CONFIRMED_STATUSES :: "string list" where
  "CONFIRMED_STATUSES = [''released'', ''partial'', ''confirmed'']"

definition DENIED_STATUSES :: "string list" where
  "DENIED_STATUSES = [''denied'', ''refused'']"

definition BUSY_STATUSES :: "string list" where
  "BUSY_STATUSES = [''busy'']"

section \<open>Control bases\<close>

definition resolve_list_base :: "app_config option \<Rightarrow> string option" where
  "resolve_list_base app =
     (case app of
        None \<Rightarrow> None
      | Some cfg \<Rightarrow>
          (case LLAMOLOTL_CONTROL_BASE_URLS cfg of
             None \<Rightarrow> None
           | Some [] \<Rightarrow> None
           | Some (url # urls) \<Rightarrow> Some (rstrip_char CHR ''/'' url)))"

definition resolve_single_base :: "(app_config \<Rightarrow> string option) \<Rightarrow> app_config option \<Rightarrow> string option" where
  "resolve_single_base attr app =
     (case app of
        None \<Rightarrow> None
      | Some cfg \<Rightarrow>
          (case attr cfg of
             None \<Rightarrow> None
           | Some value \<Rightarrow>
               (let s = py_strip value in if s = [] then None else Some (rstrip_char CHR ''/'' s))))"

section \<open>Mapping a reply\<close>

definition timeout_because :: "string option \<Rightarrow> release_response" where
  "timeout_because reason = \<lparr>rr_outcome = TIMEOUT, rr_new_held_bytes = None, rr_reason = reason\<rparr>"

definition new_held_after :: "registry \<Rightarrow> string \<Rightarrow> int \<Rightarrow> int option" where
  "new_held_after reg cid freed =
     (case get_consumer cid reg of
        None \<Rightarrow> None
      | Some row \<Rightarrow> Some (max 0 (held_bytes row - max 0 freed)))"

text \<open>\<open>status.lower()\<close> of a body whose status is a string.\<close>

definition status_lower :: "(string \<times> json) list \<Rightarrow> string option" where
  "status_lower obj = (case map_of obj ''status'' of Some (JStr s) \<Rightarrow> Some (lower s) | _ \<Rightarrow> None)"

definition status_in :: "(string \<times> json) list \<Rightarrow> string list \<Rightarrow> bool" where
  "status_in obj names = (case status_lower obj of None \<Rightarrow> False | Some s \<Rightarrow> s \<in> set names)"

text \<open>A decoded body that is an object, and an integer field of it (a boolean is none).\<close>

definition json_obj :: "json \<Rightarrow> (string \<times> json) list option" where
  "json_obj j = (case j of JObj obj \<Rightarrow> Some obj | _ \<Rightarrow> None)"

definition int_field :: "(string \<times> json) list \<Rightarrow> string \<Rightarrow> int option" where
  "int_field obj key = (case map_of obj key of Some (JInt n) \<Rightarrow> Some n | _ \<Rightarrow> None)"

definition body_obj :: "http_reply \<Rightarrow> (string \<times> json) list option" where
  "body_obj reply = (case hr_json reply of None \<Rightarrow> None | Some j \<Rightarrow> json_obj j)"

text \<open>
  The mapping the llamolotl, speak and sketch transports share word for word.
\<close>

definition map_response :: "registry \<Rightarrow> string \<Rightarrow> http_reply \<Rightarrow> release_response" where
  "map_response reg cid reply =
     (if hr_status reply = Some 409 then timeout_response
      else if \<not> is_2xx reply then timeout_response
      else case body_obj reply of
        None \<Rightarrow> timeout_response
      | Some obj \<Rightarrow>
          if status_in obj BUSY_STATUSES then timeout_response
          else if status_in obj CONFIRMED_STATUSES
          then (case int_field obj ''freed_bytes'' of
                  None \<Rightarrow> timeout_response
                | Some freed \<Rightarrow>
                    \<lparr>rr_outcome = CONFIRMED, rr_new_held_bytes = new_held_after reg cid freed, rr_reason = None\<rparr>)
          else timeout_response)"

text \<open>The curator's mapping: an explicit refusal stays a refusal, and an e-stop leaves nothing held.\<close>

definition curator_new_held_after :: "registry \<Rightarrow> string \<Rightarrow> int \<Rightarrow> bool \<Rightarrow> int option" where
  "curator_new_held_after reg cid freed force =
     (if force then Some 0 else new_held_after reg cid freed)"

text \<open>\<open>reason or text\<close>: an absent or empty reason is replaced.\<close>

definition reason_or :: "string option \<Rightarrow> string \<Rightarrow> string option" where
  "reason_or reason dflt = (case nonempty reason of Some r \<Rightarrow> Some r | None \<Rightarrow> Some dflt)"

definition curator_map_response :: "registry \<Rightarrow> string \<Rightarrow> bool \<Rightarrow> http_reply \<Rightarrow> release_response" where
  "curator_map_response reg cid force reply =
     (if \<not> is_2xx reply then timeout_because (Some ''HTTP status'')
      else if hr_json reply = None then timeout_because (Some ''undecodable reply'')
      else case body_obj reply of
        None \<Rightarrow> timeout_because (Some ''malformed reply'')
      | Some obj \<Rightarrow>
          (let reason = (case map_of obj ''reason'' of Some (JStr r) \<Rightarrow> Some r | _ \<Rightarrow> None)
           in if status_in obj DENIED_STATUSES
              then \<lparr>rr_outcome = DENIED, rr_new_held_bytes = None,
                    rr_reason = reason_or reason ''self.curator refused without a stated reason''\<rparr>
              else if status_in obj BUSY_STATUSES
              then timeout_because (reason_or reason ''consumer reported busy'')
              else if status_in obj CONFIRMED_STATUSES \<and> int_field obj ''freed_bytes'' \<noteq> None
              then \<lparr>rr_outcome = CONFIRMED,
                    rr_new_held_bytes =
                      curator_new_held_after reg cid (or0 (int_field obj ''freed_bytes'')) force,
                    rr_reason = reason\<rparr>
              else timeout_because (reason_or reason ''unrecognised reply shape'')))"

section \<open>The transports\<close>

definition no_call :: "release_response \<Rightarrow> release_call" where
  "no_call resp = \<lparr>rc_response = resp, rc_elapsed = 0, rc_posts = []\<rparr>"

definition post_release ::
    "http_env \<Rightarrow> string \<Rightarrow> string option \<Rightarrow> release_body \<Rightarrow> (http_reply \<Rightarrow> release_response)
       \<Rightarrow> release_response \<times> release_response \<times> release_response \<Rightarrow> release_call" where
  "post_release env audience base body mapping failures =
     (let (unconfigured, unmintable, unreachable) = failures
      in case base of
        None \<Rightarrow> no_call unconfigured
      | Some url \<Rightarrow>
          if \<not> he_mint env audience RELEASE_SCOPE then no_call unmintable
          else (let (reply, d) = he_post env (url @ RELEASE_PATH) body
                in \<lparr>rc_response = (case reply of None \<Rightarrow> unreachable | Some r \<Rightarrow> mapping r),
                    rc_elapsed = d, rc_posts = [(url @ RELEASE_PATH, body)]\<rparr>))"

definition plain_failures :: "release_response \<times> release_response \<times> release_response" where
  "plain_failures = (timeout_response, timeout_response, timeout_response)"

definition release_request :: "int \<Rightarrow> rat \<Rightarrow> bool \<Rightarrow> release_body" where
  "release_request amount timeout force =
     \<lparr>rb_target_bytes = amount, rb_timeout_seconds = timeout, rb_force = force\<rparr>"

definition llamolotl_release ::
    "http_env \<Rightarrow> app_config option \<Rightarrow> registry \<Rightarrow> string \<Rightarrow> int \<Rightarrow> rat \<Rightarrow> bool \<Rightarrow> release_call" where
  "llamolotl_release env app reg cid amount timeout force =
     post_release env LLAMOLOTL_AUDIENCE (resolve_list_base app) (release_request amount timeout force)
       (map_response reg cid) plain_failures"

definition speak_release ::
    "http_env \<Rightarrow> app_config option \<Rightarrow> registry \<Rightarrow> string \<Rightarrow> int \<Rightarrow> rat \<Rightarrow> bool \<Rightarrow> release_call" where
  "speak_release env app reg cid amount timeout force =
     post_release env SPEAK_AUDIENCE (resolve_single_base TTS_CONTROL_BASE_URL app)
       (release_request amount timeout force) (map_response reg cid) plain_failures"

definition sketch_release ::
    "http_env \<Rightarrow> app_config option \<Rightarrow> registry \<Rightarrow> string \<Rightarrow> int \<Rightarrow> rat \<Rightarrow> bool \<Rightarrow> release_call" where
  "sketch_release env app reg cid amount timeout force =
     post_release env SKETCH_AUDIENCE (resolve_single_base SKETCH_CONTROL_BASE_URL app)
       (release_request amount timeout force) (map_response reg cid) plain_failures"

definition curator_release ::
    "http_env \<Rightarrow> app_config option \<Rightarrow> registry \<Rightarrow> string \<Rightarrow> int \<Rightarrow> rat \<Rightarrow> bool \<Rightarrow> release_call" where
  "curator_release env app reg cid amount timeout force =
     post_release env CURATOR_AUDIENCE (resolve_single_base CURATOR_CONTROL_BASE_URL app)
       (release_request (if force then 0 else amount) timeout force) (curator_map_response reg cid force)
       (timeout_because (Some ''CURATOR_CONTROL_BASE_URL is not configured''),
        timeout_because (Some ''could not mint a service ticket''),
        timeout_because (Some ''request failed''))"

text \<open>The dispatcher: extra transports first, then speak, then sketch when wired, then llamolotl.\<close>

type_synonym consumer_transport = "registry \<Rightarrow> string \<Rightarrow> int \<Rightarrow> rat \<Rightarrow> bool \<Rightarrow> release_call"

record dispatcher =
  dp_speak :: consumer_transport
  dp_llamolotl :: consumer_transport
  dp_sketch :: "consumer_transport option"
  dp_extra :: "string \<Rightarrow> consumer_transport option"

definition route :: "dispatcher \<Rightarrow> string \<Rightarrow> consumer_transport" where
  "route dp cid =
     (case dp_extra dp cid of
        Some tr \<Rightarrow> tr
      | None \<Rightarrow>
          if cid = SPEAK_AUDIENCE then dp_speak dp
          else (case (cid = SKETCH_AUDIENCE, dp_sketch dp) of
                  (True, Some tr) \<Rightarrow> tr
                | _ \<Rightarrow> dp_llamolotl dp))"

definition dispatch_release :: "dispatcher \<Rightarrow> consumer_transport" where
  "dispatch_release dp reg cid amount timeout force = route dp cid reg cid amount timeout force"

section \<open>The contract of a transport\<close>

text \<open>
  What the broker relies on when it records a transport's answer: a polite confirmation never
  raises the consumer's holding above what the registry had, and is never below zero; a reply about
  an unknown consumer carries no figure.
\<close>

locale release_client =
  fixes mapping :: "registry \<Rightarrow> string \<Rightarrow> http_reply \<Rightarrow> release_response"
  assumes confirmed_figure:
    "rr_outcome (mapping reg cid reply) = CONFIRMED \<Longrightarrow>
       \<exists>f \<ge> 0. rr_new_held_bytes (mapping reg cid reply) =
         map_option (\<lambda>row. max 0 (held_bytes row - f)) (get_consumer cid reg)"
begin

lemma confirmed_bounds:
  assumes "rr_outcome (mapping reg cid reply) = CONFIRMED" and "get_consumer cid reg = Some row"
    and "0 \<le> held_bytes row"
  shows "\<exists>h. rr_new_held_bytes (mapping reg cid reply) = Some h \<and> 0 \<le> h \<and> h \<le> held_bytes row"
  using confirmed_figure [OF assms(1)] assms(2,3) by auto

lemma recording_never_lowers_free:
  assumes "unique_by consumer_id reg" and "get_consumer cid reg = Some row" and "0 \<le> held_bytes row"
    and "rr_outcome (mapping reg cid reply) = CONFIRMED"
  shows "\<exists>h. rr_new_held_bytes (mapping reg cid reply) = Some h \<and> 0 \<le> h \<and> h \<le> held_bytes row \<and>
           free_capacity cfg now reg \<le> free_capacity cfg now (fst (record_confirmed_release True now cid h reg))"
proof -
  from confirmed_bounds [OF assms(4,2,3)] obtain h
    where h: "rr_new_held_bytes (mapping reg cid reply) = Some h" "0 \<le> h" "h \<le> held_bytes row" by blast
  have "effective_held cfg now (confirmed_release_row now h row) = h"
    by (simp add: effective_held_def reservation_live_def row_defs)
  moreover have "held_bytes row \<le> effective_held cfg now row" by (simp add: effective_held_def)
  ultimately have "free_capacity cfg now reg \<le> free_capacity cfg now (fst (record_confirmed_release True now cid h reg))"
    using confirmed_c.free_after_write [OF assms(1,2), of cfg now now h] h(3)
    by (simp add: record_confirmed_release_def free_capacity_def)
  with h show ?thesis by blast
qed

end

lemma status_disjoint:
  "status_in obj CONFIRMED_STATUSES \<Longrightarrow> \<not> status_in obj BUSY_STATUSES \<and> \<not> status_in obj DENIED_STATUSES"
  by (auto simp: status_in_def CONFIRMED_STATUSES_def BUSY_STATUSES_def DENIED_STATUSES_def split: option.splits)

lemma is_2xx_not_busy: "is_2xx reply \<Longrightarrow> hr_status reply \<noteq> Some 409"
  by (auto simp: is_2xx_def)

lemma map_response_confirmed:
  "rr_outcome (map_response reg cid reply) = CONFIRMED \<longleftrightarrow>
     is_2xx reply \<and> (\<exists>obj freed. body_obj reply = Some obj \<and> status_in obj CONFIRMED_STATUSES \<and>
        int_field obj ''freed_bytes'' = Some freed \<and>
        rr_new_held_bytes (map_response reg cid reply) = new_held_after reg cid freed)"
  using is_2xx_not_busy [of reply] status_disjoint
  by (auto simp: map_response_def timeout_response_def split: option.splits if_splits)

lemma curator_confirmed:
  "rr_outcome (curator_map_response reg cid force reply) = CONFIRMED \<longleftrightarrow>
     is_2xx reply \<and> (\<exists>obj freed. body_obj reply = Some obj \<and> status_in obj CONFIRMED_STATUSES \<and>
        int_field obj ''freed_bytes'' = Some freed \<and>
        rr_new_held_bytes (curator_map_response reg cid force reply) = curator_new_held_after reg cid freed force)"
proof -
  have "body_obj reply = Some obj \<Longrightarrow> hr_json reply \<noteq> None" for obj
    by (auto simp: body_obj_def split: option.splits)
  then show ?thesis using status_disjoint
    by (auto simp: curator_map_response_def timeout_because_def Let_def split: option.splits if_splits)
qed

lemma new_held_after_figure:
  "\<exists>f \<ge> 0. new_held_after reg cid freed = map_option (\<lambda>row. max 0 (held_bytes row - f)) (get_consumer cid reg)"
  by (rule exI [of _ "max 0 freed"]) (simp add: new_held_after_def split: option.split)

interpretation plain_client: release_client map_response
  by unfold_locales (use new_held_after_figure in \<open>auto simp: map_response_confirmed\<close>)

interpretation curator_client: release_client "\<lambda>reg cid. curator_map_response reg cid False"
  by unfold_locales
    (use new_held_after_figure in \<open>auto simp: curator_confirmed curator_new_held_after_def\<close>)

section \<open>Properties\<close>

text \<open>
  No silent success. The llamolotl, speak and sketch transports report a confirmed release
  exactly when the reply is a 2xx JSON object whose status is, up to case, \<open>released\<close>,
  \<open>partial\<close> or \<open>confirmed\<close> and whose \<open>freed_bytes\<close> is an integer (a boolean is none), and
  then with the last known holding less a non-negative amount; everything else, a 409 and an
  in-band \<open>busy\<close> included, is a timeout and never a refusal.
\<close>

theorem release_reply_never_guessed:
  "(rr_outcome (map_response reg cid reply) = CONFIRMED \<longleftrightarrow>
      is_2xx reply \<and> (\<exists>obj s freed. hr_json reply = Some (JObj obj) \<and>
        map_of obj ''status'' = Some (JStr s) \<and> lower s \<in> {''released'', ''partial'', ''confirmed''} \<and>
        map_of obj ''freed_bytes'' = Some (JInt freed) \<and>
        rr_new_held_bytes (map_response reg cid reply) =
          map_option (\<lambda>row. max 0 (held_bytes row - max 0 freed)) (get_consumer cid reg))) \<and>
   rr_outcome (map_response reg cid reply) \<in> {CONFIRMED, TIMEOUT}"
proof -
  have st: "status_in obj CONFIRMED_STATUSES \<longleftrightarrow>
      (\<exists>s. map_of obj ''status'' = Some (JStr s) \<and> lower s \<in> {''released'', ''partial'', ''confirmed''})" for obj
    by (auto simp: status_in_def status_lower_def CONFIRMED_STATUSES_def split: option.splits json.splits)
  have nh: "new_held_after reg cid freed =
      map_option (\<lambda>row. max 0 (held_bytes row - max 0 freed)) (get_consumer cid reg)" for freed
    by (simp add: new_held_after_def split: option.split)
  have bo: "body_obj reply = Some obj \<longleftrightarrow> hr_json reply = Some (JObj obj)" for obj
    by (auto simp: body_obj_def json_obj_def split: option.splits json.splits)
  have fi: "int_field obj ''freed_bytes'' = Some freed \<longleftrightarrow> map_of obj ''freed_bytes'' = Some (JInt freed)" for obj freed
    by (auto simp: int_field_def split: option.splits json.splits)
  have "rr_outcome (map_response reg cid reply) \<in> {CONFIRMED, TIMEOUT}"
    by (auto simp: map_response_def timeout_response_def split: option.splits)
  then show ?thesis unfolding map_response_confirmed st nh bo fi by blast
qed

text \<open>
  A polite release never costs capacity. Whichever consumer's transport confirms one, the
  figure it hands to the broker lies between zero and what the registry believed, and recording it
  never lowers the free capacity.
\<close>

theorem confirmed_release_never_lowers_free:
  assumes "unique_by consumer_id reg" and "get_consumer cid reg = Some row" and "0 \<le> held_bytes row"
    and "resp = map_response reg cid reply \<or> resp = curator_map_response reg cid False reply"
    and "rr_outcome resp = CONFIRMED"
  shows "\<exists>h. rr_new_held_bytes resp = Some h \<and> 0 \<le> h \<and> h \<le> held_bytes row \<and>
           free_capacity cfg now reg \<le> free_capacity cfg now (fst (record_confirmed_release True now cid h reg))"
  using assms(4)
proof
  assume "resp = map_response reg cid reply"
  with assms(5) plain_client.recording_never_lowers_free [OF assms(1-3)] show ?thesis by simp
next
  assume "resp = curator_map_response reg cid False reply"
  with assms(5) curator_client.recording_never_lowers_free [OF assms(1-3)] show ?thesis by simp
qed

definition sample_reply :: http_reply where
  "sample_reply = \<lparr>hr_status = Some 200,
     hr_json = Some (JObj [(''status'', JStr ''released''), (''freed_bytes'', JInt 6)])\<rparr>"

theorem confirmed_release_never_lowers_free_witness:
  "\<exists>h. rr_new_held_bytes (map_response [sample_row ''a'' 24 10 5 0] ''a'' sample_reply) = Some h \<and>
     0 \<le> h \<and> h \<le> 10 \<and> free_capacity default_lease_config 9 [sample_row ''a'' 24 10 5 0]
       \<le> free_capacity default_lease_config 9 (fst (record_confirmed_release True 9 ''a'' h [sample_row ''a'' 24 10 5 0]))"
proof -
  let ?reg = "[sample_row ''a'' 24 10 5 0]"
  have u: "unique_by consumer_id ?reg" by simp
  have g: "get_consumer ''a'' ?reg = Some (sample_row ''a'' 24 10 5 0)" by (simp add: get_consumer_def sample_row_def)
  have h: "0 \<le> held_bytes (sample_row ''a'' 24 10 5 0)" by (simp add: sample_row_def)
  have c: "rr_outcome (map_response ?reg ''a'' sample_reply) = CONFIRMED"
    by (simp add: map_response_def sample_reply_def is_2xx_def body_obj_def json_obj_def int_field_def status_in_def status_lower_def lower_def
        lower_char_def code_def BUSY_STATUSES_def CONFIRMED_STATUSES_def Let_def)
  have ten: "held_bytes (sample_row ''a'' 24 10 5 0) = 10" by (simp add: sample_row_def)
  from confirmed_release_never_lowers_free [OF u g h disjI1 [OF refl] c, of default_lease_config 9]
  show ?thesis unfolding ten by blast
qed

text \<open>
  Routing. With the production wiring (speak and sketch transports installed, the curator's as
  an extra one) every release goes to its own consumer's control port with that consumer's
  audience and nowhere else, so a release meant for one consumer never reaches another's endpoint;
  and no consumer is called at all when its base URL is not configured.
\<close>

definition production_dispatcher :: "http_env \<Rightarrow> app_config option \<Rightarrow> dispatcher" where
  "production_dispatcher env app =
     \<lparr>dp_speak = speak_release env app, dp_llamolotl = llamolotl_release env app,
      dp_sketch = Some (sketch_release env app),
      dp_extra = [CURATOR_AUDIENCE \<mapsto> curator_release env app]\<rparr>"

lemma post_release_posts:
  "set (map fst (rc_posts (post_release env audience base body mapping failures))) \<subseteq>
     (case base of None \<Rightarrow> {} | Some url \<Rightarrow> {url @ RELEASE_PATH})"
  by (simp add: post_release_def no_call_def split_beta Let_def split: option.split)

lemmas audience_defs = LLAMOLOTL_AUDIENCE_def SPEAK_AUDIENCE_def SKETCH_AUDIENCE_def CURATOR_AUDIENCE_def

theorem release_goes_to_own_endpoint:
  "set (map fst (rc_posts (dispatch_release (production_dispatcher env app) reg cid amount timeout force))) \<subseteq>
     (case (if cid = CURATOR_AUDIENCE then resolve_single_base CURATOR_CONTROL_BASE_URL app
            else if cid = SPEAK_AUDIENCE then resolve_single_base TTS_CONTROL_BASE_URL app
            else if cid = SKETCH_AUDIENCE then resolve_single_base SKETCH_CONTROL_BASE_URL app
            else resolve_list_base app) of
        None \<Rightarrow> {} | Some url \<Rightarrow> {url @ RELEASE_PATH})"
proof -
  consider "cid = CURATOR_AUDIENCE" | "cid = SPEAK_AUDIENCE" | "cid = SKETCH_AUDIENCE"
    | "cid \<noteq> CURATOR_AUDIENCE" "cid \<noteq> SPEAK_AUDIENCE" "cid \<noteq> SKETCH_AUDIENCE" by blast
  then show ?thesis
  proof cases
    case 1
    then have "route (production_dispatcher env app) cid = curator_release env app"
      by (simp add: route_def production_dispatcher_def)
    with 1 show ?thesis unfolding dispatch_release_def curator_release_def by (simp add: post_release_posts del: set_map)
  next
    case 2
    then have "route (production_dispatcher env app) cid = speak_release env app"
      by (simp add: route_def production_dispatcher_def audience_defs)
    moreover have "cid \<noteq> CURATOR_AUDIENCE" using 2 by (simp add: audience_defs)
    ultimately show ?thesis using 2 unfolding dispatch_release_def speak_release_def by (simp add: post_release_posts del: set_map)
  next
    case 3
    then have "route (production_dispatcher env app) cid = sketch_release env app"
      by (simp add: route_def production_dispatcher_def audience_defs)
    moreover have "cid \<noteq> CURATOR_AUDIENCE" "cid \<noteq> SPEAK_AUDIENCE" using 3 by (simp_all add: audience_defs)
    ultimately show ?thesis using 3 unfolding dispatch_release_def sketch_release_def by (simp add: post_release_posts del: set_map)
  next
    case 4
    then have "route (production_dispatcher env app) cid = llamolotl_release env app"
      by (simp add: route_def production_dispatcher_def)
    with 4 show ?thesis unfolding dispatch_release_def llamolotl_release_def by (simp add: post_release_posts del: set_map)
  qed
qed

end
