(* ===== verification/Vram_Poller.thy ===== *)
theory Vram_Poller
  imports Vram_Transports
begin

text \<open>
  The inbound side of the registry: the read-only state sources of \<open>utils/vram_state_source.py\<close> and
  \<open>utils/vram_llamolotl.py\<close> and the poll cycle of \<open>utils/vram_poller.py\<close>. One cycle polls the
  mapped consumers concurrently; each poll awaits once (its GET) and then relays its figures
  without another await, so a cycle is the sequence of relays in the order in which the reads
  finish, with the registry calls of other coroutines in between. When each read finishes, what it
  answers and which commits succeed are parameters.

  The lemmas show that the sources report only integers the reply carries, that a poll never
  touches another consumer's holding and never marks anyone stale, and that a consumer that answers
  often enough stays live.
\<close>

section \<open>State sources\<close>

definition HELD_FIELDS :: "string list" where
  "HELD_FIELDS = [''held_vram_bytes'', ''held_bytes'', ''held'']"

definition DEVICE_USED_FIELDS :: "string list" where
  "DEVICE_USED_FIELDS = [''device_used_bytes'', ''device_used'']"

definition DEVICE_TOTAL_FIELDS :: "string list" where
  "DEVICE_TOTAL_FIELDS = [''device_total_bytes'', ''total_capacity_bytes'', ''device_total'']"

definition LOADED_MODEL_FIELDS :: "string list" where
  "LOADED_MODEL_FIELDS = [''loaded_model'', ''loaded_model_id'', ''active_model'']"

definition STATE_SCOPE :: string where "STATE_SCOPE = ''system:read''"
definition STATE_PATH :: string where "STATE_PATH = ''/api/system/vram-state''"

text \<open>The first key whose value passes \<open>f\<close>.\<close>

fun first_field :: "((string \<times> json) list \<Rightarrow> string \<Rightarrow> 'a option) \<Rightarrow> (string \<times> json) list \<Rightarrow> string list \<Rightarrow> 'a option" where
  "first_field f obj [] = None"
| "first_field f obj (key # keys) =
     (case f obj key of Some v \<Rightarrow> Some v | None \<Rightarrow> first_field f obj keys)"

definition first_int_field :: "json \<Rightarrow> string list \<Rightarrow> int option" where
  "first_int_field data keys =
     (case json_obj data of None \<Rightarrow> None | Some obj \<Rightarrow> first_field int_field obj keys)"

definition parse_device_occupancy :: "json \<Rightarrow> int option \<times> int option" where
  "parse_device_occupancy data =
     (case first_int_field data DEVICE_USED_FIELDS of
        None \<Rightarrow> (None, None)
      | Some used \<Rightarrow> (Some used, first_int_field data DEVICE_TOTAL_FIELDS))"

definition parse_held :: "http_reply \<Rightarrow> int option" where
  "parse_held reply =
     (if \<not> is_2xx reply then None
      else case hr_json reply of None \<Rightarrow> None
        | Some data \<Rightarrow>
            (case json_obj data of None \<Rightarrow> None | Some obj \<Rightarrow> first_field int_field obj HELD_FIELDS))"

definition str_field :: "(string \<times> json) list \<Rightarrow> string \<Rightarrow> string option" where
  "str_field obj key = (case map_of obj key of Some (JStr s) \<Rightarrow> nonempty (Some s) | _ \<Rightarrow> None)"

definition parse_loaded_model :: "http_reply \<Rightarrow> string option" where
  "parse_loaded_model reply =
     (if \<not> is_2xx reply then None
      else case body_obj reply of None \<Rightarrow> None
        | Some obj \<Rightarrow> first_field str_field obj LOADED_MODEL_FIELDS)"

definition parse_device :: "http_reply \<Rightarrow> int option \<times> int option" where
  "parse_device reply =
     (case hr_json reply of None \<Rightarrow> (None, None) | Some data \<Rightarrow> parse_device_occupancy data)"

text \<open>
  A source: the llamolotl one resolves its base from the URL list and reads the loaded model too;
  the control-base one is configured with an attribute and an audience.
\<close>

datatype state_source =
    LlamolotlVramStateSource
  | ControlBaseVramStateSource "app_config \<Rightarrow> string option" string

record readings =
  rd_held :: "int option"
  rd_loaded_model :: "string option"
  rd_device_used :: "int option"
  rd_device_total :: "int option"

definition no_readings :: readings where
  "no_readings = \<lparr>rd_held = None, rd_loaded_model = None, rd_device_used = None, rd_device_total = None\<rparr>"

record state_env =
  se_mint :: "string \<Rightarrow> string \<Rightarrow> bool"
  se_get :: "string \<Rightarrow> http_reply option"

definition fetch_state :: "state_env \<Rightarrow> app_config option \<Rightarrow> state_source \<Rightarrow> http_reply option" where
  "fetch_state env app src =
     (let (base, audience) =
        (case src of
           LlamolotlVramStateSource \<Rightarrow> (resolve_list_base app, LLAMOLOTL_AUDIENCE)
         | ControlBaseVramStateSource attr aud \<Rightarrow> (resolve_single_base attr app, aud))
      in case base of
           None \<Rightarrow> None
         | Some url \<Rightarrow>
             if \<not> se_mint env audience STATE_SCOPE then None else se_get env (url @ STATE_PATH))"

definition read_held_bytes :: "state_env \<Rightarrow> app_config option \<Rightarrow> state_source \<Rightarrow> int option" where
  "read_held_bytes env app src =
     (case fetch_state env app src of None \<Rightarrow> None | Some reply \<Rightarrow> parse_held reply)"

definition read_state :: "state_env \<Rightarrow> app_config option \<Rightarrow> state_source \<Rightarrow> int option \<times> string option" where
  "read_state env app src =
     (case fetch_state env app src of
        None \<Rightarrow> (None, None) | Some reply \<Rightarrow> (parse_held reply, parse_loaded_model reply))"

definition llamolotl_read_full :: "http_reply option \<Rightarrow> readings" where
  "llamolotl_read_full resp =
     (case resp of
        None \<Rightarrow> no_readings
      | Some reply \<Rightarrow>
          \<lparr>rd_held = parse_held reply, rd_loaded_model = parse_loaded_model reply,
           rd_device_used = fst (parse_device reply), rd_device_total = snd (parse_device reply)\<rparr>)"

definition control_base_read_full :: "http_reply option \<Rightarrow> readings" where
  "control_base_read_full resp =
     (case resp of
        None \<Rightarrow> no_readings
      | Some reply \<Rightarrow>
          \<lparr>rd_held = parse_held reply, rd_loaded_model = None,
           rd_device_used = fst (parse_device reply), rd_device_total = snd (parse_device reply)\<rparr>)"

definition read_full :: "state_env \<Rightarrow> app_config option \<Rightarrow> state_source \<Rightarrow> readings" where
  "read_full env app src =
     (case src of
        LlamolotlVramStateSource \<Rightarrow> llamolotl_read_full (fetch_state env app src)
      | ControlBaseVramStateSource attr aud \<Rightarrow> control_base_read_full (fetch_state env app src))"

section \<open>The poll cycle\<close>

text \<open>
  How the poll of one consumer goes: when its read finishes, what it read (\<open>None\<close>: it raised),
  which of its three commits succeed, and the registry calls of other coroutines before that.
\<close>

record poll_answer =
  pa_at :: int
  pa_read :: "readings option"
  pa_commits :: "bool \<times> bool \<times> bool"
  pa_before :: "(int \<times> bool \<times> reg_op) list"

text \<open>
  The relay of one consumer. A failed commit of \<open>record_loaded_model\<close> raises, which ends this
  consumer's poll (the gather isolates it) before its card reading is relayed.
\<close>

definition poll_consumer :: "poll_answer \<Rightarrow> string \<Rightarrow> registry \<Rightarrow> registry" where
  "poll_consumer ans cid reg =
     (case pa_read ans of
        None \<Rightarrow> reg
      | Some rd \<Rightarrow>
          (let now = pa_at ans; (ok1, ok2, ok3) = pa_commits ans;
               reg1 = (case rd_held rd of None \<Rightarrow> reg | Some h \<Rightarrow> fst (heartbeat ok1 now cid h reg))
           in case (case rd_loaded_model rd of
                      None \<Rightarrow> Inr reg1 | Some m \<Rightarrow> record_loaded_model ok2 now cid (Some m) reg1) of
                Inl e \<Rightarrow> reg1
              | Inr reg2 \<Rightarrow>
                  (case rd_device_used rd of
                     None \<Rightarrow> reg2
                   | Some used \<Rightarrow> record_device_occupancy ok3 now cid used (rd_device_total rd) reg2)))"

definition poll_tasks :: "(string \<Rightarrow> bool) \<Rightarrow> registry \<Rightarrow> string list" where
  "poll_tasks has_source reg = [cid \<leftarrow> map consumer_id (get_all reg). has_source cid]"

definition poll_step :: "lease_config \<Rightarrow> (string \<Rightarrow> poll_answer) \<Rightarrow> string \<Rightarrow> registry \<Rightarrow> registry" where
  "poll_step cfg answers cid reg =
     poll_consumer (answers cid) cid (run_ops cfg (pa_before (answers cid)) reg)"

definition poll_once ::
    "lease_config \<Rightarrow> (string \<Rightarrow> bool) \<Rightarrow> (string \<Rightarrow> poll_answer) \<Rightarrow> registry \<Rightarrow> registry" where
  "poll_once cfg has_source answers reg =
     fold (poll_step cfg answers) (sort_key (\<lambda>cid. pa_at (answers cid)) (poll_tasks has_source reg)) reg"

text \<open>The endless loop, cut after some cycles: a failing cycle does not end it.\<close>

fun poll_cycles ::
    "lease_config \<Rightarrow> (string \<Rightarrow> bool) \<Rightarrow> (string \<Rightarrow> poll_answer) list \<Rightarrow> registry \<Rightarrow> registry" where
  "poll_cycles cfg has_source [] reg = reg"
| "poll_cycles cfg has_source (answers # rest) reg =
     poll_cycles cfg has_source rest (poll_once cfg has_source answers reg)"

section \<open>A poll as registry calls\<close>

definition poll_ops :: "poll_answer \<Rightarrow> string \<Rightarrow> reg_op list" where
  "poll_ops ans cid =
     (case pa_read ans of
        None \<Rightarrow> []
      | Some rd \<Rightarrow>
          (case rd_held rd of None \<Rightarrow> [] | Some h \<Rightarrow> [Op_heartbeat cid h]) @
          (case rd_loaded_model rd of None \<Rightarrow> [] | Some m \<Rightarrow> [Op_loaded_model cid (Some m)]) @
          (case rd_device_used rd of None \<Rightarrow> [] | Some u \<Rightarrow> [Op_device cid u (rd_device_total rd)]))"

text \<open>The relay is a run of those calls, possibly cut short.\<close>

lemma poll_consumer_run:
  "\<exists>ops. poll_consumer ans cid reg = run_ops cfg ops reg \<and> snd ` snd ` set ops \<subseteq> set (poll_ops ans cid) \<and>
         (\<forall>(now, ok, op) \<in> set ops. now = pa_at ans)"
proof (cases "pa_read ans")
  case None
  then have "poll_consumer ans cid reg = run_ops cfg [] reg" by (simp add: poll_consumer_def)
  then show ?thesis by (intro exI [of _ "[]"]) simp
next
  case (Some rd)
  obtain ok1 ok2 ok3 where c: "pa_commits ans = (ok1, ok2, ok3)" by (cases "pa_commits ans")
  let ?t = "pa_at ans"
  define hb where "hb = (case rd_held rd of None \<Rightarrow> [] | Some h \<Rightarrow> [(?t, ok1, Op_heartbeat cid h)])"
  define lm where "lm = (case rd_loaded_model rd of None \<Rightarrow> [] | Some m \<Rightarrow> [(?t, ok2, Op_loaded_model cid (Some m))])"
  define dv where "dv = (case rd_device_used rd of None \<Rightarrow> [] | Some u \<Rightarrow> [(?t, ok3, Op_device cid u (rd_device_total rd))])"
  have "poll_consumer ans cid reg = run_ops cfg hb reg \<or> poll_consumer ans cid reg = run_ops cfg (hb @ lm @ dv) reg"
    by (auto simp: poll_consumer_def Some c hb_def lm_def dv_def Let_def run_ops_append split: option.splits sum.splits)
  moreover have "set hb \<subseteq> set (hb @ lm @ dv)" "snd ` snd ` set (hb @ lm @ dv) \<subseteq> set (poll_ops ans cid)"
    "\<forall>(now, ok, op) \<in> set (hb @ lm @ dv). now = ?t"
    by (auto simp: poll_ops_def Some hb_def lm_def dv_def split: option.splits)
  ultimately show ?thesis by (meson image_mono subset_trans subsetD)
qed

lemma run_ops_get_other:
  assumes "\<forall>(now, ok, op) \<in> set ops. op_target op \<noteq> c"
  shows "get_consumer c (run_ops cfg ops reg) = get_consumer c reg"
  using assms by (induction cfg ops reg rule: run_ops.induct) (auto simp: exec_op_get_other)

lemma poll_ops_target: "op \<in> set (poll_ops ans cid) \<Longrightarrow> op_target op = cid"
  by (auto simp: poll_ops_def split: option.splits)

lemma poll_consumer_get_other:
  assumes "c \<noteq> cid"
  shows "get_consumer c (poll_consumer ans cid reg) = get_consumer c reg"
proof -
  obtain ops where run: "poll_consumer ans cid reg = run_ops default_lease_config ops reg"
    and ops: "snd ` snd ` set ops \<subseteq> set (poll_ops ans cid)" using poll_consumer_run by metis
  have "\<forall>(now, ok, op) \<in> set ops. op_target op \<noteq> c"
  proof clarify
    fix now ok op
    assume "(now, ok, op) \<in> set ops"
    then have "op \<in> snd ` snd ` set ops" by (force simp: image_iff)
    with ops have "op \<in> set (poll_ops ans cid)" by blast
    then have "op_target op = cid" by (rule poll_ops_target)
    moreover assume "c = op_target op"
    ultimately show False using assms by simp
  qed
  then show ?thesis unfolding run by (rule run_ops_get_other)
qed

text \<open>The figures a read relays to the registry's holding: the one heartbeat, if it lands.\<close>

definition relayed_held :: "poll_answer \<Rightarrow> int option" where
  "relayed_held ans =
     (case pa_read ans of None \<Rightarrow> None | Some rd \<Rightarrow> if fst (pa_commits ans) then rd_held rd else None)"

lemma poll_consumer_own:
  assumes "get_consumer cid reg = Some r"
  shows "\<exists>r'. get_consumer cid (poll_consumer ans cid reg) = Some r' \<and>
           (case relayed_held ans of
              Some h \<Rightarrow> held_bytes r' = h \<and> last_reported_at r' = Some (pa_at ans) \<and>
                        last_observed_at r' = Some (pa_at ans) \<and> lease_state r' \<noteq> STALE
            | None \<Rightarrow> held_bytes r' = held_bytes r \<and> last_reported_at r' = last_reported_at r \<and>
                      last_observed_at r' = last_observed_at r \<and> lease_state r' = lease_state r) \<and>
           lease_mode r' = lease_mode r \<and> priority r' = priority r \<and>
           total_capacity_bytes r' = total_capacity_bytes r"
proof -
  have lm: "get_consumer cid (update_by consumer_id cid (loaded_model_row now m) reg) =
      map_option (loaded_model_row now m) (get_consumer cid reg)" for now m reg
    by (simp add: get_consumer_def loaded_model_w.find_written)
  show ?thesis using assms
    by (auto simp: poll_consumer_def relayed_held_def heartbeat_def heartbeat_w.write_fst_get
        record_loaded_model_def record_device_occupancy_def device_w.write_fst_get lm
        heartbeat_row_def loaded_model_row_def device_row_def Let_def
        split: option.splits prod.splits)
qed

lemma fold_poll_other:
  assumes "\<forall>d. \<forall>(now, ok, op) \<in> set (pa_before (answers d)). op_target op \<noteq> c" and "c \<notin> set cids"
  shows "get_consumer c (fold (poll_step cfg answers) cids reg) = get_consumer c reg"
  using assms(2)
proof (induction cids arbitrary: reg)
  case (Cons d cids)
  then have "get_consumer c (poll_step cfg answers d reg) = get_consumer c reg"
    using assms(1) by (simp add: poll_step_def poll_consumer_get_other run_ops_get_other)
  with Cons show ?case by simp
qed simp

lemma poll_tasks_set: "set (poll_tasks has_source reg) = {c \<in> consumer_id ` set reg. has_source c}"
  by (auto simp: poll_tasks_def get_all_def)

lemma poll_tasks_distinct:
  assumes "unique_by consumer_id reg"
  shows "distinct (poll_tasks has_source reg)"
proof -
  have "mset (map consumer_id (get_all reg)) = mset (map consumer_id reg)" by (simp add: get_all_def)
  then have "distinct (map consumer_id (get_all reg))"
    using assms unfolding unique_by_def by (metis mset_eq_imp_distinct_iff)
  then show ?thesis by (simp add: poll_tasks_def)
qed

section \<open>Properties\<close>

text \<open>
  A poll cycle relays each consumer's own measurement and nothing else (R6-AC1 to R6-AC5). In
  whatever order the concurrent reads finish and whatever the other consumers answer, a consumer
  that no other coroutine writes ends the cycle with exactly the holding it reported, observed at
  the time its read finished and live from then on for the staleness bound; and if it has no
  source, could not be read or its write failed, its holding, its state and its last report are
  what they were. The poller never changes a consumer's capacity, priority or lease mode and never
  marks anyone stale.
\<close>

theorem poll_relays_own_measurement:
  assumes "unique_by consumer_id reg" and "get_consumer c reg = Some r"
    and "\<forall>d. \<forall>(now, ok, op) \<in> set (pa_before (answers d)). op_target op \<noteq> c"
  shows "\<exists>r'. get_consumer c (poll_once cfg has_source answers reg) = Some r' \<and>
           lease_mode r' = lease_mode r \<and> priority r' = priority r \<and>
           total_capacity_bytes r' = total_capacity_bytes r \<and>
           (case (if has_source c then relayed_held (answers c) else None) of
              Some h \<Rightarrow> held_bytes r' = h \<and>
                (\<forall>now \<le> pa_at (answers c) + STALE_THRESHOLD_SECONDS cfg. effective_state cfg now r' \<noteq> STALE)
            | None \<Rightarrow> held_bytes r' = held_bytes r \<and> lease_state r' = lease_state r \<and>
                      last_reported_at r' = last_reported_at r)"
proof (cases "has_source c")
  case False
  then have "c \<notin> set (sort_key (\<lambda>cid. pa_at (answers cid)) (poll_tasks has_source reg))"
    by (simp add: poll_tasks_set)
  from fold_poll_other [OF assms(3) this] False assms(2) show ?thesis by (simp add: poll_once_def)
next
  case True
  let ?tasks = "sort_key (\<lambda>cid. pa_at (answers cid)) (poll_tasks has_source reg)"
  have "c \<in> consumer_id ` set reg"
    using assms(2) by (metis get_consumer_def find_by_None option.distinct(1))
  with True have "c \<in> set ?tasks" by (simp add: poll_tasks_set)
  then obtain xs ys where split: "?tasks = xs @ c # ys" by (meson split_list)
  have "distinct ?tasks" using poll_tasks_distinct [OF assms(1)] by simp
  with split have "c \<notin> set xs" "c \<notin> set ys" by simp_all
  note quiet = fold_poll_other [OF assms(3) this(1), of cfg reg] fold_poll_other [OF assms(3) this(2), of cfg]
  let ?reg1 = "run_ops cfg (pa_before (answers c)) (fold (poll_step cfg answers) xs reg)"
  have g1: "get_consumer c ?reg1 = Some r" using assms(2,3) quiet(1) by (simp add: run_ops_get_other)
  have "get_consumer c (poll_once cfg has_source answers reg) =
      get_consumer c (poll_consumer (answers c) c ?reg1)"
    by (simp add: poll_once_def split quiet(2) poll_step_def)
  with poll_consumer_own [OF g1, of "answers c"] True show ?thesis
    by (auto simp: effective_state_def is_stale_def split: option.splits)
qed

definition sample_answer :: "int \<Rightarrow> http_reply option \<Rightarrow> poll_answer" where
  "sample_answer t reply = \<lparr>pa_at = t, pa_read = Some (control_base_read_full reply),
     pa_commits = (True, True, True), pa_before = []\<rparr>"

theorem poll_relays_own_measurement_witness:
  "\<exists>r'. get_consumer ''speak''
      (poll_once default_lease_config (\<lambda>c. True)
        (\<lambda>c. if c = ''speak'' then sample_answer 31 (Some \<lparr>hr_status = Some 200,
                   hr_json = Some (JObj [(''held_bytes'', JInt 7)])\<rparr>)
             else sample_answer 30 None)
        [sample_row ''speak'' 24 2 5 0, sample_row ''sketch'' 24 3 5 0]) = Some r' \<and> held_bytes r' = 7"
proof -
  let ?a = "\<lambda>c. if c = ''speak'' then sample_answer 31 (Some \<lparr>hr_status = Some 200,
                   hr_json = Some (JObj [(''held_bytes'', JInt 7)])\<rparr>) else sample_answer 30 None"
  let ?reg = "[sample_row ''speak'' 24 2 5 0, sample_row ''sketch'' 24 3 5 0]"
  have u: "unique_by consumer_id ?reg" by (simp add: sample_row_def)
  have g: "get_consumer ''speak'' ?reg = Some (sample_row ''speak'' 24 2 5 0)"
    by (simp add: get_consumer_def sample_row_def)
  have q: "\<forall>d. \<forall>(now, ok, op) \<in> set (pa_before (?a d)). op_target op \<noteq> ''speak''" by (simp add: sample_answer_def)
  have h: "relayed_held (?a ''speak'') = Some 7"
    by (simp add: relayed_held_def sample_answer_def control_base_read_full_def parse_held_def is_2xx_def
        json_obj_def int_field_def HELD_FIELDS_def)
  from poll_relays_own_measurement [OF u g q, of default_lease_config "\<lambda>c. True"] h show ?thesis by auto
qed

text \<open>
  A held figure is never invented: a source reports one only if the reply was a 2xx whose body
  is an object in which one of the known fields is that very integer.
\<close>

lemma first_field_Some: "first_field f obj keys = Some v \<Longrightarrow> \<exists>key \<in> set keys. f obj key = Some v"
  by (induction keys) (auto split: option.splits)

theorem held_reading_is_in_the_reply:
  assumes "read_held_bytes env app src = Some h"
  shows "\<exists>url reply obj key. se_get env (url @ STATE_PATH) = Some reply \<and> is_2xx reply \<and>
           hr_json reply = Some (JObj obj) \<and> key \<in> {''held_vram_bytes'', ''held_bytes'', ''held''} \<and>
           map_of obj key = Some (JInt h)"
proof -
  obtain reply where f: "fetch_state env app src = Some reply" and p: "parse_held reply = Some h"
    using assms by (auto simp: read_held_bytes_def split: option.splits)
  obtain url where u: "se_get env (url @ STATE_PATH) = Some reply"
    using f by (auto simp: fetch_state_def split_beta Let_def split: option.splits if_splits)
  obtain obj where obj: "is_2xx reply" "hr_json reply = Some (JObj obj)" "first_field int_field obj HELD_FIELDS = Some h"
    using p by (auto simp: parse_held_def json_obj_def split: if_splits option.splits json.splits)
  from first_field_Some [OF obj(3)] obtain key where "key \<in> set HELD_FIELDS" "int_field obj key = Some h" by blast
  then have "key \<in> {''held_vram_bytes'', ''held_bytes'', ''held''}" "map_of obj key = Some (JInt h)"
    by (auto simp: HELD_FIELDS_def int_field_def split: option.splits json.splits)
  with u obj show ?thesis by blast
qed

theorem held_reading_is_in_the_reply_witness:
  "\<exists>obj. map_of obj ''held'' = Some (JInt 9) \<and>
     read_held_bytes \<lparr>se_mint = \<lambda>a s. True, se_get = \<lambda>u. Some \<lparr>hr_status = Some 200, hr_json = Some (JObj obj)\<rparr>\<rparr>
       (Some \<lparr>LLAMOLOTL_CONTROL_BASE_URLS = Some [''http://x/''], TTS_CONTROL_BASE_URL = None,
              SKETCH_CONTROL_BASE_URL = None, CURATOR_CONTROL_BASE_URL = None\<rparr>) LlamolotlVramStateSource = Some 9"
proof -
  let ?obj = "[(''held_bytes'', JBool True), (''held'', JInt 9)]"
  let ?env = "\<lparr>se_mint = \<lambda>a s. True, se_get = \<lambda>u. Some \<lparr>hr_status = Some 200, hr_json = Some (JObj ?obj)\<rparr>\<rparr>"
  let ?app = "Some \<lparr>LLAMOLOTL_CONTROL_BASE_URLS = Some [''http://x/''], TTS_CONTROL_BASE_URL = None,
              SKETCH_CONTROL_BASE_URL = None, CURATOR_CONTROL_BASE_URL = None\<rparr>"
  have r: "read_held_bytes ?env ?app LlamolotlVramStateSource = Some 9"
    by (simp add: read_held_bytes_def fetch_state_def resolve_list_base_def parse_held_def is_2xx_def
        json_obj_def int_field_def HELD_FIELDS_def)
  from held_reading_is_in_the_reply [OF r] r show ?thesis by (intro exI [of _ ?obj]) simp
qed

text \<open>
  The card reading is not guarded the way the holding is: an error reply whose body carries
  \<open>device_used_bytes\<close> yields no holding but is relayed as card occupancy.
\<close>

theorem error_reply_relays_card_reading:
  "control_base_read_full (Some \<lparr>hr_status = Some 500, hr_json = Some (JObj [(''device_used_bytes'', JInt n)])\<rparr>) =
     no_readings\<lparr>rd_device_used := Some n\<rparr> \<and>
   llamolotl_read_full (Some \<lparr>hr_status = Some 500, hr_json = Some (JObj [(''device_used_bytes'', JInt n)])\<rparr>) =
     no_readings\<lparr>rd_device_used := Some n\<rparr>"
  by (simp add: control_base_read_full_def llamolotl_read_full_def parse_held_def parse_loaded_model_def is_2xx_def
      parse_device_def parse_device_occupancy_def first_int_field_def json_obj_def int_field_def
      DEVICE_USED_FIELDS_def DEVICE_TOTAL_FIELDS_def no_readings_def)

end
