(* ===== verification/Gpu_Jobs.thy ===== *)
theory Gpu_Jobs
  imports Vram_Transports
begin

text \<open>
  The GPU job tables: \<open>curator_job\<close> (\<open>models/curator_jobs.py\<close>), \<open>training_job\<close>
  (\<open>models/training.py\<close>), \<open>eval_job\<close> (\<open>models/eval_jobs.py\<close>) and \<open>publish_job\<close>
  (\<open>models/model_versions.py\<close>). The four tables share their job columns; \<open>job\<close> is the record of
  all of them, a column a table does not have being \<open>None\<close>. \<open>remote_id\<close> and \<open>url_idx\<close> are
  \<open>curator_job_id\<close> and \<open>curator_url_idx\<close> or \<open>llamolotl_job_id\<close> and \<open>llamolotl_url_idx\<close>. \<open>now\<close> is
  \<open>int(time.time())\<close>, \<open>ok\<close> whether the commit succeeds, \<open>uuid\<close> the identifier handed out.

  The lemmas show that keys stay unique, that no method but the delete loses a job, and what each
  write keeps of the columns it is not about, in particular that a status update cannot clear the
  remote job of a row while a requeue does.
\<close>

section \<open>Data\<close>

datatype job_status = Pending | Scheduled | Queued | Running | Completed | Failed | Cancelled

datatype job_priority = Run_now | High | Normal | Other_priority string

record job =
  job_id :: string
  job_user :: string
  job_status :: job_status
  job_priority :: job_priority
  scheduled_for :: "int option"
  remote_id :: "string option"
  url_idx :: "nat option"
  error_message :: "string option"
  job_meta :: "(string \<times> json) list option"
  job_created_at :: int
  job_updated_at :: int
  dataset_name :: "string option"
  created_knowledge_id :: "string option"
  pipeline_id :: "string option"
  eval_type :: "string option"
  benchmark :: "string option"
  model_id :: "string option"
  course_id :: "string option"
  line_id :: "string option"
  result_version_id :: "string option"

definition blank_job :: "string \<Rightarrow> string \<Rightarrow> job_status \<Rightarrow> job_priority \<Rightarrow> int \<Rightarrow> job" where
  "blank_job jid user st prio now =
     \<lparr>job_id = jid, job_user = user, job_status = st, job_priority = prio, scheduled_for = None,
      remote_id = None, url_idx = None, error_message = None, job_meta = None, job_created_at = now,
      job_updated_at = now, dataset_name = None, created_knowledge_id = None, pipeline_id = None,
      eval_type = None, benchmark = None, model_id = None, course_id = None, line_id = None,
      result_version_id = None\<rparr>"

record status_update =
  su_status :: job_status
  su_remote_id :: "string option"
  su_url_idx :: "nat option"
  su_error_message :: "string option"

definition status_only :: "job_status \<Rightarrow> status_update" where
  "status_only st = \<lparr>su_status = st, su_remote_id = None, su_url_idx = None, su_error_message = None\<rparr>"

definition status_because :: "job_status \<Rightarrow> string \<Rightarrow> status_update" where
  "status_because st reason =
     \<lparr>su_status = st, su_remote_id = None, su_url_idx = None, su_error_message = Some reason\<rparr>"

section \<open>Reads\<close>

definition get_job_by_id :: "string \<Rightarrow> job list \<Rightarrow> job option" where
  "get_job_by_id jid jobs = find_by job_id jid jobs"

definition get_all_jobs :: "job list \<Rightarrow> job list" where
  "get_all_jobs jobs = sort_key (\<lambda>j. - job_created_at j) jobs"

definition get_jobs_by_status :: "job_status \<Rightarrow> job list \<Rightarrow> job list" where
  "get_jobs_by_status st jobs = [j \<leftarrow> jobs. job_status j = st]"

definition due :: "int \<Rightarrow> job \<Rightarrow> bool" where
  "due now j \<longleftrightarrow> job_status j = Scheduled \<and> (case scheduled_for j of None \<Rightarrow> False | Some t \<Rightarrow> t \<le> now)"

definition get_due_scheduled_jobs :: "int \<Rightarrow> job list \<Rightarrow> job list" where
  "get_due_scheduled_jobs now jobs = sort_key (\<lambda>j. or0 (scheduled_for j)) [j \<leftarrow> jobs. due now j]"

definition publish_due_scheduled_jobs :: "int \<Rightarrow> job list \<Rightarrow> job list" where
  "publish_due_scheduled_jobs now jobs = [j \<leftarrow> jobs. due now j]"

definition publish_jobs_by_status :: "job_status \<Rightarrow> job list \<Rightarrow> job list" where
  "publish_jobs_by_status st jobs = sort_key job_created_at [j \<leftarrow> jobs. job_status j = st]"

definition get_next_queued_job :: "job list \<Rightarrow> job option" where
  "get_next_queued_job jobs =
     (case sort_key job_created_at (get_jobs_by_status Queued jobs) of [] \<Rightarrow> None | j # _ \<Rightarrow> Some j)"

definition has_running_job :: "job list \<Rightarrow> bool" where
  "has_running_job jobs \<longleftrightarrow> (\<exists>j \<in> set jobs. job_status j = Running)"

section \<open>Inserts\<close>

text \<open>\<open>scheduled_for\<close> of zero is false, as is none.\<close>

definition truthy :: "int option \<Rightarrow> bool" where
  "truthy x \<longleftrightarrow> or0 x \<noteq> 0"

text \<open>The insert of a row: refused on a failing commit or a duplicate key.\<close>

definition add_job :: "bool \<Rightarrow> job \<Rightarrow> job list \<Rightarrow> (job list \<times> job) option" where
  "add_job ok j jobs =
     (if ok \<and> get_job_by_id (job_id j) jobs = None then Some (jobs @ [j], j) else None)"

definition curator_insert_new_job ::
    "bool \<Rightarrow> int \<Rightarrow> string \<Rightarrow> string \<Rightarrow> string \<Rightarrow> int option \<Rightarrow> job_priority \<Rightarrow> string option \<Rightarrow> job list
       \<Rightarrow> (job list \<times> job) result" where
  "curator_insert_new_job ok now uuid user pipeline sched prio dataset jobs =
     (case add_job ok ((blank_job uuid user (if truthy sched then Scheduled else Pending) prio now)
              \<lparr>scheduled_for := sched, pipeline_id := Some pipeline, dataset_name := dataset\<rparr>) jobs of
        Some r \<Rightarrow> Inr r | None \<Rightarrow> Inl DbError)"

definition training_insert_new_job ::
    "bool \<Rightarrow> int \<Rightarrow> string \<Rightarrow> string \<Rightarrow> string \<Rightarrow> string \<Rightarrow> int option \<Rightarrow> job list \<Rightarrow> (job list \<times> job) option" where
  "training_insert_new_job ok now uuid user course model sched jobs =
     add_job ok ((blank_job uuid user (if truthy sched then Scheduled else Pending) Normal now)
       \<lparr>scheduled_for := sched, course_id := Some course, model_id := Some model\<rparr>) jobs"

definition eval_insert_new_job ::
    "bool \<Rightarrow> int \<Rightarrow> string \<Rightarrow> string \<Rightarrow> string \<Rightarrow> string \<Rightarrow> string \<Rightarrow> int option \<Rightarrow> bool \<Rightarrow> job list
       \<Rightarrow> (job list \<times> job) option" where
  "eval_insert_new_job ok now uuid user etype bench model total_samples dry_run jobs =
     (let meta = (case total_samples of None \<Rightarrow> [] | Some n \<Rightarrow> [(''total_samples'', JInt n)]) @
                 (if dry_run then [(''dry_run'', JBool True)] else [])
      in add_job ok ((blank_job uuid user Pending Normal now)
           \<lparr>eval_type := Some etype, benchmark := Some bench, model_id := Some model,
            job_meta := (if meta = [] then None else Some meta)\<rparr>) jobs)"

definition publish_insert_new_job ::
    "bool \<Rightarrow> int \<Rightarrow> string \<Rightarrow> string \<Rightarrow> string \<Rightarrow> int option \<Rightarrow> job_priority \<Rightarrow> job list
       \<Rightarrow> (job list \<times> job) result" where
  "publish_insert_new_job ok now uuid line user sched prio jobs =
     (case add_job ok ((blank_job uuid user (if truthy sched then Scheduled else Queued) prio now)
              \<lparr>scheduled_for := sched, line_id := Some line\<rparr>) jobs of
        Some r \<Rightarrow> Inr r | None \<Rightarrow> Inl (ValueError ''could not create a publish job''))"

section \<open>Updates\<close>

definition keep_or :: "'a option \<Rightarrow> 'a option \<Rightarrow> 'a option" where
  "keep_or new old = (case new of Some v \<Rightarrow> Some v | None \<Rightarrow> old)"

definition status_row :: "int \<Rightarrow> status_update \<Rightarrow> job \<Rightarrow> job" where
  "status_row now u j = j\<lparr>
     job_status := su_status u,
     job_updated_at := now,
     remote_id := keep_or (su_remote_id u) (remote_id j),
     url_idx := keep_or (su_url_idx u) (url_idx j),
     error_message := keep_or (su_error_message u) (error_message j)\<rparr>"

definition requeue_row :: "int \<Rightarrow> string \<Rightarrow> job \<Rightarrow> job" where
  "requeue_row now reason j = j\<lparr>
     job_status := Queued, remote_id := None, url_idx := None, error_message := Some reason,
     job_updated_at := now\<rparr>"

definition knowledge_row :: "int \<Rightarrow> string \<Rightarrow> job \<Rightarrow> job" where
  "knowledge_row now kid j = j\<lparr>created_knowledge_id := Some kid, job_updated_at := now\<rparr>"

text \<open>\<open>dict.update\<close>: new keys replace old ones in place and the others are appended.\<close>

fun dict_set :: "string \<times> json \<Rightarrow> (string \<times> json) list \<Rightarrow> (string \<times> json) list" where
  "dict_set (k, v) [] = [(k, v)]"
| "dict_set (k, v) ((k', v') # rest) = (if k' = k then (k, v) # rest else (k', v') # dict_set (k, v) rest)"

definition dict_update :: "(string \<times> json) list \<Rightarrow> (string \<times> json) list \<Rightarrow> (string \<times> json) list" where
  "dict_update new old = fold dict_set new old"

definition meta_of :: "job \<Rightarrow> (string \<times> json) list" where
  "meta_of j = (case job_meta j of None \<Rightarrow> [] | Some m \<Rightarrow> m)"

definition meta_row :: "int \<Rightarrow> (string \<times> json) list \<Rightarrow> job \<Rightarrow> job" where
  "meta_row now new j = j\<lparr>job_meta := Some (dict_update new (meta_of j)), job_updated_at := now\<rparr>"

definition reschedule_row :: "int \<Rightarrow> int option \<Rightarrow> job \<Rightarrow> job" where
  "reschedule_row now sched j = j\<lparr>
     scheduled_for := sched,
     job_status := (case sched of Some _ \<Rightarrow> Scheduled | None \<Rightarrow> Pending),
     job_updated_at := now\<rparr>"

definition dispatched_row :: "int \<Rightarrow> string \<Rightarrow> nat \<Rightarrow> job \<Rightarrow> job" where
  "dispatched_row now task idx j = j\<lparr>
     job_status := Running, remote_id := Some task, url_idx := Some idx, job_updated_at := now\<rparr>"

definition publish_status_row :: "int \<Rightarrow> job_status \<Rightarrow> string option \<Rightarrow> string option \<Rightarrow> job \<Rightarrow> job" where
  "publish_status_row now st err res j = j\<lparr>
     job_status := st, error_message := err, result_version_id := res, job_updated_at := now\<rparr>"

text \<open>
  The common write: \<open>query.filter_by(id=id).update(fields)\<close> changes the matching row, a failing
  commit changes nothing, and the row is read back.
\<close>

definition write_job :: "bool \<Rightarrow> string \<Rightarrow> (job \<Rightarrow> job) \<Rightarrow> job list \<Rightarrow> job list \<times> job option" where
  "write_job ok jid f jobs =
     (if ok then (let jobs' = update_by job_id jid f jobs in (jobs', get_job_by_id jid jobs')) else (jobs, None))"

definition curator_update_job_status ::
    "bool \<Rightarrow> int \<Rightarrow> string \<Rightarrow> status_update \<Rightarrow> job list \<Rightarrow> (job list \<times> job option) result" where
  "curator_update_job_status ok now jid u jobs =
     (if ok then Inr (write_job True jid (status_row now u) jobs) else Inl DbError)"

definition training_update_job_status ::
    "bool \<Rightarrow> int \<Rightarrow> string \<Rightarrow> status_update \<Rightarrow> job list \<Rightarrow> job list \<times> job option" where
  "training_update_job_status ok now jid u jobs = write_job ok jid (status_row now u) jobs"

definition eval_update_job_status ::
    "bool \<Rightarrow> int \<Rightarrow> string \<Rightarrow> job_status \<Rightarrow> string option \<Rightarrow> job list \<Rightarrow> job list \<times> job option" where
  "eval_update_job_status ok now jid st err jobs =
     write_job ok jid
       (status_row now \<lparr>su_status = st, su_remote_id = None, su_url_idx = None, su_error_message = err\<rparr>) jobs"

definition requeue_for_next_window ::
    "bool \<Rightarrow> int \<Rightarrow> string \<Rightarrow> string \<Rightarrow> job list \<Rightarrow> job list \<times> job option" where
  "requeue_for_next_window ok now jid reason jobs = write_job ok jid (requeue_row now reason) jobs"

definition update_created_knowledge_id ::
    "bool \<Rightarrow> int \<Rightarrow> string \<Rightarrow> string \<Rightarrow> job list \<Rightarrow> job list \<times> bool" where
  "update_created_knowledge_id ok now jid kid jobs = (fst (write_job ok jid (knowledge_row now kid) jobs), ok)"

definition update_job_meta ::
    "bool \<Rightarrow> int \<Rightarrow> string \<Rightarrow> (string \<times> json) list \<Rightarrow> job list \<Rightarrow> job list \<times> job option" where
  "update_job_meta ok now jid new jobs =
     (case get_job_by_id jid jobs of
        None \<Rightarrow> (jobs, None)
      | Some _ \<Rightarrow> write_job ok jid (meta_row now new) jobs)"

definition update_job_scheduled_for ::
    "bool \<Rightarrow> int \<Rightarrow> string \<Rightarrow> int option \<Rightarrow> job list \<Rightarrow> job list \<times> job option" where
  "update_job_scheduled_for ok now jid sched jobs = write_job ok jid (reschedule_row now sched) jobs"

definition mark_dispatched ::
    "bool \<Rightarrow> int \<Rightarrow> string \<Rightarrow> string \<Rightarrow> nat \<Rightarrow> job list \<Rightarrow> job list \<times> job option" where
  "mark_dispatched ok now jid task idx jobs = write_job ok jid (dispatched_row now task idx) jobs"

definition publish_update_status ::
    "bool \<Rightarrow> int \<Rightarrow> string \<Rightarrow> job_status \<Rightarrow> string option \<Rightarrow> string option \<Rightarrow> job list \<Rightarrow> job list \<times> job option" where
  "publish_update_status ok now jid st err res jobs = write_job ok jid (publish_status_row now st err res) jobs"

text \<open>A \<open>None\<close> reason is the JSON null.\<close>

definition reason_json :: "string option \<Rightarrow> json" where
  "reason_json r = (case r of None \<Rightarrow> JNull | Some s \<Rightarrow> JStr s)"

definition waiting_reason :: "job \<Rightarrow> json" where
  "waiting_reason j = (case map_of (meta_of j) ''waiting_reason'' of Some v \<Rightarrow> v | None \<Rightarrow> JNull)"

definition record_wait_reason ::
    "bool \<Rightarrow> int \<Rightarrow> string \<Rightarrow> string option \<Rightarrow> job list \<Rightarrow> job list" where
  "record_wait_reason ok now jid reason jobs =
     (case get_job_by_id jid jobs of
        None \<Rightarrow> jobs
      | Some j \<Rightarrow>
          if waiting_reason j = reason_json reason then jobs
          else fst (write_job ok jid (meta_row now [(''waiting_reason'', reason_json reason)]) jobs))"

definition delete_job_by_id :: "bool \<Rightarrow> string \<Rightarrow> job list \<Rightarrow> job list \<times> bool" where
  "delete_job_by_id ok jid jobs = (if ok then ([j \<leftarrow> jobs. job_id j \<noteq> jid], True) else (jobs, False))"

section \<open>Row writers\<close>

lemmas job_row_defs =
  status_row_def requeue_row_def knowledge_row_def meta_row_def reschedule_row_def dispatched_row_def
  publish_status_row_def

text \<open>
  A job writer keeps the key and the columns that say what the job is: its owner, its priority, its
  creation time and its payload.
\<close>

definition job_identity :: "job \<Rightarrow> string \<times> string \<times> job_priority \<times> int \<times> string option \<times> string option \<times> string option" where
  "job_identity j =
     (job_id j, job_user j, job_priority j, job_created_at j, pipeline_id j, eval_type j, course_id j)"

locale job_writer =
  fixes f :: "job \<Rightarrow> job"
  assumes identity_kept: "job_identity (f j) = job_identity j"
begin

sublocale row_write job_id f
  by unfold_locales (use identity_kept in \<open>simp add: job_identity_def\<close>)

lemma write_get:
  "get_job_by_id j (fst (write_job ok jid f jobs)) =
     (if j = jid \<and> ok then map_option f (get_job_by_id j jobs) else get_job_by_id j jobs)"
  by (simp add: write_job_def get_job_by_id_def find_any Let_def)

lemma write_read_back: "snd (write_job True jid f jobs) = map_option f (get_job_by_id jid jobs)"
  by (simp add: write_job_def get_job_by_id_def find_written Let_def)

lemma write_identities: "map job_identity (fst (write_job ok jid f jobs)) = map job_identity jobs"
proof -
  have "map job_identity (update_by job_id jid f jobs) = map job_identity jobs"
    by (rule map_update_by_same) (rule identity_kept)
  then show ?thesis by (simp add: write_job_def Let_def)
qed

lemma write_unique: "unique_by job_id (fst (write_job ok jid f jobs)) = unique_by job_id jobs"
  by (simp add: write_job_def unique_kept Let_def)

end

interpretation status_j: job_writer "status_row now u" for now u
  by unfold_locales (simp add: job_identity_def job_row_defs)

interpretation requeue_j: job_writer "requeue_row now reason" for now reason
  by unfold_locales (simp add: job_identity_def job_row_defs)

interpretation knowledge_j: job_writer "knowledge_row now kid" for now kid
  by unfold_locales (simp add: job_identity_def job_row_defs)

interpretation meta_j: job_writer "meta_row now new" for now new
  by unfold_locales (simp add: job_identity_def job_row_defs)

interpretation reschedule_j: job_writer "reschedule_row now sched" for now sched
  by unfold_locales (simp add: job_identity_def job_row_defs)

interpretation dispatched_j: job_writer "dispatched_row now task idx" for now task idx
  by unfold_locales (simp add: job_identity_def job_row_defs)

interpretation publish_status_j: job_writer "publish_status_row now st err res" for now st err res
  by unfold_locales (simp add: job_identity_def job_row_defs)

section \<open>Properties\<close>

text \<open>
  A requeue detaches a curator job from its remote run and a status update cannot (self.ai#88).
  After a successful requeue the job is queued with no remote id, no worker and the reason, its
  schedule, payload and priority untouched, and every other job as it was; whereas no status
  update, whatever it carries, ever removes a remote id from a row.
\<close>

theorem requeue_detaches_remote_run:
  assumes "get_job_by_id jid jobs = Some j"
  shows "\<exists>j'. get_job_by_id jid (fst (requeue_for_next_window True now jid reason jobs)) = Some j' \<and>
           job_status j' = Queued \<and> remote_id j' = None \<and> url_idx j' = None \<and> error_message j' = Some reason \<and>
           scheduled_for j' = scheduled_for j \<and> job_meta j' = job_meta j \<and> job_identity j' = job_identity j \<and>
           (\<forall>i. i \<noteq> jid \<longrightarrow>
              get_job_by_id i (fst (requeue_for_next_window True now jid reason jobs)) = get_job_by_id i jobs) \<and>
           (\<forall>u jobs'. curator_update_job_status True now jid u jobs = Inr jobs' \<and> remote_id j \<noteq> None \<longrightarrow>
              (\<exists>j''. get_job_by_id jid (fst jobs') = Some j'' \<and> remote_id j'' \<noteq> None))"
proof -
  have r: "get_job_by_id i (fst (requeue_for_next_window True now jid reason jobs)) =
      (if i = jid then Some (requeue_row now reason j) else get_job_by_id i jobs)" for i
    using assms by (simp add: requeue_for_next_window_def requeue_j.write_get)
  have "\<exists>j''. get_job_by_id jid (fst jobs') = Some j'' \<and> remote_id j'' \<noteq> None"
    if "curator_update_job_status True now jid u jobs = Inr jobs'" and "remote_id j \<noteq> None" for u jobs'
  proof -
    have "get_job_by_id jid (fst jobs') = Some (status_row now u j)"
      using that(1) assms status_j.write_get [of jid True jid now u jobs]
      by (auto simp: curator_update_job_status_def)
    with that(2) show ?thesis by (auto simp: status_row_def keep_or_def split: option.split)
  qed
  with r requeue_j.identity_kept [of now reason j] show ?thesis by (auto simp: requeue_row_def)
qed

theorem requeue_detaches_remote_run_witness:
  "\<exists>j'. get_job_by_id ''j'' (fst (requeue_for_next_window True 50 ''j'' ''e-stop''
       [(blank_job ''j'' ''u'' Running Normal 7)\<lparr>remote_id := Some ''r1'', url_idx := Some 0\<rparr>])) = Some j' \<and>
     job_status j' = Queued \<and> remote_id j' = None"
proof -
  let ?j = "(blank_job ''j'' ''u'' Running Normal 7)\<lparr>remote_id := Some ''r1'', url_idx := Some 0\<rparr>"
  have g: "get_job_by_id ''j'' [?j] = Some ?j" by (simp add: get_job_by_id_def blank_job_def)
  from requeue_detaches_remote_run [OF g, of 50 "''e-stop''"] show ?thesis by blast
qed

end
