(* ===== verification/Vram_Endpoints.thy ===== *)
theory Vram_Endpoints
  imports Gpu_Jobs
begin

text \<open>
  The HTTP boundary of the lease subsystem: the trusted consumer policy of
  \<open>utils/vram_consumer_config.py\<close> and the handlers of \<open>routers/vram_leases.py\<close>, after their
  authentication dependency has let the caller in. The environment is a map from variable names to
  values. A handler that raises an \<open>HTTPException\<close> returns it. The e-stop calls the consumers'
  transports directly; what each answers is a parameter, as is the summary of llamolotl's
  unload-all.

  The lemmas show that nothing policy-shaped in a registration or a lease request is the caller's
  to assert, and what the e-stop does and does not touch.
\<close>

section \<open>Trusted policy\<close>

type_synonym env_vars = "string \<Rightarrow> string option"

record consumer_env =
  ce_consumer :: string
  ce_capacity :: string
  ce_priority :: string
  ce_namespace :: "string option"
  ce_selector :: "string option"

definition CONSUMER_ENV :: "consumer_env list" where
  "CONSUMER_ENV = [
     \<lparr>ce_consumer = ''self.llamolotl'', ce_capacity = ''LLAMOLOTL_VRAM_CAPACITY_BYTES'',
      ce_priority = ''LLAMOLOTL_VRAM_LEASE_PRIORITY'', ce_namespace = Some ''LLAMOLOTL_K8S_NAMESPACE'',
      ce_selector = Some ''LLAMOLOTL_K8S_POD_SELECTOR''\<rparr>,
     \<lparr>ce_consumer = ''self.speak'', ce_capacity = ''SPEAK_VRAM_CAPACITY_BYTES'',
      ce_priority = ''SPEAK_VRAM_LEASE_PRIORITY'', ce_namespace = None, ce_selector = None\<rparr>,
     \<lparr>ce_consumer = ''self.sketch'', ce_capacity = ''SKETCH_VRAM_CAPACITY_BYTES'',
      ce_priority = ''SKETCH_VRAM_LEASE_PRIORITY'', ce_namespace = None, ce_selector = None\<rparr>,
     \<lparr>ce_consumer = ''self.curator'', ce_capacity = ''CURATOR_VRAM_CAPACITY_BYTES'',
      ce_priority = ''CURATOR_VRAM_LEASE_PRIORITY'', ce_namespace = Some ''CURATOR_K8S_NAMESPACE'',
      ce_selector = Some ''CURATOR_K8S_POD_SELECTOR''\<rparr>,
     \<lparr>ce_consumer = ''self.publish'', ce_capacity = ''PUBLISH_VRAM_CAPACITY_BYTES'',
      ce_priority = ''PUBLISH_VRAM_LEASE_PRIORITY'', ce_namespace = None, ce_selector = None\<rparr>]"

record consumer_policy =
  cp_capacity :: int
  cp_priority :: int
  cp_namespace :: "string option"
  cp_selector :: "string option"

definition env_value :: "env_vars \<Rightarrow> string option \<Rightarrow> string option" where
  "env_value env name = (case nonempty name of None \<Rightarrow> None | Some n \<Rightarrow> env n)"

definition as_int :: "string option \<Rightarrow> int option" where
  "as_int value = (case value of None \<Rightarrow> None | Some s \<Rightarrow> py_int s)"

definition blank_to_none :: "string option \<Rightarrow> string option" where
  "blank_to_none value = (case value of None \<Rightarrow> None | Some s \<Rightarrow> nonempty (Some (py_strip s)))"

definition policy_of :: "env_vars \<Rightarrow> consumer_env \<Rightarrow> consumer_policy option" where
  "policy_of env ce =
     (case as_int (env_value env (Some (ce_capacity ce))) of
        None \<Rightarrow> None
      | Some capacity \<Rightarrow>
          Some \<lparr>cp_capacity = capacity, cp_priority = or0 (as_int (env_value env (Some (ce_priority ce)))),
                cp_namespace = blank_to_none (env_value env (ce_namespace ce)),
                cp_selector = blank_to_none (env_value env (ce_selector ce))\<rparr>)"

definition trusted_consumer_config :: "env_vars \<Rightarrow> (string \<times> consumer_policy) list" where
  "trusted_consumer_config env =
     concat (map (\<lambda>ce. case policy_of env ce of None \<Rightarrow> [] | Some p \<Rightarrow> [(ce_consumer ce, p)]) CONSUMER_ENV)"

definition apply_trusted_policy ::
    "env_vars \<Rightarrow> vram_consumer_register_form \<Rightarrow> vram_consumer_register_form option" where
  "apply_trusted_policy env form =
     (case map_of (trusted_consumer_config env) (rf_consumer_id form) of
        None \<Rightarrow> None
      | Some p \<Rightarrow> Some (form\<lparr>rf_total_capacity_bytes := cp_capacity p, rf_priority := cp_priority p,
                              rf_k8s_namespace := cp_namespace p, rf_k8s_pod_selector := cp_selector p\<rparr>))"

section \<open>Handlers\<close>

definition register_consumer ::
    "env_vars \<Rightarrow> bool \<Rightarrow> int \<Rightarrow> vram_consumer_register_form \<Rightarrow> registry \<Rightarrow> registry \<times> vram_consumer result" where
  "register_consumer env ok now form reg =
     (case apply_trusted_policy env form of
        None \<Rightarrow> (reg, Inl (HTTPException 403))
      | Some trusted \<Rightarrow>
          (case register ok now trusted reg of
             (reg', None) \<Rightarrow> (reg', Inl (HTTPException 500))
           | (reg', Some row) \<Rightarrow> (reg', Inr row)))"

definition heartbeat_consumer ::
    "bool \<Rightarrow> int \<Rightarrow> string \<Rightarrow> int \<Rightarrow> registry \<Rightarrow> registry \<times> vram_consumer result" where
  "heartbeat_consumer ok now cid held reg =
     (case heartbeat ok now cid held reg of
        (reg', None) \<Rightarrow> (reg', Inl (HTTPException 404))
      | (reg', Some row) \<Rightarrow> (reg', Inr row))"

datatype lease_reply = Lease_ok lease_granted | Lease_conflict lease_denied | Lease_error py_exn

definition request_lease_endpoint ::
    "broker \<Rightarrow> lock_wait \<Rightarrow> string \<Rightarrow> int \<Rightarrow> int \<Rightarrow> world \<Rightarrow> world \<times> lease_reply" where
  "request_lease_endpoint b lk cid amount declared w =
     (let prio = (case get_consumer cid (w_reg w) of Some row \<Rightarrow> priority row | None \<Rightarrow> declared)
      in case request_lease b None lk cid amount prio None w of
           Inl (ValueError m) \<Rightarrow> (pass_time b (lk_wait lk) (lk_meanwhile lk) w, Lease_error (HTTPException 400))
         | Inl e \<Rightarrow> (pass_time b (lk_wait lk) (lk_meanwhile lk) w, Lease_error e)
         | Inr (w', LeaseDenied d) \<Rightarrow> (w', Lease_conflict d)
         | Inr (w', LeaseGranted g) \<Rightarrow> (w', Lease_ok g))"

definition list_consumers :: "lease_config \<Rightarrow> int \<Rightarrow> registry \<Rightarrow> vram_consumer_status list" where
  "list_consumers cfg now reg = sum_consumers (capacity_summary cfg now reg)"

definition reconcile_consumer ::
    "bool \<Rightarrow> int \<Rightarrow> string \<Rightarrow> registry \<Rightarrow> registry \<times> vram_consumer result" where
  "reconcile_consumer ok now cid reg =
     (case reconcile ok now cid reg of
        (reg', None) \<Rightarrow> (reg', Inl (HTTPException 404))
      | (reg', Some row) \<Rightarrow> (reg', Inr row))"

section \<open>The e-stop\<close>

datatype estop_detail =
    Released release_outcome "int option" "string option"
  | Unloaded bool
  | Estop_error

record release_all_result =
  ra_consumer_id :: string
  ra_ok :: bool
  ra_detail :: estop_detail

record release_all_summary =
  ras_results :: "release_all_result list"
  ras_curator_requeued :: "string list"

text \<open>A forceful transport call, \<open>None\<close> when it raises.\<close>

type_synonym force_transport = "string \<Rightarrow> int \<Rightarrow> release_response option"

definition ESTOP_RELEASE_SENTINEL_BYTES :: int where
  "ESTOP_RELEASE_SENTINEL_BYTES = 2 ^ 60"

definition estop_target_bytes :: "vram_consumer \<Rightarrow> int" where
  "estop_target_bytes c =
     (let held = max (held_bytes c) (or0 (reserved_bytes c))
      in if held > 0 then held else ESTOP_RELEASE_SENTINEL_BYTES)"

definition force_release_consumer :: "force_transport option \<Rightarrow> string \<Rightarrow> int \<Rightarrow> release_all_result" where
  "force_release_consumer tr cid amount =
     (case tr of
        None \<Rightarrow> \<lparr>ra_consumer_id = cid, ra_ok = False, ra_detail = Estop_error\<rparr>
      | Some call \<Rightarrow>
          (case call cid amount of
             None \<Rightarrow> \<lparr>ra_consumer_id = cid, ra_ok = False, ra_detail = Estop_error\<rparr>
           | Some resp \<Rightarrow>
               \<lparr>ra_consumer_id = cid, ra_ok = (rr_outcome resp = CONFIRMED),
                ra_detail = Released (rr_outcome resp) (rr_new_held_bytes resp) (nonempty (rr_reason resp))\<rparr>))"

text \<open>\<open>unloaded\<close>: \<open>None\<close> when the unload raises, otherwise whether there were no errors.\<close>

definition estop_llamolotl :: "bool option \<Rightarrow> release_all_result" where
  "estop_llamolotl unloaded =
     (case unloaded of
        None \<Rightarrow> \<lparr>ra_consumer_id = LLAMOLOTL_AUDIENCE, ra_ok = False, ra_detail = Estop_error\<rparr>
      | Some clean \<Rightarrow> \<lparr>ra_consumer_id = LLAMOLOTL_AUDIENCE, ra_ok = clean, ra_detail = Unloaded clean\<rparr>)"

text \<open>
  \<open>running\<close>: the job list read, \<open>None\<close> when the read raises. A requeue whose commit fails is
  caught inside the table class and still counts as requeued.
\<close>

definition requeue_estopped ::
    "(string \<Rightarrow> bool) \<Rightarrow> int \<Rightarrow> bool \<Rightarrow> job list \<Rightarrow> job list \<times> string list" where
  "requeue_estopped ok now readable jobs =
     (if \<not> readable then (jobs, [])
      else (let ids = map job_id (get_jobs_by_status Running jobs)
            in (fold (\<lambda>jid js. fst (requeue_for_next_window (ok jid) now jid ''Stopped by the VRAM e-stop'' js)) ids jobs,
                ids)))"

definition release_all ::
    "force_transport option \<Rightarrow> bool option \<Rightarrow> (string \<Rightarrow> bool) \<Rightarrow> int \<Rightarrow> bool \<Rightarrow> registry \<Rightarrow> job list
       \<Rightarrow> job list \<times> release_all_summary" where
  "release_all tr unloaded ok now readable reg jobs =
     (let consumers = get_all reg;
          legs = map (\<lambda>c. if consumer_id c = LLAMOLOTL_AUDIENCE then estop_llamolotl unloaded
                          else force_release_consumer tr (consumer_id c) (estop_target_bytes c)) consumers;
          extra = (if LLAMOLOTL_AUDIENCE \<in> set (map consumer_id consumers) then [] else [estop_llamolotl unloaded]);
          (jobs', ids) = requeue_estopped ok now readable jobs
      in (jobs', \<lparr>ras_results = legs @ extra, ras_curator_requeued = ids\<rparr>))"

section \<open>Properties\<close>

lemma apply_trusted_held:
  "apply_trusted_policy env form = Some trusted \<Longrightarrow>
     rf_consumer_id trusted = rf_consumer_id form \<and> rf_held_bytes trusted = rf_held_bytes form \<and>
     (\<exists>p. map_of (trusted_consumer_config env) (rf_consumer_id form) = Some p \<and>
        rf_total_capacity_bytes trusted = cp_capacity p \<and> rf_priority trusted = cp_priority p \<and>
        rf_k8s_namespace trusted = cp_namespace p \<and> rf_k8s_pod_selector trusted = cp_selector p)"
  by (auto simp: apply_trusted_policy_def split: option.splits)

text \<open>
  A registration over HTTP can only ever assert what the consumer holds (#79). For a consumer
  this deployment is not configured for it is refused with 403 and the table does not change; for a
  configured one, whatever capacity, priority and pod identity the caller sends, the row carries
  the operator's values and the caller's holding, and no other row changes. So no ticket holder can
  raise the pool ceiling or its own reclaim power.
\<close>

theorem http_registration_enforces_policy:
  "(map_of (trusted_consumer_config env) (rf_consumer_id form) = None \<longrightarrow>
      register_consumer env ok now form reg = (reg, Inl (HTTPException 403))) \<and>
   (\<forall>p reg' row. map_of (trusted_consumer_config env) (rf_consumer_id form) = Some p \<and>
      register_consumer env ok now form reg = (reg', Inr row) \<longrightarrow>
        get_consumer (rf_consumer_id form) reg' = Some row \<and>
        total_capacity_bytes row = cp_capacity p \<and> priority row = cp_priority p \<and>
        k8s_namespace row = cp_namespace p \<and> k8s_pod_selector row = cp_selector p \<and>
        held_bytes row = rf_held_bytes form \<and> lease_mode row = SHARED \<and>
        (\<forall>c. c \<noteq> rf_consumer_id form \<longrightarrow> get_consumer c reg' = get_consumer c reg))"
proof (rule conjI; (intro allI)?; rule impI)
  assume "map_of (trusted_consumer_config env) (rf_consumer_id form) = None"
  then show "register_consumer env ok now form reg = (reg, Inl (HTTPException 403))"
    by (simp add: register_consumer_def apply_trusted_policy_def)
next
  fix p reg' row
  assume a: "map_of (trusted_consumer_config env) (rf_consumer_id form) = Some p \<and>
      register_consumer env ok now form reg = (reg', Inr row)"
  let ?t = "form\<lparr>rf_total_capacity_bytes := cp_capacity p, rf_priority := cp_priority p,
                 rf_k8s_namespace := cp_namespace p, rf_k8s_pod_selector := cp_selector p\<rparr>"
  let ?cid = "rf_consumer_id form"
  from a have reg: "register ok now ?t reg = (reg', Some row)"
    by (auto simp: register_consumer_def apply_trusted_policy_def split: prod.splits option.splits)
  have other: "get_consumer c reg' = get_consumer c reg" if "c \<noteq> ?cid" for c
    using exec_op_get_other [of c "Op_register ?t" default_lease_config ok now reg] that reg by simp
  show "get_consumer ?cid reg' = Some row \<and> total_capacity_bytes row = cp_capacity p \<and>
      priority row = cp_priority p \<and> k8s_namespace row = cp_namespace p \<and> k8s_pod_selector row = cp_selector p \<and>
      held_bytes row = rf_held_bytes form \<and> lease_mode row = SHARED \<and>
      (\<forall>c. c \<noteq> ?cid \<longrightarrow> get_consumer c reg' = get_consumer c reg)"
  proof (cases "get_consumer ?cid reg")
    case None
    then have "row = new_consumer ?t now \<and> get_consumer ?cid reg' = Some row"
      using reg by (auto simp: register_def Let_def get_consumer_def find_by_append new_consumer_def split: if_splits)
    with other show ?thesis by (simp add: new_consumer_def)
  next
    case (Some old)
    then have "row = register_row ?t now old \<and> get_consumer ?cid reg' = Some row"
      using reg by (auto simp: register_def Let_def get_consumer_def register_w.find_written split: if_splits)
    with other show ?thesis by (simp add: register_row_def)
  qed
qed

definition sample_env :: env_vars where
  "sample_env = [''SPEAK_VRAM_CAPACITY_BYTES'' \<mapsto> ''24'', ''SPEAK_VRAM_LEASE_PRIORITY'' \<mapsto> '' 5 '']"

lemma trusted_consumer_keys: "fst ` set (trusted_consumer_config env) \<subseteq> ce_consumer ` set CONSUMER_ENV"
  by (auto simp: trusted_consumer_config_def split: option.splits)

theorem http_registration_enforces_policy_witness:
  "register_consumer sample_env True 9 (sample_form ''evil'' 999 0 99) [] = ([], Inl (HTTPException 403))"
proof -
  have "''evil'' \<notin> fst ` set (trusted_consumer_config sample_env)"
    using trusted_consumer_keys [of sample_env] by (auto simp: CONSUMER_ENV_def)
  then have "map_of (trusted_consumer_config sample_env) (rf_consumer_id (sample_form ''evil'' 999 0 99)) = None"
    by (simp add: map_of_eq_None_iff sample_form_def)
  with http_registration_enforces_policy show ?thesis by blast
qed

text \<open>
  The priority in a lease request is advisory (#4): for a registered consumer the answer and
  everything that happens in the registry are the same whatever priority the caller declares.
\<close>

theorem declared_priority_is_ignored:
  assumes "get_consumer cid (w_reg w) = Some row"
  shows "request_lease_endpoint b lk cid amount declared w = request_lease_endpoint b lk cid amount (priority row) w"
  using assms by (simp add: request_lease_endpoint_def)

theorem declared_priority_is_ignored_witness:
  "request_lease_endpoint sample_broker lock_free ''speak'' 10 99 sample_world =
     request_lease_endpoint sample_broker lock_free ''speak'' 10 8 sample_world"
proof -
  have g: "get_consumer ''speak'' (w_reg sample_world) = Some (sample_row ''speak'' 24 0 8 0)"
    by (simp add: sample_world_def get_consumer_def sample_row_def)
  from declared_priority_is_ignored [OF g, of sample_broker lock_free 10 99] show ?thesis by (simp add: sample_row_def)
qed

lemma requeue_step_get:
  "get_job_by_id i (fst (requeue_for_next_window ok now jid reason jobs)) =
     (if i = jid \<and> ok then map_option (requeue_row now reason) (get_job_by_id i jobs) else get_job_by_id i jobs)"
  by (simp add: requeue_for_next_window_def requeue_j.write_get)

lemma requeue_fold_get:
  "get_job_by_id i (fold (\<lambda>jid js. fst (requeue_for_next_window (ok jid) now jid reason js)) ids jobs) =
     (if i \<in> set ids \<and> ok i then map_option (requeue_row now reason) (get_job_by_id i jobs) else get_job_by_id i jobs)"
proof (induction ids arbitrary: jobs)
  case (Cons jid ids)
  have idem: "requeue_row now reason \<circ> requeue_row now reason = requeue_row now reason"
    by (rule ext) (simp add: requeue_row_def)
  show ?case by (auto simp: Cons.IH requeue_step_get option.map_comp idem)
qed simp

text \<open>
  The e-stop reaches everybody. Every registered consumer gets exactly one leg, in order, and
  llamolotl's unload runs even when llamolotl is not registered; one leg failing changes no other.
  Every running curator job whose requeue lands is queued again without a remote run, and no other
  job changes.
\<close>

theorem estop_reaches_everyone:
  "(let (jobs', summary) = release_all tr unloaded ok now True reg jobs
    in map ra_consumer_id (ras_results summary) =
         map consumer_id (get_all reg) @
         (if LLAMOLOTL_AUDIENCE \<in> consumer_id ` set reg then [] else [LLAMOLOTL_AUDIENCE]) \<and>
       (\<forall>i. get_job_by_id i jobs' =
          (if (\<exists>j \<in> set jobs. job_id j = i \<and> job_status j = Running) \<and> ok i
           then map_option (requeue_row now ''Stopped by the VRAM e-stop'') (get_job_by_id i jobs)
           else get_job_by_id i jobs)))"
proof -
  have leg: "ra_consumer_id (if consumer_id c = LLAMOLOTL_AUDIENCE then estop_llamolotl unloaded
      else force_release_consumer tr (consumer_id c) (estop_target_bytes c)) = consumer_id c" for c
    by (auto simp: estop_llamolotl_def force_release_consumer_def split: option.split)
  have l: "ra_consumer_id (estop_llamolotl unloaded) = LLAMOLOTL_AUDIENCE"
    by (simp add: estop_llamolotl_def split: option.split)
  have ids: "i \<in> set (map job_id (get_jobs_by_status Running jobs)) \<longleftrightarrow>
      (\<exists>j \<in> set jobs. job_id j = i \<and> job_status j = Running)" for i
    by (auto simp: get_jobs_by_status_def)
  have mem: "LLAMOLOTL_AUDIENCE \<in> set (map consumer_id (get_all reg)) \<longleftrightarrow> LLAMOLOTL_AUDIENCE \<in> consumer_id ` set reg"
    by (simp add: get_all_def)
  show ?thesis
    unfolding release_all_def requeue_estopped_def Let_def mem
    by (simp add: leg l requeue_fold_get ids o_def del: set_map)
qed

theorem estop_reaches_everyone_witness:
  "get_job_by_id ''j'' (fst (release_all None None (\<lambda>i. True) 5 True [] [blank_job ''j'' ''u'' Running Normal 1])) =
     Some (requeue_row 5 ''Stopped by the VRAM e-stop'' (blank_job ''j'' ''u'' Running Normal 1))"
  using estop_reaches_everyone [of None None "\<lambda>i. True" 5 "[]" "[blank_job ''j'' ''u'' Running Normal 1]"]
  by (simp add: get_job_by_id_def blank_job_def split_beta)

text \<open>
  The e-stop detaches a run it could not stop. When the curator's forceful release fails, the
  summary says so, but the running job is requeued all the same with its remote id cleared: the
  pipeline may still be running and nothing is left to cancel it with.
\<close>

theorem estop_detaches_unstopped_run:
  "\<exists>jobs' summary j'.
     release_all (Some (\<lambda>cid amount. None)) (Some True) (\<lambda>i. True) 5 True [sample_row ''self.curator'' 24 9 8 0]
       [(blank_job ''j'' ''u'' Running Normal 1)\<lparr>remote_id := Some ''r1'', url_idx := Some 0\<rparr>] = (jobs', summary) \<and>
     (\<exists>leg \<in> set (ras_results summary). ra_consumer_id leg = ''self.curator'' \<and> \<not> ra_ok leg) \<and>
     get_job_by_id ''j'' jobs' = Some j' \<and> job_status j' = Queued \<and> remote_id j' = None"
  by (simp add: release_all_def requeue_estopped_def get_all_def get_jobs_by_status_def blank_job_def sample_row_def
      LLAMOLOTL_AUDIENCE_def force_release_consumer_def requeue_for_next_window_def write_job_def
      get_job_by_id_def requeue_row_def Let_def)

end
