(* ===== verification/Job_Windows.thy ===== *)
theory Job_Windows
  imports Selfai_Prelude
begin

text \<open>
  The GPU job windows of \<open>models/job_windows.py\<close>: the tables \<open>job_window\<close> and
  \<open>job_window_slot\<close> and every method of \<open>JobWindowTable\<close>. \<open>now\<close> is \<open>int(time.time())\<close>,
  \<open>ok\<close> whether the database calls succeed (a failure is caught and gives \<open>None\<close> or \<open>False\<close>
  with the session rolled back), and \<open>uuid\<close> the identifiers \<open>uuid.uuid4\<close> hands out. A duplicate
  primary key is a failure too.

  The lemmas show that identifiers stay unique and that no slot outlives its window, what a window
  looks like after it was written, and which window is the active one.
\<close>

section \<open>Data\<close>

record job_window_slot =
  slot_id :: string
  slot_window_id :: string
  slot_job_type :: string
  max_concurrent :: int
  min_remaining_minutes :: int

record job_window =
  jw_id :: string
  jw_name :: string
  jw_notes :: "string option"
  start_at :: int
  end_at :: int
  preferred_job_type :: string
  jw_enabled :: bool
  jw_created_at :: int
  jw_updated_at :: int

record window_db =
  wd_windows :: "job_window list"
  wd_slots :: "job_window_slot list"

datatype window_status = Window_upcoming | Window_active | Window_disabled | Window_completed

record window_with_slots =
  ww_window :: job_window
  ww_slots :: "job_window_slot list"
  ww_status :: window_status

text \<open>A slot as it is sent; an update may lack the job type.\<close>

record slot_form =
  sf_id :: "string option"
  sf_job_type :: "string option"
  sf_max_concurrent :: int
  sf_min_remaining_minutes :: int

record window_form =
  wf_id :: "string option"
  wf_name :: string
  wf_notes :: "string option"
  wf_start_at :: int
  wf_end_at :: int
  wf_preferred_job_type :: string
  wf_enabled :: bool
  wf_slots :: "slot_form list"

text \<open>An update carries only the keys that are to change.\<close>

record window_update =
  wu_name :: "string option"
  wu_notes :: "string option option"
  wu_start_at :: "int option"
  wu_end_at :: "int option"
  wu_preferred_job_type :: "string option"
  wu_enabled :: "bool option"
  wu_slots :: "slot_form list option"

section \<open>Operations\<close>

definition window_status_at :: "int \<Rightarrow> job_window \<Rightarrow> window_status" where
  "window_status_at now w =
     (if start_at w > now then Window_upcoming
      else if start_at w \<le> now \<and> now \<le> end_at w
      then (if jw_enabled w then Window_active else Window_disabled)
      else Window_completed)"

definition slots_of :: "string \<Rightarrow> window_db \<Rightarrow> job_window_slot list" where
  "slots_of wid db = [s \<leftarrow> wd_slots db. slot_window_id s = wid]"

definition with_slots :: "int \<Rightarrow> window_db \<Rightarrow> job_window \<Rightarrow> window_with_slots" where
  "with_slots now db w =
     \<lparr>ww_window = w, ww_slots = slots_of (jw_id w) db, ww_status = window_status_at now w\<rparr>"

definition find_window :: "string \<Rightarrow> window_db \<Rightarrow> job_window option" where
  "find_window wid db = find_by jw_id wid (wd_windows db)"

text \<open>The slot rows of a form, \<open>None\<close> when one has no job type.\<close>

fun slot_rows :: "(nat \<Rightarrow> string) \<Rightarrow> nat \<Rightarrow> string \<Rightarrow> slot_form list \<Rightarrow> job_window_slot list option" where
  "slot_rows uuid k wid [] = Some []"
| "slot_rows uuid k wid (f # fs) =
     (case (sf_job_type f, slot_rows uuid (Suc k) wid fs) of
        (Some jt, Some rows) \<Rightarrow>
          Some (\<lparr>slot_id = (case nonempty (sf_id f) of Some i \<Rightarrow> i | None \<Rightarrow> uuid k),
                 slot_window_id = wid, slot_job_type = jt, max_concurrent = sf_max_concurrent f,
                 min_remaining_minutes = sf_min_remaining_minutes f\<rparr> # rows)
      | _ \<Rightarrow> None)"

text \<open>Adding slot rows to a table: refused on a duplicate key.\<close>

definition add_slots :: "job_window_slot list option \<Rightarrow> job_window_slot list \<Rightarrow> job_window_slot list option" where
  "add_slots new old =
     (case new of
        None \<Rightarrow> None
      | Some rows \<Rightarrow> if unique_by slot_id (old @ rows) then Some (old @ rows) else None)"

definition insert_new_window ::
    "bool \<Rightarrow> int \<Rightarrow> (nat \<Rightarrow> string) \<Rightarrow> window_form \<Rightarrow> window_db \<Rightarrow> window_db \<times> window_with_slots option" where
  "insert_new_window ok now uuid form db =
     (let wid = (case nonempty (wf_id form) of Some i \<Rightarrow> i | None \<Rightarrow> uuid 0);
          w = \<lparr>jw_id = wid, jw_name = wf_name form, jw_notes = wf_notes form,
               start_at = wf_start_at form, end_at = wf_end_at form,
               preferred_job_type = wf_preferred_job_type form, jw_enabled = wf_enabled form,
               jw_created_at = now, jw_updated_at = now\<rparr>
      in if \<not> ok \<or> find_window wid db \<noteq> None then (db, None)
         else case add_slots (slot_rows uuid 1 wid (wf_slots form)) (wd_slots db) of
                None \<Rightarrow> (db, None)
              | Some slots \<Rightarrow>
                  (let db' = \<lparr>wd_windows = wd_windows db @ [w], wd_slots = slots\<rparr>
                   in (db', Some (with_slots now db' w))))"

definition get_all_windows :: "int \<Rightarrow> window_db \<Rightarrow> window_with_slots list" where
  "get_all_windows now db = map (with_slots now db) (sort_key (\<lambda>w. - start_at w) (wd_windows db))"

definition get_window_by_id :: "bool \<Rightarrow> int \<Rightarrow> string \<Rightarrow> window_db \<Rightarrow> window_with_slots option" where
  "get_window_by_id ok now wid db =
     (if \<not> ok then None else map_option (with_slots now db) (find_window wid db))"

definition opt_set :: "'a option \<Rightarrow> 'a \<Rightarrow> 'a" where
  "opt_set x old = (case x of Some v \<Rightarrow> v | None \<Rightarrow> old)"

definition update_window_row :: "int \<Rightarrow> window_update \<Rightarrow> job_window \<Rightarrow> job_window" where
  "update_window_row now u w = w\<lparr>
     jw_name := opt_set (wu_name u) (jw_name w),
     jw_notes := opt_set (wu_notes u) (jw_notes w),
     start_at := opt_set (wu_start_at u) (start_at w),
     end_at := opt_set (wu_end_at u) (end_at w),
     preferred_job_type := opt_set (wu_preferred_job_type u) (preferred_job_type w),
     jw_enabled := opt_set (wu_enabled u) (jw_enabled w),
     jw_updated_at := now\<rparr>"

definition update_window ::
    "bool \<Rightarrow> int \<Rightarrow> (nat \<Rightarrow> string) \<Rightarrow> string \<Rightarrow> window_update \<Rightarrow> window_db \<Rightarrow> window_db \<times> window_with_slots option" where
  "update_window ok now uuid wid u db =
     (case find_window wid db of
        None \<Rightarrow> (db, None)
      | Some w \<Rightarrow>
          if \<not> ok then (db, None)
          else (case (case wu_slots u of
                        None \<Rightarrow> Some (wd_slots db)
                      | Some forms \<Rightarrow>
                          add_slots (slot_rows uuid 0 wid forms)
                            [s \<leftarrow> wd_slots db. slot_window_id s \<noteq> wid]) of
                  None \<Rightarrow> (db, None)
                | Some slots \<Rightarrow>
                    (let db' = \<lparr>wd_windows = update_by jw_id wid (update_window_row now u) (wd_windows db),
                                wd_slots = slots\<rparr>
                     in (db', get_window_by_id True now wid db'))))"

definition delete_window :: "bool \<Rightarrow> string \<Rightarrow> window_db \<Rightarrow> window_db \<times> bool" where
  "delete_window ok wid db =
     (if \<not> ok then (db, False)
      else (\<lparr>wd_windows = [w \<leftarrow> wd_windows db. jw_id w \<noteq> wid],
             wd_slots = [s \<leftarrow> wd_slots db. slot_window_id s \<noteq> wid]\<rparr>, True))"

definition window_open :: "int \<Rightarrow> job_window \<Rightarrow> bool" where
  "window_open now w \<longleftrightarrow> start_at w \<le> now \<and> now \<le> end_at w \<and> jw_enabled w"

text \<open>The query for the active window; a failing read gives \<open>None\<close> too.\<close>

definition get_active_window :: "bool \<Rightarrow> int \<Rightarrow> window_db \<Rightarrow> window_with_slots option" where
  "get_active_window ok now db =
     (if \<not> ok then None
      else case sort_key (\<lambda>w. - start_at w) (filter (window_open now) (wd_windows db)) of
             [] \<Rightarrow> None
           | w # _ \<Rightarrow> Some \<lparr>ww_window = w, ww_slots = slots_of (jw_id w) db, ww_status = Window_active\<rparr>)"

section \<open>Well-formed tables\<close>

interpretation window_write: row_write jw_id "update_window_row now u" for now u
  by unfold_locales (simp add: update_window_row_def)

text \<open>Unique keys, and every slot belongs to a window.\<close>

definition windows_ok :: "window_db \<Rightarrow> bool" where
  "windows_ok db \<longleftrightarrow>
     unique_by jw_id (wd_windows db) \<and> unique_by slot_id (wd_slots db) \<and>
     slot_window_id ` set (wd_slots db) \<subseteq> jw_id ` set (wd_windows db)"

lemma slot_rows_window:
  "slot_rows uuid k wid forms = Some rows \<Longrightarrow> s \<in> set rows \<Longrightarrow> slot_window_id s = wid"
  by (induction uuid k wid forms arbitrary: rows rule: slot_rows.induct)
    (auto split: option.splits prod.splits)

lemma add_slots_Some:
  "add_slots new old = Some slots \<Longrightarrow>
     \<exists>rows. new = Some rows \<and> slots = old @ rows \<and> unique_by slot_id slots"
  by (auto simp: add_slots_def split: option.splits if_splits)

lemma find_window_None: "find_window wid db = None \<longleftrightarrow> wid \<notin> jw_id ` set (wd_windows db)"
  by (simp add: find_window_def find_by_None)

text \<open>An operation of the table, so that a sequence of calls is a list.\<close>

datatype window_op =
    Win_insert window_form
  | Win_update string window_update
  | Win_delete string

fun exec_window_op :: "bool \<Rightarrow> int \<Rightarrow> (nat \<Rightarrow> string) \<Rightarrow> window_op \<Rightarrow> window_db \<Rightarrow> window_db" where
  "exec_window_op ok now uuid (Win_insert form) db = fst (insert_new_window ok now uuid form db)"
| "exec_window_op ok now uuid (Win_update wid u) db = fst (update_window ok now uuid wid u db)"
| "exec_window_op ok now uuid (Win_delete wid) db = fst (delete_window ok wid db)"

lemma insert_window_ok:
  assumes "windows_ok db"
  shows "windows_ok (fst (insert_new_window ok now uuid form db))"
proof -
  let ?wid = "case nonempty (wf_id form) of Some i \<Rightarrow> i | None \<Rightarrow> uuid 0"
  show ?thesis
  proof (cases "ok \<and> find_window ?wid db = None \<and> add_slots (slot_rows uuid 1 ?wid (wf_slots form)) (wd_slots db) \<noteq> None")
    case False
    with assms show ?thesis by (auto simp: insert_new_window_def Let_def split: option.split)
  next
    case True
    then obtain slots where s: "add_slots (slot_rows uuid 1 ?wid (wf_slots form)) (wd_slots db) = Some slots" by blast
    from add_slots_Some [OF s] obtain rows where rows: "slot_rows uuid 1 ?wid (wf_slots form) = Some rows"
      "slots = wd_slots db @ rows" "unique_by slot_id slots" by blast
    have "slot_window_id ` set rows \<subseteq> {?wid}" using slot_rows_window [OF rows(1)] by blast
    moreover have "?wid \<notin> jw_id ` set (wd_windows db)" using True find_window_None by blast
    ultimately show ?thesis using assms True s rows
      by (auto simp: insert_new_window_def Let_def windows_ok_def intro!: unique_by_append_new)
  qed
qed

lemma update_window_ok:
  assumes "windows_ok db"
  shows "windows_ok (fst (update_window ok now uuid wid u db))"
proof (cases "find_window wid db = None \<or> \<not> ok")
  case True
  with assms show ?thesis by (auto simp: update_window_def split: option.split)
next
  case False
  have wid: "wid \<in> jw_id ` set (wd_windows db)" using False find_window_None by blast
  have keys: "jw_id ` set (update_by jw_id wid (update_window_row now u) (wd_windows db)) = jw_id ` set (wd_windows db)"
    using window_write.keys_kept by (metis list.set_map)
  show ?thesis
  proof (cases "wu_slots u")
    case None
    then have "fst (update_window ok now uuid wid u db) =
        \<lparr>wd_windows = update_by jw_id wid (update_window_row now u) (wd_windows db), wd_slots = wd_slots db\<rparr>"
      using False by (auto simp: update_window_def Let_def)
    with assms keys show ?thesis by (simp add: windows_ok_def window_write.unique_kept)
  next
    case (Some forms)
    let ?kept = "[s \<leftarrow> wd_slots db. slot_window_id s \<noteq> wid]"
    show ?thesis
    proof (cases "add_slots (slot_rows uuid 0 wid forms) ?kept")
      case None
      with assms Some False show ?thesis by (auto simp: update_window_def)
    next
      case slots: (Some slots)
      from add_slots_Some [OF slots] obtain rows where rows: "slot_rows uuid 0 wid forms = Some rows"
        "slots = ?kept @ rows" "unique_by slot_id slots" by blast
      have "slot_window_id ` set rows \<subseteq> {wid}" using slot_rows_window [OF rows(1)] by blast
      with assms wid rows(2) have "slot_window_id ` set slots \<subseteq> jw_id ` set (wd_windows db)"
        by (auto simp: windows_ok_def)
      moreover have "fst (update_window ok now uuid wid u db) =
          \<lparr>wd_windows = update_by jw_id wid (update_window_row now u) (wd_windows db), wd_slots = slots\<rparr>"
        using False Some slots by (auto simp: update_window_def Let_def)
      ultimately show ?thesis using assms rows(3) keys
        by (simp add: windows_ok_def window_write.unique_kept)
    qed
  qed
qed

lemma delete_window_ok:
  assumes "windows_ok db"
  shows "windows_ok (fst (delete_window ok wid db))"
  using assms by (auto simp: delete_window_def windows_ok_def unique_by_filter)

section \<open>Properties\<close>

text \<open>
  The window tables stay consistent: whatever windows are inserted, updated and deleted, in
  any order, with any commit outcomes and any identifiers handed out, window and slot keys stay
  unique and no slot is left behind by its window.
\<close>

theorem window_tables_stay_consistent:
  assumes "windows_ok db"
  shows "windows_ok (fold (\<lambda>(ok, now, uuid, op). exec_window_op ok now uuid op) ops db)"
  using assms
proof (induction ops arbitrary: db)
  case (Cons c ops)
  obtain ok now uuid op where c: "c = (ok, now, uuid, op)" by (cases c)
  have "windows_ok (exec_window_op ok now uuid op db)"
    using Cons.prems by (cases op) (simp_all add: insert_window_ok update_window_ok delete_window_ok)
  with Cons.IH show ?case by (simp add: c)
qed simp

theorem window_tables_stay_consistent_witness:
  "windows_ok (fold (\<lambda>(ok, now, uuid, op). exec_window_op ok now uuid op)
     [(True, 5, \<lambda>k. ''u'', Win_insert \<lparr>wf_id = Some ''w'', wf_name = ''night'', wf_notes = None, wf_start_at = 10,
        wf_end_at = 20, wf_preferred_job_type = ''curator'', wf_enabled = True,
        wf_slots = [\<lparr>sf_id = None, sf_job_type = Some ''curator'', sf_max_concurrent = 1, sf_min_remaining_minutes = 0\<rparr>]\<rparr>),
      (True, 6, \<lambda>k. ''v'', Win_delete ''w'')]
     \<lparr>wd_windows = [], wd_slots = []\<rparr>)"
  by (rule window_tables_stay_consistent) (simp add: windows_ok_def)

text \<open>
  The active window is the most recently started one among the enabled windows that contain
  the current time, with exactly its slots; there is none exactly when no enabled window contains
  it (or the read failed), and the status shown for it agrees.
\<close>

theorem active_window_is_newest_open:
  "(case get_active_window True now db of
      None \<Rightarrow> \<forall>w \<in> set (wd_windows db). \<not> window_open now w
    | Some ww \<Rightarrow> ww_window ww \<in> set (wd_windows db) \<and> window_open now (ww_window ww) \<and>
        (\<forall>w \<in> set (wd_windows db). window_open now w \<longrightarrow> start_at w \<le> start_at (ww_window ww)) \<and>
        ww_slots ww = slots_of (jw_id (ww_window ww)) db \<and>
        window_status_at now (ww_window ww) = ww_status ww) \<and>
   get_active_window False now db = None"
proof (cases "sort_key (\<lambda>w. - start_at w) (filter (window_open now) (wd_windows db))")
  case Nil
  then have "filter (window_open now) (wd_windows db) = []" by (simp only: sort_key_Nil_iff)
  with Nil show ?thesis by (auto simp: get_active_window_def filter_empty_conv)
next
  case (Cons w ws)
  have set: "set (w # ws) = set (filter (window_open now) (wd_windows db))"
    unfolding Cons [symmetric] by simp
  have "sorted (map (\<lambda>w. - start_at w) (w # ws))" unfolding Cons [symmetric] by simp
  then have "\<forall>x \<in> set (w # ws). start_at x \<le> start_at w" by auto
  with set have "\<forall>x \<in> set (wd_windows db). window_open now x \<longrightarrow> start_at x \<le> start_at w" by auto
  moreover have "w \<in> set (wd_windows db)" "window_open now w" using set by auto
  ultimately show ?thesis unfolding get_active_window_def Cons
    by (auto simp: window_status_at_def window_open_def)
qed

definition night_windows :: window_db where
  "night_windows =
     \<lparr>wd_windows = [\<lparr>jw_id = ''w'', jw_name = ''n'', jw_notes = None, start_at = 10, end_at = 20,
        preferred_job_type = ''curator'', jw_enabled = True, jw_created_at = 0, jw_updated_at = 0\<rparr>], wd_slots = []\<rparr>"

theorem active_window_is_newest_open_witness:
  "\<exists>ww. get_active_window True 15 night_windows = Some ww \<and> window_status_at 15 (ww_window ww) = ww_status ww"
proof -
  have "\<exists>ww. get_active_window True 15 night_windows = Some ww"
    by (simp add: get_active_window_def night_windows_def window_open_def)
  then obtain ww where "get_active_window True 15 night_windows = Some ww" by blast
  with active_window_is_newest_open [where now = 15 and db = night_windows] show ?thesis by simp
qed

text \<open>
  An update round-trips: when it succeeds, reading the window back gives every field that was
  sent, the old value of every field that was not, the slots of the form if it carried any, and
  every other window keeps its row and its slots.
\<close>

theorem window_update_roundtrip:
  assumes "update_window ok now uuid wid u db = (db', Some ww)"
  shows "\<exists>w. find_window wid db = Some w \<and> ww_window ww = update_window_row now u w \<and>
           get_window_by_id True now wid db' = Some ww \<and>
           (case wu_slots u of
              None \<Rightarrow> ww_slots ww = slots_of wid db
            | Some forms \<Rightarrow> slot_rows uuid 0 wid forms = Some (ww_slots ww)) \<and>
           (\<forall>v. v \<noteq> wid \<longrightarrow> find_window v db' = find_window v db \<and> slots_of v db' = slots_of v db)"
proof -
  obtain w where w: "find_window wid db = Some w" and ok
    using assms by (auto simp: update_window_def split: option.splits if_splits)
  obtain slots where slots: "(case wu_slots u of None \<Rightarrow> Some (wd_slots db)
      | Some forms \<Rightarrow> add_slots (slot_rows uuid 0 wid forms) [s \<leftarrow> wd_slots db. slot_window_id s \<noteq> wid]) = Some slots"
    and db': "db' = \<lparr>wd_windows = update_by jw_id wid (update_window_row now u) (wd_windows db), wd_slots = slots\<rparr>"
    and ww: "get_window_by_id True now wid db' = Some ww"
    using assms w \<open>ok\<close> by (auto simp: update_window_def Let_def split: option.splits)
  have f: "find_window wid db' = Some (update_window_row now u w)"
    using w by (simp add: find_window_def db' window_write.find_written)
  have fo: "find_window v db' = find_window v db" if "v \<noteq> wid" for v
    using that by (simp add: find_window_def db' window_write.find_other)
  have id: "jw_id (update_window_row now u w) = wid"
    using w find_by_key by (fastforce simp: find_window_def window_write.key_kept)
  have ww': "ww = with_slots now db' (update_window_row now u w)" using ww f by (simp add: get_window_by_id_def)
  have sl: "(case wu_slots u of None \<Rightarrow> ww_slots ww = slots_of wid db
            | Some forms \<Rightarrow> slot_rows uuid 0 wid forms = Some (ww_slots ww)) \<and>
      (\<forall>v. v \<noteq> wid \<longrightarrow> slots_of v db' = slots_of v db)"
  proof (cases "wu_slots u")
    case None
    then show ?thesis using slots by (simp add: ww' with_slots_def id slots_of_def db')
  next
    case (Some forms)
    with slots obtain rows where rows: "slot_rows uuid 0 wid forms = Some rows"
      "slots = [s \<leftarrow> wd_slots db. slot_window_id s \<noteq> wid] @ rows" by (auto dest!: add_slots_Some)
    have r: "\<forall>s \<in> set rows. slot_window_id s = wid" using slot_rows_window [OF rows(1)] by blast
    have "[s \<leftarrow> rows. slot_window_id s = wid] = rows" using r by (simp add: filter_True)
    moreover have "[s \<leftarrow> rows. slot_window_id s = v] = []" if "v \<noteq> wid" for v using r that by auto
    moreover have "[s \<leftarrow> wd_slots db. slot_window_id s \<noteq> wid \<and> slot_window_id s = v] =
        [s \<leftarrow> wd_slots db. slot_window_id s = v]" if "v \<noteq> wid" for v using that by (auto intro: filter_cong)
    ultimately show ?thesis using Some rows
      by (simp add: ww' with_slots_def id slots_of_def db' conj_commute)
  qed
  show ?thesis using w ww fo sl by (simp add: ww' with_slots_def)
qed

theorem window_update_roundtrip_witness:
  "\<exists>db' ww. update_window True 9 (\<lambda>k. ''s'') ''w''
       \<lparr>wu_name = None, wu_notes = None, wu_start_at = None, wu_end_at = Some 30, wu_preferred_job_type = None,
        wu_enabled = None, wu_slots = Some []\<rparr>
       \<lparr>wd_windows = [\<lparr>jw_id = ''w'', jw_name = ''n'', jw_notes = None, start_at = 10, end_at = 20,
          preferred_job_type = ''curator'', jw_enabled = True, jw_created_at = 0, jw_updated_at = 0\<rparr>], wd_slots = []\<rparr> =
       (db', Some ww) \<and> get_window_by_id True 9 ''w'' db' = Some ww \<and> end_at (ww_window ww) = 30"
proof -
  let ?u = "\<lparr>wu_name = None, wu_notes = None, wu_start_at = None, wu_end_at = Some 30, wu_preferred_job_type = None,
        wu_enabled = None, wu_slots = Some []\<rparr>"
  let ?db = "\<lparr>wd_windows = [\<lparr>jw_id = ''w'', jw_name = ''n'', jw_notes = None, start_at = 10, end_at = 20,
          preferred_job_type = ''curator'', jw_enabled = True, jw_created_at = 0, jw_updated_at = 0\<rparr>], wd_slots = []\<rparr>"
  have "\<exists>db' ww. update_window True 9 (\<lambda>k. ''s'') ''w'' ?u ?db = (db', Some ww)"
    by (simp add: update_window_def find_window_def add_slots_def get_window_by_id_def update_window_row_def Let_def)
  then obtain db' ww where e: "update_window True 9 (\<lambda>k. ''s'') ''w'' ?u ?db = (db', Some ww)" by blast
  from window_update_roundtrip [OF e] e show ?thesis by (auto simp: update_window_row_def opt_set_def)
qed

end
