(* ===== verification/Gpu_Admission.thy ===== *)
theory Gpu_Admission
  imports Gpu_Jobs Job_Windows
begin

text \<open>
  The two checks a local generation passes: \<open>evaluate_admission\<close> of \<open>utils/lease_admission.py\<close>
  (may it run at all, and on which model) and \<open>ensure_llamolotl_vram\<close> of
  \<open>utils/vram_admission.py\<close> (ask the broker for the room its model needs), with the footprint
  readers of \<open>utils/model_vram.py\<close> and the preset parser of \<open>utils/model_context.py\<close> they size a
  model with. A read of the job windows or of the eval jobs may fail; whether it does is a
  parameter.

  The lemmas show when a request is refused, substituted or let through, that a footprint good
  enough to deny on is never a guess, that the VRAM check never blocks a load, and what it leaves
  in the registry.
\<close>

section \<open>Presets\<close>

text \<open>\<open>str.splitlines()\<close> on the line boundaries below code point 256.\<close>

definition is_line_end :: "char \<Rightarrow> bool" where
  "is_line_end c = (let n = code c in 10 \<le> n \<and> n \<le> 13 \<or> 28 \<le> n \<and> n \<le> 30 \<or> n = 133)"

fun splitlines_from :: "string \<Rightarrow> string \<Rightarrow> string list" where
  "splitlines_from cur [] = (if cur = [] then [] else [rev cur])"
| "splitlines_from cur [c] = (if is_line_end c then [rev cur] else [rev (c # cur)])"
| "splitlines_from cur (c # d # cs) =
     (if is_line_end c
      then rev cur # (if code c = 13 \<and> code d = 10 then splitlines_from [] cs else splitlines_from [] (d # cs))
      else splitlines_from (c # cur) (d # cs))"

definition splitlines :: "string \<Rightarrow> string list" where
  "splitlines s = splitlines_from [] s"

text \<open>\<open>partition("=")\<close>: \<open>None\<close> when the separator is absent.\<close>

fun partition_eq :: "string \<Rightarrow> (string \<times> string) option" where
  "partition_eq [] = None"
| "partition_eq (c # cs) =
     (if c = CHR ''='' then Some ([], cs) else map_option (\<lambda>(k, v). (c # k, v)) (partition_eq cs))"

definition is_comment :: "string \<Rightarrow> bool" where
  "is_comment s = (s = [] \<or> hd s = CHR ''#'' \<or> hd s = CHR '';'' \<or> hd s = CHR ''['')"

fun preset_lines :: "string \<Rightarrow> string list \<Rightarrow> (string \<times> string) list \<Rightarrow> (string \<times> string) list" where
  "preset_lines pending [] opts = opts"
| "preset_lines pending (raw # rest) opts =
     (let line = pending @ raw
      in if line \<noteq> [] \<and> code (last line) = 92
         then preset_lines (butlast line @ [char_of (10 :: nat)]) rest opts
         else (let stripped = py_strip line
               in if is_comment stripped then preset_lines [] rest opts
                  else (case partition_eq stripped of
                          None \<Rightarrow> preset_lines [] rest opts
                        | Some (k, v) \<Rightarrow> preset_lines [] rest ((py_strip k, py_strip v) # opts))))"

text \<open>The options, the latest occurrence of a key first.\<close>

definition parse_preset_ini :: "string \<Rightarrow> (string \<times> string) list" where
  "parse_preset_ini ini = (if py_strip ini = [] then [] else preset_lines [] (splitlines ini) [])"

section \<open>Footprints\<close>

type_synonym footprint = "int \<times> string"

definition published_footprint :: "(string \<times> json) list \<Rightarrow> footprint option" where
  "published_footprint model =
     (case map_of model ''vram_footprint'' of
        Some (JObj pub) \<Rightarrow>
          (case (int_field pub ''bytes'', map_of pub ''source'') of
             (Some n, Some (JStr src)) \<Rightarrow> if n \<le> 0 \<or> src = [] then None else Some (n, src)
           | _ \<Rightarrow> None)
      | _ \<Rightarrow> None)"

definition declared_footprint :: "(string \<times> json) list \<Rightarrow> footprint option" where
  "declared_footprint model =
     (case map_of model ''status'' of
        Some (JObj status) \<Rightarrow>
          (case map_of status ''preset'' of
             Some (JStr preset) \<Rightarrow>
               (case map_of (parse_preset_ini preset) ''vram-footprint-mib'' of
                  None \<Rightarrow> None
                | Some raw \<Rightarrow>
                    (case py_int raw of
                       None \<Rightarrow> None
                     | Some mib \<Rightarrow> if mib \<le> 0 then None else Some (mib * (1024 * 1024), ''declared'')))
           | _ \<Rightarrow> None)
      | _ \<Rightarrow> None)"

definition llamolotl_footprint :: "(string \<times> json) list \<Rightarrow> footprint option" where
  "llamolotl_footprint model =
     (case published_footprint model of Some f \<Rightarrow> Some f | None \<Rightarrow> declared_footprint model)"

definition ADMISSION_TRUSTED_SOURCES :: "string list" where
  "ADMISSION_TRUSTED_SOURCES = [''measured'', ''declared'']"

definition trusted_footprint :: "footprint option \<Rightarrow> footprint option" where
  "trusted_footprint f =
     (case f of None \<Rightarrow> None | Some (n, src) \<Rightarrow> if src \<in> set ADMISSION_TRUSTED_SOURCES then Some (n, src) else None)"

definition llamolotl_admission_footprint :: "(string \<times> json) list \<Rightarrow> footprint option" where
  "llamolotl_admission_footprint model =
     (case trusted_footprint (published_footprint model) of
        Some f \<Rightarrow> Some f
      | None \<Rightarrow> trusted_footprint (declared_footprint model))"

definition llamolotl_vram_fields :: "(string \<times> json) list \<Rightarrow> (string \<times> json) list" where
  "llamolotl_vram_fields model =
     (case llamolotl_footprint model of
        None \<Rightarrow> []
      | Some (n, src) \<Rightarrow> [(''vram_footprint_bytes'', JInt n), (''vram_footprint_source'', JStr src)])"

section \<open>VRAM for a load\<close>

datatype admission_reason =
    Adm_granted
  | Adm_already_resident
  | Adm_self_freeable
  | Adm_unknown_footprint
  | Adm_disabled
  | Adm_skipped
  | Adm_shortfall_advisory
  | Adm_error

record shortfall =
  sh_denied :: lease_denied
  sh_model :: string
  sh_footprint_source :: string
  sh_footprint_bytes :: int
  sh_self_freeable_bytes :: int

record vram_admission =
  va_ok :: bool
  va_reason :: admission_reason
  va_detail :: "shortfall option"

definition admission :: "admission_reason \<Rightarrow> vram_admission" where
  "admission reason = \<lparr>va_ok = True, va_reason = reason, va_detail = None\<rparr>"

text \<open>What the check reads of the application state.\<close>

record model_state =
  ms_enabled :: bool
  ms_models :: "(string \<times> string option) list"
  ms_raw :: "(string \<times> (string \<times> json) list) list"

definition resident :: "(string \<times> string option) list \<Rightarrow> string \<Rightarrow> bool" where
  "resident models mid =
     (case map_of models mid of Some (Some st) \<Rightarrow> st \<in> {''loaded'', ''loading''} | _ \<Rightarrow> False)"

text \<open>
  An exception of the broker is caught; it is raised before the decision changes anything, so only
  the wait for the lock has passed.
\<close>

definition ensure_llamolotl_vram ::
    "broker \<Rightarrow> lock_wait \<Rightarrow> model_state option \<Rightarrow> string \<Rightarrow> world \<Rightarrow> world \<times> vram_admission" where
  "ensure_llamolotl_vram b lk app mid w =
     (if mid = [] then (w, admission Adm_skipped)
      else case app of
        None \<Rightarrow> (w, admission Adm_skipped)
      | Some st \<Rightarrow>
          if \<not> ms_enabled st then (w, admission Adm_disabled)
          else if resident (ms_models st) mid then (w, admission Adm_already_resident)
          else case map_of (ms_raw st) mid of
            None \<Rightarrow> (w, admission Adm_unknown_footprint)
          | Some entry \<Rightarrow>
              (case llamolotl_admission_footprint entry of
                 None \<Rightarrow> (w, admission Adm_unknown_footprint)
               | Some (amount, src) \<Rightarrow>
                   (case get_consumer LLAMOLOTL_AUDIENCE (w_reg w) of
                      None \<Rightarrow> (w, admission Adm_skipped)
                    | Some row \<Rightarrow>
                        (let self_freeable = effective_held (b_cfg b) (now_of w) row;
                             request = max 0 (amount - self_freeable)
                         in if request = 0 then (w, admission Adm_self_freeable)
                            else (case request_lease b None lk LLAMOLOTL_AUDIENCE request (priority row) None w of
                                    Inl e \<Rightarrow> (pass_time b (lk_wait lk) (lk_meanwhile lk) w, admission Adm_error)
                                  | Inr (w', LeaseGranted g) \<Rightarrow> (w', admission Adm_granted)
                                  | Inr (w', LeaseDenied d) \<Rightarrow>
                                      (w', \<lparr>va_ok = True, va_reason = Adm_shortfall_advisory,
                                            va_detail = Some \<lparr>sh_denied = d, sh_model = mid,
                                              sh_footprint_source = src, sh_footprint_bytes = amount,
                                              sh_self_freeable_bytes = self_freeable\<rparr>\<rparr>))))))"

section \<open>The checkpoint\<close>

datatype refusal = Window_unknown | Window_dedicated string | Exclusive_lease string

datatype lease_admission = PROCEED | REFUSE nat refusal | SUBSTITUTE string string

definition GPU_EXCLUSIVE_WINDOW_JOB_TYPES :: "string list" where
  "GPU_EXCLUSIVE_WINDOW_JOB_TYPES = [''training'', ''curator'', ''publish'']"

definition active_exclusive_window_type :: "window_with_slots option \<Rightarrow> string option" where
  "active_exclusive_window_type window =
     (case window of
        None \<Rightarrow> None
      | Some ww \<Rightarrow>
          find (\<lambda>jt. jt \<in> set GPU_EXCLUSIVE_WINDOW_JOB_TYPES) (map slot_job_type (ww_slots ww)))"

text \<open>
  The windows are read through \<open>get_active_window\<close>, whose own failures are not visible here;
  \<open>raised\<close> is an exception that reaches the caller all the same. \<open>evals\<close> is \<open>None\<close> when the
  read of the eval jobs raises.
\<close>

definition evaluate_admission ::
    "lease_config \<Rightarrow> int \<Rightarrow> bool \<Rightarrow> bool \<Rightarrow> window_db \<Rightarrow> job list option \<Rightarrow> registry \<Rightarrow> string \<Rightarrow> lease_admission" where
  "evaluate_admission cfg now raised wok db evals reg mid =
     (if raised then REFUSE 503 Window_unknown
      else case active_exclusive_window_type (get_active_window wok now db) of
        Some jt \<Rightarrow> REFUSE 503 (Window_dedicated jt)
      | None \<Rightarrow>
          (case active_exclusive_holder cfg now reg of
             Some holder \<Rightarrow> REFUSE 503 (Exclusive_lease (consumer_id holder))
           | None \<Rightarrow>
               (let eval_running = (case evals of None \<Rightarrow> False | Some jobs \<Rightarrow> get_jobs_by_status Running jobs \<noteq> []);
                    (loaded, reported) = loaded_model LLAMOLOTL_AUDIENCE reg;
                    fresh = (case reported of None \<Rightarrow> False | Some t \<Rightarrow> now - t \<le> STALE_THRESHOLD_SECONDS cfg)
                in if eval_running
                   then (case nonempty loaded of
                           Some m \<Rightarrow> if fresh \<and> m \<noteq> mid then SUBSTITUTE m mid else PROCEED
                         | None \<Rightarrow> PROCEED)
                   else PROCEED)))"

section \<open>Properties\<close>

text \<open>
  The lockout. A local generation is refused exactly when the window state is unreadable, the
  active window has a training, curator or publish slot, or a live consumer holds the exclusive
  lease; and another model is substituted only while an eval runs and a fresh report names a
  different loaded model, which is then the one served.
\<close>

theorem admission_refuses_exactly_on_lockout:
  "((\<exists>why. evaluate_admission cfg now raised wok db evals reg mid = REFUSE 503 why) \<longleftrightarrow>
      raised \<or>
      (\<exists>ww. get_active_window wok now db = Some ww \<and>
         (\<exists>slot \<in> set (ww_slots ww). slot_job_type slot \<in> {''training'', ''curator'', ''publish''})) \<or>
      (\<exists>r \<in> set reg. exclusive_active cfg now r)) \<and>
   (\<forall>m asked. evaluate_admission cfg now raised wok db evals reg mid = SUBSTITUTE m asked \<longrightarrow>
      asked = mid \<and> m \<noteq> mid \<and> (\<exists>jobs j. evals = Some jobs \<and> j \<in> set jobs \<and> job_status j = Running) \<and>
      (\<exists>row t. get_consumer LLAMOLOTL_AUDIENCE reg = Some row \<and> loaded_model_id row = Some m \<and>
         loaded_model_reported_at row = Some t \<and> now - t \<le> STALE_THRESHOLD_SECONDS cfg))"
proof -
  have w: "(\<exists>jt. active_exclusive_window_type win = Some jt) \<longleftrightarrow>
      (\<exists>ww. win = Some ww \<and> (\<exists>slot \<in> set (ww_slots ww). slot_job_type slot \<in> {''training'', ''curator'', ''publish''}))"
    for win
  proof (cases win)
    case (Some ww)
    have "(\<exists>jt. find P xs = Some jt) \<longleftrightarrow> (\<exists>x \<in> set xs. P x)" for P and xs :: "string list"
      by (metis find_None_iff not_None_eq)
    then show ?thesis
      by (auto simp: Some active_exclusive_window_type_def GPU_EXCLUSIVE_WINDOW_JOB_TYPES_def)
  qed (simp add: active_exclusive_window_type_def)
  have x: "(\<exists>h. active_exclusive_holder cfg now reg = Some h) \<longleftrightarrow> (\<exists>r \<in> set reg. exclusive_active cfg now r)"
    using active_exclusive_holder_None [of cfg now reg] by (metis not_None_eq)
  have r: "(\<exists>why. evaluate_admission cfg now raised wok db evals reg mid = REFUSE 503 why) \<longleftrightarrow>
      raised \<or> (\<exists>jt. active_exclusive_window_type (get_active_window wok now db) = Some jt) \<or>
      (\<exists>h. active_exclusive_holder cfg now reg = Some h)"
    by (auto simp: evaluate_admission_def Let_def split: option.split prod.split)
  have "asked = mid \<and> m \<noteq> mid \<and> (\<exists>jobs j. evals = Some jobs \<and> j \<in> set jobs \<and> job_status j = Running) \<and>
      (\<exists>row t. get_consumer LLAMOLOTL_AUDIENCE reg = Some row \<and> loaded_model_id row = Some m \<and>
         loaded_model_reported_at row = Some t \<and> now - t \<le> STALE_THRESHOLD_SECONDS cfg)"
    if "evaluate_admission cfg now raised wok db evals reg mid = SUBSTITUTE m asked" for m asked
    using that
    by (auto simp: evaluate_admission_def Let_def loaded_model_def nonempty_def get_jobs_by_status_def filter_empty_conv
        split: option.splits prod.splits if_splits list.splits)
  with r show ?thesis unfolding w x by blast
qed

theorem admission_refuses_exactly_on_lockout_witness:
  "\<exists>why. evaluate_admission default_lease_config 60 False True \<lparr>wd_windows = [], wd_slots = []\<rparr> None
     [(sample_row ''self.curator'' 24 9 8 0)\<lparr>lease_mode := EXCLUSIVE\<rparr>] ''m'' = REFUSE 503 why"
  using admission_refuses_exactly_on_lockout [where cfg = default_lease_config and now = 60 and raised = False
      and wok = True and db = "\<lparr>wd_windows = [], wd_slots = []\<rparr>" and evals = None
      and reg = "[(sample_row ''self.curator'' 24 9 8 0)\<lparr>lease_mode := EXCLUSIVE\<rparr>]" and mid = "''m''"]
  by (simp add: exclusive_active_def effective_state_def is_stale_def sample_defs)

text \<open>
  The window lockout fails open. The checkpoint refuses when reading the windows raises, but
  the reader it calls catches every failure and answers \<open>None\<close>; so with a failing read a request
  goes through although a training window is active and would have refused it.
\<close>

theorem window_read_failure_fails_open:
  "\<exists>db reg mid. evaluate_admission default_lease_config 15 False True db None reg mid = REFUSE 503 (Window_dedicated ''training'') \<and>
     evaluate_admission default_lease_config 15 False False db None reg mid = PROCEED"
proof -
  let ?db = "\<lparr>wd_windows = [\<lparr>jw_id = ''w'', jw_name = ''n'', jw_notes = None, start_at = 10, end_at = 20,
        preferred_job_type = ''training'', jw_enabled = True, jw_created_at = 0, jw_updated_at = 0\<rparr>],
     wd_slots = [\<lparr>slot_id = ''s'', slot_window_id = ''w'', slot_job_type = ''training'', max_concurrent = 1,
        min_remaining_minutes = 0\<rparr>]\<rparr>"
  have "evaluate_admission default_lease_config 15 False True ?db None [] [] = REFUSE 503 (Window_dedicated ''training'')"
    "evaluate_admission default_lease_config 15 False False ?db None [] [] = PROCEED"
    by (simp_all add: evaluate_admission_def get_active_window_def window_open_def slots_of_def
        active_exclusive_window_type_def GPU_EXCLUSIVE_WINDOW_JOB_TYPES_def active_exclusive_holder_def
        active_exclusive_def loaded_model_def get_consumer_def Let_def)
  then show ?thesis by blast
qed

lemma declared_source: "declared_footprint model = Some (n, src) \<Longrightarrow> 0 < n \<and> src = ''declared''"
  by (auto simp: declared_footprint_def split: option.splits json.splits if_splits)

lemma published_positive: "published_footprint model = Some (n, src) \<Longrightarrow> 0 < n"
  by (auto simp: published_footprint_def split: option.splits json.splits if_splits)

text \<open>
  A figure good enough to refuse a load on is never a guess: it is positive and its source is a
  measurement published by the router or the operator's declaration; and a published estimate does
  not hide a declaration.
\<close>

theorem admission_footprint_is_deny_grade:
  "(\<forall>n src. llamolotl_admission_footprint model = Some (n, src) \<longrightarrow>
      0 < n \<and> (src = ''measured'' \<or> src = ''declared'')) \<and>
   (llamolotl_admission_footprint model = None \<longleftrightarrow>
      declared_footprint model = None \<and>
      (\<forall>n src. published_footprint model = Some (n, src) \<longrightarrow> src \<noteq> ''measured'' \<and> src \<noteq> ''declared''))"
  by (auto simp: llamolotl_admission_footprint_def trusted_footprint_def ADMISSION_TRUSTED_SOURCES_def
      split: option.splits if_splits dest: declared_source published_positive)

definition sample_model :: "(string \<times> json) list" where
  "sample_model = [(''vram_footprint'', JObj [(''bytes'', JInt 12), (''source'', JStr ''measured'')])]"

theorem admission_footprint_is_deny_grade_witness:
  "llamolotl_admission_footprint sample_model = Some (12, ''measured'') \<and> (0::int) < 12"
proof -
  have e: "llamolotl_admission_footprint sample_model = Some (12, ''measured'')"
    by (simp add: sample_model_def llamolotl_admission_footprint_def trusted_footprint_def
        ADMISSION_TRUSTED_SOURCES_def published_footprint_def int_field_def)
  with admission_footprint_is_deny_grade [of sample_model] show ?thesis by blast
qed

lemmas ensure_defs = ensure_llamolotl_vram_def admission_def

text \<open>
  The VRAM check never blocks a load and touches the registry only through the broker. Whatever
  the state, the answer is to proceed; unless the broker was asked, nothing changed; and it is asked
  only for a model that is not resident and has a deny-grade footprint larger than what llamolotl
  itself holds, for exactly the difference.
\<close>

theorem load_check_never_blocks:
  assumes "ensure_llamolotl_vram b lk app mid w = (w', adm)"
  shows "va_ok adm \<and>
         (w' = w \<or>
          (\<exists>st entry amount src row request.
             app = Some st \<and> \<not> resident (ms_models st) mid \<and> map_of (ms_raw st) mid = Some entry \<and>
             llamolotl_admission_footprint entry = Some (amount, src) \<and>
             get_consumer LLAMOLOTL_AUDIENCE (w_reg w) = Some row \<and>
             request = amount - effective_held (b_cfg b) (now_of w) row \<and> 0 < request \<and>
             (case request_lease b None lk LLAMOLOTL_AUDIENCE request (priority row) None w of
                Inl e \<Rightarrow> w' = pass_time b (lk_wait lk) (lk_meanwhile lk) w \<and> va_reason adm = Adm_error
              | Inr (w1, res) \<Rightarrow>
                  w' = w1 \<and> va_reason adm = (case res of LeaseGranted g \<Rightarrow> Adm_granted
                                             | LeaseDenied d \<Rightarrow> Adm_shortfall_advisory))))"
proof (cases "w' = w")
  case True
  then show ?thesis using assms
    by (auto simp: ensure_defs Let_def split: if_splits option.splits sum.splits lease_result.splits prod.splits)
next
  case False
  with assms obtain st entry amount src row where
    a: "mid \<noteq> []" "app = Some st" "ms_enabled st" "\<not> resident (ms_models st) mid" "map_of (ms_raw st) mid = Some entry"
      "llamolotl_admission_footprint entry = Some (amount, src)"
      "get_consumer LLAMOLOTL_AUDIENCE (w_reg w) = Some row"
      "\<not> amount \<le> effective_held (b_cfg b) (now_of w) row"
    by (auto simp: ensure_defs Let_def split: if_splits option.splits)
  let ?req = "amount - effective_held (b_cfg b) (now_of w) row"
  have m: "max 0 ?req = ?req" "?req \<noteq> 0" "0 < ?req" using a(8) by auto
  have "va_ok adm \<and>
      (case request_lease b None lk LLAMOLOTL_AUDIENCE ?req (priority row) None w of
         Inl e \<Rightarrow> w' = pass_time b (lk_wait lk) (lk_meanwhile lk) w \<and> va_reason adm = Adm_error
       | Inr (w1, res) \<Rightarrow>
           w' = w1 \<and> va_reason adm = (case res of LeaseGranted g \<Rightarrow> Adm_granted
                                      | LeaseDenied d \<Rightarrow> Adm_shortfall_advisory))"
    using assms a m by (auto simp: ensure_defs Let_def split: sum.splits lease_result.splits prod.splits)
  with a m show ?thesis by blast
qed

text \<open>A card of 24 units on which llamolotl holds 10 and is asked for a model of 16.\<close>

definition swap_state :: model_state where
  "swap_state = \<lparr>ms_enabled = True, ms_models = [(''big'', Some ''unloaded'')],
     ms_raw = [(''big'', [(''vram_footprint'', JObj [(''bytes'', JInt 16), (''source'', JStr ''measured'')])])]\<rparr>"

definition swap_world :: world where
  "swap_world = sample_world\<lparr>w_reg := [sample_row ''self.llamolotl'' 24 10 10 0, sample_row ''self.sketch'' 24 0 3 0]\<rparr>"

lemmas swap_run_defs =
  ensure_defs swap_state_def swap_world_def resident_def llamolotl_admission_footprint_def trusted_footprint_def
  ADMISSION_TRUSTED_SOURCES_def published_footprint_def int_field_def LLAMOLOTL_AUDIENCE_def

theorem load_check_never_blocks_witness:
  "\<exists>w' adm. ensure_llamolotl_vram sample_broker lock_free (Some swap_state) ''big'' swap_world = (w', adm) \<and> va_ok adm"
proof -
  obtain w' adm where e: "ensure_llamolotl_vram sample_broker lock_free (Some swap_state) ''big'' swap_world = (w', adm)"
    by fastforce
  from load_check_never_blocks [OF e] e show ?thesis by blast
qed

text \<open>
  The reservation a swap takes is not counted. llamolotl holds 10 of 24 units and asks the net
  6 for a model of 16; the grant is recorded, but the effective holding is the larger of the
  measured 10 and the reserved 6, so free capacity is still 14 and another consumer is granted all
  of it while llamolotl is about to hold 16.
\<close>

theorem swap_reservation_not_counted:
  "\<exists>w1 adm w2 g.
     ensure_llamolotl_vram sample_broker lock_free (Some swap_state) ''big'' swap_world = (w1, adm) \<and>
     va_reason adm = Adm_granted \<and> free_now sample_broker swap_world = 14 \<and> free_now sample_broker w1 = 14 \<and>
     request_lease sample_broker None lock_free ''self.sketch'' 14 3 None w1 = Inr (w2, LeaseGranted g) \<and>
     total_capacity (w_reg w2) < 16 + lg_granted_bytes g"
  by (simp add: swap_run_defs broker_run_defs op_defs row_defs read_defs sample_defs)

end
