(* ===== verification/Gpu_Dispatch.thy ===== *)
theory Gpu_Dispatch
  imports Gpu_Admission
begin

text \<open>
  The per-job half of the GPU queue (\<open>utils/gpu_queue.py\<close>): taking and giving back the card,
  dispatching one job of each kind to its worker (with \<open>_dispatch_scheduled_job\<close> of
  \<open>routers/training.py\<close> and the two eval dispatchers of \<open>routers/evaluations.py\<close>), and settling
  the running jobs of each kind against what the workers report.

  \<open>gpu_state\<close> is what the queue works on: the broker's world, the four job tables, and the log of
  the runs that workers acknowledged, newest first. \<open>queue_env\<close> is what one cycle finds outside:
  the configuration, what each worker answers for each job, how long every awaited call takes and
  which registry calls other coroutines make meanwhile. Commits to the job tables succeed, replies
  with a success status carry a JSON object, and the job tables change only by the queue while a
  cycle runs. Fetching eval results, pulling a curated data set, recording an adapter version and
  unloading llamolotl's other models act on parts that are not modelled and only take time here;
  what the merge start and the recording of a published version answer is a parameter.

  The lemmas show that every handler touches only the row of its own job, that a curator or publish
  run is only ever started on a cleared card, and that the card is not given back while a sibling
  runs.
\<close>

section \<open>State and environment\<close>

datatype job_table = Training_t | Eval_t | Curator_t | Publish_t

record gpu_state =
  gs_world :: world
  gs_jobs :: "job_table \<Rightarrow> job list"
  gs_created :: "(job_table \<times> string) list"

text \<open>
  The answer to the creation of a remote run: refused by the worker, not reached, or created with
  the \<open>job_id\<close> of the reply and the error of the approve call that follows.
\<close>

datatype post_answer = Rejected string | Unreachable string | Created "string option" "string option"

text \<open>The answer to a status poll: status and error message of the reply.\<close>

datatype remote_answer = Remote_404 | Remote_error string | Remote_body string "string option"

text \<open>
  How \<open>complete_publish_job\<close> ends: it raises without touching the job (the line is gone, or the
  pointer move fails), it records a failure and raises, or it records the version.
\<close>

datatype publish_completion = Left_alone | Record_failed string | Recorded string

record queue_env =
  qe_broker :: broker
  qe_lock :: "nat \<Rightarrow> lock_wait"
  qe_wait :: "nat \<Rightarrow> rat \<times> reg_op list"
  qe_app :: bool
  qe_registry_readable :: bool
  LLAMOLOTL_CONTROL_URLS :: "string list"
  CURATOR_BASE_URLS :: "string list"
  qe_models :: "model_state option"
  qe_course_known :: "job \<Rightarrow> bool"
  qe_datasets :: "job \<Rightarrow> string + bool"
  qe_no_datasets :: "job \<Rightarrow> string"
  qe_post :: "job_table \<Rightarrow> job \<Rightarrow> post_answer"
  qe_remote :: "job_table \<Rightarrow> job \<Rightarrow> remote_answer"
  qe_merge :: "job \<Rightarrow> string + string"
  qe_completion :: "job \<Rightarrow> publish_completion"
  qe_finalized :: "job \<Rightarrow> string option"
  qe_eval_context :: "job \<Rightarrow> (string \<times> json) list"
  qe_reason_text :: "exclusive_reason \<Rightarrow> string"
  qe_holder_text :: "holder_reason \<Rightarrow> string"
  qe_exn_text :: "py_exn \<Rightarrow> string"
  qe_max_duration :: "string \<Rightarrow> string \<Rightarrow> int option"
  CURATOR_ENFORCE_WINDOW_END :: bool
  qe_windows :: window_db
  qe_windows_readable :: bool

definition PUBLISH_AUDIENCE :: string where "PUBLISH_AUDIENCE = ''self.publish''"

definition STALE_RUNNING_TIMEOUT :: int where "STALE_RUNNING_TIMEOUT = 24 * 3600"

definition queue_now :: "gpu_state \<Rightarrow> int" where
  "queue_now gs = now_of (gs_world gs)"

text \<open>An awaited HTTP exchange.\<close>

definition awaited :: "queue_env \<Rightarrow> gpu_state \<Rightarrow> gpu_state" where
  "awaited env gs =
     (let (d, ops) = qe_wait env (w_tick (gs_world gs))
      in gs\<lparr>gs_world := pass_time (qe_broker env) d ops (gs_world gs)\<rparr>)"

definition on_table :: "job_table \<Rightarrow> (int \<Rightarrow> job list \<Rightarrow> job list) \<Rightarrow> gpu_state \<Rightarrow> gpu_state" where
  "on_table t F gs = gs\<lparr>gs_jobs := (gs_jobs gs)(t := F (queue_now gs) (gs_jobs gs t))\<rparr>"

definition set_training :: "string \<Rightarrow> status_update \<Rightarrow> gpu_state \<Rightarrow> gpu_state" where
  "set_training jid u = on_table Training_t (\<lambda>now jobs. fst (training_update_job_status True now jid u jobs))"

definition set_eval :: "string \<Rightarrow> job_status \<Rightarrow> string option \<Rightarrow> gpu_state \<Rightarrow> gpu_state" where
  "set_eval jid st err = on_table Eval_t (\<lambda>now jobs. fst (eval_update_job_status True now jid st err jobs))"

definition set_curator :: "string \<Rightarrow> status_update \<Rightarrow> gpu_state \<Rightarrow> gpu_state" where
  "set_curator jid u =
     on_table Curator_t (\<lambda>now jobs.
       case curator_update_job_status True now jid u jobs of Inl _ \<Rightarrow> jobs | Inr (jobs', _) \<Rightarrow> jobs')"

definition set_publish :: "string \<Rightarrow> job_status \<Rightarrow> string option \<Rightarrow> string option \<Rightarrow> gpu_state \<Rightarrow> gpu_state" where
  "set_publish jid st err res =
     on_table Publish_t (\<lambda>now jobs. fst (publish_update_status True now jid st err res jobs))"

text \<open>A worker acknowledges a new run for a job.\<close>

definition log_created :: "job_table \<Rightarrow> string \<Rightarrow> gpu_state \<Rightarrow> gpu_state" where
  "log_created t jid gs = gs\<lparr>gs_created := (t, jid) # gs_created gs\<rparr>"

text \<open>Truth of a key of \<open>job.meta\<close>.\<close>

definition meta_truthy :: "string \<Rightarrow> job \<Rightarrow> bool" where
  "meta_truthy key j = (case map_of (meta_of j) key of None \<Rightarrow> False | Some v \<Rightarrow> json_truthy v)"

definition has_remote :: "job \<Rightarrow> bool" where
  "has_remote j = (nonempty (remote_id j) \<noteq> None)"

section \<open>Running counts\<close>

definition running_jobs :: "string \<Rightarrow> gpu_state \<Rightarrow> job list" where
  "running_jobs job_type gs =
     (if job_type = ''training'' then get_jobs_by_status Running (gs_jobs gs Training_t)
      else if job_type \<in> {''language-eval'', ''code-eval''}
      then [j \<leftarrow> get_jobs_by_status Running (gs_jobs gs Eval_t). eval_type j = Some job_type]
      else if job_type = ''curator'' then get_jobs_by_status Running (gs_jobs gs Curator_t)
      else if job_type = ''publish'' then get_jobs_by_status Running (gs_jobs gs Publish_t)
      else [])"

definition running_count :: "string \<Rightarrow> gpu_state \<Rightarrow> nat" where
  "running_count job_type gs = length (running_jobs job_type gs)"

section \<open>The card\<close>

definition is_lease_consumer :: "queue_env \<Rightarrow> string \<Rightarrow> gpu_state \<Rightarrow> bool" where
  "is_lease_consumer env cid gs \<longleftrightarrow>
     qe_registry_readable env \<and> get_consumer cid (w_reg (gs_world gs)) \<noteq> None"

definition outcome_name :: "holder_outcome \<Rightarrow> string" where
  "outcome_name out =
     (case out of
        HOLDER_OUTCOME_CONFIRMED \<Rightarrow> ''confirmed''
      | HOLDER_OUTCOME_DENIED \<Rightarrow> ''denied''
      | HOLDER_OUTCOME_TIMEOUT \<Rightarrow> ''timeout''
      | HOLDER_OUTCOME_INELIGIBLE_STALE \<Rightarrow> ''ineligible-stale''
      | HOLDER_OUTCOME_REAPED \<Rightarrow> ''reaped''
      | HOLDER_OUTCOME_REAP_FAILED \<Rightarrow> ''reap-failed''
      | HOLDER_OUTCOME_INELIGIBLE_NO_POD_IDENTITY \<Rightarrow> ''ineligible-no-pod-identity''
      | HOLDER_OUTCOME_INELIGIBLE_NEVER_OBSERVED \<Rightarrow> ''ineligible-never-observed'')"

fun join_with :: "string \<Rightarrow> string list \<Rightarrow> string" where
  "join_with sep [] = []"
| "join_with sep [s] = s"
| "join_with sep (s # t # ss) = s @ sep @ join_with sep (t # ss)"

definition EM_DASH :: string where
  "EM_DASH = [CHR 0x20, CHR 0xE2, CHR 0x80, CHR 0x94, CHR 0x20]"

definition holder_line :: "queue_env \<Rightarrow> holder_asked \<Rightarrow> string" where
  "holder_line env h =
     ha_consumer_id h @ '': '' @ outcome_name (ha_outcome h) @
     (case ha_reason h of
        None \<Rightarrow> []
      | Some r \<Rightarrow> (let said = qe_holder_text env r in if said = [] then [] else EM_DASH @ said))"

definition waiting_text :: "queue_env \<Rightarrow> exclusive_result \<Rightarrow> string" where
  "waiting_text env res =
     ''Waiting for the GPU. '' @
     join_with ''; ''
       [p \<leftarrow> qe_reason_text env (er_reason res) #
            map (holder_line env) [h \<leftarrow> er_reclaimed res. ha_outcome h \<noteq> HOLDER_OUTCOME_CONFIRMED]. p \<noteq> []]"

text \<open>
  \<open>None\<close>: dispatch may go on; \<open>Some reason\<close>: it may not. An unregistered requester
  (\<open>ValueError\<close>) goes on, any other error of the broker does not.
\<close>

definition acquire_card ::
    "queue_env \<Rightarrow> string \<Rightarrow> string \<Rightarrow> gpu_state \<Rightarrow> gpu_state \<times> string option" where
  "acquire_card env cid failure gs =
     (case acquire_exclusive (qe_broker env) None (qe_lock env (w_tick (gs_world gs))) cid None (gs_world gs) of
        (w', Inl (ValueError m)) \<Rightarrow> (gs\<lparr>gs_world := w'\<rparr>, None)
      | (w', Inl e) \<Rightarrow> (gs\<lparr>gs_world := w'\<rparr>, Some (failure @ '': '' @ qe_exn_text env e))
      | (w', Inr res) \<Rightarrow>
          (gs\<lparr>gs_world := w'\<rparr>, if er_acquired res then None else Some (waiting_text env res)))"

definition acquire_publish_card :: "queue_env \<Rightarrow> gpu_state \<Rightarrow> gpu_state \<times> string option" where
  "acquire_publish_card env gs =
     (if \<not> is_lease_consumer env PUBLISH_AUDIENCE gs then (gs, None)
      else acquire_card env PUBLISH_AUDIENCE ''Could not acquire the GPU for the publish'' gs)"

definition acquire_curator_card :: "queue_env \<Rightarrow> gpu_state \<Rightarrow> gpu_state \<times> string option" where
  "acquire_curator_card env gs =
     acquire_card env CURATOR_AUDIENCE ''Could not acquire the GPU for curation'' gs"

text \<open>A failing release is caught and logged.\<close>

definition drop_card :: "queue_env \<Rightarrow> string \<Rightarrow> gpu_state \<Rightarrow> gpu_state" where
  "drop_card env cid gs =
     gs\<lparr>gs_world := fst (release_exclusive (qe_broker env) (qe_lock env (w_tick (gs_world gs))) cid (gs_world gs))\<rparr>"

definition release_publish_card :: "queue_env \<Rightarrow> gpu_state \<Rightarrow> gpu_state" where
  "release_publish_card env gs =
     (if \<not> is_lease_consumer env PUBLISH_AUDIENCE gs then gs
      else if running_count ''publish'' gs > 0 then gs
      else drop_card env PUBLISH_AUDIENCE gs)"

definition release_curator_card :: "queue_env \<Rightarrow> gpu_state \<Rightarrow> gpu_state" where
  "release_curator_card env gs =
     (if \<not> is_lease_consumer env CURATOR_AUDIENCE gs then gs
      else if running_count ''curator'' gs > 0 then gs
      else drop_card env CURATOR_AUDIENCE gs)"

section \<open>Dispatching one job\<close>

definition running_as :: "string option \<Rightarrow> nat \<Rightarrow> status_update" where
  "running_as rid idx = \<lparr>su_status = Running, su_remote_id = rid, su_url_idx = Some idx, su_error_message = None\<rparr>"

definition dispatch_training_job :: "queue_env \<Rightarrow> job \<Rightarrow> gpu_state \<Rightarrow> gpu_state" where
  "dispatch_training_job env job gs =
     (let fail = (\<lambda>msg s. set_training (job_id job) (status_because Failed msg) s)
      in if \<not> qe_app env then gs
         else if \<not> qe_course_known env job then fail ''Training course not found'' gs
         else if LLAMOLOTL_CONTROL_URLS env = [] then fail ''No Llamolotl nodes configured'' gs
         else (let gs1 = awaited env gs
               in case qe_datasets env job of
                    Inl e \<Rightarrow> fail (''Failed to prepare local dataset: '' @ e) gs1
                  | Inr False \<Rightarrow> fail (qe_no_datasets env job) gs1
                  | Inr True \<Rightarrow>
                      (let gs2 = awaited env gs1
                       in case qe_post env Training_t job of
                            Rejected body \<Rightarrow> fail (''Llamolotl rejected the job: '' @ body) gs2
                          | Unreachable e \<Rightarrow> fail (''Failed to dispatch to Llamolotl: '' @ e) gs2
                          | Created rid approve_error \<Rightarrow>
                              set_training (job_id job) (running_as rid 0)
                                (awaited env (log_created Training_t (job_id job) gs2)))))"

definition is_language_eval :: "job \<Rightarrow> bool" where
  "is_language_eval job \<longleftrightarrow> eval_type job = Some ''language-eval''"

definition dispatch_to_harness :: "string \<Rightarrow> string \<Rightarrow> queue_env \<Rightarrow> job \<Rightarrow> gpu_state \<Rightarrow> gpu_state" where
  "dispatch_to_harness harness key env job gs =
     (let gs1 = awaited env gs
      in case qe_post env Eval_t job of
           Rejected e \<Rightarrow> set_eval (job_id job) Failed (Some (''Failed to dispatch to '' @ harness @ '': '' @ e)) gs1
         | Unreachable e \<Rightarrow> set_eval (job_id job) Failed (Some (''Failed to connect to '' @ harness @ '': '' @ e)) gs1
         | Created rid approve_error \<Rightarrow>
             (let meta = (key, reason_json rid) # (if is_language_eval job then qe_eval_context env job else []);
                  gs2 = on_table Eval_t (\<lambda>now jobs. fst (update_job_meta True now (job_id job) meta jobs))
                          (log_created Eval_t (job_id job) gs1)
              in set_eval (job_id job) Running None gs2))"

definition dispatch_eval_job :: "queue_env \<Rightarrow> job \<Rightarrow> gpu_state \<Rightarrow> gpu_state" where
  "dispatch_eval_job = dispatch_to_harness ''code-eval'' ''code_eval_job_id''"

definition dispatch_language_eval_job :: "queue_env \<Rightarrow> job \<Rightarrow> gpu_state \<Rightarrow> gpu_state" where
  "dispatch_language_eval_job = dispatch_to_harness ''language-eval'' ''language_eval_job_id''"

text \<open>The VRAM check is advisory: the dispatch follows whatever it answers.\<close>

definition dispatch_eval_job_by_type :: "queue_env \<Rightarrow> job \<Rightarrow> gpu_state \<Rightarrow> gpu_state" where
  "dispatch_eval_job_by_type env job gs =
     (let mid = (case model_id job of None \<Rightarrow> [] | Some m \<Rightarrow> m);
          (w1, vram) = ensure_llamolotl_vram (qe_broker env) (qe_lock env (w_tick (gs_world gs)))
                         (if qe_app env then qe_models env else None) mid (gs_world gs);
          gs2 = awaited env (gs\<lparr>gs_world := w1\<rparr>)
      in if is_language_eval job then dispatch_language_eval_job env job gs2 else dispatch_eval_job env job gs2)"

definition idle_index :: "nat \<Rightarrow> nat set \<Rightarrow> nat option" where
  "idle_index n busy = find (\<lambda>i. i \<notin> busy) [0..<n]"

definition busy_indexes :: "job list \<Rightarrow> nat set" where
  "busy_indexes jobs = set (List.map_filter url_idx (get_jobs_by_status Running jobs))"

text \<open>
  Upload, creation and approval are one \<open>try\<close>: whatever fails, the job fails and the card is given
  back, also when the run was already created. A reply without \<open>job_id\<close> is a \<open>KeyError\<close> there.
\<close>

definition ship_curator_job :: "queue_env \<Rightarrow> nat \<Rightarrow> job \<Rightarrow> gpu_state \<Rightarrow> gpu_state" where
  "ship_curator_job env idx job gs =
     (let gs1 = awaited env gs;
          fail = (\<lambda>e s. release_curator_card env
                     (set_curator (job_id job) (status_because Failed (''Failed to dispatch to curator: '' @ e)) s))
      in case qe_post env Curator_t job of
           Rejected e \<Rightarrow> fail e gs1
         | Unreachable e \<Rightarrow> fail e gs1
         | Created None approve_error \<Rightarrow> fail ''job_id'' (log_created Curator_t (job_id job) gs1)
         | Created (Some rid) (Some e) \<Rightarrow> fail e (awaited env (log_created Curator_t (job_id job) gs1))
         | Created (Some rid) None \<Rightarrow>
             set_curator (job_id job) (running_as (Some rid) idx)
               (awaited env (log_created Curator_t (job_id job) gs1)))"

definition dispatch_curator_job :: "queue_env \<Rightarrow> job \<Rightarrow> gpu_state \<Rightarrow> gpu_state" where
  "dispatch_curator_job env job gs =
     (let fail = (\<lambda>msg. set_curator (job_id job) (status_because Failed msg) gs)
      in if \<not> qe_app env then fail ''App state not available''
         else if CURATOR_BASE_URLS env = [] then fail ''No Curator URLs configured''
         else case idle_index (length (CURATOR_BASE_URLS env)) (busy_indexes (gs_jobs gs Curator_t)) of
           None \<Rightarrow> gs
         | Some idx \<Rightarrow>
             if \<not> meta_truthy ''pipeline_config'' job
             then fail (''No pipeline_config in job meta (pipeline_id='' @
                        (case pipeline_id job of None \<Rightarrow> ''None'' | Some p \<Rightarrow> p) @ '')'')
             else if is_lease_consumer env CURATOR_AUDIENCE gs
             then (case acquire_curator_card env gs of
                     (gs1, Some refusal) \<Rightarrow> set_curator (job_id job) (status_because Queued refusal) gs1
                   | (gs1, None) \<Rightarrow> ship_curator_job env idx job gs1)
             else ship_curator_job env idx job gs)"

definition dispatch_publish_job :: "queue_env \<Rightarrow> job \<Rightarrow> gpu_state \<Rightarrow> gpu_state" where
  "dispatch_publish_job env job gs =
     (let wait_reason = (\<lambda>r. on_table Publish_t (\<lambda>now jobs. record_wait_reason True now (job_id job) r jobs))
      in if \<not> qe_app env then gs
         else case acquire_publish_card env gs of
           (gs1, Some refusal) \<Rightarrow> wait_reason (Some refusal) gs1
         | (gs1, None) \<Rightarrow>
             (let gs2 = awaited env gs1
              in case qe_merge env job of
                   Inl e \<Rightarrow> release_publish_card env (set_publish (job_id job) Failed (Some e) None gs2)
                 | Inr task \<Rightarrow>
                     on_table Publish_t (\<lambda>now jobs. fst (mark_dispatched True now (job_id job) task 0 jobs))
                       (wait_reason None (log_created Publish_t (job_id job) gs2))))"

definition dispatch_job :: "queue_env \<Rightarrow> string \<Rightarrow> job \<Rightarrow> gpu_state \<Rightarrow> gpu_state" where
  "dispatch_job env job_type job gs =
     (if job_type = ''training'' then dispatch_training_job env job gs
      else if job_type \<in> {''language-eval'', ''code-eval''} then dispatch_eval_job_by_type env job gs
      else if job_type = ''curator'' then dispatch_curator_job env job gs
      else if job_type = ''publish'' then dispatch_publish_job env job gs
      else gs)"

section \<open>Settling running jobs\<close>

definition terminal_status :: "string \<Rightarrow> job_status option" where
  "terminal_status s = map_of [(''completed'', Completed), (''failed'', Failed), (''cancelled'', Cancelled)] s"

definition training_status_map :: "string \<Rightarrow> job_status option" where
  "training_status_map s =
     map_of [(''pending'', Queued), (''running'', Running), (''completed'', Completed), (''failed'', Failed),
             (''cancelled'', Cancelled)] s"

text \<open>An unreachable worker fails a job only when its row has not changed for 24 hours.\<close>

definition given_up :: "job \<Rightarrow> gpu_state \<Rightarrow> bool" where
  "given_up job gs \<longleftrightarrow> job_updated_at job < queue_now gs - STALE_RUNNING_TIMEOUT"

definition settled :: "job_status \<Rightarrow> string option \<Rightarrow> status_update" where
  "settled st err = \<lparr>su_status = st, su_remote_id = None, su_url_idx = None, su_error_message = err\<rparr>"

definition sync_training_job :: "queue_env \<Rightarrow> job \<Rightarrow> gpu_state \<Rightarrow> gpu_state" where
  "sync_training_job env job gs =
     (case url_idx job of
        None \<Rightarrow> gs
      | Some idx \<Rightarrow>
          if \<not> has_remote job then gs
          else if idx \<ge> length (LLAMOLOTL_CONTROL_URLS env) then gs
          else (let gs1 = awaited env gs
                in case qe_remote env Training_t job of
                     Remote_404 \<Rightarrow> set_training (job_id job)
                       (status_because Failed ''Job not found in llamolotl (may have been lost on restart)'') gs1
                   | Remote_error e \<Rightarrow>
                       if given_up job gs1
                       then set_training (job_id job) (status_because Failed (''Trainer unreachable for >24h: '' @ e)) gs1
                       else gs1
                   | Remote_body remote err \<Rightarrow>
                       (case training_status_map remote of
                          None \<Rightarrow> gs1
                        | Some st \<Rightarrow>
                            if st = job_status job then gs1
                            else (let gs2 = set_training (job_id job) (settled st err) gs1
                                  in if st = Completed then awaited env gs2 else gs2))))"

definition sync_running_training_jobs :: "queue_env \<Rightarrow> gpu_state \<Rightarrow> gpu_state" where
  "sync_running_training_jobs env gs =
     (if \<not> qe_app env \<or> LLAMOLOTL_CONTROL_URLS env = [] then gs
      else fold (sync_training_job env) [j \<leftarrow> gs_jobs gs Training_t. job_status j \<in> {Running, Queued}] gs)"

definition complete_publish_job :: "queue_env \<Rightarrow> job \<Rightarrow> gpu_state \<Rightarrow> gpu_state" where
  "complete_publish_job env job gs =
     (case qe_completion env job of
        Left_alone \<Rightarrow> gs
      | Record_failed e \<Rightarrow> set_publish (job_id job) Failed (Some e) None gs
      | Recorded version \<Rightarrow> set_publish (job_id job) Completed None (Some version) gs)"

definition sync_publish_job :: "queue_env \<Rightarrow> job \<Rightarrow> gpu_state \<Rightarrow> gpu_state" where
  "sync_publish_job env job gs =
     (if \<not> has_remote job then gs
      else if (case url_idx job of None \<Rightarrow> 0 | Some i \<Rightarrow> i) \<ge> length (LLAMOLOTL_CONTROL_URLS env) then gs
      else (let gs1 = awaited env gs
            in case qe_remote env Publish_t job of
                 Remote_404 \<Rightarrow> release_publish_card env
                   (set_publish (job_id job) Failed
                      (Some ''Merge task not found in llamolotl (may have been lost on restart)'') None gs1)
               | Remote_error e \<Rightarrow> gs1
               | Remote_body remote err \<Rightarrow>
                   if remote = ''completed''
                   then release_publish_card env (complete_publish_job env job (awaited env gs1))
                   else if remote = ''failed''
                   then release_publish_card env
                     (set_publish (job_id job) Failed
                        (Some (case nonempty err of Some e \<Rightarrow> e | None \<Rightarrow> ''the merge failed in llamolotl'')) None gs1)
                   else gs1))"

definition sync_running_publish_jobs :: "queue_env \<Rightarrow> gpu_state \<Rightarrow> gpu_state" where
  "sync_running_publish_jobs env gs =
     (if \<not> qe_app env \<or> LLAMOLOTL_CONTROL_URLS env = [] then gs
      else fold (sync_publish_job env) (publish_jobs_by_status Running (gs_jobs gs Publish_t)) gs)"

text \<open>The bulk update of stuck training jobs; the error message is left as it is.\<close>

definition expire_row :: "int \<Rightarrow> job \<Rightarrow> job" where
  "expire_row now j =
     (if job_status j = Running \<and> job_updated_at j < now - STALE_RUNNING_TIMEOUT
      then j\<lparr>job_status := Failed, job_updated_at := now\<rparr> else j)"

definition expire_stale_training_jobs :: "gpu_state \<Rightarrow> gpu_state" where
  "expire_stale_training_jobs gs = on_table Training_t (\<lambda>now jobs. map (expire_row now) jobs) gs"

text \<open>\<open>qe_finalized\<close>: the data set created for a finished run, or \<open>None\<close> when that failed.\<close>

definition finalize_curator_job :: "queue_env \<Rightarrow> job \<Rightarrow> gpu_state \<Rightarrow> gpu_state" where
  "finalize_curator_job env job gs =
     (case qe_finalized env job of
        None \<Rightarrow> awaited env gs
      | Some kid \<Rightarrow> on_table Curator_t (\<lambda>now jobs. fst (update_created_knowledge_id True now (job_id job) kid jobs))
                      (awaited env gs))"

definition sync_curator_job :: "queue_env \<Rightarrow> job \<Rightarrow> gpu_state \<Rightarrow> gpu_state" where
  "sync_curator_job env job gs =
     (if \<not> has_remote job \<or> \<not> qe_app env then gs
      else if (case url_idx job of None \<Rightarrow> 0 | Some i \<Rightarrow> i) \<ge> length (CURATOR_BASE_URLS env) then gs
      else (let gs1 = awaited env gs
            in case qe_remote env Curator_t job of
                 Remote_404 \<Rightarrow> set_curator (job_id job)
                   (status_because Failed ''Job not found in curator (may have been lost on restart)'') gs1
               | Remote_error e \<Rightarrow>
                   if given_up job gs1
                   then release_curator_card env
                          (set_curator (job_id job) (status_because Failed (''Worker unreachable for >24h: '' @ e)) gs1)
                   else gs1
               | Remote_body remote err \<Rightarrow>
                   (case terminal_status remote of
                      None \<Rightarrow> gs1
                    | Some st \<Rightarrow>
                        (let gs2 = release_curator_card env (set_curator (job_id job) (settled st err) gs1)
                         in if st = Completed then finalize_curator_job env job gs2 else gs2))))"

definition sync_running_curator_jobs :: "queue_env \<Rightarrow> gpu_state \<Rightarrow> gpu_state" where
  "sync_running_curator_jobs env gs =
     fold (sync_curator_job env) (get_jobs_by_status Running (gs_jobs gs Curator_t)) gs"

definition sync_eval_job :: "queue_env \<Rightarrow> job \<Rightarrow> gpu_state \<Rightarrow> gpu_state" where
  "sync_eval_job env job gs =
     (let (harness, key) = (if is_language_eval job then (''language-eval'', ''language_eval_job_id'')
                            else (''code-eval'', ''code_eval_job_id''))
      in if \<not> meta_truthy key job then gs
         else (let gs1 = awaited env gs
               in case qe_remote env Eval_t job of
                    Remote_404 \<Rightarrow> set_eval (job_id job) Failed
                      (Some (''Job not found in '' @ harness @ '' (may have been lost on restart)'')) gs1
                  | Remote_error e \<Rightarrow> gs1
                  | Remote_body remote err \<Rightarrow>
                      (case terminal_status remote of
                         None \<Rightarrow> gs1
                       | Some st \<Rightarrow>
                           set_eval (job_id job) st err
                             (if st = Completed \<and> \<not> is_language_eval job then awaited env gs1 else gs1))))"

definition sync_running_eval_jobs :: "queue_env \<Rightarrow> gpu_state \<Rightarrow> gpu_state" where
  "sync_running_eval_jobs env gs =
     fold (sync_eval_job env) (get_jobs_by_status Running (gs_jobs gs Eval_t)) gs"

definition sync_running_jobs :: "queue_env \<Rightarrow> gpu_state \<Rightarrow> gpu_state" where
  "sync_running_jobs env gs =
     expire_stale_training_jobs
       (sync_running_publish_jobs env
         (sync_running_training_jobs env
           (sync_running_curator_jobs env
             (awaited env (sync_running_eval_jobs env gs)))))"

section \<open>What a handler touches\<close>

text \<open>
  \<open>row_step t jid X gs gs'\<close>: of the job tables only the row of job \<open>jid\<close> in table \<open>t\<close> changed, it
  is still the same job, and its status is in \<open>X\<close> or what it was. \<open>frame S gs gs'\<close>: the same jobs
  are in the tables, and only rows of \<open>S\<close> changed.
\<close>

definition row_step :: "job_table \<Rightarrow> string \<Rightarrow> job_status set \<Rightarrow> gpu_state \<Rightarrow> gpu_state \<Rightarrow> bool" where
  "row_step t jid X gs gs' \<longleftrightarrow>
     (\<exists>f. (\<forall>j. job_identity (f j) = job_identity j \<and> (job_status (f j) \<in> X \<or> job_status (f j) = job_status j)) \<and>
          gs_jobs gs' = (gs_jobs gs)(t := update_by job_id jid f (gs_jobs gs t)))"

definition frame :: "(job_table \<times> string) set \<Rightarrow> gpu_state \<Rightarrow> gpu_state \<Rightarrow> bool" where
  "frame S gs gs' \<longleftrightarrow>
     (\<forall>t. map job_identity (gs_jobs gs' t) = map job_identity (gs_jobs gs t)) \<and>
     (\<forall>t i. (t, i) \<notin> S \<longrightarrow> get_job_by_id i (gs_jobs gs' t) = get_job_by_id i (gs_jobs gs t))"

lemma identity_id: "job_identity j = job_identity k \<Longrightarrow> job_id j = job_id k"
  by (simp add: job_identity_def)

lemma row_stepI:
  assumes "\<And>j. job_identity (f j) = job_identity j" and "\<And>j. job_status (f j) \<in> X \<or> job_status (f j) = job_status j"
    and "gs_jobs gs' = (gs_jobs gs)(t := update_by job_id jid f (gs_jobs gs t))"
  shows "row_step t jid X gs gs'"
  unfolding row_step_def using assms by blast

lemma row_step_same: "gs_jobs gs' = gs_jobs gs \<Longrightarrow> row_step t jid X gs gs'"
  by (rule row_stepI [where f = "\<lambda>j. j"]) (simp_all add: update_by_def)

lemma row_step_trans:
  assumes "row_step t jid X gs gs1" and "row_step t jid X gs1 gs2"
  shows "row_step t jid X gs gs2"
proof -
  from assms(1) obtain f where f: "\<And>j. job_identity (f j) = job_identity j"
    "\<And>j. job_status (f j) \<in> X \<or> job_status (f j) = job_status j"
    "gs_jobs gs1 = (gs_jobs gs)(t := update_by job_id jid f (gs_jobs gs t))" unfolding row_step_def by blast
  from assms(2) obtain g where g: "\<And>j. job_identity (g j) = job_identity j"
    "\<And>j. job_status (g j) \<in> X \<or> job_status (g j) = job_status j"
    "gs_jobs gs2 = (gs_jobs gs1)(t := update_by job_id jid g (gs_jobs gs1 t))" unfolding row_step_def by blast
  have "update_by job_id jid g (update_by job_id jid f jobs) = update_by job_id jid (\<lambda>j. g (f j)) jobs" for jobs
    using identity_id [OF f(1)] by (induction jobs) auto
  with f(3) g(3) have "gs_jobs gs2 = (gs_jobs gs)(t := update_by job_id jid (\<lambda>j. g (f j)) (gs_jobs gs t))" by simp
  with f(1,2) g(1,2) show ?thesis by (intro row_stepI [where f = "\<lambda>j. g (f j)"]) metis+
qed

lemma row_step_frame: "row_step t jid X gs gs' \<Longrightarrow> frame {(t, jid)} gs gs'"
proof -
  assume "row_step t jid X gs gs'"
  then obtain f where f: "\<And>j. job_identity (f j) = job_identity j"
    and g: "gs_jobs gs' = (gs_jobs gs)(t := update_by job_id jid f (gs_jobs gs t))" unfolding row_step_def by blast
  from f have "row_write job_id f" by unfold_locales (rule identity_id)
  then have "find_by job_id i (update_by job_id jid f jobs) = find_by job_id i jobs" if "i \<noteq> jid" for i jobs
    using that by (rule row_write.find_other)
  with g f show ?thesis by (auto simp: frame_def get_job_by_id_def map_update_by_same)
qed

lemma frame_refl: "gs_jobs gs' = gs_jobs gs \<Longrightarrow> frame S gs gs'"
  by (simp add: frame_def)

lemma frame_mono: "frame S gs gs' \<Longrightarrow> S \<subseteq> S' \<Longrightarrow> frame S' gs gs'"
  unfolding frame_def by blast

lemma frame_trans: "frame S gs gs1 \<Longrightarrow> frame S gs1 gs2 \<Longrightarrow> frame S gs gs2"
  unfolding frame_def by simp

lemma frame_ids: "frame S gs gs' \<Longrightarrow> map job_id (gs_jobs gs' t) = map job_id (gs_jobs gs t)"
proof -
  assume "frame S gs gs'"
  then have "map fst (map job_identity (gs_jobs gs' t)) = map fst (map job_identity (gs_jobs gs t))"
    by (simp add: frame_def)
  moreover have "fst \<circ> job_identity = job_id" by (simp add: fun_eq_iff job_identity_def)
  ultimately show ?thesis by simp
qed

definition tables_ok :: "gpu_state \<Rightarrow> bool" where
  "tables_ok gs \<longleftrightarrow> (\<forall>t. unique_by job_id (gs_jobs gs t))"

lemma frame_tables_ok: "frame S gs gs' \<Longrightarrow> tables_ok gs' = tables_ok gs"
  by (simp add: tables_ok_def unique_by_def frame_ids)

lemma fold_frame:
  assumes "\<And>j gs. j \<in> set js \<Longrightarrow> frame {(t, job_id j)} gs (h j gs)"
  shows "frame ((\<lambda>j. (t, job_id j)) ` set js) gs (fold h js gs)"
  using assms
proof (induction js arbitrary: gs)
  case (Cons j js)
  from Cons.prems [of j gs] have "frame ((\<lambda>j. (t, job_id j)) ` set (j # js)) gs (h j gs)"
    by (rule frame_mono) auto
  moreover have "frame ((\<lambda>j. (t, job_id j)) ` set (j # js)) (h j gs) (fold h js (h j gs))"
    by (rule frame_mono [OF Cons.IH]) (use Cons.prems in auto)
  ultimately show ?case by (simp add: frame_trans)
qed (simp add: frame_refl)

lemma awaited_simps [simp]:
  "gs_jobs (awaited env gs) = gs_jobs gs" "gs_created (awaited env gs) = gs_created gs"
  by (simp_all add: awaited_def split_beta Let_def)

lemma log_created_simps [simp]:
  "gs_jobs (log_created t jid gs) = gs_jobs gs" "gs_world (log_created t jid gs) = gs_world gs"
  "gs_created (log_created t jid gs) = (t, jid) # gs_created gs"
  by (simp_all add: log_created_def)

lemma on_table_simps [simp]:
  "gs_created (on_table t F gs) = gs_created gs" "gs_world (on_table t F gs) = gs_world gs"
  by (simp_all add: on_table_def)

lemma set_simps [simp]:
  "gs_created (set_training jid u gs) = gs_created gs" "gs_world (set_training jid u gs) = gs_world gs"
  "gs_created (set_eval jid st err gs) = gs_created gs" "gs_world (set_eval jid st err gs) = gs_world gs"
  "gs_created (set_curator jid u gs) = gs_created gs" "gs_world (set_curator jid u gs) = gs_world gs"
  "gs_created (set_publish jid st err res gs) = gs_created gs" "gs_world (set_publish jid st err res gs) = gs_world gs"
  by (simp_all add: set_training_def set_eval_def set_curator_def set_publish_def)

lemma card_simps [simp]:
  "gs_jobs (drop_card env cid gs) = gs_jobs gs" "gs_created (drop_card env cid gs) = gs_created gs"
  "gs_jobs (release_curator_card env gs) = gs_jobs gs" "gs_created (release_curator_card env gs) = gs_created gs"
  "gs_jobs (release_publish_card env gs) = gs_jobs gs" "gs_created (release_publish_card env gs) = gs_created gs"
  by (simp_all add: drop_card_def release_curator_card_def release_publish_card_def)

lemma acquire_card_jobs:
  "gs_jobs (fst (acquire_card env cid msg gs)) = gs_jobs gs \<and>
   gs_created (fst (acquire_card env cid msg gs)) = gs_created gs"
  by (auto simp: acquire_card_def split: prod.split sum.split py_exn.split)

lemma acquire_jobs:
  "acquire_curator_card env gs = (gs1, r) \<Longrightarrow> gs_jobs gs1 = gs_jobs gs \<and> gs_created gs1 = gs_created gs"
  "acquire_publish_card env gs = (gs1, r) \<Longrightarrow> gs_jobs gs1 = gs_jobs gs \<and> gs_created gs1 = gs_created gs"
  using acquire_card_jobs [of env CURATOR_AUDIENCE "''Could not acquire the GPU for curation''" gs]
    acquire_card_jobs [of env PUBLISH_AUDIENCE "''Could not acquire the GPU for the publish''" gs]
  by (auto simp: acquire_curator_card_def acquire_publish_card_def split: if_splits)

text \<open>The writes, by what they do to the table.\<close>

lemma set_jobs:
  "gs_jobs (set_training jid u gs) =
     (gs_jobs gs)(Training_t := update_by job_id jid (status_row (queue_now gs) u) (gs_jobs gs Training_t))"
  "gs_jobs (set_eval jid st err gs) =
     (gs_jobs gs)(Eval_t := update_by job_id jid (status_row (queue_now gs) (settled st err)) (gs_jobs gs Eval_t))"
  "gs_jobs (set_curator jid u gs) =
     (gs_jobs gs)(Curator_t := update_by job_id jid (status_row (queue_now gs) u) (gs_jobs gs Curator_t))"
  "gs_jobs (set_publish jid st err res gs) =
     (gs_jobs gs)(Publish_t := update_by job_id jid (publish_status_row (queue_now gs) st err res) (gs_jobs gs Publish_t))"
  by (simp_all add: set_training_def set_eval_def set_curator_def set_publish_def on_table_def write_job_def Let_def
      training_update_job_status_def eval_update_job_status_def curator_update_job_status_def
      publish_update_status_def settled_def)

lemma set_row_step:
  "su_status u \<in> X \<Longrightarrow> gs_jobs gs1 = gs_jobs gs \<Longrightarrow> row_step Training_t jid X gs (set_training jid u gs1)"
  "st \<in> X \<Longrightarrow> gs_jobs gs1 = gs_jobs gs \<Longrightarrow> row_step Eval_t jid X gs (set_eval jid st err gs1)"
  "su_status u \<in> X \<Longrightarrow> gs_jobs gs1 = gs_jobs gs \<Longrightarrow> row_step Curator_t jid X gs (set_curator jid u gs1)"
  "st \<in> X \<Longrightarrow> gs_jobs gs1 = gs_jobs gs \<Longrightarrow> row_step Publish_t jid X gs (set_publish jid st err res gs1)"
  by (rule row_stepI [where f = "status_row (queue_now gs1) u"]
      row_stepI [where f = "status_row (queue_now gs1) (settled st err)"]
      row_stepI [where f = "publish_status_row (queue_now gs1) st err res"];
      simp add: set_jobs job_identity_def status_row_def settled_def publish_status_row_def)+

section \<open>The handlers touch their own job\<close>

definition DISPATCHED :: "job_status set" where "DISPATCHED = {Queued, Running, Failed}"

definition SETTLED :: "job_status set" where "SETTLED = {Queued, Running, Completed, Failed, Cancelled}"

lemma status_sets [simp]:
  "Queued \<in> DISPATCHED" "Running \<in> DISPATCHED" "Failed \<in> DISPATCHED"
  "Queued \<in> SETTLED" "Running \<in> SETTLED" "Completed \<in> SETTLED" "Failed \<in> SETTLED" "Cancelled \<in> SETTLED"
  by (simp_all add: DISPATCHED_def SETTLED_def)

lemma status_simps [simp]:
  "su_status (status_because st r) = st" "su_status (running_as rid i) = Running" "su_status (settled st err) = st"
  by (simp_all add: status_because_def running_as_def settled_def)

lemma terminal_status_range: "terminal_status s = Some st \<Longrightarrow> st \<in> {Completed, Failed, Cancelled}"
  by (auto simp: terminal_status_def split: if_splits)

lemma training_status_range: "training_status_map s = Some st \<Longrightarrow> st \<in> SETTLED"
  by (auto simp: training_status_map_def SETTLED_def split: if_splits)

lemma row_step_refl [simp]: "row_step t jid X gs gs"
  by (rule row_step_same) simp

lemma row_step_world [simp]:
  "row_step t jid X gs (release_curator_card env g) = row_step t jid X gs g"
  "row_step t jid X gs (release_publish_card env g) = row_step t jid X gs g"
  "row_step t jid X gs (awaited env g) = row_step t jid X gs g"
  by (simp_all add: row_step_def)

lemma dispatch_training_step: "row_step Training_t (job_id job) DISPATCHED gs (dispatch_training_job env job gs)"
  by (auto simp: dispatch_training_job_def Let_def split: sum.split bool.split post_answer.split
      intro!: set_row_step)

lemma meta_step:
  assumes "gs_jobs gs1 = gs_jobs gs"
  shows "row_step t jid X gs (on_table t (\<lambda>now jobs. fst (update_job_meta True now jid new jobs)) gs1)"
proof (cases "get_job_by_id jid (gs_jobs gs t)")
  case None
  with assms show ?thesis by (auto intro!: row_step_same simp: on_table_def update_job_meta_def)
next
  case (Some j)
  with assms show ?thesis
    by (auto intro!: row_stepI [where f = "meta_row (queue_now gs1) new"]
        simp: on_table_def update_job_meta_def write_job_def Let_def job_identity_def meta_row_def)
qed

lemma dispatch_to_harness_step: "row_step Eval_t (job_id job) DISPATCHED gs (dispatch_to_harness h key env job gs)"
proof -
  have "row_step Eval_t (job_id job) DISPATCHED gs (set_eval (job_id job) Running None
      (on_table Eval_t (\<lambda>now jobs. fst (update_job_meta True now (job_id job) new jobs)) gs1))"
    if "gs_jobs gs1 = gs_jobs gs" for gs1 new
    by (rule row_step_trans [OF meta_step [OF that] set_row_step(2)]) simp_all
  then show ?thesis
    by (auto simp: dispatch_to_harness_def Let_def split: post_answer.split intro!: set_row_step)
qed

lemma row_step_start: "row_step t jid X gs1 gs2 \<Longrightarrow> gs_jobs gs1 = gs_jobs gs \<Longrightarrow> row_step t jid X gs gs2"
  by (simp add: row_step_def)

lemma dispatch_eval_step: "row_step Eval_t (job_id job) DISPATCHED gs (dispatch_eval_job_by_type env job gs)"
  unfolding dispatch_eval_job_by_type_def Let_def split_beta dispatch_eval_job_def dispatch_language_eval_job_def
  by (auto intro: row_step_start [OF dispatch_to_harness_step])

lemma ship_curator_step: "row_step Curator_t (job_id job) DISPATCHED gs (ship_curator_job env idx job gs)"
  unfolding ship_curator_job_def Let_def
  by (auto split: post_answer.split option.split
      intro!: set_row_step)

lemma dispatch_curator_step: "row_step Curator_t (job_id job) DISPATCHED gs (dispatch_curator_job env job gs)"
proof -
  have "row_step Curator_t (job_id job) DISPATCHED gs (set_curator (job_id job) (status_because Queued r) gs1)"
    "row_step Curator_t (job_id job) DISPATCHED gs (ship_curator_job env idx job gs1)"
    if "acquire_curator_card env gs = (gs1, x)" for gs1 x r idx
    using acquire_jobs(1) [OF that] by (auto intro!: set_row_step row_step_start [OF ship_curator_step] )
  then show ?thesis
    unfolding dispatch_curator_job_def Let_def
    by (auto split: option.split prod.split intro!: set_row_step
        intro: ship_curator_step)
qed

lemma wait_reason_step:
  assumes "gs_jobs gs1 = gs_jobs gs"
  shows "row_step Publish_t jid X gs (on_table Publish_t (\<lambda>now jobs. record_wait_reason True now jid r jobs) gs1)"
proof -
  let ?new = "[(''waiting_reason'', reason_json r)]" and ?jobs = "gs_jobs gs Publish_t"
  have "record_wait_reason True now jid r ?jobs = ?jobs \<or>
        record_wait_reason True now jid r ?jobs = update_by job_id jid (meta_row now ?new) ?jobs" for now
    by (auto simp: record_wait_reason_def write_job_def Let_def split: option.split)
  then consider "record_wait_reason True (queue_now gs1) jid r ?jobs = ?jobs"
    | "record_wait_reason True (queue_now gs1) jid r ?jobs = update_by job_id jid (meta_row (queue_now gs1) ?new) ?jobs"
    by blast
  then show ?thesis
  proof cases
    case 1
    with assms show ?thesis by (intro row_step_same) (simp add: on_table_def)
  next
    case 2
    with assms show ?thesis by (intro row_stepI [where f = "meta_row (queue_now gs1) ?new"])
        (simp_all add: job_identity_def meta_row_def on_table_def)
  qed
qed

lemma mark_dispatched_step:
  "Running \<in> X \<Longrightarrow> row_step Publish_t jid X gs1 (on_table Publish_t (\<lambda>now jobs. fst (mark_dispatched True now jid task n jobs)) gs1)"
  by (rule row_stepI [where f = "dispatched_row (queue_now gs1) task n"])
    (auto simp: on_table_def mark_dispatched_def write_job_def Let_def job_identity_def dispatched_row_def)

lemma dispatch_publish_step: "row_step Publish_t (job_id job) DISPATCHED gs (dispatch_publish_job env job gs)"
proof -
  have "row_step Publish_t (job_id job) DISPATCHED gs
      (on_table Publish_t (\<lambda>now jobs. fst (mark_dispatched True now (job_id job) task 0 jobs))
        (on_table Publish_t (\<lambda>now jobs. record_wait_reason True now (job_id job) None jobs) gs1))"
    if "gs_jobs gs1 = gs_jobs gs" for gs1 task
    by (rule row_step_trans [OF wait_reason_step [OF that] mark_dispatched_step]) simp
  then show ?thesis
    unfolding dispatch_publish_job_def Let_def
    by (auto dest!: acquire_jobs(2) split: option.split prod.split sum.split
        intro: wait_reason_step set_row_step)
qed

definition table_of :: "string \<Rightarrow> job_table option" where
  "table_of job_type =
     (if job_type = ''training'' then Some Training_t
      else if job_type \<in> {''language-eval'', ''code-eval''} then Some Eval_t
      else if job_type = ''curator'' then Some Curator_t
      else if job_type = ''publish'' then Some Publish_t
      else None)"

lemma dispatch_job_step:
  "table_of ty = Some t \<Longrightarrow> row_step t (job_id job) DISPATCHED gs (dispatch_job env ty job gs)"
  by (auto simp: table_of_def dispatch_job_def dispatch_training_step dispatch_eval_step dispatch_curator_step
      dispatch_publish_step split: if_splits)

lemma sync_training_step: "row_step Training_t (job_id job) SETTLED gs (sync_training_job env job gs)"
  unfolding sync_training_job_def Let_def
  by (auto split: option.split remote_answer.split intro!: set_row_step dest: training_status_range)

lemma complete_publish_step:
  "gs_jobs gs1 = gs_jobs gs \<Longrightarrow>
   row_step Publish_t (job_id job) {Completed, Failed, Cancelled} gs (complete_publish_job env job gs1)"
  by (auto simp: complete_publish_job_def split: publish_completion.split intro: set_row_step row_step_same)

lemma sync_publish_step:
  "row_step Publish_t (job_id job) {Completed, Failed, Cancelled} gs (sync_publish_job env job gs)"
  unfolding sync_publish_job_def Let_def
  by (auto split: remote_answer.split intro: set_row_step complete_publish_step)

lemma finalize_step:
  "row_step Curator_t (job_id job) X gs1 (finalize_curator_job env job gs1)"
proof (cases "qe_finalized env job")
  case (Some kid)
  then show ?thesis
    by (intro row_stepI [where f = "knowledge_row (queue_now (awaited env gs1)) kid"])
      (simp_all add: finalize_curator_job_def on_table_def update_created_knowledge_id_def write_job_def Let_def
        job_identity_def knowledge_row_def)
qed (simp add: finalize_curator_job_def)

lemma sync_curator_step:
  "row_step Curator_t (job_id job) {Completed, Failed, Cancelled} gs (sync_curator_job env job gs)"
proof -
  have "row_step Curator_t (job_id job) {Completed, Failed, Cancelled} gs
      (finalize_curator_job env job (release_curator_card env (set_curator (job_id job) (settled Completed err) (awaited env gs))))"
    for err by (rule row_step_trans [OF _ finalize_step]) (auto intro: set_row_step)
  then show ?thesis
    unfolding sync_curator_job_def Let_def
    by (auto split: remote_answer.split option.split intro: set_row_step dest!: terminal_status_range)
qed

lemma sync_eval_step:
  "row_step Eval_t (job_id job) {Completed, Failed, Cancelled} gs (sync_eval_job env job gs)"
  unfolding sync_eval_job_def Let_def split_beta
  by (auto split: remote_answer.split option.split intro!: set_row_step dest!: terminal_status_range)

section \<open>Where a dispatch leaves its job\<close>

lemma get_written:
  assumes "row_write job_id f" and "gs_jobs gs' = (gs_jobs gs)(t := update_by job_id jid f (gs_jobs gs t))"
  shows "get_job_by_id jid (gs_jobs gs' t) = map_option f (get_job_by_id jid (gs_jobs gs t))"
  using assms by (simp add: get_job_by_id_def row_write.find_written)

lemma set_get [simp]:
  "get_job_by_id jid (gs_jobs (set_training jid u gs) Training_t) =
     map_option (status_row (queue_now gs) u) (get_job_by_id jid (gs_jobs gs Training_t))"
  "get_job_by_id jid (gs_jobs (set_eval jid st err gs) Eval_t) =
     map_option (status_row (queue_now gs) (settled st err)) (get_job_by_id jid (gs_jobs gs Eval_t))"
  "get_job_by_id jid (gs_jobs (set_curator jid u gs) Curator_t) =
     map_option (status_row (queue_now gs) u) (get_job_by_id jid (gs_jobs gs Curator_t))"
  "get_job_by_id jid (gs_jobs (set_publish jid st err res gs) Publish_t) =
     map_option (publish_status_row (queue_now gs) st err res) (get_job_by_id jid (gs_jobs gs Publish_t))"
  by (simp_all add: set_jobs get_job_by_id_def status_j.find_written publish_status_j.find_written)

text \<open>The outcomes of a dispatch: kept in the queue, handed over, or failed.\<close>

definition handed_over :: "job_table \<Rightarrow> string \<Rightarrow> gpu_state \<Rightarrow> gpu_state \<Rightarrow> bool" where
  "handed_over t jid gs gs' \<longleftrightarrow>
     (\<exists>j. get_job_by_id jid (gs_jobs gs' t) = Some j \<and>
        (job_status j = Queued \<and> gs_created gs' = gs_created gs \<or>
         job_status j = Running \<and> gs_created gs' = (t, jid) # gs_created gs \<or>
         job_status j = Failed \<and> gs_created gs' \<in> {gs_created gs, (t, jid) # gs_created gs}))"

lemma status_row_status [simp]:
  "job_status (status_row now u j) = su_status u" "job_status (publish_status_row now st err res j) = st"
  by (simp_all add: status_row_def publish_status_row_def)

lemma dispatch_training_outcome:
  assumes "get_job_by_id (job_id job) (gs_jobs gs Training_t) = Some j" and "job_status j = Queued"
  shows "handed_over Training_t (job_id job) gs (dispatch_training_job env job gs)"
  using assms unfolding dispatch_training_job_def Let_def handed_over_def
  by (auto split: sum.split bool.split post_answer.split)

lemma dispatch_eval_outcome:
  assumes "get_job_by_id (job_id job) (gs_jobs gs Eval_t) = Some j" and "job_status j = Queued"
  shows "handed_over Eval_t (job_id job) gs (dispatch_eval_job_by_type env job gs)"
proof -
  have "handed_over Eval_t (job_id job) gs (dispatch_to_harness h key env job gs1)"
    if "gs_jobs gs1 = gs_jobs gs" "gs_created gs1 = gs_created gs" for h key gs1
  proof -
    let ?m = "\<lambda>new s. on_table Eval_t (\<lambda>now jobs. fst (update_job_meta True now (job_id job) new jobs)) s"
    have "\<exists>j'. get_job_by_id (job_id job) (gs_jobs (?m new s) Eval_t) = Some j'"
      if "gs_jobs s = gs_jobs gs" for new s
      using that assms(1) by (simp add: on_table_def update_job_meta_def meta_j.write_get)
    then have "\<exists>j'. get_job_by_id (job_id job) (gs_jobs (?m new (log_created Eval_t (job_id job) (awaited env gs1))) Eval_t) = Some j'"
      for new using that(1) by simp
    with that assms show ?thesis unfolding dispatch_to_harness_def Let_def handed_over_def
      by (force split: post_answer.split)
  qed
  then show ?thesis
    unfolding dispatch_eval_job_by_type_def Let_def split_beta dispatch_eval_job_def dispatch_language_eval_job_def
    by simp
qed

lemma ship_curator_outcome:
  assumes "get_job_by_id (job_id job) (gs_jobs gs1 Curator_t) = Some j" and "gs_created gs1 = gs_created gs"
  shows "handed_over Curator_t (job_id job) gs (ship_curator_job env idx job gs1)"
  using assms unfolding ship_curator_job_def Let_def handed_over_def
  by (auto split: post_answer.split option.split)

lemma dispatch_curator_outcome:
  assumes "get_job_by_id (job_id job) (gs_jobs gs Curator_t) = Some j" and "job_status j = Queued"
  shows "handed_over Curator_t (job_id job) gs (dispatch_curator_job env job gs)"
proof -
  obtain gs1 r where a: "acquire_curator_card env gs = (gs1, r)" by fastforce
  from acquire_jobs(1) [OF a] assms(1) have g: "get_job_by_id (job_id job) (gs_jobs gs1 Curator_t) = Some j"
    "gs_created gs1 = gs_created gs" by simp_all
  have "handed_over Curator_t (job_id job) gs (case acquire_curator_card env gs of
      (gs1, Some refusal) \<Rightarrow> set_curator (job_id job) (status_because Queued refusal) gs1
    | (gs1, None) \<Rightarrow> ship_curator_job env idx job gs1)" for idx
  proof (cases r)
    case None
    with a ship_curator_outcome [OF g] show ?thesis by simp
  next
    case (Some refusal)
    with a g show ?thesis by (simp add: handed_over_def)
  qed
  moreover have "handed_over Curator_t (job_id job) gs (ship_curator_job env idx job gs)" for idx
    using assms(1) by (rule ship_curator_outcome) simp
  moreover have "handed_over Curator_t (job_id job) gs (set_curator (job_id job) (status_because Failed m) gs)"
    "handed_over Curator_t (job_id job) gs gs" for m using assms by (simp_all add: handed_over_def)
  ultimately show ?thesis unfolding dispatch_curator_job_def Let_def by (simp split: option.split)
qed

lemma wait_reason_get:
  assumes "get_job_by_id jid (gs_jobs gs Publish_t) = Some j"
  shows "\<exists>j'. get_job_by_id jid (gs_jobs (on_table Publish_t (\<lambda>now jobs. record_wait_reason True now jid r jobs) gs) Publish_t) = Some j' \<and>
           job_status j' = job_status j"
  using assms by (auto simp: on_table_def record_wait_reason_def meta_j.write_get meta_row_def)

lemma dispatch_publish_outcome:
  assumes "get_job_by_id (job_id job) (gs_jobs gs Publish_t) = Some j" and "job_status j = Queued"
  shows "handed_over Publish_t (job_id job) gs (dispatch_publish_job env job gs)"
proof (cases "qe_app env")
  case True
  obtain gs1 r where a: "acquire_publish_card env gs = (gs1, r)" by fastforce
  from acquire_jobs(2) [OF a] assms have g: "get_job_by_id (job_id job) (gs_jobs gs1 Publish_t) = Some j"
    "gs_created gs1 = gs_created gs" by simp_all
  let ?wait = "\<lambda>r. on_table Publish_t (\<lambda>now jobs. record_wait_reason True now (job_id job) r jobs)"
  let ?s = "?wait None (log_created Publish_t (job_id job) (awaited env gs1))"
  from wait_reason_get [of "job_id job" "log_created Publish_t (job_id job) (awaited env gs1)" j None] g(1)
  obtain j' where "get_job_by_id (job_id job) (gs_jobs ?s Publish_t) = Some j'" by auto
  then have "\<exists>j''. get_job_by_id (job_id job) (gs_jobs (on_table Publish_t
      (\<lambda>now jobs. fst (mark_dispatched True now (job_id job) task 0 jobs)) ?s) Publish_t) = Some j'' \<and> job_status j'' = Running" for task
    by (subst on_table_def) (simp add: mark_dispatched_def dispatched_j.write_get dispatched_row_def)
  moreover from wait_reason_get [OF g(1)] assms(2) have "\<exists>j'. get_job_by_id (job_id job) (gs_jobs (?wait r' gs1) Publish_t) = Some j' \<and>
      job_status j' = Queued" for r' by simp
  ultimately show ?thesis using True a g
    by (force simp: dispatch_publish_job_def Let_def handed_over_def split: option.split sum.split)
qed (use assms in \<open>simp add: dispatch_publish_job_def handed_over_def\<close>)

lemma dispatch_job_outcome:
  assumes "table_of ty = Some t" and "get_job_by_id (job_id job) (gs_jobs gs t) = Some j" and "job_status j = Queued"
  shows "handed_over t (job_id job) gs (dispatch_job env ty job gs)"
  using assms dispatch_training_outcome dispatch_eval_outcome dispatch_curator_outcome dispatch_publish_outcome
  by (auto simp: table_of_def dispatch_job_def split: if_splits)

section \<open>Properties\<close>

lemma acquire_card_granted:
  assumes "acquire_card env cid msg gs = (gs1, None)" and "get_consumer cid (w_reg (gs_world gs)) \<noteq> None"
  shows "\<exists>res. acquire_exclusive (qe_broker env) None (qe_lock env (w_tick (gs_world gs))) cid None (gs_world gs) =
           (gs_world gs1, Inr res) \<and> er_acquired res"
  using assms(1) acquire_exclusive_no_value_error [OF assms(2)]
  by (auto simp: acquire_card_def split: prod.splits sum.splits py_exn.splits if_splits)

lemma created_needs_card:
  assumes "(ty, cid) \<in> {(''curator'', CURATOR_AUDIENCE), (''publish'', PUBLISH_AUDIENCE)}"
    and "qe_registry_readable env" and "get_consumer cid (w_reg (gs_world gs)) \<noteq> None"
    and "gs_created (dispatch_job env ty job gs) \<noteq> gs_created gs"
  shows "\<exists>msg gs1. acquire_card env cid msg gs = (gs1, None)"
proof (cases "ty = ''curator''")
  case True
  with assms(1) have [simp]: "cid = CURATOR_AUDIENCE" "ty = ''curator''" by auto
  from assms(2-4) show ?thesis
    using acquire_jobs(1) [of env gs]
    by (force simp: dispatch_job_def dispatch_curator_job_def Let_def is_lease_consumer_def acquire_curator_card_def
        split: if_splits option.splits prod.splits)
next
  case False
  with assms(1) have [simp]: "cid = PUBLISH_AUDIENCE" "ty = ''publish''" by auto
  from assms(2-4) show ?thesis
    using acquire_jobs(2) [of env gs]
    by (force simp: dispatch_job_def dispatch_publish_job_def Let_def is_lease_consumer_def acquire_publish_card_def
        split: if_splits option.splits prod.splits)
qed

text \<open>
  C10: A curation or a publish only ever starts on a cleared card (self.ai#88, self.ai#136). Where the
  job kind is registered as a lease consumer, a dispatch that gets a worker to create a run has
  first acquired the card exclusively: in the registry the acquire left, nobody else held measured
  VRAM, nobody else held an exclusive lease, and the consumer's own row was marked exclusive. So no
  run is created on a refusal, on an error of the broker, or before the acquire.
\<close>

theorem run_starts_on_a_cleared_card:
  assumes "(ty, cid) \<in> {(''curator'', CURATOR_AUDIENCE), (''publish'', PUBLISH_AUDIENCE)}"
    and "qe_registry_readable env" and "get_consumer cid (w_reg (gs_world gs)) \<noteq> None"
    and "gs_created (dispatch_job env ty job gs) \<noteq> gs_created gs"
  shows "\<exists>w res. acquire_exclusive (qe_broker env) None (qe_lock env (w_tick (gs_world gs))) cid None (gs_world gs) =
             (w, Inr res) \<and> er_acquired res \<and>
           (\<forall>r \<in> set (w_reg w). consumer_id r \<noteq> cid \<longrightarrow>
              held_bytes r \<le> 0 \<and> \<not> exclusive_active (b_cfg (qe_broker env)) (now_of w) r) \<and>
           (\<exists>r. get_consumer cid (w_reg w) = Some r \<and> lease_mode r = EXCLUSIVE)"
proof -
  from created_needs_card [OF assms] obtain msg gs1 where "acquire_card env cid msg gs = (gs1, None)" by blast
  from acquire_card_granted [OF this assms(3)] obtain res where
    a: "acquire_exclusive (qe_broker env) None (qe_lock env (w_tick (gs_world gs))) cid None (gs_world gs) =
          (gs_world gs1, Inr res)" "er_acquired res" by blast
  from acquired_card [OF a] a show ?thesis by blast
qed

definition sample_queue_env :: queue_env where
  "sample_queue_env =
     \<lparr>qe_broker = sample_broker, qe_lock = (\<lambda>k. lock_free), qe_wait = (\<lambda>k. (1, [])), qe_app = True,
      qe_registry_readable = True, LLAMOLOTL_CONTROL_URLS = [''http://l''], CURATOR_BASE_URLS = [''http://c''],
      qe_models = None, qe_course_known = (\<lambda>j. True), qe_datasets = (\<lambda>j. Inr True), qe_no_datasets = (\<lambda>j. ''''),
      qe_post = (\<lambda>t j. Created (Some ''r1'') None), qe_remote = (\<lambda>t j. Remote_body ''running'' None),
      qe_merge = (\<lambda>j. Inr ''task''), qe_completion = (\<lambda>j. Recorded ''v2''), qe_finalized = (\<lambda>j. None),
      qe_eval_context = (\<lambda>j. []), qe_reason_text = (\<lambda>r. ''busy''), qe_holder_text = (\<lambda>r. ''no''),
      qe_exn_text = (\<lambda>e. ''error''), qe_max_duration = (\<lambda>b ty. None), CURATOR_ENFORCE_WINDOW_END = False,
      qe_windows = \<lparr>wd_windows = [], wd_slots = []\<rparr>, qe_windows_readable = True\<rparr>"

text \<open>A card nobody holds, with the curator registered.\<close>

definition idle_card :: world where
  "idle_card = sample_world\<lparr>w_reg := [sample_row CURATOR_AUDIENCE 24 0 8 0, sample_row LLAMOLOTL_AUDIENCE 24 0 10 0]\<rparr>"

definition curation :: "job_status \<Rightarrow> job" where
  "curation st = (blank_job ''c1'' ''u'' st Normal 1)
     \<lparr>job_meta := Some [(''pipeline_config'', JObj [(''input_path'', JStr ''x'')])], pipeline_id := Some ''p''\<rparr>"

definition sample_queue :: gpu_state where
  "sample_queue =
     \<lparr>gs_world = idle_card, gs_jobs = (\<lambda>t. if t = Curator_t then [curation Queued] else []), gs_created = []\<rparr>"

lemmas audience_defs = CURATOR_AUDIENCE_def LLAMOLOTL_AUDIENCE_def PUBLISH_AUDIENCE_def

lemmas queue_run_defs =
  sample_queue_def sample_queue_env_def idle_card_def curation_def audience_defs awaited_def log_created_def on_table_def
  set_curator_def set_training_def set_publish_def set_eval_def queue_now_def is_lease_consumer_def running_count_def
  running_jobs_def get_jobs_by_status_def meta_truthy_def meta_of_def has_remote_def
  curator_update_job_status_def training_update_job_status_def write_job_def get_job_by_id_def status_row_def keep_or_def
  status_because_def running_as_def settled_def blank_job_def idle_index_def busy_indexes_def

lemma sample_curator_dispatch:
  "gs_created (dispatch_job sample_queue_env ''curator'' (curation Queued) sample_queue) = [(Curator_t, ''c1'')]"
  by (simp add: dispatch_job_def dispatch_curator_job_def ship_curator_job_def acquire_curator_card_def acquire_card_def
      queue_run_defs List.map_filter_def exclusive_run_defs broker_run_defs op_defs row_defs read_defs sample_defs)

theorem run_starts_on_a_cleared_card_witness:
  "\<exists>w res. acquire_exclusive sample_broker None lock_free CURATOR_AUDIENCE None (gs_world sample_queue) = (w, Inr res) \<and>
     er_acquired res \<and> (\<forall>r \<in> set (w_reg w). consumer_id r \<noteq> CURATOR_AUDIENCE \<longrightarrow> held_bytes r \<le> 0)"
proof -
  have g: "get_consumer CURATOR_AUDIENCE (w_reg (gs_world sample_queue)) \<noteq> None"
    by (simp add: queue_run_defs sample_defs get_consumer_def)
  have c: "gs_created (dispatch_job sample_queue_env ''curator'' (curation Queued) sample_queue) \<noteq> gs_created sample_queue"
    by (simp add: sample_curator_dispatch) (simp add: sample_queue_def)
  have m: "(''curator'', CURATOR_AUDIENCE) \<in> {(''curator'', CURATOR_AUDIENCE), (''publish'', PUBLISH_AUDIENCE)}" by simp
  have e: "qe_registry_readable sample_queue_env" "qe_broker sample_queue_env = sample_broker"
    "qe_lock sample_queue_env k = lock_free" for k by (simp_all add: sample_queue_env_def)
  from run_starts_on_a_cleared_card [OF m e(1) g c] show ?thesis unfolding e by blast
qed



text \<open>The registry calls other coroutines make while the queue waits for HTTP.\<close>

definition others_act :: "queue_env \<Rightarrow> reg_op \<Rightarrow> bool" where
  "others_act env op \<longleftrightarrow> (\<exists>k. op \<in> set (snd (qe_wait env k)))"

definition left_to_others :: "queue_env \<Rightarrow> gpu_state \<Rightarrow> gpu_state \<Rightarrow> bool" where
  "left_to_others env gs gs' \<longleftrightarrow>
     evolves (b_cfg (qe_broker env)) (others_act env) (view (gs_world gs)) (view (gs_world gs'))"

lemma left_to_others_awaited [simp]: "left_to_others env gs (awaited env gs)"
proof -
  let ?p = "qe_wait env (w_tick (gs_world gs))"
  have "evolves (b_cfg (qe_broker env)) (others_act env) (view (gs_world gs))
      (view (pass_time (qe_broker env) (fst ?p) (snd ?p) (gs_world gs)))"
    by (rule pass_time_evolves) (auto simp: others_act_def)
  then show ?thesis by (simp add: left_to_others_def awaited_def split_beta)
qed

lemma left_to_others_trans: "left_to_others env gs gs1 \<Longrightarrow> left_to_others env gs1 gs2 \<Longrightarrow> left_to_others env gs gs2"
  unfolding left_to_others_def by (rule evolves_trans)

lemma left_to_others_same: "gs_world gs' = gs_world gs \<Longrightarrow> left_to_others env gs gs'"
  by (simp add: left_to_others_def evolves.start)

lemma left_to_others_set:
  "left_to_others env gs (set_curator jid u g) = left_to_others env gs g"
  "left_to_others env gs (on_table t F g) = left_to_others env gs g"
  by (simp_all add: left_to_others_def)

lemma running_before:
  assumes "row_step Curator_t jid X gs gs'" and "Running \<notin> X" and "running_count ''curator'' gs' > 0"
  shows "running_count ''curator'' gs > 0"
proof -
  from assms(1) obtain f where f: "\<And>j. job_status (f j) \<in> X \<or> job_status (f j) = job_status j"
    "gs_jobs gs' = (gs_jobs gs)(Curator_t := update_by job_id jid f (gs_jobs gs Curator_t))"
    unfolding row_step_def by blast
  from assms(3) obtain j' where j': "j' \<in> set (gs_jobs gs' Curator_t)" "job_status j' = Running"
    by (auto simp: running_count_def running_jobs_def get_jobs_by_status_def filter_empty_conv)
  then obtain j where "j \<in> set (gs_jobs gs Curator_t)" "j' = (if job_id j = jid then f j else j)"
    unfolding f(2) fun_upd_same mem_update_by by blast
  with j'(2) f(1) [of j] assms(2) have "j \<in> set (gs_jobs gs Curator_t)" "job_status j = Running" by (auto split: if_splits)
  then show ?thesis by (auto simp: running_count_def running_jobs_def get_jobs_by_status_def filter_empty_conv)
qed

lemma release_with_sibling: "running_count ''curator'' gs > 0 \<Longrightarrow> release_curator_card env gs = gs"
  by (simp add: release_curator_card_def)

lemma running_count_cong: "gs_jobs gs' = gs_jobs gs \<Longrightarrow> running_count ty gs' = running_count ty gs"
  by (simp add: running_count_def running_jobs_def)

lemma sync_curator_left_to_others:
  assumes "running_count ''curator'' (sync_curator_job env job gs) > 0"
  shows "left_to_others env gs (sync_curator_job env job gs)"
proof -
  let ?set = "\<lambda>u. set_curator (job_id job) u (awaited env gs)"
  have fin: "left_to_others env g (finalize_curator_job env job g)" for g
    by (auto simp: finalize_curator_job_def left_to_others_set split: option.split)
  have rel: "left_to_others env gs (release_curator_card env (?set u))"
    if "running_count ''curator'' (release_curator_card env (?set u)) > 0" for u
    using that running_count_cong [of "release_curator_card env (?set u)" "?set u" "''curator''"]
    by (simp add: release_with_sibling left_to_others_set)
  have "left_to_others env gs (finalize_curator_job env job (release_curator_card env (?set u)))"
    if "running_count ''curator'' (finalize_curator_job env job (release_curator_card env (?set u))) > 0" for u
    using running_before [OF finalize_step [where X = "{}"] _ that] rel fin left_to_others_trans by blast
  with rel assms show ?thesis
    unfolding sync_curator_job_def Let_def
    by (auto simp: left_to_others_set left_to_others_same split: if_splits option.splits remote_answer.splits)
qed

lemma sync_curators_left_to_others:
  "running_count ''curator'' (fold (sync_curator_job env) js gs) > 0 \<Longrightarrow>
   left_to_others env gs (fold (sync_curator_job env) js gs) \<and> running_count ''curator'' gs > 0"
proof (induction js arbitrary: gs)
  case (Cons j js)
  from Cons.IH [of "sync_curator_job env j gs"] Cons.prems
  have l: "left_to_others env (sync_curator_job env j gs) (fold (sync_curator_job env) (j # js) gs)"
    and r: "running_count ''curator'' (sync_curator_job env j gs) > 0" by simp_all
  from running_before [OF sync_curator_step _ r] sync_curator_left_to_others [OF r] l
  show ?case by (blast intro: left_to_others_trans)
qed (simp add: left_to_others_same)

text \<open>
  One curation finishing never takes the card from another. If after settling the curator jobs
  some curation is still running, the queue itself has made no registry call at all: the registry
  moved only by what other coroutines did while it waited, so the exclusive lease stands.
\<close>

theorem card_kept_while_a_sibling_runs:
  assumes "running_count ''curator'' (sync_running_curator_jobs env gs) > 0"
  shows "left_to_others env gs (sync_running_curator_jobs env gs)"
  using sync_curators_left_to_others assms unfolding sync_running_curator_jobs_def by blast

definition sibling_queue :: gpu_state where
  "sibling_queue = sample_queue\<lparr>gs_jobs := (\<lambda>t. if t = Curator_t then
     [(curation Running)\<lparr>remote_id := Some ''r1'', url_idx := Some 0\<rparr>,
      (curation Running)\<lparr>job_id := ''c2'', remote_id := Some ''r2'', url_idx := Some 0\<rparr>] else [])\<rparr>"

definition sibling_env :: queue_env where
  "sibling_env = sample_queue_env\<lparr>qe_remote := (\<lambda>t j. Remote_body (if job_id j = ''c1'' then ''completed'' else ''running'') None)\<rparr>"

theorem card_kept_while_a_sibling_runs_witness:
  "left_to_others sibling_env sibling_queue (sync_running_curator_jobs sibling_env sibling_queue)"
proof -
  have "running_count ''curator'' (sync_running_curator_jobs sibling_env sibling_queue) > 0"
    by (simp add: sync_running_curator_jobs_def sync_curator_job_def sibling_env_def sibling_queue_def terminal_status_def
        release_curator_card_def finalize_curator_job_def queue_run_defs sample_defs broker_run_defs op_defs row_defs)
  then show ?thesis by (rule card_kept_while_a_sibling_runs)
qed

lemma drop_card_shared:
  assumes "b_commit (qe_broker env) = (\<lambda>k. True)" and "r \<in> set (w_reg (gs_world (drop_card env cid gs)))"
    and "consumer_id r = cid"
  shows "lease_mode r = SHARED"
proof -
  let ?lk = "qe_lock env (w_tick (gs_world gs))"
  let ?w = "pass_time (qe_broker env) (lk_wait ?lk) (lk_meanwhile ?lk) (gs_world gs)"
  let ?w' = "gs_world (drop_card env cid gs)"
  have drop: "w_reg ?w' = (case set_exclusive (b_cfg (qe_broker env)) True (now_of ?w) cid False (w_reg ?w) of
      Inl e \<Rightarrow> w_reg ?w | Inr (reg', _) \<Rightarrow> reg')"
    using assms(1) by (simp add: drop_card_def release_exclusive_def Let_def split: sum.split prod.split)
  show ?thesis
  proof (cases "get_consumer cid (w_reg ?w)")
    case None
    then have "w_reg ?w' = w_reg ?w" using drop by (simp add: set_exclusive_def)
    with None assms(2,3) show ?thesis by (auto simp: get_consumer_def find_by_None)
  next
    case (Some r0)
    then have reg': "w_reg ?w' = update_by consumer_id cid (exclusive_row (now_of ?w) SHARED) (w_reg ?w)"
      using drop by (simp add: set_exclusive_def)
    from assms(2) obtain y where y: "r = (if consumer_id y = cid then exclusive_row (now_of ?w) SHARED y else y)"
      unfolding reg' mem_update_by by blast
    with assms(3) have "consumer_id y = cid" by (cases "consumer_id y = cid") simp_all
    with y show ?thesis by (simp add: exclusive_row_def)
  qed
qed

lemma awaited_registered:
  "get_consumer cid (w_reg (gs_world gs)) \<noteq> None \<Longrightarrow> get_consumer cid (w_reg (gs_world (awaited env gs))) \<noteq> None"
  using registered_after_wait by (auto simp: awaited_def split_beta Let_def)

text \<open>
  A card seized for a curation that never started is given back at once. Whatever goes wrong
  between the acquire and the hand-over (the upload, the creation, a reply without an id, the
  approval), when no curation is running the curator's row is shared again afterwards, so every
  other consumer can be granted VRAM.
\<close>

theorem failed_dispatch_gives_the_card_back:
  assumes "qe_registry_readable env" and "get_consumer CURATOR_AUDIENCE (w_reg (gs_world gs)) \<noteq> None"
    and "b_commit (qe_broker env) = (\<lambda>k. True)" and "running_count ''curator'' gs = 0"
    and "\<forall>rid. qe_post env Curator_t job \<noteq> Created (Some rid) None"
  shows "\<forall>r \<in> set (w_reg (gs_world (ship_curator_job env idx job gs))).
           consumer_id r = CURATOR_AUDIENCE \<longrightarrow> lease_mode r = SHARED"
proof -
  let ?fail = "\<lambda>e g. set_curator (job_id job) (status_because Failed (''Failed to dispatch to curator: '' @ e)) g"
  have "\<exists>e g. ship_curator_job env idx job gs = release_curator_card env (?fail e g) \<and>
      g \<in> {awaited env gs, log_created Curator_t (job_id job) (awaited env gs),
           awaited env (log_created Curator_t (job_id job) (awaited env gs))}"
    using assms(5) unfolding ship_curator_job_def Let_def
    by (cases "qe_post env Curator_t job") (auto split: option.split)
  then obtain e g where ship: "ship_curator_job env idx job gs = release_curator_card env (?fail e g)"
    and g: "g \<in> {awaited env gs, log_created Curator_t (job_id job) (awaited env gs),
           awaited env (log_created Curator_t (job_id job) (awaited env gs))}" by blast
  have jobs: "gs_jobs g = gs_jobs gs" using g by auto
  have reg: "get_consumer CURATOR_AUDIENCE (w_reg (gs_world g)) \<noteq> None"
    using g assms(2) awaited_registered by auto
  have "row_step Curator_t (job_id job) {Failed} gs (?fail e g)" using jobs by (intro set_row_step) simp_all
  with running_before assms(4) have "running_count ''curator'' (?fail e g) = 0" by fastforce
  with reg assms(1) have "ship_curator_job env idx job gs = drop_card env CURATOR_AUDIENCE (?fail e g)"
    unfolding ship by (simp add: release_curator_card_def is_lease_consumer_def)
  with drop_card_shared [OF assms(3)] show ?thesis by simp
qed

definition refusing_env :: queue_env where
  "refusing_env = sample_queue_env\<lparr>qe_post := (\<lambda>t j. Unreachable ''down'')\<rparr>"

theorem failed_dispatch_gives_the_card_back_witness:
  "\<exists>reg. w_reg (gs_world (ship_curator_job refusing_env 0 (curation Queued) sample_queue)) = reg \<and>
     (\<forall>r \<in> set reg. consumer_id r = CURATOR_AUDIENCE \<longrightarrow> lease_mode r = SHARED)"
proof -
  have "\<forall>r \<in> set (w_reg (gs_world (ship_curator_job refusing_env 0 (curation Queued) sample_queue))).
      consumer_id r = CURATOR_AUDIENCE \<longrightarrow> lease_mode r = SHARED"
    by (rule failed_dispatch_gives_the_card_back)
      (simp_all add: refusing_env_def queue_run_defs sample_defs sample_broker_def get_consumer_def)
  then show ?thesis by blast
qed

section \<open>Where a card or a job is left behind\<close>

definition lost_queue :: gpu_state where
  "lost_queue = sample_queue\<lparr>
     gs_world := idle_card\<lparr>w_reg := [(sample_row CURATOR_AUDIENCE 24 0 8 0)\<lparr>lease_mode := EXCLUSIVE\<rparr>]\<rparr>,
     gs_jobs := (\<lambda>t. if t = Curator_t then [(curation Running)\<lparr>remote_id := Some ''r1'', url_idx := Some 0\<rparr>] else [])\<rparr>"

definition lost_env :: queue_env where
  "lost_env = sample_queue_env\<lparr>qe_remote := (\<lambda>t j. Remote_404)\<rparr>"

text \<open>
  A curation the curator has lost (404) is failed without giving the card back. Afterwards no
  curation is running, the job is failed, and the curator still holds the card exclusively: no
  later sync looks at the job again, so every other consumer stays locked out until another
  curation is dispatched and settles or the row goes stale.
\<close>

theorem lost_curation_keeps_the_card:
  "\<exists>gs'. sync_running_curator_jobs lost_env lost_queue = gs' \<and> running_count ''curator'' gs' = 0 \<and>
     map job_status (gs_jobs gs' Curator_t) = [Failed] \<and>
     map_option consumer_id (active_exclusive_holder default_lease_config (now_of (gs_world gs')) (w_reg (gs_world gs'))) =
       Some CURATOR_AUDIENCE"
  by (simp add: sync_running_curator_jobs_def sync_curator_job_def lost_env_def lost_queue_def
      queue_run_defs sample_defs broker_run_defs op_defs row_defs read_defs)

definition long_training :: job where
  "long_training = (blank_job ''t1'' ''u'' Running Normal 0)\<lparr>remote_id := Some ''r1'', url_idx := Some 0\<rparr>"

definition long_queue :: gpu_state where
  "long_queue = sample_queue\<lparr>gs_world := idle_card\<lparr>w_time := 86410\<rparr>,
     gs_jobs := (\<lambda>t. if t = Training_t then [long_training] else [])\<rparr>"

text \<open>
  A healthy training is failed after a day. The trainer reports the run as still running, which
  changes nothing in the row, so its \<open>updated_at\<close> stays at the dispatch; once that is more than 24
  hours ago the same sync marks it failed although the poll has just succeeded.
\<close>

theorem healthy_training_expires:
  "qe_remote sample_queue_env Training_t long_training = Remote_body ''running'' None \<and>
   map job_status (gs_jobs (sync_running_jobs sample_queue_env long_queue) Training_t) = [Failed]"
  by (simp add: sync_running_jobs_def sync_running_training_jobs_def sync_training_job_def sync_running_publish_jobs_def
      sync_running_curator_jobs_def sync_running_eval_jobs_def expire_stale_training_jobs_def expire_row_def
      training_status_map_def long_queue_def long_training_def publish_jobs_by_status_def STALE_RUNNING_TIMEOUT_def
      queue_run_defs sample_defs broker_run_defs)

end
