(* ===== verification/Gpu_Queue.thy ===== *)
theory Gpu_Queue
  imports Gpu_Dispatch "HOL-Library.AList" "HOL-Library.Sublist"
begin

text \<open>
  The window-aware half of the GPU queue (\<open>utils/gpu_queue.py\<close>): promotion of due jobs, the two
  dispatches that bypass windows, the end of a curator window, the three-pass dispatch inside a
  window, and the loop of \<open>process_gpu_queue_v2\<close>. The loop never ends; it is modelled as its run
  over a list of per-cycle environments, every finite prefix of an execution. A cycle reads its
  window from \<open>qe_windows\<close>. The Redis lock is a parameter: what the attempt to take it answers.

  The lemmas show that a window never runs more jobs of a kind than its slot allows, in which order
  and at most how often jobs are handed over, that finished jobs are final, what promotion does, and
  what happens to curations and to the card when their window closes.
\<close>

section \<open>Promotion\<close>

definition promote_due :: "gpu_state \<Rightarrow> gpu_state" where
  "promote_due gs =
     (let g1 = fold (\<lambda>j. set_eval (job_id j) Queued None) (get_due_scheduled_jobs (queue_now gs) (gs_jobs gs Eval_t)) gs;
          g2 = fold (\<lambda>j. set_training (job_id j) (status_only Queued))
                 (get_due_scheduled_jobs (queue_now g1) (gs_jobs g1 Training_t)) g1;
          g3 = fold (\<lambda>j. set_curator (job_id j) (status_only Queued))
                 (get_due_scheduled_jobs (queue_now g2) (gs_jobs g2 Curator_t)) g2
      in fold (\<lambda>j. set_publish (job_id j) Queued None None)
           (publish_due_scheduled_jobs (queue_now g3) (gs_jobs g3 Publish_t)) g3)"

definition promote_pending :: "gpu_state \<Rightarrow> gpu_state" where
  "promote_pending gs =
     (let g1 = fold (\<lambda>j. set_eval (job_id j) Queued None) (get_jobs_by_status Pending (gs_jobs gs Eval_t)) gs;
          g2 = fold (\<lambda>j. set_training (job_id j) (status_only Queued))
                 (get_jobs_by_status Pending (gs_jobs g1 Training_t)) g1
      in fold (\<lambda>j. set_curator (job_id j) (status_only Queued))
           [j \<leftarrow> get_jobs_by_status Pending (gs_jobs g2 Curator_t). scheduled_for j = None] g2)"

definition promote_scheduled_jobs :: "gpu_state \<Rightarrow> gpu_state" where
  "promote_scheduled_jobs gs = promote_pending (promote_due gs)"

section \<open>Dispatch outside windows\<close>

definition type_jobs :: "string \<Rightarrow> gpu_state \<Rightarrow> job list" where
  "type_jobs job_type gs =
     (if job_type = ''training'' then gs_jobs gs Training_t
      else if job_type \<in> {''language-eval'', ''code-eval''}
      then [j \<leftarrow> gs_jobs gs Eval_t. eval_type j = Some job_type]
      else if job_type = ''curator'' then gs_jobs gs Curator_t
      else if job_type = ''publish'' then gs_jobs gs Publish_t
      else [])"

definition queued_of :: "string \<Rightarrow> job_priority \<Rightarrow> gpu_state \<Rightarrow> job list" where
  "queued_of job_type prio gs = [j \<leftarrow> type_jobs job_type gs. job_priority j = prio \<and> job_status j = Queued]"

definition run_now_rows :: "job_table \<Rightarrow> gpu_state \<Rightarrow> job list" where
  "run_now_rows t gs =
     sort_key job_created_at [j \<leftarrow> gs_jobs gs t. job_priority j = Run_now \<and> job_status j = Queued]"

definition dispatch_run_now_jobs :: "queue_env \<Rightarrow> gpu_state \<Rightarrow> gpu_state" where
  "dispatch_run_now_jobs env gs =
     (let g1 = fold (dispatch_training_job env) (run_now_rows Training_t gs) gs;
          g2 = fold (dispatch_eval_job_by_type env) (run_now_rows Eval_t gs) g1;
          g3 = fold (dispatch_curator_job env) (run_now_rows Curator_t gs) g2
      in fold (dispatch_publish_job env) (run_now_rows Publish_t gs) g3)"

definition dispatch_dry_run_eval_jobs :: "queue_env \<Rightarrow> gpu_state \<Rightarrow> gpu_state" where
  "dispatch_dry_run_eval_jobs env gs =
     fold (dispatch_eval_job_by_type env)
       [j \<leftarrow> sort_key job_created_at (get_jobs_by_status Queued (gs_jobs gs Eval_t)). meta_truthy ''dry_run'' j] gs"

section \<open>The end of a curator window\<close>

definition window_allows :: "window_with_slots option \<Rightarrow> string \<Rightarrow> bool" where
  "window_allows window job_type =
     (case window of None \<Rightarrow> False | Some w \<Rightarrow> list_ex (\<lambda>s. slot_job_type s = job_type) (ww_slots w))"

definition stop_and_requeue_curator_job :: "queue_env \<Rightarrow> string \<Rightarrow> job \<Rightarrow> gpu_state \<Rightarrow> gpu_state" where
  "stop_and_requeue_curator_job env reason job gs =
     (let idx = (case url_idx job of None \<Rightarrow> 0 | Some i \<Rightarrow> i);
          gs1 = (if has_remote job \<and> qe_app env \<and> idx < length (CURATOR_BASE_URLS env) then awaited env gs else gs)
      in on_table Curator_t (\<lambda>now jobs. fst (requeue_for_next_window True now (job_id job) reason jobs)) gs1)"

definition OVERRUN_MESSAGE :: string where
  "OVERRUN_MESSAGE =
     ''Overrunning its GPU window: the curator window has closed '' @
     ''and this run is still holding the GPU. It will finish, but '' @
     ''outside the schedule (set CURATOR_ENFORCE_WINDOW_END=true '' @
     ''to stop and requeue overruns instead).''"

definition STOPPED_MESSAGE :: string where
  "STOPPED_MESSAGE = ''Stopped at the end of its GPU window and requeued for the next one.''"

definition enforce_curator_window_end :: "queue_env \<Rightarrow> window_with_slots option \<Rightarrow> gpu_state \<Rightarrow> gpu_state" where
  "enforce_curator_window_end env window gs =
     (let running = get_jobs_by_status Running (gs_jobs gs Curator_t)
      in if window_allows window ''curator'' then gs
         else if running = [] then gs
         else if \<not> CURATOR_ENFORCE_WINDOW_END env
         then (let gs1 = fold (\<lambda>j. set_curator (job_id j) (status_because Running OVERRUN_MESSAGE)) running gs
               in if is_lease_consumer env CURATOR_AUDIENCE gs1 then drop_card env CURATOR_AUDIENCE gs1 else gs1)
         else release_curator_card env (fold (stop_and_requeue_curator_job env STOPPED_MESSAGE) running gs))"

section \<open>Dispatch inside a window\<close>

definition is_eval_type :: "string \<Rightarrow> bool" where
  "is_eval_type job_type \<longleftrightarrow> job_type \<in> {''language-eval'', ''code-eval''}"

definition fits_in_window :: "queue_env \<Rightarrow> string option \<Rightarrow> string \<Rightarrow> rat \<Rightarrow> int \<Rightarrow> bool" where
  "fits_in_window env bench etype minutes min_remaining =
     (case bench of
        None \<Rightarrow> True
      | Some b \<Rightarrow>
          (case qe_max_duration env b etype of
             None \<Rightarrow> True
           | Some d \<Rightarrow> of_int d \<le> minutes - of_int min_remaining))"

text \<open>\<open>slots = {s.job_type: s for s in window.slots}\<close>.\<close>

definition slots_by_type :: "job_window_slot list \<Rightarrow> (string \<times> job_window_slot) list" where
  "slots_by_type slots = fold (\<lambda>s. AList.update (slot_job_type s) s) slots []"

text \<open>The state of the passes: the queue and \<open>dispatched\<close>, the hand-overs of this cycle.\<close>

type_synonym pass_state = "gpu_state \<times> (string \<Rightarrow> nat)"

definition slot_full :: "job_window_slot \<Rightarrow> string \<Rightarrow> pass_state \<Rightarrow> bool" where
  "slot_full slot job_type st \<longleftrightarrow>
     int (running_count job_type (fst st)) + int (snd st job_type) \<ge> max_concurrent slot"

definition fits_slot :: "queue_env \<Rightarrow> rat \<Rightarrow> job_window_slot \<Rightarrow> string \<Rightarrow> job \<Rightarrow> bool" where
  "fits_slot env minutes slot job_type job \<longleftrightarrow>
     (is_eval_type job_type \<longrightarrow>
        fits_in_window env (benchmark job) job_type minutes (min_remaining_minutes slot))"

definition hand_over :: "queue_env \<Rightarrow> string \<Rightarrow> job \<Rightarrow> pass_state \<Rightarrow> pass_state" where
  "hand_over env job_type job st =
     (dispatch_job env job_type job (fst st), (snd st)(job_type := Suc (snd st job_type)))"

definition high_candidates :: "string list \<Rightarrow> gpu_state \<Rightarrow> (string \<times> job) list" where
  "high_candidates types gs =
     sort_key (\<lambda>(ty, j). job_created_at j) (concat (map (\<lambda>ty. map (Pair ty) (queued_of ty High gs)) types))"

text \<open>Pass 1 skips a full slot or a job that does not fit and goes on.\<close>

definition try_high ::
    "queue_env \<Rightarrow> (string \<times> job_window_slot) list \<Rightarrow> rat \<Rightarrow> string \<times> job \<Rightarrow> pass_state \<Rightarrow> pass_state" where
  "try_high env slots minutes cand st =
     (case map_of slots (fst cand) of
        None \<Rightarrow> st
      | Some slot \<Rightarrow>
          if slot_full slot (fst cand) st then st
          else if \<not> fits_slot env minutes slot (fst cand) (snd cand) then st
          else hand_over env (fst cand) (snd cand) st)"

text \<open>Passes 2 and 3 stop at a full slot.\<close>

fun dispatch_candidates ::
    "queue_env \<Rightarrow> string \<Rightarrow> job_window_slot \<Rightarrow> rat \<Rightarrow> job list \<Rightarrow> pass_state \<Rightarrow> pass_state" where
  "dispatch_candidates env ty slot minutes [] st = st"
| "dispatch_candidates env ty slot minutes (job # jobs) st =
     (if slot_full slot ty st then st
      else if \<not> fits_slot env minutes slot ty job then dispatch_candidates env ty slot minutes jobs st
      else dispatch_candidates env ty slot minutes jobs (hand_over env ty job st))"

definition pass2_types :: "string \<Rightarrow> string list \<Rightarrow> string list" where
  "pass2_types preferred types = preferred # [ty \<leftarrow> types. ty \<noteq> preferred \<and> ty \<noteq> ''training'']"

definition pass2_type ::
    "queue_env \<Rightarrow> (string \<times> job_window_slot) list \<Rightarrow> rat \<Rightarrow> string \<Rightarrow> pass_state \<Rightarrow> pass_state" where
  "pass2_type env slots minutes ty st =
     (case map_of slots ty of
        None \<Rightarrow> st
      | Some slot \<Rightarrow>
          dispatch_candidates env ty slot minutes
            (if ty = ''training'' then [] else sort_key job_created_at (queued_of ty Normal (fst st))) st)"

definition pass3 :: "queue_env \<Rightarrow> (string \<times> job_window_slot) list \<Rightarrow> rat \<Rightarrow> pass_state \<Rightarrow> pass_state" where
  "pass3 env slots minutes st =
     (case map_of slots ''training'' of
        None \<Rightarrow> st
      | Some slot \<Rightarrow>
          (let capacity = max_concurrent slot - int (running_count ''training'' (fst st)) - int (snd st ''training'')
           in if capacity \<le> 0 then st
              else dispatch_candidates env ''training'' slot minutes
                     (take (nat capacity) (sort_key job_created_at (queued_of ''training'' Normal (fst st)))) st))"

definition dispatch_window_jobs :: "queue_env \<Rightarrow> window_with_slots \<Rightarrow> gpu_state \<Rightarrow> gpu_state" where
  "dispatch_window_jobs env window gs =
     (let minutes = max 0 (of_int (end_at (ww_window window) - queue_now gs) / 60);
          slots = slots_by_type (ww_slots window);
          types = map fst slots;
          st1 = fold (try_high env slots minutes) (high_candidates types gs) (gs, \<lambda>ty. 0);
          st2 = fold (pass2_type env slots minutes) (pass2_types (preferred_job_type (ww_window window)) types) st1
      in if slots = [] then gs else fst (pass3 env slots minutes st2))"

section \<open>The loop\<close>

definition dispatch_cycle :: "queue_env \<Rightarrow> gpu_state \<Rightarrow> gpu_state" where
  "dispatch_cycle env gs =
     (let g1 = dispatch_dry_run_eval_jobs env
                 (dispatch_run_now_jobs env (promote_scheduled_jobs (sync_running_jobs env gs)));
          window = get_active_window (qe_windows_readable env) (queue_now g1) (qe_windows env);
          g2 = enforce_curator_window_end env window g1
      in case window of None \<Rightarrow> g2 | Some w \<Rightarrow> dispatch_window_jobs env w g2)"

datatype lock_answer = Lock_acquired | Lock_elsewhere | Redis_unavailable

definition POLL_INTERVAL :: rat where "POLL_INTERVAL = 30"

definition sleep :: "queue_env \<Rightarrow> gpu_state \<Rightarrow> gpu_state" where
  "sleep env gs =
     gs\<lparr>gs_world := pass_time (qe_broker env) POLL_INTERVAL (snd (qe_wait env (w_tick (gs_world gs)))) (gs_world gs)\<rparr>"

text \<open>Without Redis the cycle runs without the lock.\<close>

definition queue_iteration :: "lock_answer \<Rightarrow> queue_env \<Rightarrow> gpu_state \<Rightarrow> gpu_state" where
  "queue_iteration lock env gs =
     (case lock of
        Lock_elsewhere \<Rightarrow> sleep env gs
      | _ \<Rightarrow> sleep env (dispatch_cycle env gs))"

fun process_gpu_queue :: "(lock_answer \<times> queue_env) list \<Rightarrow> gpu_state \<Rightarrow> gpu_state" where
  "process_gpu_queue [] gs = gs"
| "process_gpu_queue ((lock, env) # rest) gs = process_gpu_queue rest (queue_iteration lock env gs)"

section \<open>The window dispatch as a machine\<close>

text \<open>
  A run of hand-overs in a window: each one only into a slot that is not full. The three passes are
  such runs, over their candidates in order.
\<close>

inductive window_run ::
    "queue_env \<Rightarrow> (string \<times> job_window_slot) list \<Rightarrow> pass_state \<Rightarrow> (string \<times> job) list \<Rightarrow> pass_state \<Rightarrow> bool"
  for env slots where
  stop: "window_run env slots st [] st"
| hand: "map_of slots ty = Some slot \<Longrightarrow> \<not> slot_full slot ty st \<Longrightarrow>
         window_run env slots (hand_over env ty job st) tr st' \<Longrightarrow> window_run env slots st ((ty, job) # tr) st'"

inductive_cases window_run_NilE: "window_run env slots st [] st'"
inductive_cases window_run_ConsE: "window_run env slots st ((ty, job) # tr) st'"

lemma window_run_append:
  "window_run env slots st tr1 st1 \<Longrightarrow> window_run env slots st1 tr2 st2 \<Longrightarrow> window_run env slots st (tr1 @ tr2) st2"
  by (induction rule: window_run.induct) (auto intro: window_run.intros)

lemma try_high_run: "\<exists>tr. subseq tr [cand] \<and> window_run env slots st tr (try_high env slots minutes cand st)"
proof (cases "map_of slots (fst cand)")
  case None
  then show ?thesis by (intro exI [of _ "[]"]) (simp add: try_high_def window_run.stop)
next
  case (Some slot)
  show ?thesis
  proof (cases "\<not> slot_full slot (fst cand) st \<and> fits_slot env minutes slot (fst cand) (snd cand)")
    case True
    then have "try_high env slots minutes cand st = hand_over env (fst cand) (snd cand) st"
      using Some by (simp add: try_high_def)
    moreover have "window_run env slots st [(fst cand, snd cand)] (hand_over env (fst cand) (snd cand) st)"
      using Some True by (intro window_run.intros) auto
    ultimately show ?thesis by (intro exI [of _ "[cand]"]) simp
  next
    case False
    with Some show ?thesis by (intro exI [of _ "[]"]) (auto simp: try_high_def window_run.stop)
  qed
qed

lemma pass1_run:
  "\<exists>tr. subseq tr cands \<and> window_run env slots st tr (fold (try_high env slots minutes) cands st)"
proof (induction cands arbitrary: st)
  case (Cons c cands)
  obtain tr1 where 1: "subseq tr1 [c]" "window_run env slots st tr1 (try_high env slots minutes c st)"
    using try_high_run by blast
  obtain tr2 where 2: "subseq tr2 cands" "window_run env slots (try_high env slots minutes c st) tr2
      (fold (try_high env slots minutes) cands (try_high env slots minutes c st))" using Cons.IH by blast
  have "subseq (tr1 @ tr2) (c # cands)" using list_emb_append_mono [OF 1(1) 2(1)] by simp
  with window_run_append [OF 1(2) 2(2)] show ?case by auto
qed (auto intro: window_run.stop)

lemma dispatch_candidates_run:
  assumes "map_of slots ty = Some slot"
  shows "\<exists>tr. subseq tr (map (Pair ty) jobs) \<and> window_run env slots st tr (dispatch_candidates env ty slot minutes jobs st)"
proof (induction jobs arbitrary: st)
  case (Cons job jobs)
  show ?case
  proof (cases "slot_full slot ty st")
    case True
    then show ?thesis by (intro exI [of _ "[]"]) (simp add: window_run.stop)
  next
    case room: False
    show ?thesis
    proof (cases "fits_slot env minutes slot ty job")
      case True
      obtain tr where tr: "subseq tr (map (Pair ty) jobs)"
        "window_run env slots (hand_over env ty job st) tr (dispatch_candidates env ty slot minutes jobs (hand_over env ty job st))"
        using Cons.IH by blast
      with room True assms show ?thesis
        by (intro exI [of _ "(ty, job) # tr"]) (auto intro: window_run.hand)
    next
      case False
      with room Cons.IH [of st] show ?thesis by auto
    qed
  qed
qed (auto intro: window_run.stop)

text \<open>Counting running jobs across one hand-over.\<close>

lemma count_update_by:
  assumes "unique_by job_id jobs"
  shows "length (filter P (update_by job_id jid f jobs)) \<le> Suc (length (filter P jobs))"
proof (cases "jid \<in> job_id ` set jobs")
  case False
  then show ?thesis by (simp add: update_by_absent)
next
  case True
  with assms show ?thesis
  proof (induction jobs)
    case (Cons j jobs)
    show ?case
    proof (cases "job_id j = jid")
      case True
      with Cons.prems have "update_by job_id jid f jobs = jobs" by (intro update_by_absent) auto
      with True show ?thesis by simp
    next
      case False
      with Cons show ?thesis by auto
    qed
  qed simp
qed

lemma count_update_by_same:
  "(\<And>j. j \<in> set jobs \<Longrightarrow> job_id j = jid \<Longrightarrow> P (f j) = P j) \<Longrightarrow>
   length (filter P (update_by job_id jid f jobs)) = length (filter P jobs)"
  by (induction jobs) auto

definition counts :: "string \<Rightarrow> job \<Rightarrow> bool" where
  "counts ty j \<longleftrightarrow> job_status j = Running \<and> (is_eval_type ty \<longrightarrow> eval_type j = Some ty)"

lemma running_count_table:
  "running_count ty gs = (case table_of ty of None \<Rightarrow> 0 | Some t \<Rightarrow> length (filter (counts ty) (gs_jobs gs t)))"
  by (simp add: running_count_def running_jobs_def table_of_def get_jobs_by_status_def is_eval_type_def counts_def
      cong: filter_cong)

lemma table_of_eval: "table_of ty = Some Eval_t \<longleftrightarrow> is_eval_type ty"
  by (auto simp: table_of_def is_eval_type_def)

lemma table_of_other: "table_of ty = Some t \<Longrightarrow> table_of ty' = Some t \<Longrightarrow> t \<noteq> Eval_t \<Longrightarrow> ty' = ty"
  by (auto simp: table_of_def split: if_splits)

text \<open>The rows of a job are of the type it is handed over as.\<close>

definition typed :: "string \<Rightarrow> job \<Rightarrow> gpu_state \<Rightarrow> bool" where
  "typed ty job gs \<longleftrightarrow>
     (is_eval_type ty \<longrightarrow> (\<forall>j \<in> set (gs_jobs gs Eval_t). job_id j = job_id job \<longrightarrow> eval_type j = Some ty))"

lemma dispatch_unknown: "table_of ty = None \<Longrightarrow> dispatch_job env ty job gs = gs"
  by (auto simp: dispatch_job_def table_of_def split: if_splits)

lemma dispatch_count_self:
  assumes "tables_ok gs"
  shows "running_count ty (dispatch_job env ty job gs) \<le> Suc (running_count ty gs)"
proof (cases "table_of ty")
  case (Some t)
  from dispatch_job_step [OF Some, of job gs env] obtain f where
    "gs_jobs (dispatch_job env ty job gs) = (gs_jobs gs)(t := update_by job_id (job_id job) f (gs_jobs gs t))"
    unfolding row_step_def by blast
  with Some assms show ?thesis by (simp add: running_count_table count_update_by tables_ok_def)
qed (simp add: dispatch_unknown)

lemma dispatch_count_other:
  assumes "ty' \<noteq> ty" and "typed ty job gs"
  shows "running_count ty' (dispatch_job env ty job gs) = running_count ty' gs"
proof (cases "table_of ty")
  case (Some t)
  from dispatch_job_step [OF Some, of job gs env] obtain f where
    f: "\<And>j. job_identity (f j) = job_identity j"
    "gs_jobs (dispatch_job env ty job gs) = (gs_jobs gs)(t := update_by job_id (job_id job) f (gs_jobs gs t))"
    unfolding row_step_def by blast
  show ?thesis
  proof (cases "table_of ty' = Some t")
    case True
    with Some assms(1) table_of_other have [simp]: "t = Eval_t" by blast
    from True Some have ev: "is_eval_type ty'" "is_eval_type ty" by (simp_all add: table_of_eval)
    have "counts ty' (f j) = counts ty' j" if "j \<in> set (gs_jobs gs Eval_t)" "job_id j = job_id job" for j
    proof -
      from that assms(2) ev have "eval_type j = Some ty" by (simp add: typed_def)
      moreover from f(1) [of j] have "eval_type (f j) = eval_type j" by (simp add: job_identity_def)
      ultimately show ?thesis using ev assms(1) by (simp add: counts_def)
    qed
    with f(2) True show ?thesis by (simp add: running_count_table count_update_by_same)
  next
    case False
    with f(2) show ?thesis by (auto simp: running_count_table split: option.split)
  qed
qed (simp add: dispatch_unknown)

lemma identity_set:
  assumes "frame S gs gs'"
  shows "(\<lambda>j. (job_id j, eval_type j)) ` set (gs_jobs gs' t) = (\<lambda>j. (job_id j, eval_type j)) ` set (gs_jobs gs t)"
proof -
  let ?g = "\<lambda>(i, u, p, c, pl, e, co). (i, e)"
  have p: "(\<lambda>j. (job_id j, eval_type j)) = ?g \<circ> job_identity" by (simp add: fun_eq_iff job_identity_def)
  have "map job_identity (gs_jobs gs' t) = map job_identity (gs_jobs gs t)" using assms unfolding frame_def by blast
  then have "set (map job_identity (gs_jobs gs' t)) = set (map job_identity (gs_jobs gs t))" by (rule arg_cong)
  then have "job_identity ` set (gs_jobs gs' t) = job_identity ` set (gs_jobs gs t)" unfolding set_map .
  then show ?thesis unfolding p image_comp [symmetric] by simp
qed

lemma typed_frame: "frame S gs gs' \<Longrightarrow> typed ty job gs' = typed ty job gs"
proof -
  have e: "typed ty job g \<longleftrightarrow> (is_eval_type ty \<longrightarrow>
      (\<forall>(i, e) \<in> (\<lambda>j. (job_id j, eval_type j)) ` set (gs_jobs g Eval_t). i = job_id job \<longrightarrow> e = Some ty))" for g
    by (simp add: typed_def)
  assume "frame S gs gs'"
  from identity_set [OF this, of Eval_t] show ?thesis unfolding e by (simp only:)
qed

definition handed_rows :: "(string \<times> job) list \<Rightarrow> (job_table \<times> string) set" where
  "handed_rows tr = {(t, job_id j) | t ty j. (ty, j) \<in> set tr \<and> table_of ty = Some t}"

lemma hand_over_frame: "frame (handed_rows [(ty, job)]) (fst st) (fst (hand_over env ty job st))"
proof (cases "table_of ty")
  case (Some t)
  have "frame {(t, job_id job)} (fst st) (dispatch_job env ty job (fst st))"
    by (rule row_step_frame [OF dispatch_job_step [OF Some]])
  moreover have "{(t, job_id job)} \<subseteq> handed_rows [(ty, job)]" using Some by (auto simp: handed_rows_def)
  ultimately show ?thesis unfolding hand_over_def fst_conv by (rule frame_mono)
qed (simp add: hand_over_def dispatch_unknown frame_refl)

lemma window_run_frame: "window_run env slots st tr st' \<Longrightarrow> frame (handed_rows tr) (fst st) (fst st')"
proof (induction rule: window_run.induct)
  case (hand ty slot st job tr st')
  have "frame (handed_rows ((ty, job) # tr)) (fst st) (fst (hand_over env ty job st))"
    by (rule frame_mono [OF hand_over_frame]) (auto simp: handed_rows_def)
  moreover have "frame (handed_rows ((ty, job) # tr)) (fst (hand_over env ty job st)) (fst st')"
    by (rule frame_mono [OF hand.IH]) (auto simp: handed_rows_def)
  ultimately show ?case by (rule frame_trans)
qed (simp add: frame_refl)

lemma window_run_limit:
  assumes "window_run env slots st tr st'" and "tables_ok (fst st)" and "\<forall>(ty, j) \<in> set tr. typed ty j (fst st)"
  shows "case map_of slots ty of
           None \<Rightarrow> running_count ty (fst st') = running_count ty (fst st)
         | Some slot \<Rightarrow> int (running_count ty (fst st')) \<le> max (int (running_count ty (fst st))) (max_concurrent slot)"
  using assms
proof (induction rule: window_run.induct)
  case (stop st)
  show ?case by (simp split: option.split)
next
  case (hand ty1 slot1 st job tr st')
  note fr = hand_over_frame [of ty1 job st env]
  have IH: "case map_of slots ty of
      None \<Rightarrow> running_count ty (fst st') = running_count ty (fst (hand_over env ty1 job st))
    | Some slot \<Rightarrow> int (running_count ty (fst st')) \<le>
        max (int (running_count ty (fst (hand_over env ty1 job st)))) (max_concurrent slot)"
    using hand.prems frame_tables_ok [OF fr] typed_frame [OF fr] by (intro hand.IH) auto
  show ?case
  proof (cases "ty = ty1")
    case True
    have "running_count ty1 (fst (hand_over env ty1 job st)) \<le> Suc (running_count ty1 (fst st))"
      unfolding hand_over_def fst_conv by (rule dispatch_count_self) (rule hand.prems(1))
    moreover have "int (running_count ty1 (fst st)) + int (snd st ty1) < max_concurrent slot1"
      using hand.hyps(2) by (simp add: slot_full_def)
    ultimately show ?thesis using IH hand.hyps(1) True by simp
  next
    case False
    have "running_count ty (fst (hand_over env ty1 job st)) = running_count ty (fst st)"
      unfolding hand_over_def fst_conv using hand.prems(2) False by (intro dispatch_count_other) auto
    with IH show ?thesis by (simp split: option.splits)
  qed
qed

lemma queued_of_mem:
  "j \<in> set (queued_of ty p gs) \<longleftrightarrow>
     (\<exists>t. table_of ty = Some t \<and> j \<in> set (gs_jobs gs t) \<and> (is_eval_type ty \<longrightarrow> eval_type j = Some ty) \<and>
          job_priority j = p \<and> job_status j = Queued)"
  by (auto simp: queued_of_def type_jobs_def table_of_def is_eval_type_def)

lemma queued_typed: "tables_ok gs \<Longrightarrow> j \<in> set (queued_of ty p gs) \<Longrightarrow> typed ty j gs"
  unfolding queued_of_mem typed_def tables_ok_def by (metis option.inject table_of_eval unique_by_eq)

text \<open>
  The passes of a window, with what they hand over: high-priority jobs first, in the order of
  their creation; then normal jobs of every kind but training; then normal training jobs.
\<close>

lemma pass1_candidates:
  "(ty, j) \<in> set (high_candidates types gs) \<longleftrightarrow> ty \<in> set types \<and> j \<in> set (queued_of ty High gs)"
  by (auto simp: high_candidates_def)

lemma pass2_type_run:
  "\<exists>tr. subseq tr (map (Pair ty) (if ty = ''training'' then [] else sort_key job_created_at (queued_of ty Normal (fst st)))) \<and>
     window_run env slots st tr (pass2_type env slots minutes ty st)"
proof (cases "map_of slots ty")
  case None
  then show ?thesis by (intro exI [of _ "[]"]) (simp add: pass2_type_def window_run.stop)
next
  case (Some slot)
  from dispatch_candidates_run [OF Some] Some show ?thesis unfolding pass2_type_def by simp
qed

lemma pass3_run:
  "\<exists>tr. subseq tr (map (Pair ''training'') (sort_key job_created_at (queued_of ''training'' Normal (fst st)))) \<and>
     window_run env slots st tr (pass3 env slots minutes st)"
proof (cases "map_of slots ''training''")
  case None
  then show ?thesis by (intro exI [of _ "[]"]) (simp add: pass3_def window_run.stop)
next
  case (Some slot)
  let ?c = "sort_key job_created_at (queued_of ''training'' Normal (fst st))"
  let ?cap = "max_concurrent slot - int (running_count ''training'' (fst st)) - int (snd st ''training'')"
  show ?thesis
  proof (cases "?cap \<le> 0")
    case True
    with Some show ?thesis by (intro exI [of _ "[]"]) (simp add: pass3_def window_run.stop)
  next
    case False
    obtain tr where tr: "subseq tr (map (Pair ''training'') (take (nat ?cap) ?c))"
      "window_run env slots st tr (dispatch_candidates env ''training'' slot minutes (take (nat ?cap) ?c) st)"
      using dispatch_candidates_run [OF Some] by blast
    have "subseq (map (Pair ''training'') (take (nat ?cap) ?c)) (map (Pair ''training'') ?c)"
      by (intro subseq_map prefix_imp_subseq take_is_prefix)
    with tr Some False show ?thesis unfolding pass3_def Let_def by (auto intro: subseq_order.trans)
  qed
qed

lemma subseq_mem: "subseq xs ys \<Longrightarrow> x \<in> set xs \<Longrightarrow> x \<in> set ys"
  by (induction rule: list_emb.induct) auto

lemma subseq_sorted: "subseq xs ys \<Longrightarrow> sorted ys \<Longrightarrow> sorted xs"
  by (induction rule: list_emb.induct) (auto dest: subseq_mem)

lemma subseq_distinct: "subseq xs ys \<Longrightarrow> distinct ys \<Longrightarrow> distinct xs"
  by (induction rule: list_emb.induct) (auto dest: subseq_mem)

lemma queued_of_kept:
  assumes "frame S gs gs'" and "tables_ok gs"
    and "\<And>t i j. (t, i) \<in> S \<Longrightarrow> table_of ty = Some t \<Longrightarrow> get_job_by_id i (gs_jobs gs t) = Some j \<Longrightarrow>
           (is_eval_type ty \<longrightarrow> eval_type j = Some ty) \<Longrightarrow> job_priority j \<noteq> p"
    and "j \<in> set (queued_of ty p gs')"
  shows "j \<in> set (queued_of ty p gs)"
proof -
  from assms(4) obtain t where t: "table_of ty = Some t" "j \<in> set (gs_jobs gs' t)"
    "is_eval_type ty \<longrightarrow> eval_type j = Some ty" "job_priority j = p" "job_status j = Queued"
    unfolding queued_of_mem by blast
  have "unique_by job_id (gs_jobs gs' t)" using frame_tables_ok [OF assms(1)] assms(2) by (simp add: tables_ok_def)
  with t(2) have g': "get_job_by_id (job_id j) (gs_jobs gs' t) = Some j" by (simp add: get_job_by_id_def unique_by_find)
  have "job_identity j \<in> set (map job_identity (gs_jobs gs t))"
    using assms(1) t(2) unfolding frame_def by (metis image_eqI list.set_map)
  then obtain k where k: "k \<in> set (gs_jobs gs t)" "job_identity k = job_identity j" by auto
  have gk: "get_job_by_id (job_id j) (gs_jobs gs t) = Some k"
    using k assms(2) identity_id [OF k(2)] by (metis get_job_by_id_def tables_ok_def unique_by_find)
  have "(t, job_id j) \<notin> S"
    using assms(3) [OF _ t(1) gk] k(2) t(3,4) by (auto simp: job_identity_def)
  then have "get_job_by_id (job_id j) (gs_jobs gs t) = Some j" using assms(1) g' by (simp add: frame_def)
  with gk t k show ?thesis unfolding queued_of_mem by auto
qed

lemma handed_rows_mem: "(t, i) \<in> handed_rows tr \<longleftrightarrow> (\<exists>ty j. (ty, j) \<in> set tr \<and> table_of ty = Some t \<and> i = job_id j)"
  by (auto simp: handed_rows_def)

text \<open>What is queued of a kind and priority is not changed by hand-overs of other kinds or priorities.\<close>

lemma queued_after_run:
  assumes "window_run env slots st tr st'" and "tables_ok (fst st)"
    and tr: "\<And>ty' j. (ty', j) \<in> set tr \<Longrightarrow> \<exists>q. j \<in> set (queued_of ty' q (fst st)) \<and> (q \<noteq> p \<or> ty' \<noteq> ty)"
    and "j \<in> set (queued_of ty p (fst st'))"
  shows "j \<in> set (queued_of ty p (fst st))"
proof (rule queued_of_kept [OF window_run_frame [OF assms(1)] assms(2) _ assms(4)])
  fix t i k
  assume "(t, i) \<in> handed_rows tr" and t: "table_of ty = Some t" and k: "get_job_by_id i (gs_jobs (fst st) t) = Some k"
    and e: "is_eval_type ty \<longrightarrow> eval_type k = Some ty"
  then obtain ty' l q where l: "table_of ty' = Some t" "i = job_id l" "l \<in> set (queued_of ty' q (fst st))"
    "q \<noteq> p \<or> ty' \<noteq> ty" unfolding handed_rows_mem using tr by blast
  then have "l \<in> set (gs_jobs (fst st) t)" "is_eval_type ty' \<longrightarrow> eval_type l = Some ty'" "job_priority l = q"
    unfolding queued_of_mem by auto
  moreover from this(1) k l(2) assms(2) have "l = k"
    by (simp add: get_job_by_id_def tables_ok_def unique_by_find)
  moreover have "ty' = ty" if "job_priority k = p"
    using e t l(1) calculation table_of_other [OF l(1) t] table_of_eval by auto
  ultimately show "job_priority k \<noteq> p" using l(4) by auto
qed

lemma queued_distinct: "tables_ok gs \<Longrightarrow> distinct (queued_of ty p gs)"
proof -
  assume "tables_ok gs"
  then have "distinct (gs_jobs gs t)" for t by (simp add: tables_ok_def unique_by_def distinct_map)
  then show ?thesis by (simp add: queued_of_def type_jobs_def)
qed

lemma sorted_sort_created: "sorted (map (job_created_at \<circ> snd) (map (Pair ty) (sort_key job_created_at js)))"
  by (simp add: o_def)

definition in_order :: "(string \<times> job) list \<Rightarrow> bool" where
  "in_order tr \<longleftrightarrow> sorted (map (job_created_at \<circ> snd) tr)"

lemma in_order_subseq: "subseq tr tr' \<Longrightarrow> in_order tr' \<Longrightarrow> in_order tr"
  unfolding in_order_def by (rule subseq_sorted [OF subseq_map])

lemma pass2_run:
  assumes "distinct tys" and "tables_ok (fst st)"
  shows "\<exists>tr. window_run env slots st tr (fold (pass2_type env slots minutes) tys st) \<and>
           (\<forall>(ty, j) \<in> set tr. ty \<in> set tys \<and> ty \<noteq> ''training'' \<and> j \<in> set (queued_of ty Normal (fst st))) \<and>
           distinct tr \<and> (\<forall>ty. in_order (filter (\<lambda>c. fst c = ty) tr))"
  using assms
proof (induction tys arbitrary: st)
  case Nil
  show ?case by (intro exI [of _ "[]"]) (simp add: window_run.stop in_order_def)
next
  case (Cons ty tys)
  let ?st1 = "pass2_type env slots minutes ty st"
  let ?cand = "map (Pair ty) (if ty = ''training'' then [] else sort_key job_created_at (queued_of ty Normal (fst st)))"
  obtain tr1 where 1: "subseq tr1 ?cand" "window_run env slots st tr1 ?st1" using pass2_type_run by blast
  have mem1: "ty' = ty \<and> ty \<noteq> ''training'' \<and> j \<in> set (queued_of ty Normal (fst st))" if "(ty', j) \<in> set tr1" for ty' j
    using subseq_mem [OF 1(1) that] by (auto split: if_splits)
  have dist1: "distinct tr1"
    by (rule subseq_distinct [OF 1(1)]) (simp add: queued_distinct [OF Cons.prems(2)] distinct_map inj_on_def)
  have ord1: "in_order tr1" using in_order_subseq [OF 1(1)] by (simp add: in_order_def o_def)
  have ok1: "tables_ok (fst ?st1)" using frame_tables_ok [OF window_run_frame [OF 1(2)]] Cons.prems(2) by simp
  obtain tr2 where 2: "window_run env slots ?st1 tr2 (fold (pass2_type env slots minutes) tys ?st1)"
    "\<forall>(ty, j) \<in> set tr2. ty \<in> set tys \<and> ty \<noteq> ''training'' \<and> j \<in> set (queued_of ty Normal (fst ?st1))"
    "distinct tr2" "\<forall>ty. in_order (filter (\<lambda>c. fst c = ty) tr2)" using Cons.IH [OF _ ok1] Cons.prems(1) by auto
  have mem2: "ty' \<in> set tys \<and> ty' \<noteq> ''training'' \<and> j \<in> set (queued_of ty' Normal (fst st))" if "(ty', j) \<in> set tr2" for ty' j
  proof -
    from 2(2) that have t: "ty' \<in> set tys" "ty' \<noteq> ''training''" "j \<in> set (queued_of ty' Normal (fst ?st1))" by auto
    have "j \<in> set (queued_of ty' Normal (fst st))"
      by (rule queued_after_run [OF 1(2) Cons.prems(2) _ t(3)]) (use mem1 Cons.prems(1) t(1) in auto)
    with t show ?thesis by blast
  qed
  have f: "filter (\<lambda>c. fst c = ty') (tr1 @ tr2) =
      (if ty' = ty then filter (\<lambda>c. fst c = ty) tr1 else filter (\<lambda>c. fst c = ty') tr2)" for ty'
    using mem1 mem2 Cons.prems(1) by (auto simp: filter_empty_conv)
  have "in_order (filter (\<lambda>c. fst c = ty') (tr1 @ tr2))" for ty'
    unfolding f using in_order_subseq [OF subseq_filter_left ord1] 2(4) by simp
  moreover have "set tr1 \<inter> set tr2 = {}" using mem1 mem2 Cons.prems(1) by auto
  moreover have "\<forall>(ty', j) \<in> set (tr1 @ tr2). ty' \<in> set (ty # tys) \<and> ty' \<noteq> ''training'' \<and>
      j \<in> set (queued_of ty' Normal (fst st))" by (auto dest: mem1 mem2)
  moreover have "window_run env slots st (tr1 @ tr2) (fold (pass2_type env slots minutes) (ty # tys) st)"
    using window_run_append [OF 1(2) 2(1)] by simp
  ultimately show ?case using dist1 2(3) by (intro exI [of _ "tr1 @ tr2"]) simp
qed

lemma slots_by_type_keys: "distinct (map fst (slots_by_type slots))"
proof -
  have "distinct (map fst d) \<Longrightarrow> distinct (map fst (fold (\<lambda>s. AList.update (slot_job_type s) s) ss d))"
    for ss :: "job_window_slot list" and d
    by (induction ss arbitrary: d) (auto simp: distinct_update)
  then show ?thesis by (simp add: slots_by_type_def)
qed

lemma high_candidates_props:
  assumes "tables_ok gs" and "distinct types"
  shows "distinct (high_candidates types gs) \<and> in_order (high_candidates types gs)"
proof -
  let ?c = "concat (map (\<lambda>ty. map (Pair ty) (queued_of ty High gs)) types)"
  have "distinct ?c" using assms(2)
  proof (induction types)
    case (Cons ty types)
    then show ?case by (auto simp: distinct_map inj_on_def queued_distinct [OF assms(1)])
  qed simp
  moreover have "sorted (map (\<lambda>(ty, j). job_created_at j) (high_candidates types gs))" by (simp add: high_candidates_def)
  moreover have "(\<lambda>(ty, j). job_created_at j) = job_created_at \<circ> (snd :: string \<times> job \<Rightarrow> job)" by (simp add: fun_eq_iff)
  ultimately show ?thesis by (simp add: in_order_def high_candidates_def)
qed

definition run_key :: "string \<times> job \<Rightarrow> job_table option \<times> string" where
  "run_key c = (table_of (fst c), job_id (snd c))"

text \<open>Queued jobs are identified by their table and key, whatever kind and priority they are listed under.\<close>

lemma run_key_inj:
  assumes "tables_ok gs" and "j \<in> set (queued_of ty p gs)" and "k \<in> set (queued_of ty' q gs)"
    and "run_key (ty, j) = run_key (ty', k)"
  shows "ty = ty' \<and> j = k \<and> p = q"
proof -
  from assms(2-4) obtain t where t: "table_of ty = Some t" "table_of ty' = Some t" "j \<in> set (gs_jobs gs t)"
    "k \<in> set (gs_jobs gs t)" "is_eval_type ty \<longrightarrow> eval_type j = Some ty" "is_eval_type ty' \<longrightarrow> eval_type k = Some ty'"
    "job_priority j = p" "job_priority k = q" "job_id j = job_id k"
    unfolding queued_of_mem run_key_def by auto
  then have jk: "j = k" using assms(1) unfolding tables_ok_def by (blast intro: unique_by_eq)
  have "ty = ty'"
  proof (cases "t = Eval_t")
    case True
    with t(1,2) have "is_eval_type ty" "is_eval_type ty'" by (simp_all flip: table_of_eval)
    with t(5,6) jk show ?thesis by simp
  next
    case False
    with t(1,2) table_of_other show ?thesis by blast
  qed
  with jk t(7,8) show ?thesis by simp
qed

lemma distinct_run_keys:
  assumes "tables_ok gs" and "distinct tr" and "\<forall>(ty, j) \<in> set tr. \<exists>p. j \<in> set (queued_of ty p gs)"
  shows "distinct (map run_key tr)"
proof -
  have "inj_on run_key (set tr)"
  proof (rule inj_onI)
    fix c d assume c: "c \<in> set tr" and d: "d \<in> set tr" and e: "run_key c = run_key d"
    from assms(3) c obtain p where p: "snd c \<in> set (queued_of (fst c) p gs)" by fastforce
    from assms(3) d obtain q where q: "snd d \<in> set (queued_of (fst d) q gs)" by fastforce
    from run_key_inj [OF assms(1) p q] e show "c = d" by (simp add: prod_eq_iff)
  qed
  with assms(2) show ?thesis by (simp add: distinct_map)
qed

lemma window_dispatch_run:
  assumes "tables_ok gs" and "slots_by_type (ww_slots window) \<noteq> []"
  shows "\<exists>high normal d.
           window_run env (slots_by_type (ww_slots window)) (gs, \<lambda>ty. 0) (high @ normal) (dispatch_window_jobs env window gs, d) \<and>
           (\<forall>(ty, j) \<in> set high. j \<in> set (queued_of ty High gs)) \<and> in_order high \<and>
           (\<forall>(ty, j) \<in> set normal. j \<in> set (queued_of ty Normal gs)) \<and>
           (\<forall>ty. in_order (filter (\<lambda>c. fst c = ty) normal)) \<and> distinct (high @ normal)"
proof -
  define slots where "slots = slots_by_type (ww_slots window)"
  define minutes :: rat where "minutes = max 0 (of_int (end_at (ww_window window) - queue_now gs) / 60)"
  define tys where "tys = pass2_types (preferred_job_type (ww_window window)) (map fst slots)"
  let ?st0 = "(gs, \<lambda>ty::string. 0::nat)"
  define st1 where "st1 = fold (try_high env slots minutes) (high_candidates (map fst slots) gs) ?st0"
  define st2 where "st2 = fold (pass2_type env slots minutes) tys st1"
  define st3 where "st3 = pass3 env slots minutes st2"
  have dk: "distinct (map fst slots)" by (simp add: slots_def slots_by_type_keys)
  have dt: "distinct tys" using dk by (auto simp: tys_def pass2_types_def)
  have out: "dispatch_window_jobs env window gs = fst st3"
    using assms(2) unfolding dispatch_window_jobs_def Let_def st3_def st2_def st1_def tys_def slots_def minutes_def by simp
  obtain high where h: "subseq high (high_candidates (map fst slots) gs)" "window_run env slots ?st0 high st1"
    using pass1_run unfolding st1_def by blast
  have hq: "j \<in> set (queued_of ty High gs)" if "(ty, j) \<in> set high" for ty j
    using subseq_mem [OF h(1) that] by (simp add: pass1_candidates)
  have hd: "distinct high" "in_order high"
    using subseq_distinct [OF h(1)] in_order_subseq [OF h(1)] high_candidates_props [OF assms(1) dk] by auto
  have ok1: "tables_ok (fst st1)" using frame_tables_ok [OF window_run_frame [OF h(2)]] assms(1) by simp
  obtain mid where m: "window_run env slots st1 mid st2"
    "\<forall>(ty, j) \<in> set mid. ty \<in> set tys \<and> ty \<noteq> ''training'' \<and> j \<in> set (queued_of ty Normal (fst st1))"
    "distinct mid" "\<forall>ty. in_order (filter (\<lambda>c. fst c = ty) mid)"
    using pass2_run [OF dt ok1] unfolding st2_def by blast
  have mq: "ty \<noteq> ''training'' \<and> j \<in> set (queued_of ty Normal gs)" if "(ty, j) \<in> set mid" for ty j
  proof -
    from m(2) that have t: "ty \<noteq> ''training''" "j \<in> set (queued_of ty Normal (fst st1))" by auto
    have "j \<in> set (queued_of ty Normal (fst ?st0))"
      by (rule queued_after_run [OF h(2) _ _ t(2)]) (use assms(1) hq in force)+
    with t show ?thesis by simp
  qed
  note hm = window_run_append [OF h(2) m(1)]
  obtain train where r: "subseq train (map (Pair ''training'') (sort_key job_created_at (queued_of ''training'' Normal (fst st2))))"
    "window_run env slots st2 train st3" using pass3_run unfolding st3_def by blast
  have rq: "ty = ''training'' \<and> j \<in> set (queued_of ''training'' Normal gs)" if "(ty, j) \<in> set train" for ty j
  proof -
    from subseq_mem [OF r(1) that] have t: "ty = ''training''" "j \<in> set (queued_of ''training'' Normal (fst st2))" by auto
    have "j \<in> set (queued_of ''training'' Normal (fst ?st0))"
      by (rule queued_after_run [OF hm _ _ t(2)]) (use assms(1) hq mq in force)+
    with t show ?thesis by simp
  qed
  have ok2: "tables_ok (fst st2)" using frame_tables_ok [OF window_run_frame [OF m(1)]] ok1 by simp
  have rd: "distinct train" "in_order train"
    using subseq_distinct [OF r(1)] in_order_subseq [OF r(1)] queued_distinct [OF ok2]
    by (auto simp: distinct_map inj_on_def in_order_def o_def)
  have f: "filter (\<lambda>c. fst c = ty) (mid @ train) =
      (if ty = ''training'' then filter (\<lambda>c. fst c = ty) train else filter (\<lambda>c. fst c = ty) mid)" for ty
    using mq rq by (auto simp: filter_empty_conv)
  have ord: "in_order (filter (\<lambda>c. fst c = ty) (mid @ train))" for ty
    unfolding f using in_order_subseq [OF subseq_filter_left rd(2)] m(4) by simp
  have prio: "job_priority j = p" if "j \<in> set (queued_of ty p gs)" for ty p j
    using that unfolding queued_of_mem by blast
  have "(ty, j) \<notin> set (mid @ train)" if "(ty, j) \<in> set high" for ty j
    using that by (auto dest!: hq mq rq prio)
  moreover have "(ty, j) \<notin> set train" if "(ty, j) \<in> set mid" for ty j
    using that by (auto dest!: mq rq)
  ultimately have "distinct (high @ (mid @ train))" using hd(1) m(3) rd(1) by auto
  moreover have "window_run env slots ?st0 (high @ (mid @ train)) (dispatch_window_jobs env window gs, snd st3)"
    using window_run_append [OF hm r(2)] by (simp add: out)
  moreover have "\<forall>(ty, j) \<in> set high. j \<in> set (queued_of ty High gs)" by (auto dest: hq)
  moreover have "\<forall>(ty, j) \<in> set (mid @ train). j \<in> set (queued_of ty Normal gs)" by (auto dest: mq rq)
  ultimately show ?thesis unfolding slots_def [symmetric] using hd(2) ord by blast
qed

lemma ship_curator_created:
  "gs_created (ship_curator_job env idx job gs) = gs_created gs \<or>
   gs_created (ship_curator_job env idx job gs) = (Curator_t, job_id job) # gs_created gs"
  by (auto simp: ship_curator_job_def Let_def split: post_answer.split option.split)

lemma dispatch_job_created:
  assumes "table_of ty = Some t"
  shows "gs_created (dispatch_job env ty job gs) = gs_created gs \<or>
         gs_created (dispatch_job env ty job gs) = (t, job_id job) # gs_created gs"
proof -
  have tr: "gs_created (dispatch_training_job env job gs) = gs_created gs \<or>
      gs_created (dispatch_training_job env job gs) = (Training_t, job_id job) # gs_created gs"
    by (auto simp: dispatch_training_job_def Let_def split: sum.split bool.split post_answer.split)
  have ev: "gs_created (dispatch_eval_job_by_type env job gs) = gs_created gs \<or>
      gs_created (dispatch_eval_job_by_type env job gs) = (Eval_t, job_id job) # gs_created gs"
    by (auto simp: dispatch_eval_job_by_type_def dispatch_eval_job_def dispatch_language_eval_job_def
        dispatch_to_harness_def Let_def split_beta split: post_answer.split)
  have cu: "gs_created (dispatch_curator_job env job gs) = gs_created gs \<or>
      gs_created (dispatch_curator_job env job gs) = (Curator_t, job_id job) # gs_created gs"
  proof -
    obtain gs1 r where a: "acquire_curator_card env gs = (gs1, r)" by fastforce
    from acquire_jobs(1) [OF a] ship_curator_created [of env _ job gs1] ship_curator_created [of env _ job gs] a show ?thesis
      by (auto simp: dispatch_curator_job_def Let_def split: option.split)
  qed
  have pu: "gs_created (dispatch_publish_job env job gs) = gs_created gs \<or>
      gs_created (dispatch_publish_job env job gs) = (Publish_t, job_id job) # gs_created gs"
  proof -
    obtain gs1 r where a: "acquire_publish_card env gs = (gs1, r)" by fastforce
    from acquire_jobs(2) [OF a] a show ?thesis
      by (auto simp: dispatch_publish_job_def Let_def split: option.split sum.split)
  qed
  from assms tr ev cu pu show ?thesis by (auto simp: table_of_def dispatch_job_def split: if_splits)
qed

definition logged :: "job_table \<times> string \<Rightarrow> job_table option \<times> string" where
  "logged e = (Some (fst e), snd e)"

lemma window_run_created:
  "window_run env slots st tr st' \<Longrightarrow>
   \<exists>runs. subseq (map logged runs) (map run_key tr) \<and> gs_created (fst st') = rev runs @ gs_created (fst st)"
proof (induction rule: window_run.induct)
  case (stop st)
  show ?case by (intro exI [of _ "[]"]) simp
next
  case (hand ty slot st job tr st')
  then obtain runs where r: "subseq (map logged runs) (map run_key tr)"
    "gs_created (fst st') = rev runs @ gs_created (fst (hand_over env ty job st))" by blast
  show ?case
  proof (cases "table_of ty")
    case None
    with r show ?thesis by (intro exI [of _ runs]) (auto simp: hand_over_def dispatch_unknown intro: list_emb_Cons)
  next
    case (Some t)
    from dispatch_job_created [OF Some, of env job "fst st"] r show ?thesis
    proof (elim disjE)
      assume "gs_created (dispatch_job env ty job (fst st)) = gs_created (fst st)"
      with r show ?thesis by (intro exI [of _ runs]) (auto simp: hand_over_def intro: list_emb_Cons)
    next
      assume "gs_created (dispatch_job env ty job (fst st)) = (t, job_id job) # gs_created (fst st)"
      moreover have "logged (t, job_id job) = run_key (ty, job)" using Some by (simp add: logged_def run_key_def)
      ultimately show ?thesis using r by (intro exI [of _ "(t, job_id job) # runs"]) (simp add: hand_over_def)
    qed
  qed
qed

section \<open>Properties of the window dispatch\<close>

text \<open>
  C19: A window never runs more jobs of a kind than its slot allows. However many candidates there are
  and whatever workers and broker answer, after the dispatch the number of running jobs of a kind
  with a slot is at most \<open>max_concurrent\<close>, or what it was before if it was already above; and a kind
  without a slot is not started at all.
\<close>

theorem window_never_exceeds_its_slots:
  assumes "tables_ok gs"
  shows "case map_of (slots_by_type (ww_slots window)) ty of
           None \<Rightarrow> running_count ty (dispatch_window_jobs env window gs) = running_count ty gs
         | Some slot \<Rightarrow> int (running_count ty (dispatch_window_jobs env window gs))
                          \<le> max (int (running_count ty gs)) (max_concurrent slot)"
proof (cases "slots_by_type (ww_slots window) = []")
  case True
  then show ?thesis by (simp add: dispatch_window_jobs_def Let_def)
next
  case False
  from window_dispatch_run [OF assms False, of env] obtain high normal d where
    r: "window_run env (slots_by_type (ww_slots window)) (gs, \<lambda>ty. 0) (high @ normal) (dispatch_window_jobs env window gs, d)"
    "\<forall>(ty, j) \<in> set high. j \<in> set (queued_of ty High gs)" "\<forall>(ty, j) \<in> set normal. j \<in> set (queued_of ty Normal gs)"
    by blast
  have "\<forall>(ty, j) \<in> set (high @ normal). typed ty j (fst (gs, \<lambda>ty. 0))"
    using r(2,3) queued_typed [OF assms] by fastforce
  from window_run_limit [OF r(1) _ this, of ty] assms show ?thesis by (simp split: option.splits)
qed

text \<open>
  High before normal, oldest first, and nobody twice. The runs a window dispatch creates are for
  jobs that were queued when it began: first high-priority ones, oldest first across all kinds,
  then normal ones, oldest first within each kind. No job is handed to a worker twice.
\<close>

theorem window_dispatch_in_priority_order:
  assumes "tables_ok gs"
  shows "\<exists>high normal runs.
           (\<forall>(ty, j) \<in> set high. j \<in> set (queued_of ty High gs)) \<and> in_order high \<and>
           (\<forall>(ty, j) \<in> set normal. j \<in> set (queued_of ty Normal gs)) \<and>
           (\<forall>ty. in_order (filter (\<lambda>c. fst c = ty) normal)) \<and>
           distinct (map run_key (high @ normal)) \<and> subseq (map logged runs) (map run_key (high @ normal)) \<and>
           gs_created (dispatch_window_jobs env window gs) = rev runs @ gs_created gs"
proof (cases "slots_by_type (ww_slots window) = []")
  case True
  then have "gs_created (dispatch_window_jobs env window gs) = rev [] @ gs_created gs"
    by (simp add: dispatch_window_jobs_def Let_def)
  then show ?thesis by (intro exI [of _ "[]"]) (simp add: in_order_def)
next
  case False
  from window_dispatch_run [OF assms False, of env] obtain high normal d where
    r: "window_run env (slots_by_type (ww_slots window)) (gs, \<lambda>ty. 0) (high @ normal) (dispatch_window_jobs env window gs, d)"
    "\<forall>(ty, j) \<in> set high. j \<in> set (queued_of ty High gs)" "in_order high"
    "\<forall>(ty, j) \<in> set normal. j \<in> set (queued_of ty Normal gs)" "\<forall>ty. in_order (filter (\<lambda>c. fst c = ty) normal)"
    "distinct (high @ normal)" by blast
  from window_run_created [OF r(1)] obtain runs where
    "subseq (map logged runs) (map run_key (high @ normal))"
    "gs_created (dispatch_window_jobs env window gs) = rev runs @ gs_created gs" by auto
  moreover have "distinct (map run_key (high @ normal))"
    by (rule distinct_run_keys [OF assms r(6)]) (use r(2,4) in fastforce)
  ultimately show ?thesis using r(2-5) by blast
qed

definition curator_window :: window_with_slots where
  "curator_window =
     \<lparr>ww_window = \<lparr>jw_id = ''w'', jw_name = ''night'', jw_notes = None, start_at = 0, end_at = 9000,
        preferred_job_type = ''curator'', jw_enabled = True, jw_created_at = 0, jw_updated_at = 0\<rparr>,
      ww_slots = [\<lparr>slot_id = ''s'', slot_window_id = ''w'', slot_job_type = ''curator'', max_concurrent = 1,
                    min_remaining_minutes = 0\<rparr>],
      ww_status = Window_active\<rparr>"

lemma sample_queue_ok: "tables_ok sample_queue"
  by (simp add: tables_ok_def sample_queue_def)

theorem window_never_exceeds_its_slots_witness:
  "running_count ''curator'' (dispatch_window_jobs sample_queue_env curator_window sample_queue) \<le> 1"
proof -
  have "running_count ''curator'' sample_queue = 0" by (simp add: queue_run_defs)
  moreover have "\<exists>slot. map_of (slots_by_type (ww_slots curator_window)) ''curator'' = Some slot \<and> max_concurrent slot = 1"
    by (simp add: slots_by_type_def curator_window_def)
  ultimately show ?thesis
    using window_never_exceeds_its_slots [OF sample_queue_ok, where window = curator_window and ty = "''curator''" and env = sample_queue_env] by auto
qed

theorem window_dispatch_in_priority_order_witness:
  "\<exists>high normal runs. distinct (map run_key (high @ normal)) \<and>
     subseq (map logged runs) (map run_key (high @ normal)) \<and>
     gs_created (dispatch_window_jobs sample_queue_env curator_window sample_queue) = rev runs @ gs_created sample_queue"
  using window_dispatch_in_priority_order [OF sample_queue_ok, where window = curator_window and env = sample_queue_env] by blast

section \<open>Finished jobs are final\<close>

definition TERMINAL :: "job_status set" where "TERMINAL = {Completed, Failed, Cancelled}"

text \<open>
  \<open>stage gs gs'\<close>: the same jobs are there, and only rows that were not finished in \<open>gs\<close> changed.
  Every stage of a cycle is one, and they compose.
\<close>

definition open_rows :: "gpu_state \<Rightarrow> (job_table \<times> string) set" where
  "open_rows gs = {(t, job_id j) | t j. j \<in> set (gs_jobs gs t) \<and> job_status j \<notin> TERMINAL}"

definition stage :: "gpu_state \<Rightarrow> gpu_state \<Rightarrow> bool" where
  "stage gs gs' \<longleftrightarrow> frame (open_rows gs) gs gs'"

lemma stage_same: "gs_jobs gs' = gs_jobs gs \<Longrightarrow> stage gs gs'"
  by (simp add: stage_def frame_refl)

lemma open_rows_get:
  "tables_ok gs \<Longrightarrow> (t, i) \<in> open_rows gs \<longleftrightarrow> (\<exists>j. get_job_by_id i (gs_jobs gs t) = Some j \<and> job_status j \<notin> TERMINAL)"
  unfolding open_rows_def get_job_by_id_def tables_ok_def
  by (auto dest: find_by_mem find_by_key simp: unique_by_find)

lemma get_of_frame:
  assumes "frame S gs gs'"
  shows "get_job_by_id i (gs_jobs gs' t) = None \<longleftrightarrow> get_job_by_id i (gs_jobs gs t) = None"
proof -
  have "set (map job_id (gs_jobs gs' t)) = set (map job_id (gs_jobs gs t))" by (simp only: frame_ids [OF assms])
  then show ?thesis by (simp add: get_job_by_id_def find_by_None)
qed

lemma stage_trans:
  assumes "tables_ok gs" and "stage gs g1" and "stage g1 g2"
  shows "stage gs g2"
proof -
  have ok1: "tables_ok g1" using assms frame_tables_ok unfolding stage_def by blast
  have "get_job_by_id i (gs_jobs g2 t) = get_job_by_id i (gs_jobs gs t)" if n: "(t, i) \<notin> open_rows gs" for t i
  proof -
    from assms(2) n have same: "get_job_by_id i (gs_jobs g1 t) = get_job_by_id i (gs_jobs gs t)"
      by (simp add: stage_def frame_def)
    with n have "(t, i) \<notin> open_rows g1" by (simp add: open_rows_get assms(1) ok1)
    with assms(3) same show ?thesis by (simp add: stage_def frame_def)
  qed
  with assms(2,3) show ?thesis by (simp add: stage_def frame_def)
qed

lemma stage_ok: "stage gs gs' \<Longrightarrow> tables_ok gs' = tables_ok gs"
  unfolding stage_def by (rule frame_tables_ok)

lemma fold_stage:
  assumes "\<And>j g. j \<in> set js \<Longrightarrow> frame {(t, job_id j)} g (h j g)"
    and "\<And>j. j \<in> set js \<Longrightarrow> j \<in> set (gs_jobs gs t) \<and> job_status j \<notin> TERMINAL"
  shows "stage gs (fold h js gs)"
  unfolding stage_def
proof (rule frame_mono [OF fold_frame])
  show "(\<lambda>j. (t, job_id j)) ` set js \<subseteq> open_rows gs" using assms(2) by (auto simp: open_rows_def)
qed (rule assms(1))

lemma not_terminal [simp]: "Running \<notin> TERMINAL" "Queued \<notin> TERMINAL" "Pending \<notin> TERMINAL" "Scheduled \<notin> TERMINAL"
  by (simp_all add: TERMINAL_def)

lemma sync_stages:
  "stage gs (sync_running_eval_jobs env gs)" "stage gs (sync_running_curator_jobs env gs)"
  "stage gs (sync_running_training_jobs env gs)" "stage gs (sync_running_publish_jobs env gs)"
proof -
  show "stage gs (sync_running_eval_jobs env gs)" unfolding sync_running_eval_jobs_def
    by (rule fold_stage [where t = Eval_t]) (auto intro: row_step_frame [OF sync_eval_step] simp: get_jobs_by_status_def)
  show "stage gs (sync_running_curator_jobs env gs)" unfolding sync_running_curator_jobs_def
    by (rule fold_stage [where t = Curator_t]) (auto intro: row_step_frame [OF sync_curator_step] simp: get_jobs_by_status_def)
  have "stage gs (fold (sync_training_job env) [j \<leftarrow> gs_jobs gs Training_t. job_status j \<in> {Running, Queued}] gs)"
    by (rule fold_stage [where t = Training_t]) (auto intro: row_step_frame [OF sync_training_step])
  then show "stage gs (sync_running_training_jobs env gs)"
    unfolding sync_running_training_jobs_def by (simp add: stage_same)
  have "stage gs (fold (sync_publish_job env) (publish_jobs_by_status Running (gs_jobs gs Publish_t)) gs)"
    by (rule fold_stage [where t = Publish_t]) (auto intro: row_step_frame [OF sync_publish_step] simp: publish_jobs_by_status_def)
  then show "stage gs (sync_running_publish_jobs env gs)"
    unfolding sync_running_publish_jobs_def by (simp add: stage_same)
qed

lemma expire_stage: "tables_ok gs \<Longrightarrow> stage gs (expire_stale_training_jobs gs)"
proof -
  assume ok: "tables_ok gs"
  let ?e = "expire_row (queue_now gs)"
  have id: "job_identity (?e j) = job_identity j" "job_id (?e j) = job_id j" for j
    by (simp_all add: expire_row_def job_identity_def)
  have get: "find_by job_id i (map ?e jobs) = map_option ?e (find_by job_id i jobs)" for i jobs
    by (induction jobs) (simp_all add: id)
  have "get_job_by_id i (map ?e (gs_jobs gs Training_t)) = get_job_by_id i (gs_jobs gs Training_t)"
    if "(Training_t, i) \<notin> open_rows gs" for i
    using that unfolding open_rows_get [OF ok] unfolding get_job_by_id_def get
    by (cases "find_by job_id i (gs_jobs gs Training_t)") (auto simp: expire_row_def)
  then show ?thesis
    by (auto simp: stage_def frame_def expire_stale_training_jobs_def on_table_def id o_def)
qed

lemma sync_jobs_stage:
  assumes "tables_ok gs"
  shows "stage gs (sync_running_jobs env gs)"
proof -
  note t = stage_trans [OF assms]
  let ?g1 = "awaited env (sync_running_eval_jobs env gs)"
  let ?g2 = "sync_running_curator_jobs env ?g1" let ?g3 = "sync_running_training_jobs env ?g2"
  let ?g4 = "sync_running_publish_jobs env ?g3"
  have s1: "stage gs ?g1" by (rule t [OF sync_stages(1) stage_same]) simp
  have s2: "stage gs ?g2" by (rule t [OF s1 sync_stages(2)])
  have s3: "stage gs ?g3" by (rule t [OF s2 sync_stages(3)])
  have s4: "stage gs ?g4" by (rule t [OF s3 sync_stages(4)])
  show ?thesis unfolding sync_running_jobs_def
    by (rule t [OF s4 expire_stage]) (use stage_ok [OF s4] assms in simp)
qed

lemma set_frames:
  "frame {(Eval_t, jid)} gs (set_eval jid st err gs)" "frame {(Training_t, jid)} gs (set_training jid u gs)"
  "frame {(Curator_t, jid)} gs (set_curator jid u gs)" "frame {(Publish_t, jid)} gs (set_publish jid st err res gs)"
  using row_step_frame [OF set_row_step(2) [where X = UNIV, OF UNIV_I refl]]
    row_step_frame [OF set_row_step(1) [where X = UNIV, OF UNIV_I refl]]
    row_step_frame [OF set_row_step(3) [where X = UNIV, OF UNIV_I refl]]
    row_step_frame [OF set_row_step(4) [where X = UNIV, OF UNIV_I refl]] by blast+

lemma open_rowsI: "j \<in> set (gs_jobs gs t) \<Longrightarrow> job_status j \<notin> TERMINAL \<Longrightarrow> (t, job_id j) \<in> open_rows gs"
  by (auto simp: open_rows_def)

lemma due_rows:
  "j \<in> set (get_due_scheduled_jobs now jobs) \<longleftrightarrow> j \<in> set jobs \<and> due now j"
  "j \<in> set (publish_due_scheduled_jobs now jobs) \<longleftrightarrow> j \<in> set jobs \<and> due now j"
  by (auto simp: get_due_scheduled_jobs_def publish_due_scheduled_jobs_def)

lemma due_open: "due now j \<Longrightarrow> job_status j \<notin> TERMINAL"
  by (simp add: due_def)

lemma promote_due_stage:
  assumes "tables_ok gs"
  shows "stage gs (promote_due gs)"
proof -
  note t = stage_trans [OF assms]
  have e: "stage g (fold (\<lambda>j. set_eval (job_id j) Queued None) (get_due_scheduled_jobs n (gs_jobs g Eval_t)) g)"
    "stage g (fold (\<lambda>j. set_training (job_id j) u) (get_due_scheduled_jobs n (gs_jobs g Training_t)) g)"
    "stage g (fold (\<lambda>j. set_curator (job_id j) u) (get_due_scheduled_jobs n (gs_jobs g Curator_t)) g)"
    "stage g (fold (\<lambda>j. set_publish (job_id j) Queued None None) (publish_due_scheduled_jobs n (gs_jobs g Publish_t)) g)"
    for g n u
    by (rule fold_stage, rule set_frames, auto simp: due_rows dest: due_open)+
  show ?thesis unfolding promote_due_def Let_def by (rule t [OF t [OF t [OF e(1) e(2)] e(3)] e(4)])
qed

lemma promote_pending_stage:
  assumes "tables_ok gs"
  shows "stage gs (promote_pending gs)"
proof -
  note t = stage_trans [OF assms]
  have e: "stage g (fold (\<lambda>j. set_eval (job_id j) Queued None) (get_jobs_by_status Pending (gs_jobs g Eval_t)) g)"
    "stage g (fold (\<lambda>j. set_training (job_id j) u) (get_jobs_by_status Pending (gs_jobs g Training_t)) g)"
    "stage g (fold (\<lambda>j. set_curator (job_id j) u) (filter P (get_jobs_by_status Pending (gs_jobs g Curator_t))) g)"
    for g u P
    by (rule fold_stage, rule set_frames, simp add: get_jobs_by_status_def)+
  show ?thesis unfolding promote_pending_def Let_def by (rule t [OF t [OF e(1) e(2)] e(3)])
qed

lemma promote_stage: "tables_ok gs \<Longrightarrow> stage gs (promote_scheduled_jobs gs)"
  unfolding promote_scheduled_jobs_def
  by (rule stage_trans [OF _ promote_due_stage promote_pending_stage]) (simp_all add: stage_ok [OF promote_due_stage])

lemma fold_frame_open:
  assumes "\<And>j g. j \<in> set js \<Longrightarrow> frame {(t, job_id j)} g (h j g)" and "(\<lambda>j. (t, job_id j)) ` set js \<subseteq> S"
    and "frame S gs g"
  shows "frame S gs (fold h js g)"
  by (rule frame_trans [OF assms(3) frame_mono [OF fold_frame [OF assms(1)] assms(2)]])

lemma run_now_stage: "stage gs (dispatch_run_now_jobs env gs)"
proof -
  have rows: "(\<lambda>j. (t, job_id j)) ` set (run_now_rows t gs) \<subseteq> open_rows gs" for t
    by (auto simp: run_now_rows_def intro!: open_rowsI)
  show ?thesis unfolding stage_def dispatch_run_now_jobs_def Let_def
    by (intro fold_frame_open [OF _ rows] frame_refl refl row_step_frame [OF dispatch_training_step]
        row_step_frame [OF dispatch_eval_step] row_step_frame [OF dispatch_curator_step]
        row_step_frame [OF dispatch_publish_step])
qed

lemma dry_run_stage: "stage gs (dispatch_dry_run_eval_jobs env gs)"
  unfolding dispatch_dry_run_eval_jobs_def
  by (rule fold_stage [OF row_step_frame [OF dispatch_eval_step]]) (simp add: get_jobs_by_status_def)

lemma stop_step: "row_step Curator_t (job_id job) {Queued} gs (stop_and_requeue_curator_job env reason job gs)"
proof -
  have "row_step Curator_t (job_id job) {Queued} gs
      (on_table Curator_t (\<lambda>now jobs. fst (requeue_for_next_window True now (job_id job) reason jobs)) g)"
    if "gs_jobs g = gs_jobs gs" for g
    by (rule row_stepI [where f = "requeue_row (queue_now g) reason"])
      (simp_all add: that on_table_def requeue_for_next_window_def write_job_def Let_def job_identity_def requeue_row_def)
  then show ?thesis unfolding stop_and_requeue_curator_job_def Let_def by simp
qed

lemma enforce_stage: "stage gs (enforce_curator_window_end env window gs)"
proof -
  let ?r = "get_jobs_by_status Running (gs_jobs gs Curator_t)"
  have "stage gs (fold (\<lambda>j. set_curator (job_id j) u) ?r gs)" for u
    by (rule fold_stage, rule set_frames) (simp add: get_jobs_by_status_def)
  moreover have "stage gs (fold (stop_and_requeue_curator_job env reason) ?r gs)" for reason
    by (rule fold_stage [OF row_step_frame [OF stop_step]]) (simp add: get_jobs_by_status_def)
  ultimately show ?thesis
    unfolding enforce_curator_window_end_def Let_def by (simp add: stage_def frame_def)
qed

lemma window_stage: "tables_ok gs \<Longrightarrow> stage gs (dispatch_window_jobs env window gs)"
proof (cases "slots_by_type (ww_slots window) = []")
  case True
  then show ?thesis by (intro stage_same) (simp add: dispatch_window_jobs_def Let_def)
next
  case False
  assume "tables_ok gs"
  from window_dispatch_run [OF this False, of env] obtain high normal d where
    r: "window_run env (slots_by_type (ww_slots window)) (gs, \<lambda>ty. 0) (high @ normal) (dispatch_window_jobs env window gs, d)"
    "\<forall>(ty, j) \<in> set high. j \<in> set (queued_of ty High gs)" "\<forall>(ty, j) \<in> set normal. j \<in> set (queued_of ty Normal gs)"
    by blast
  have "(t, i) \<in> open_rows gs" if "(t, i) \<in> handed_rows (high @ normal)" for t i
  proof -
    from that r(2,3) obtain ty j p where "table_of ty = Some t" "i = job_id j" "j \<in> set (queued_of ty p gs)"
      unfolding handed_rows_mem by fastforce
    then show ?thesis unfolding queued_of_mem open_rows_def by auto
  qed
  then have "handed_rows (high @ normal) \<subseteq> open_rows gs" by auto
  from frame_mono [OF window_run_frame [OF r(1)] this] show ?thesis by (simp add: stage_def)
qed

lemma cycle_stage:
  assumes "tables_ok gs"
  shows "stage gs (dispatch_cycle env gs)"
proof -
  note t = stage_trans [OF assms]
  let ?g1 = "sync_running_jobs env gs" let ?g2 = "promote_scheduled_jobs ?g1"
  let ?g3 = "dispatch_run_now_jobs env ?g2" let ?g4 = "dispatch_dry_run_eval_jobs env ?g3"
  let ?w = "get_active_window (qe_windows_readable env) (queue_now ?g4) (qe_windows env)"
  let ?g5 = "enforce_curator_window_end env ?w ?g4"
  have s1: "stage gs ?g1" by (rule sync_jobs_stage [OF assms])
  have s2: "stage gs ?g2" by (rule t [OF s1 promote_stage]) (use stage_ok [OF s1] assms in simp)
  have s5: "stage gs ?g5" by (rule t [OF t [OF t [OF s2 run_now_stage] dry_run_stage] enforce_stage])
  have "stage gs (dispatch_window_jobs env w ?g5)" for w
    by (rule t [OF s5 window_stage]) (use stage_ok [OF s5] assms in simp)
  with s5 show ?thesis unfolding dispatch_cycle_def Let_def by (cases ?w) simp_all
qed

lemma queue_stage: "tables_ok gs \<Longrightarrow> stage gs (process_gpu_queue runs gs)"
proof (induction runs gs rule: process_gpu_queue.induct)
  case (2 lock env rest gs)
  have "stage gs (queue_iteration lock env gs)"
    using cycle_stage [OF 2(2), of env]
    by (auto simp: queue_iteration_def stage_def frame_def sleep_def split: lock_answer.split)
  with 2 stage_trans stage_ok show ?case by (metis process_gpu_queue.simps(2))
qed (simp add: stage_same)


definition failed_queue :: gpu_state where
  "failed_queue = sample_queue\<lparr>gs_jobs := (\<lambda>t. if t = Curator_t then [curation Failed] else [])\<rparr>"


section \<open>Promotion and the end of a window\<close>

text \<open>
  The reference for promotion, row by row: a scheduled job whose time has come is queued, and so is
  a pending one, except a publish and a curation that carries a schedule.
\<close>

definition promotes :: "int \<Rightarrow> job_table \<Rightarrow> job \<Rightarrow> bool" where
  "promotes now t j \<longleftrightarrow>
     due now j \<or> job_status j = Pending \<and> t \<noteq> Publish_t \<and> (t = Curator_t \<longrightarrow> scheduled_for j = None)"

definition promoted_row :: "int \<Rightarrow> job_table \<Rightarrow> job \<Rightarrow> job" where
  "promoted_row now t j =
     (if t = Publish_t then publish_status_row now Queued None None j else status_row now (status_only Queued) j)"

lemma fold_writes:
  assumes "\<And>j g. gs_jobs (h j g) = (gs_jobs g)(t := update_by job_id (job_id j) (f (queue_now g)) (gs_jobs g t))"
    and "\<And>j g. gs_world (h j g) = gs_world g"
    and "\<And>n j. f n (f n j) = f n j" and "\<And>n j. job_id (f n j) = job_id j"
  shows "gs_jobs (fold h js gs) =
           (gs_jobs gs)(t := map (\<lambda>j. if job_id j \<in> job_id ` set js then f (queue_now gs) j else j) (gs_jobs gs t))"
proof (induction js arbitrary: gs)
  case (Cons k js)
  have n: "queue_now (h k gs) = queue_now gs" by (simp add: queue_now_def assms(2))
  show ?case by (auto simp: Cons.IH n assms(1,3,4) update_by_def fun_eq_iff)
qed (simp add: fun_eq_iff)

lemma fold_world: "(\<And>j g. gs_world (h j g) = gs_world g) \<Longrightarrow> gs_world (fold h js gs) = gs_world gs"
  by (induction js arbitrary: gs) simp_all

lemma set_eval_status: "gs_jobs (set_eval jid Queued None g) =
    (gs_jobs g)(Eval_t := update_by job_id jid (status_row (queue_now g) (status_only Queued)) (gs_jobs g Eval_t))"
  by (simp add: set_jobs settled_def status_only_def)

lemma promoted_idem [simp]:
  "status_row n (status_only Queued) (status_row n (status_only Queued) j) = status_row n (status_only Queued) j"
  "publish_status_row n st e r (publish_status_row n st e r j) = publish_status_row n st e r j"
  "job_id (status_row n u j) = job_id j" "job_id (publish_status_row n st e r j) = job_id j"
  by (simp_all add: status_row_def status_only_def keep_or_def publish_status_row_def)

lemma ids_of_rows:
  assumes "unique_by job_id jobs" and "\<And>j. j \<in> set js \<longleftrightarrow> j \<in> set jobs \<and> P j"
  shows "map (\<lambda>j. if job_id j \<in> job_id ` set js then F j else j) jobs = map (\<lambda>j. if P j then F j else j) jobs"
proof (rule map_cong [OF refl])
  fix j assume j: "j \<in> set jobs"
  have "job_id j \<in> job_id ` set js \<longleftrightarrow> P j"
  proof
    assume "job_id j \<in> job_id ` set js"
    then obtain k where "k \<in> set js" "job_id k = job_id j" by auto
    with unique_by_eq [OF assms(1) _ j] assms(2) show "P j" by blast
  qed (use j assms(2) in auto)
  then show "(if job_id j \<in> job_id ` set js then F j else j) = (if P j then F j else j)" by simp
qed

lemma row_writes:
  assumes "\<And>j g. gs_jobs (h j g) = (gs_jobs g)(t := update_by job_id (job_id j) (f (queue_now g)) (gs_jobs g t))"
    and "\<And>j g. gs_world (h j g) = gs_world g"
    and "\<And>n j. f n (f n j) = f n j" and "\<And>n j. job_id (f n j) = job_id j"
    and "unique_by job_id (gs_jobs gs t)" and "\<And>j. j \<in> set js \<longleftrightarrow> j \<in> set (gs_jobs gs t) \<and> P j"
  shows "gs_jobs (fold h js gs) =
           (gs_jobs gs)(t := map (\<lambda>j. if P j then f (queue_now gs) j else j) (gs_jobs gs t))"
  by (simp only: fold_writes [of h, OF assms(1-4)] ids_of_rows [OF assms(5,6)])

lemma promote_writes:
  "unique_by job_id (gs_jobs g Eval_t) \<Longrightarrow> (\<And>j. j \<in> set js \<longleftrightarrow> j \<in> set (gs_jobs g Eval_t) \<and> P j) \<Longrightarrow>
     gs_jobs (fold (\<lambda>j. set_eval (job_id j) Queued None) js g) =
       (gs_jobs g)(Eval_t := map (\<lambda>j. if P j then promoted_row (queue_now g) Eval_t j else j) (gs_jobs g Eval_t))"
  "unique_by job_id (gs_jobs g Training_t) \<Longrightarrow> (\<And>j. j \<in> set js \<longleftrightarrow> j \<in> set (gs_jobs g Training_t) \<and> P j) \<Longrightarrow>
     gs_jobs (fold (\<lambda>j. set_training (job_id j) (status_only Queued)) js g) =
       (gs_jobs g)(Training_t := map (\<lambda>j. if P j then promoted_row (queue_now g) Training_t j else j) (gs_jobs g Training_t))"
  "unique_by job_id (gs_jobs g Curator_t) \<Longrightarrow> (\<And>j. j \<in> set js \<longleftrightarrow> j \<in> set (gs_jobs g Curator_t) \<and> P j) \<Longrightarrow>
     gs_jobs (fold (\<lambda>j. set_curator (job_id j) (status_only Queued)) js g) =
       (gs_jobs g)(Curator_t := map (\<lambda>j. if P j then promoted_row (queue_now g) Curator_t j else j) (gs_jobs g Curator_t))"
  "unique_by job_id (gs_jobs g Publish_t) \<Longrightarrow> (\<And>j. j \<in> set js \<longleftrightarrow> j \<in> set (gs_jobs g Publish_t) \<and> P j) \<Longrightarrow>
     gs_jobs (fold (\<lambda>j. set_publish (job_id j) Queued None None) js g) =
       (gs_jobs g)(Publish_t := map (\<lambda>j. if P j then promoted_row (queue_now g) Publish_t j else j) (gs_jobs g Publish_t))"
proof -
  show "gs_jobs (fold (\<lambda>j. set_eval (job_id j) Queued None) js g) =
       (gs_jobs g)(Eval_t := map (\<lambda>j. if P j then promoted_row (queue_now g) Eval_t j else j) (gs_jobs g Eval_t))"
    if "unique_by job_id (gs_jobs g Eval_t)" "\<And>j. j \<in> set js \<longleftrightarrow> j \<in> set (gs_jobs g Eval_t) \<and> P j"
    using row_writes [where h = "\<lambda>j. set_eval (job_id j) Queued None" and f = "\<lambda>n. status_row n (status_only Queued)",
        OF set_eval_status _ _ _ that] by (simp add: promoted_row_def cong: if_cong)
  show "gs_jobs (fold (\<lambda>j. set_training (job_id j) (status_only Queued)) js g) =
       (gs_jobs g)(Training_t := map (\<lambda>j. if P j then promoted_row (queue_now g) Training_t j else j) (gs_jobs g Training_t))"
    if "unique_by job_id (gs_jobs g Training_t)" "\<And>j. j \<in> set js \<longleftrightarrow> j \<in> set (gs_jobs g Training_t) \<and> P j"
    using row_writes [where h = "\<lambda>j. set_training (job_id j) (status_only Queued)" and f = "\<lambda>n. status_row n (status_only Queued)",
        OF set_jobs(1) _ _ _ that] by (simp add: promoted_row_def cong: if_cong)
  show "gs_jobs (fold (\<lambda>j. set_curator (job_id j) (status_only Queued)) js g) =
       (gs_jobs g)(Curator_t := map (\<lambda>j. if P j then promoted_row (queue_now g) Curator_t j else j) (gs_jobs g Curator_t))"
    if "unique_by job_id (gs_jobs g Curator_t)" "\<And>j. j \<in> set js \<longleftrightarrow> j \<in> set (gs_jobs g Curator_t) \<and> P j"
    using row_writes [where h = "\<lambda>j. set_curator (job_id j) (status_only Queued)" and f = "\<lambda>n. status_row n (status_only Queued)",
        OF set_jobs(3) _ _ _ that] by (simp add: promoted_row_def cong: if_cong)
  show "gs_jobs (fold (\<lambda>j. set_publish (job_id j) Queued None None) js g) =
       (gs_jobs g)(Publish_t := map (\<lambda>j. if P j then promoted_row (queue_now g) Publish_t j else j) (gs_jobs g Publish_t))"
    if "unique_by job_id (gs_jobs g Publish_t)" "\<And>j. j \<in> set js \<longleftrightarrow> j \<in> set (gs_jobs g Publish_t) \<and> P j"
    using row_writes [where h = "\<lambda>j. set_publish (job_id j) Queued None None" and f = "\<lambda>n. publish_status_row n Queued None None",
        OF set_jobs(4) _ _ _ that] by (simp add: promoted_row_def cong: if_cong)
qed

lemma promote_world:
  "gs_world (promote_due gs) = gs_world gs" "gs_created (promote_due gs) = gs_created gs"
  "gs_world (promote_pending gs) = gs_world gs" "gs_created (promote_pending gs) = gs_created gs"
proof -
  have c: "(\<And>j g. gs_created (h j g) = gs_created g) \<Longrightarrow> gs_created (fold h js g) = gs_created g"
    for h :: "job \<Rightarrow> gpu_state \<Rightarrow> gpu_state" and js g by (induction js arbitrary: g) simp_all
  show "gs_world (promote_due gs) = gs_world gs" "gs_created (promote_due gs) = gs_created gs"
    "gs_world (promote_pending gs) = gs_world gs" "gs_created (promote_pending gs) = gs_created gs"
    by (simp_all add: promote_due_def promote_pending_def Let_def fold_world c)
qed

lemma promote_due_rows:
  assumes "tables_ok gs"
  shows "gs_jobs (promote_due gs) t =
           map (\<lambda>j. if due (queue_now gs) j then promoted_row (queue_now gs) t j else j) (gs_jobs gs t)"
proof -
  have n: "queue_now (fold h js g) = queue_now g" if "\<And>j g. gs_world (h j g) = gs_world g"
    for h :: "job \<Rightarrow> gpu_state \<Rightarrow> gpu_state" and js g using fold_world [of h, OF that] by (simp add: queue_now_def)
  have u: "unique_by job_id (gs_jobs gs t)" for t using assms by (simp add: tables_ok_def)
  show ?thesis unfolding promote_due_def Let_def
    by (cases t) (simp_all add: promote_writes [where P = "due (queue_now gs)"] u due_rows n)
qed

lemma promote_pending_rows:
  assumes "tables_ok gs"
  shows "gs_jobs (promote_pending gs) t =
           map (\<lambda>j. if job_status j = Pending \<and> t \<noteq> Publish_t \<and> (t = Curator_t \<longrightarrow> scheduled_for j = None)
                    then promoted_row (queue_now gs) t j else j) (gs_jobs gs t)"
proof -
  have n: "queue_now (fold h js g) = queue_now g" if "\<And>j g. gs_world (h j g) = gs_world g"
    for h :: "job \<Rightarrow> gpu_state \<Rightarrow> gpu_state" and js g using fold_world [of h, OF that] by (simp add: queue_now_def)
  have u: "unique_by job_id (gs_jobs gs t)" for t using assms by (simp add: tables_ok_def)
  show ?thesis unfolding promote_pending_def Let_def
    by (cases t) (simp_all add: promote_writes [where P = "\<lambda>j. job_status j = Pending"]
        promote_writes(3) [where P = "\<lambda>j. job_status j = Pending \<and> scheduled_for j = None"] u n get_jobs_by_status_def)
qed

text \<open>
  Promotion does exactly what it says. Every table afterwards is the old one with the due and the
  unscheduled pending jobs queued, in place and stamped, and nothing else is touched: no other row,
  no registry row, no worker.
\<close>

theorem promotion_is_exact:
  assumes "tables_ok gs"
  shows "gs_jobs (promote_scheduled_jobs gs) t =
           map (\<lambda>j. if promotes (queue_now gs) t j then promoted_row (queue_now gs) t j else j) (gs_jobs gs t) \<and>
         gs_world (promote_scheduled_jobs gs) = gs_world gs \<and>
         gs_created (promote_scheduled_jobs gs) = gs_created gs"
proof -
  have ok: "tables_ok (promote_due gs)" using stage_ok [OF promote_due_stage [OF assms]] assms by simp
  have st: "job_status (promoted_row n t j) = Queued" for n j by (simp add: promoted_row_def status_only_def)
  have now: "queue_now (promote_due gs) = queue_now gs" by (simp add: queue_now_def promote_world)
  show ?thesis unfolding promote_scheduled_jobs_def
    by (simp add: promote_world promote_pending_rows [OF ok] promote_due_rows [OF assms] now o_def st)
      (auto simp: promotes_def)
qed

definition promotable_queue :: gpu_state where
  "promotable_queue = sample_queue\<lparr>gs_jobs := (\<lambda>t. if t = Curator_t then
     [(curation Scheduled)\<lparr>scheduled_for := Some 5\<rparr>, (curation Pending)\<lparr>job_id := ''c2'', scheduled_for := Some 5\<rparr>] else [])\<rparr>"

theorem promotion_is_exact_witness:
  "map job_status (gs_jobs (promote_scheduled_jobs promotable_queue) Curator_t) = [Queued, Pending]"
proof -
  have "tables_ok promotable_queue" by (simp add: tables_ok_def promotable_queue_def unique_by_def curation_def blank_job_def)
  from promotion_is_exact [OF this, of Curator_t] show ?thesis
    by (simp add: promotable_queue_def sample_queue_def promotes_def due_def promoted_row_def status_only_def
        curation_def blank_job_def queue_now_def idle_card_def now_of_def sample_world_def)
qed

lemma stop_rows:
  "gs_jobs (stop_and_requeue_curator_job env reason job gs) =
     (let g = (if has_remote job \<and> qe_app env \<and> (case url_idx job of None \<Rightarrow> 0 | Some i \<Rightarrow> i) < length (CURATOR_BASE_URLS env)
               then awaited env gs else gs)
      in (gs_jobs gs)(Curator_t := update_by job_id (job_id job) (requeue_row (queue_now g) reason) (gs_jobs gs Curator_t)))"
  by (simp add: stop_and_requeue_curator_job_def on_table_def requeue_for_next_window_def write_job_def Let_def)

text \<open>Whatever still runs after the stops was not among the jobs stopped.\<close>

lemma stops_requeue:
  "j \<in> set (gs_jobs (fold (stop_and_requeue_curator_job env reason) js gs) Curator_t) \<Longrightarrow> job_status j = Running \<Longrightarrow>
   j \<in> set (gs_jobs gs Curator_t) \<and> job_id j \<notin> job_id ` set js"
proof (induction js arbitrary: gs)
  case (Cons k js)
  then have "j \<in> set (gs_jobs (stop_and_requeue_curator_job env reason k gs) Curator_t)" "job_id j \<notin> job_id ` set js" by auto
  with Cons.prems(2) show ?case
    by (auto simp: stop_rows Let_def update_by_def requeue_row_def split: if_splits)
qed simp

lemma stops_registered:
  "get_consumer cid (w_reg (gs_world gs)) \<noteq> None \<Longrightarrow>
   get_consumer cid (w_reg (gs_world (fold (stop_and_requeue_curator_job env reason) js gs))) \<noteq> None"
proof (induction js arbitrary: gs)
  case (Cons k js)
  have "get_consumer cid (w_reg (gs_world (stop_and_requeue_curator_job env reason k gs))) \<noteq> None"
    using Cons.prems awaited_registered [OF Cons.prems, of env] by (simp add: stop_and_requeue_curator_job_def Let_def)
  from Cons.IH [OF this] show ?case by simp
qed simp

lemma running_count_curator: "running_count ''curator'' gs = 0 \<longleftrightarrow> (\<forall>j \<in> set (gs_jobs gs Curator_t). job_status j \<noteq> Running)"
  by (simp add: running_count_def running_jobs_def get_jobs_by_status_def filter_empty_conv)

text \<open>
  When its window has closed, curation gives the card back. If the curator leases the card and the
  active window, if any, has no curator slot, then after the check the curator's row is shared, so
  other consumers can be granted VRAM; and where the end of the window is enforced no curation is
  left running, while without enforcement the overrunning ones keep running.
\<close>

theorem closed_window_gives_the_card_back:
  assumes "\<not> window_allows window ''curator''" and "running_count ''curator'' gs > 0"
    and "qe_registry_readable env" and "get_consumer CURATOR_AUDIENCE (w_reg (gs_world gs)) \<noteq> None"
    and "b_commit (qe_broker env) = (\<lambda>k. True)" and "tables_ok gs"
  shows "(\<forall>r \<in> set (w_reg (gs_world (enforce_curator_window_end env window gs))).
            consumer_id r = CURATOR_AUDIENCE \<longrightarrow> lease_mode r = SHARED) \<and>
         (if CURATOR_ENFORCE_WINDOW_END env then running_count ''curator'' (enforce_curator_window_end env window gs) = 0
          else map job_status (gs_jobs (enforce_curator_window_end env window gs) Curator_t) =
               map job_status (gs_jobs gs Curator_t))"
proof -
  let ?r = "get_jobs_by_status Running (gs_jobs gs Curator_t)"
  have r: "?r \<noteq> []" using assms(2) by (simp add: running_count_def running_jobs_def)
  have shared: "\<forall>r \<in> set (w_reg (gs_world (drop_card env CURATOR_AUDIENCE g))).
      consumer_id r = CURATOR_AUDIENCE \<longrightarrow> lease_mode r = SHARED" for g
    using drop_card_shared [OF assms(5)] by blast
  show ?thesis
  proof (cases "CURATOR_ENFORCE_WINDOW_END env")
    case True
    let ?g = "fold (stop_and_requeue_curator_job env STOPPED_MESSAGE) ?r gs"
    have none: "running_count ''curator'' ?g = 0"
      unfolding running_count_curator by (auto simp: get_jobs_by_status_def dest: stops_requeue)
    then have "enforce_curator_window_end env window gs = drop_card env CURATOR_AUDIENCE ?g"
      using True r assms(1,3) stops_registered [OF assms(4)]
      by (simp add: enforce_curator_window_end_def release_curator_card_def is_lease_consumer_def)
    with shared none True running_count_cong [of "drop_card env CURATOR_AUDIENCE ?g" ?g] show ?thesis by simp
  next
    case False
    let ?u = "status_because Running OVERRUN_MESSAGE"
    let ?g = "fold (\<lambda>j. set_curator (job_id j) ?u) ?r gs"
    have w: "gs_world ?g = gs_world gs" by (rule fold_world) simp
    have e: "enforce_curator_window_end env window gs = drop_card env CURATOR_AUDIENCE ?g"
      using False r assms(1,3,4) w by (simp add: enforce_curator_window_end_def is_lease_consumer_def)
    have u: "unique_by job_id (gs_jobs gs Curator_t)" using assms(6) by (simp add: tables_ok_def)
    have "gs_jobs ?g = (gs_jobs gs)(Curator_t :=
        map (\<lambda>j. if job_status j = Running then status_row (queue_now gs) ?u j else j) (gs_jobs gs Curator_t))"
      by (rule row_writes [where f = "\<lambda>n. status_row n ?u", OF set_jobs(3) _ _ _ u])
        (simp_all add: status_row_def status_because_def keep_or_def get_jobs_by_status_def)
    then have "map job_status (gs_jobs ?g Curator_t) = map job_status (gs_jobs gs Curator_t)"
      by (simp add: status_row_def status_because_def)
    with e shared False show ?thesis by simp
  qed
qed

definition overrun_env :: queue_env where
  "overrun_env = sample_queue_env\<lparr>CURATOR_ENFORCE_WINDOW_END := True\<rparr>"

theorem closed_window_gives_the_card_back_witness:
  "running_count ''curator'' sibling_queue = 2 \<and>
   running_count ''curator'' (enforce_curator_window_end overrun_env None sibling_queue) = 0"
proof -
  have n: "running_count ''curator'' sibling_queue = 2" by (simp add: sibling_queue_def queue_run_defs blank_job_def)
  have "CURATOR_ENFORCE_WINDOW_END overrun_env" by (simp add: overrun_env_def)
  moreover have "\<not> window_allows None ''curator''" by (simp add: window_allows_def)
  moreover have "qe_registry_readable overrun_env" "b_commit (qe_broker overrun_env) = (\<lambda>k. True)"
    by (simp_all add: overrun_env_def sample_queue_env_def sample_broker_def)
  moreover have "get_consumer CURATOR_AUDIENCE (w_reg (gs_world sibling_queue)) \<noteq> None"
    by (simp add: sibling_queue_def queue_run_defs sample_defs get_consumer_def)
  moreover have "tables_ok sibling_queue"
    by (simp add: tables_ok_def sibling_queue_def unique_by_def curation_def blank_job_def)
  ultimately show ?thesis
    using n closed_window_gives_the_card_back [of None sibling_queue overrun_env] by simp
qed

section \<open>A training run that is started twice\<close>

definition training_windows :: window_db where
  "training_windows =
     \<lparr>wd_windows = [\<lparr>jw_id = ''w'', jw_name = ''w'', jw_notes = None, start_at = 0, end_at = 100000,
        preferred_job_type = ''training'', jw_enabled = True, jw_created_at = 0, jw_updated_at = 0\<rparr>],
      wd_slots = [\<lparr>slot_id = ''s'', slot_window_id = ''w'', slot_job_type = ''training'', max_concurrent = 1,
        min_remaining_minutes = 0\<rparr>]\<rparr>"

definition pending_env :: queue_env where
  "pending_env = sample_queue_env\<lparr>qe_remote := (\<lambda>t j. Remote_body ''pending'' None), qe_windows := training_windows\<rparr>"

definition pending_training :: job where
  "pending_training = (blank_job ''t1'' ''u'' Running Normal 1)\<lparr>remote_id := Some ''r1'', url_idx := Some 0\<rparr>"

definition pending_queue :: gpu_state where
  "pending_queue = sample_queue\<lparr>gs_jobs := (\<lambda>t. if t = Training_t then [pending_training] else [])\<rparr>"

text \<open>
  A training run that waits in the trainer's own queue is started a second time. The trainer's
  answer ''pending'' sets the job, which has been handed over and carries its remote id, back to
  queued; the window dispatch of the same cycle then takes it for a new job and creates another run.
\<close>

theorem pending_training_is_started_again:
  "job_status pending_training = Running \<and> remote_id pending_training = Some ''r1'' \<and>
   gs_created pending_queue = [] \<and> gs_created (dispatch_cycle pending_env pending_queue) = [(Training_t, ''t1'')]"
  by (simp add: Let_def slots_of_def dispatch_cycle_def sync_running_jobs_def sync_running_eval_jobs_def sync_running_curator_jobs_def
      sync_running_training_jobs_def sync_running_publish_jobs_def expire_stale_training_jobs_def
      sync_training_job_def publish_jobs_by_status_def training_status_map_def expire_row_def STALE_RUNNING_TIMEOUT_def
      pending_queue_def pending_env_def pending_training_def queue_run_defs sample_defs broker_run_defs
      promote_scheduled_jobs_def promote_due_def promote_pending_def get_due_scheduled_jobs_def publish_due_scheduled_jobs_def
      due_def dispatch_run_now_jobs_def run_now_rows_def dispatch_dry_run_eval_jobs_def training_windows_def
      get_active_window_def window_open_def enforce_curator_window_end_def
      dispatch_window_jobs_def slots_by_type_def high_candidates_def queued_of_def type_jobs_def pass2_types_def pass2_type_def
      pass3_def slot_full_def fits_slot_def is_eval_type_def hand_over_def dispatch_job_def dispatch_training_job_def)

end
