(* ===== verification/Access_Control.thy ===== *)
theory Access_Control
  imports Selfai_Prelude "HOL-Library.AList"
begin

text \<open>
  User groups (\<open>models/groups.py\<close>), the permission and access checks (\<open>utils/access_control.py\<close>) and
  the gate of the browsing tools (\<open>browse/access_control.py\<close>). The group table is a list of rows in
  key order of the database; \<open>permissions\<close> is a nested dict, kept as a JSON object, and
  \<open>user_ids\<close> a JSON array that the membership query searches as text. The database dialect is an
  argument of that query. Users are the rows of another table, of which the checks only need the
  key and the role.

  The lemmas show that the text search finds exactly the groups a user belongs to, that what the
  client is shown and what the server permits agree, that a permission turned off is not revived
  by the old name of its group, and that the list of users with access agrees with the check.
\<close>

section \<open>Data\<close>

record group =
  g_id :: string
  g_user_id :: string
  g_name :: string
  g_description :: string
  g_data :: "(string \<times> json) list option"
  g_meta :: "(string \<times> json) list option"
  g_permissions :: "(string \<times> json) list option"
  g_user_ids :: "string list"
  g_created_at :: int
  g_updated_at :: int

record group_update_form =
  gf_name :: string
  gf_description :: string
  gf_permissions :: "(string \<times> json) list option"
  gf_user_ids :: "string list option"

record user =
  u_id :: string
  u_role :: string

text \<open>\<open>access_control\<close>: per kind of access the permitted groups and users; either list may be missing.\<close>

record access_rule =
  ar_group_ids :: "string list option"
  ar_user_ids :: "string list option"

type_synonym access_control = "(string \<times> access_rule) list option"

section \<open>The group table\<close>

definition insert_new_group ::
    "bool \<Rightarrow> int \<Rightarrow> string \<Rightarrow> string \<Rightarrow> string \<Rightarrow> string \<Rightarrow> group list \<Rightarrow> group list \<times> group option" where
  "insert_new_group ok now uuid user_id name description groups =
     (let g = \<lparr>g_id = uuid, g_user_id = user_id, g_name = name, g_description = description, g_data = None,
               g_meta = None, g_permissions = None, g_user_ids = [], g_created_at = now, g_updated_at = now\<rparr>
      in if ok \<and> uuid \<notin> set (map g_id groups) then (groups @ [g], Some g) else (groups, None))"

definition get_groups :: "group list \<Rightarrow> group list" where
  "get_groups groups = sort_key (\<lambda>g. - g_updated_at g) groups"

text \<open>\<open>json.dumps\<close> of a list of strings, the text of the \<open>user_ids\<close> column.\<close>

definition hex_digit :: "nat \<Rightarrow> char" where
  "hex_digit n = char_of (if n < 10 then 48 + n else 87 + n)"

definition json_escape :: "char \<Rightarrow> string" where
  "json_escape c =
     (let n = code c
      in if n = 34 then [CHR 0x5C, CHR 0x22]
         else if n = 92 then [CHR 0x5C, CHR 0x5C]
         else if n = 10 then [CHR 0x5C, CHR ''n'']
         else if n = 13 then [CHR 0x5C, CHR ''r'']
         else if n = 9 then [CHR 0x5C, CHR ''t'']
         else if n = 8 then [CHR 0x5C, CHR ''b'']
         else if n = 12 then [CHR 0x5C, CHR ''f'']
         else if n < 32 \<or> n > 126
         then CHR 0x5C # ''u00'' @ [hex_digit (n div 16), hex_digit (n mod 16)]
         else [c])"

definition json_quote :: "string \<Rightarrow> string" where
  "json_quote s = CHR 0x22 # concat (map json_escape s) @ [CHR 0x22]"

definition json_dumps_strings :: "string list \<Rightarrow> string" where
  "json_dumps_strings xs = CHR ''['' # py_join '', '' (map json_quote xs) @ [CHR '']'']"

definition get_groups_by_member_id :: "dialect \<Rightarrow> string \<Rightarrow> group list \<Rightarrow> group list" where
  "get_groups_by_member_id d user_id groups =
     sort_key (\<lambda>g. - g_updated_at g)
       [g \<leftarrow> groups. length (g_user_ids g) > 0 \<and>
          sql_like d (CHR ''%'' # (CHR 0x22 # user_id @ [CHR 0x22]) @ [CHR ''%'']) (json_dumps_strings (g_user_ids g))]"

definition get_group_by_id :: "string \<Rightarrow> group list \<Rightarrow> group option" where
  "get_group_by_id gid groups = find_by g_id gid groups"

definition get_group_user_ids_by_id :: "string \<Rightarrow> group list \<Rightarrow> string list option" where
  "get_group_user_ids_by_id gid groups = map_option g_user_ids (get_group_by_id gid groups)"

text \<open>Only the keys that are sent are written; \<open>admin_ids\<close> is no column and is dropped.\<close>

definition group_update_row :: "int \<Rightarrow> group_update_form \<Rightarrow> group \<Rightarrow> group" where
  "group_update_row now form g = g\<lparr>
     g_name := gf_name form, g_description := gf_description form,
     g_permissions := (case gf_permissions form of None \<Rightarrow> g_permissions g | Some p \<Rightarrow> Some p),
     g_user_ids := (case gf_user_ids form of None \<Rightarrow> g_user_ids g | Some us \<Rightarrow> us),
     g_updated_at := now\<rparr>"

definition update_group_by_id ::
    "bool \<Rightarrow> int \<Rightarrow> string \<Rightarrow> group_update_form \<Rightarrow> group list \<Rightarrow> group list \<times> group option" where
  "update_group_by_id ok now gid form groups =
     (if ok then (let groups' = update_by g_id gid (group_update_row now form) groups
                  in (groups', get_group_by_id gid groups'))
      else (groups, None))"

definition delete_group_by_id :: "bool \<Rightarrow> string \<Rightarrow> group list \<Rightarrow> group list \<times> bool" where
  "delete_group_by_id ok gid groups = (if ok then ([g \<leftarrow> groups. g_id g \<noteq> gid], True) else (groups, False))"

definition delete_all_groups :: "bool \<Rightarrow> group list \<Rightarrow> group list \<times> bool" where
  "delete_all_groups ok groups = (if ok then ([], True) else (groups, False))"

section \<open>Permissions\<close>

definition NEW_NAME :: string where "NEW_NAME = ''studio''"
definition OLD_NAME :: string where "OLD_NAME = ''workspace''"

text \<open>A stored blob that is no dict (\<open>None\<close>) is JSON null.\<close>

definition blob :: "(string \<times> json) list option \<Rightarrow> json" where
  "blob p = (case p of None \<Rightarrow> JNull | Some kvs \<Rightarrow> JObj kvs)"

text \<open>Merging writes into the permissions in place; a dict over a value that is none is a \<open>TypeError\<close>.\<close>

function combine_permissions :: "json \<Rightarrow> (string \<times> json) list \<Rightarrow> json result" where
  "combine_permissions p [] = Inr p"
| "combine_permissions p ((k, v) # rest) =
     (case p of
        JObj kvs \<Rightarrow>
          (case (case v of
                   JObj sub \<Rightarrow> combine_permissions (case map_of kvs k of None \<Rightarrow> JObj [] | Some old \<Rightarrow> old) sub
                 | _ \<Rightarrow> Inr (case map_of kvs k of None \<Rightarrow> v | Some old \<Rightarrow> if json_truthy old then old else v)) of
             Inl e \<Rightarrow> Inl e
           | Inr new \<Rightarrow> combine_permissions (JObj (AList.update k new kvs)) rest)
      | _ \<Rightarrow> Inl TypeError)"
  by pat_completeness auto
termination by (relation "measure (\<lambda>(p, g). size (JObj g))") auto

definition fold_renamed_group :: "(string \<times> json) list option \<Rightarrow> (string \<times> json) list option" where
  "fold_renamed_group p =
     (case p of
        None \<Rightarrow> None
      | Some kvs \<Rightarrow>
          (case map_of kvs OLD_NAME of
             None \<Rightarrow> Some kvs
           | Some v \<Rightarrow>
               (let folded = [kv \<leftarrow> kvs. fst kv \<noteq> OLD_NAME]
                in Some (if map_of folded NEW_NAME = None then folded @ [(NEW_NAME, v)] else folded))))"

definition merge_group :: "json result \<Rightarrow> group \<Rightarrow> json result" where
  "merge_group acc g =
     (case acc of
        Inl e \<Rightarrow> Inl e
      | Inr p \<Rightarrow>
          (case fold_renamed_group (g_permissions g) of
             None \<Rightarrow> Inl AttributeError
           | Some kvs \<Rightarrow> combine_permissions p kvs))"

definition get_permissions :: "dialect \<Rightarrow> string \<Rightarrow> (string \<times> json) list \<Rightarrow> group list \<Rightarrow> json result" where
  "get_permissions d user_id default_permissions groups =
     foldl merge_group (Inr (JObj default_permissions)) (get_groups_by_member_id d user_id groups)"

fun get_permission :: "json \<Rightarrow> string list \<Rightarrow> bool" where
  "get_permission p [] = json_truthy p"
| "get_permission p (k # ks) =
     (case p of
        JObj kvs \<Rightarrow> (case map_of kvs k of None \<Rightarrow> False | Some v \<Rightarrow> get_permission v ks)
      | _ \<Rightarrow> False)"

definition has_key :: "string \<Rightarrow> json \<Rightarrow> bool" where
  "has_key k p = (case p of JObj kvs \<Rightarrow> map_of kvs k \<noteq> None | _ \<Rightarrow> False)"

definition resolve_permission :: "json \<Rightarrow> string list \<Rightarrow> bool" where
  "resolve_permission p keys =
     (case keys of
        [] \<Rightarrow> get_permission p []
      | k # ks \<Rightarrow>
          if k = NEW_NAME \<and> \<not> has_key NEW_NAME p \<and> has_key OLD_NAME p
          then get_permission p (OLD_NAME # ks)
          else get_permission p keys)"

definition has_permission :: "dialect \<Rightarrow> string \<Rightarrow> string \<Rightarrow> (string \<times> json) list \<Rightarrow> group list \<Rightarrow> bool" where
  "has_permission d user_id permission_key default_permissions groups =
     (let keys = split_on (CHR ''.'') permission_key
      in list_ex (\<lambda>g. resolve_permission (blob (g_permissions g)) keys) (get_groups_by_member_id d user_id groups) \<or>
         resolve_permission (JObj default_permissions) keys)"

section \<open>Access to a resource\<close>

definition permitted :: "string \<Rightarrow> (string \<times> access_rule) list \<Rightarrow> string list \<times> string list" where
  "permitted ty ac =
     (case map_of ac ty of
        None \<Rightarrow> ([], [])
      | Some r \<Rightarrow> (case_option [] id (ar_group_ids r), case_option [] id (ar_user_ids r)))"

definition has_access :: "dialect \<Rightarrow> string \<Rightarrow> string \<Rightarrow> access_control \<Rightarrow> group list \<Rightarrow> bool" where
  "has_access d user_id ty ac groups =
     (case ac of
        None \<Rightarrow> ty = ''read''
      | Some rules \<Rightarrow>
          (let (group_ids, user_ids) = permitted ty rules
           in user_id \<in> set user_ids \<or>
              list_ex (\<lambda>g. g_id g \<in> set group_ids) (get_groups_by_member_id d user_id groups)))"

definition get_users_by_user_ids :: "string list \<Rightarrow> user list \<Rightarrow> user list" where
  "get_users_by_user_ids ids users = [u \<leftarrow> users. u_id u \<in> set ids]"

definition get_users_with_access :: "string \<Rightarrow> access_control \<Rightarrow> group list \<Rightarrow> user list \<Rightarrow> user list" where
  "get_users_with_access ty ac groups users =
     (case ac of
        None \<Rightarrow> users
      | Some rules \<Rightarrow>
          (let (group_ids, user_ids) = permitted ty rules
           in get_users_by_user_ids
                (user_ids @ concat (map (\<lambda>gid. case_option [] id (get_group_user_ids_by_id gid groups)) group_ids)) users))"

section \<open>The browsing gate\<close>

definition BROWSING_PERMISSION_KEY :: string where
  "BROWSING_PERMISSION_KEY = ''features.web_browsing''"

definition has_browsing_access :: "dialect \<Rightarrow> user \<Rightarrow> (string \<times> json) list \<Rightarrow> group list \<Rightarrow> bool" where
  "has_browsing_access d user user_permissions groups \<longleftrightarrow>
     u_role user = ''admin'' \<or> has_permission d (u_id user) BROWSING_PERMISSION_KEY user_permissions groups"

definition check_browsing_access :: "dialect \<Rightarrow> user \<Rightarrow> (string \<times> json) list \<Rightarrow> group list \<Rightarrow> unit result" where
  "check_browsing_access d user user_permissions groups =
     (if has_browsing_access d user user_permissions groups then Inr () else Inl (HTTPException 401))"

section \<open>Membership\<close>

text \<open>The characters of a generated key (lower-case hexadecimal digits and hyphens are among them).\<close>

definition id_char :: "char \<Rightarrow> bool" where
  "id_char c \<longleftrightarrow> (let n = code c in 48 \<le> n \<and> n \<le> 57 \<or> 97 \<le> n \<and> n \<le> 122 \<or> n = 45)"

definition plain_id :: "string \<Rightarrow> bool" where
  "plain_id s = list_all id_char s"

definition plain_members :: "group list \<Rightarrow> bool" where
  "plain_members groups = list_all (\<lambda>g. list_all plain_id (g_user_ids g)) groups"

lemma id_char_facts:
  assumes "id_char c"
  shows "json_escape c = [c]" "sql_plain c" "lower_char c = c" "c \<noteq> CHR 0x22" "c \<noteq> CHR '',''"
    "c \<noteq> CHR ''[''" "c \<noteq> CHR '']''"
  using assms by (auto simp: id_char_def json_escape_def sql_plain_def lower_char_def code_def Let_def)

lemma plain_id_facts:
  assumes "plain_id s"
  shows "concat (map json_escape s) = s" "list_all sql_plain s" "map lower_char s = s" "CHR 0x22 \<notin> set s"
    "s \<notin> {''['', '']'', ''[]'', '', ''}"
proof -
  from assms have c: "\<forall>c \<in> set s. id_char c" by (simp add: plain_id_def list_all_iff)
  show "concat (map json_escape s) = s" using c by (induction s) (simp_all add: id_char_facts)
  show "map lower_char s = s" using c by (induction s) (simp_all add: id_char_facts)
  show "list_all sql_plain s" using c by (auto simp: list_all_iff id_char_facts)
  show "CHR 0x22 \<notin> set s" using c id_char_facts(4) by blast
  show "s \<notin> {''['', '']'', ''[]'', '', ''}" using c id_char_facts(5-7) by force
qed

text \<open>Splitting the stored text at the quotes gives back the ids, between punctuation.\<close>

lemma split_quoted:
  "list_all plain_id xs \<Longrightarrow> xs \<noteq> [] \<Longrightarrow>
   split_on (CHR 0x22) (s @ py_join '', '' (map json_quote xs) @ t) =
     butlast (split_on (CHR 0x22) (s @ [CHR 0x22])) @ tl (concat (map (\<lambda>x. ['', '', x]) xs)) @
     tl (split_on (CHR 0x22) (CHR 0x22 # t))"
proof (induction xs arbitrary: s)
  case (Cons x xs)
  from Cons.prems(1) have x: "plain_id x" by simp
  note f = plain_id_facts [OF x]
  have q: "split_on (CHR 0x22) (s @ CHR 0x22 # x @ CHR 0x22 # r) = split_on (CHR 0x22) s @ [x] @ split_on (CHR 0x22) r" for r
    by (simp add: split_on_append split_on_free [OF f(4)])
  show ?case
  proof (cases xs)
    case Nil
    then show ?thesis using q [of t] by (simp add: json_quote_def f(1) split_on_append)
  next
    case (Cons y ys)
    have "py_join '', '' (map json_quote (x # xs)) = json_quote x @ '', '' @ py_join '', '' (map json_quote xs)"
      using Cons by simp
    then have "split_on (CHR 0x22) (s @ py_join '', '' (map json_quote (x # xs)) @ t) =
        split_on (CHR 0x22) s @ [x] @ split_on (CHR 0x22) ('', '' @ py_join '', '' (map json_quote xs) @ t)"
      using q by (simp add: json_quote_def f(1))
    also have "split_on (CHR 0x22) ('', '' @ py_join '', '' (map json_quote xs) @ t) =
        '', '' # tl (concat (map (\<lambda>x. ['', '', x]) xs)) @ tl (split_on (CHR 0x22) (CHR 0x22 # t))"
      using Cons.IH [of "'', ''"] Cons.prems Cons by simp
    finally show ?thesis using Cons by (simp add: split_on_append)
  qed
qed simp

lemma dumps_segments:
  assumes "list_all plain_id xs"
  shows "set (split_on (CHR 0x22) (json_dumps_strings xs)) \<subseteq> set xs \<union> {''['', '']'', ''[]'', '', ''}"
proof (cases "xs = []")
  case False
  have "json_dumps_strings xs = ''['' @ py_join '', '' (map json_quote xs) @ '']''" by (simp add: json_dumps_strings_def)
  moreover have "set (tl (concat (map (\<lambda>x. ['', '', x]) xs))) \<subseteq> set xs \<union> {'', ''}"
    using False by (cases xs) auto
  ultimately show ?thesis using split_quoted [OF assms False, of "''[''" "'']''"] by auto
qed (simp add: json_dumps_strings_def)

lemma dumps_mem:
  assumes "list_all plain_id xs" and "u \<in> set xs"
  shows "\<exists>t v. json_dumps_strings xs = t @ (CHR 0x22 # u @ [CHR 0x22]) @ v"
proof -
  have n: "\<exists>t v. json_quote u = t @ json_quote u @ v" by (intro exI [of _ "[]"]) simp
  have j: "\<exists>t v. py_join '', '' (map json_quote xs) = t @ json_quote u @ v" using assms(2)
  proof (induction "'', ''" "map json_quote xs" arbitrary: xs rule: py_join.induct)
    case (3 s1 s2 ss)
    then obtain x y zs where xs: "xs = x # y # zs" by (cases xs; cases "tl xs") auto
    show ?case
    proof (cases "u = x")
      case True
      with xs show ?thesis
        by (intro exI [of _ "[]"] exI [of _ "'', '' @ py_join '', '' (map json_quote (y # zs))"]) simp
    next
      case False
      then obtain t v where "py_join '', '' (map json_quote (y # zs)) = t @ json_quote u @ v"
        using 3(1) [of "y # zs"] 3(2,3) xs by auto
      with xs show ?thesis by (intro exI [of _ "json_quote x @ '', '' @ t"] exI [of _ v]) simp
    qed
  next
    case (2 s)
    then have "xs = [u]" by (cases xs) auto
    with n show ?case by simp
  qed simp
  from assms have "plain_id u" by (simp add: list_all_iff)
  with j show ?thesis
    by (auto simp: json_dumps_strings_def json_quote_def plain_id_facts) (metis append_Cons append_assoc)
qed

lemma lower_dumps:
  assumes "list_all plain_id xs"
  shows "map lower_char (json_dumps_strings xs) = json_dumps_strings xs"
proof -
  have j: "map lower_char (py_join sep ys) = py_join (map lower_char sep) (map (map lower_char) ys)" for sep ys
    by (induction sep ys rule: py_join.induct) simp_all
  have q: "map lower_char (json_quote x) = json_quote x" if "plain_id x" for x
    using plain_id_facts [OF that] by (simp add: json_quote_def lower_char_def code_def)
  have m: "map (map lower_char) (map json_quote xs) = map json_quote xs"
    using assms q by (auto simp: list_all_iff)
  have sep: "lower_char (CHR '','') = CHR '',''" "lower_char (CHR '' '') = CHR '' ''" "lower_char (CHR ''['') = CHR ''[''" "lower_char (CHR '']'') = CHR '']''"
    by (simp_all add: lower_char_def code_def)
  show ?thesis unfolding json_dumps_strings_def by (simp only: list.map map_append j m sep)
qed

lemma member_text:
  assumes "plain_id u" and "list_all plain_id xs"
  shows "sql_like d (CHR ''%'' # (CHR 0x22 # u @ [CHR 0x22]) @ [CHR ''%'']) (json_dumps_strings xs) \<longleftrightarrow> u \<in> set xs"
proof -
  let ?f = "if d = Sqlite then lower_char else id"
  let ?p = "CHR 0x22 # u @ [CHR 0x22]"
  note f = plain_id_facts [OF assms(1)]
  have p: "list_all sql_plain ?p" using f(2) by (simp add: sql_plain_def)
  have e: "map ?f ?p = ?p" using f(3) by (simp add: lower_char_def code_def)
  have low: "map ?f (json_dumps_strings xs) = json_dumps_strings xs" using lower_dumps [OF assms(2)] by simp
  have "(\<exists>t w v. json_dumps_strings xs = t @ w @ v \<and> map ?f w = ?p) \<longleftrightarrow> u \<in> set xs" (is "?l \<longleftrightarrow> ?r")
  proof
    assume ?l
    then obtain t w v where w: "json_dumps_strings xs = t @ w @ v" "map ?f w = ?p" by (elim exE conjE)
    from low have "map ?f t @ map ?f w @ map ?f v = t @ w @ v" unfolding w(1) by (simp only: map_append)
    then have "map ?f w = w" by simp
    with w have "json_dumps_strings xs = t @ CHR 0x22 # (u @ CHR 0x22 # v)" by simp
    then have "split_on (CHR 0x22) (json_dumps_strings xs) = split_on (CHR 0x22) t @ [u] @ split_on (CHR 0x22) v"
      by (simp only: split_on_append split_on_free [OF f(4)])
    then have "u \<in> set (split_on (CHR 0x22) (json_dumps_strings xs))" by simp
    with dumps_segments [OF assms(2)] f(5) show ?r by auto
  next
    assume ?r
    from dumps_mem [OF assms(2) this] e show ?l by metis
  qed
  then show ?thesis unfolding sql_like_def sql_match_infix [OF p] e .
qed

text \<open>
  C34: The membership query finds exactly the groups a user is in. Although it searches the stored
  JSON text for the quoted id, on either database, for generated keys it returns the groups whose
  member list contains the user, most recently changed first: no key is found inside another one,
  across two entries or in the punctuation.
\<close>

theorem membership_query_exact:
  assumes "plain_id user_id" and "plain_members groups"
  shows "get_groups_by_member_id d user_id groups =
           sort_key (\<lambda>g. - g_updated_at g) [g \<leftarrow> groups. user_id \<in> set (g_user_ids g)]"
proof -
  have "0 < length (g_user_ids g) \<and>
      sql_like d (CHR ''%'' # (CHR 0x22 # user_id @ [CHR 0x22]) @ [CHR ''%'']) (json_dumps_strings (g_user_ids g)) \<longleftrightarrow>
      user_id \<in> set (g_user_ids g)" if "g \<in> set groups" for g
    using that assms(2) member_text [OF assms(1)] by (auto simp: plain_members_def list_all_iff)
  then show ?thesis unfolding get_groups_by_member_id_def by (simp cong: filter_cong)
qed

definition sample_group :: "string \<Rightarrow> string list \<Rightarrow> (string \<times> json) list option \<Rightarrow> group" where
  "sample_group gid members p =
     \<lparr>g_id = gid, g_user_id = ''a1'', g_name = gid, g_description = [], g_data = None, g_meta = None,
      g_permissions = p, g_user_ids = members, g_created_at = 1, g_updated_at = 1\<rparr>"

lemmas id_defs = plain_members_def plain_id_def id_char_def code_def

theorem membership_query_exact_witness:
  "get_groups_by_member_id Sqlite ''b2'' [sample_group ''g1'' [''a1'', ''b2''] None, sample_group ''g2'' [''b22''] None] =
     [sample_group ''g1'' [''a1'', ''b2''] None]"
proof -
  have "plain_id ''b2''" by (simp add: id_defs)
  moreover have "plain_members [sample_group ''g1'' [''a1'', ''b2''] None, sample_group ''g2'' [''b22''] None]"
    by (simp add: id_defs sample_group_def)
  ultimately show ?thesis by (simp add: membership_query_exact) (simp add: sample_group_def)
qed

section \<open>Client and server agree on permissions\<close>

text \<open>The keys of a Python dict are distinct, at every level of a stored blob.\<close>

fun json_ok :: "json \<Rightarrow> bool" where
  "json_ok (JObj kvs) \<longleftrightarrow> distinct (map fst kvs) \<and> (\<forall>kv \<in> set kvs. json_ok (snd kv))"
| "json_ok (JList xs) \<longleftrightarrow> (\<forall>x \<in> set xs. json_ok x)"
| "json_ok _ \<longleftrightarrow> True"

lemma get_permission_leaf: "(\<And>kvs. p \<noteq> JObj kvs) \<Longrightarrow> ks \<noteq> [] \<Longrightarrow> \<not> get_permission p ks"
  by (cases ks; cases p) auto

lemma get_permission_falsy: "\<not> json_truthy p \<Longrightarrow> \<not> get_permission p ks"
  by (cases ks; cases p) simp_all

lemma get_permission_obj:
  "get_permission (JObj kvs) (k # ks) \<longleftrightarrow> (\<exists>v. map_of kvs k = Some v \<and> get_permission v ks)"
  by (simp split: option.split)

text \<open>What a leaf of a group does to an entry: nothing is taken away and the leaf's grant is added.\<close>

lemma combine_leaf:
  assumes "\<And>kvs. v \<noteq> JObj kvs"
  shows "get_permission (case old of None \<Rightarrow> v | Some w \<Rightarrow> if json_truthy w then w else v) ks \<longleftrightarrow>
         (\<exists>w. old = Some w \<and> get_permission w ks) \<or> get_permission v ks"
proof (cases ks)
  case Nil
  then show ?thesis by (auto split: option.split)
next
  case (Cons a list)
  then have v: "\<not> get_permission v ks" using get_permission_leaf [OF assms] by blast
  show ?thesis
  proof (cases old)
    case (Some w)
    with v get_permission_falsy [of w ks] show ?thesis by (cases "json_truthy w") simp_all
  qed simp
qed

text \<open>Merging a group adds exactly its grants: a path is granted afterwards iff it was before or is in the group.\<close>

lemma combine_permissions_grants:
  "combine_permissions p g = Inr r \<Longrightarrow> json_ok (JObj g) \<Longrightarrow>
   get_permission r ks \<longleftrightarrow> get_permission p ks \<or> get_permission (JObj g) ks"
proof (induction p g arbitrary: r ks rule: combine_permissions.induct)
  case (1 p)
  then show ?case by (cases ks) simp_all
next
  case (2 p k v rest)
  from 2(3) obtain kvs where p: "p = JObj kvs" by (cases p) simp_all
  let ?old = "map_of kvs k"
  define new where "new = (case v of JObj sub \<Rightarrow> combine_permissions (case ?old of None \<Rightarrow> JObj [] | Some old \<Rightarrow> old) sub
      | _ \<Rightarrow> Inr (case ?old of None \<Rightarrow> v | Some old \<Rightarrow> if json_truthy old then old else v))"
  from 2(3) p obtain n where n: "new = Inr n" "combine_permissions (JObj (AList.update k n kvs)) rest = Inr r"
    unfolding new_def by (simp split: sum.splits)
  have rest: "get_permission r ks \<longleftrightarrow> get_permission (JObj (AList.update k n kvs)) ks \<or> get_permission (JObj rest) ks" for ks
    using 2(2) [OF p n(1) [unfolded new_def] n(2)] 2(4) by simp
  have entry: "get_permission n t \<longleftrightarrow> (\<exists>w. ?old = Some w \<and> get_permission w t) \<or> get_permission v t" for t
  proof (cases "\<exists>sub. v = JObj sub")
    case True
    then obtain sub where v: "v = JObj sub" by blast
    then have "get_permission n t \<longleftrightarrow> get_permission (case ?old of None \<Rightarrow> JObj [] | Some old \<Rightarrow> old) t \<or> get_permission (JObj sub) t"
      using 2(1) [OF p v] n(1) 2(4) unfolding new_def by simp
    moreover have "\<not> get_permission (JObj []) t" by (rule get_permission_falsy) simp
    ultimately show ?thesis using v by (cases ?old) simp_all
  next
    case False
    then have "n = (case ?old of None \<Rightarrow> v | Some old \<Rightarrow> if json_truthy old then old else v)"
      using n(1) unfolding new_def by (cases v) simp_all
    with combine_leaf [of v ?old t] False show ?thesis by simp
  qed
  show ?case
  proof (cases ks)
    case Nil
    have "AList.update k n kvs \<noteq> []" by (cases kvs) (auto split: if_splits)
    with Nil rest [of "[]"] show ?thesis by simp
  next
    case (Cons k' t)
    from 2(4) have k: "map_of rest k = None" by (auto simp: map_of_eq_None_iff)
    show ?thesis
    proof (cases "k' = k")
      case True
      with Cons rest [of ks] entry [of t] k show ?thesis
        unfolding p Cons get_permission_obj by (simp add: update_conv)
    next
      case False
      with rest [of ks] show ?thesis unfolding p Cons get_permission_obj by (simp add: update_conv)
    qed
  qed
qed

lemma map_of_without: "map_of [kv \<leftarrow> kvs. fst kv \<noteq> k0] k = (if k = k0 then None else map_of kvs k)"
  by (induction kvs) auto

lemma fold_renamed_resolves:
  assumes "fold_renamed_group p = Some kvs" and "k \<noteq> OLD_NAME"
  shows "get_permission (JObj kvs) (k # ks) \<longleftrightarrow> resolve_permission (blob p) (k # ks)"
proof -
  have ne: "NEW_NAME \<noteq> OLD_NAME" by (simp add: NEW_NAME_def OLD_NAME_def)
  from assms(1) obtain q where p: "p = Some q" by (cases p) (simp_all add: fold_renamed_group_def)
  note d = p blob_def resolve_permission_def has_key_def map_of_without map_add_def
  show ?thesis
  proof (cases "map_of q OLD_NAME")
    case None
    with assms(1) p have "kvs = q" by (simp add: fold_renamed_group_def)
    with None show ?thesis by (simp add: d)
  next
    case (Some v)
    with assms(1) p ne have kvs: "kvs = (if map_of q NEW_NAME = None
        then [kv \<leftarrow> q. fst kv \<noteq> OLD_NAME] @ [(NEW_NAME, v)] else [kv \<leftarrow> q. fst kv \<noteq> OLD_NAME])"
      by (simp add: fold_renamed_group_def Let_def map_of_without)
    show ?thesis unfolding kvs using Some assms(2) ne by (auto simp: d split: option.split)
  qed
qed

lemma fold_renamed_ok: "json_ok (blob p) \<Longrightarrow> fold_renamed_group p = Some kvs \<Longrightarrow> json_ok (JObj kvs)"
  by (cases p) (fastforce simp: fold_renamed_group_def blob_def Let_def distinct_map_filter map_of_eq_None_iff
      split: option.splits if_splits dest!: map_of_SomeD)+

lemma merge_groups_grants:
  "foldl merge_group (Inr p) gs = Inr r \<Longrightarrow> \<forall>g \<in> set gs. json_ok (blob (g_permissions g)) \<Longrightarrow> k \<noteq> OLD_NAME \<Longrightarrow>
   get_permission r (k # ks) \<longleftrightarrow>
     get_permission p (k # ks) \<or> (\<exists>g \<in> set gs. resolve_permission (blob (g_permissions g)) (k # ks))"
proof (induction gs arbitrary: p)
  case (Cons g gs)
  have err: "foldl merge_group (Inl e) hs = Inl e" for e hs by (induction hs) (simp_all add: merge_group_def)
  from Cons.prems(1) err obtain p' where p': "merge_group (Inr p) g = Inr p'" by (cases "merge_group (Inr p) g") simp_all
  then obtain kvs where kvs: "fold_renamed_group (g_permissions g) = Some kvs" "combine_permissions p kvs = Inr p'"
    by (auto simp: merge_group_def split: option.splits)
  have "json_ok (JObj kvs)" using fold_renamed_ok [OF _ kvs(1)] Cons.prems(2) by simp
  from combine_permissions_grants [OF kvs(2) this] fold_renamed_resolves [OF kvs(1) Cons.prems(3)]
  have "get_permission p' (k # ks) \<longleftrightarrow> get_permission p (k # ks) \<or> resolve_permission (blob (g_permissions g)) (k # ks)" by (simp only:)
  moreover have "foldl merge_group (Inr p') gs = Inr r" using Cons.prems(1) p' by simp
  from Cons.IH [OF this] Cons.prems(2,3) have "get_permission r (k # ks) \<longleftrightarrow> get_permission p' (k # ks) \<or>
      (\<exists>g \<in> set gs. resolve_permission (blob (g_permissions g)) (k # ks))" by simp
  ultimately show ?case by (simp only: list.set insert_iff bex_simps) blast
qed (simp only: foldl.simps sum.inject, simp)

text \<open>
  C11: What the client is shown and what the server permits agree. The client reads a permission out of
  the merged tree it was sent at sign-in; the server asks the groups one by one. Whenever the merged
  tree is built, looking a permission up in it gives the server's answer, for every permission of
  the current naming, also for groups stored under the old name of the renamed block and for groups
  that carry both, provided the default blob itself is in the current naming.
\<close>

theorem client_sees_what_server_permits:
  assumes "get_permissions d user_id defaults groups = Inr shown"
    and "\<forall>g \<in> set groups. json_ok (blob (g_permissions g))"
    and "split_on (CHR ''.'') key = k # ks" and "k \<noteq> OLD_NAME"
    and "map_of defaults OLD_NAME = None \<or> map_of defaults NEW_NAME \<noteq> None"
  shows "has_permission d user_id key defaults groups \<longleftrightarrow> get_permission shown (k # ks)"
proof -
  let ?gs = "get_groups_by_member_id d user_id groups"
  have sub: "set ?gs \<subseteq> set groups" by (auto simp: get_groups_by_member_id_def)
  have "resolve_permission (JObj defaults) (k # ks) \<longleftrightarrow> get_permission (JObj defaults) (k # ks)"
    using assms(5) by (auto simp: resolve_permission_def has_key_def)
  moreover have "get_permission shown (k # ks) \<longleftrightarrow> get_permission (JObj defaults) (k # ks) \<or>
      (\<exists>g \<in> set ?gs. resolve_permission (blob (g_permissions g)) (k # ks))"
    by (rule merge_groups_grants) (use assms sub in \<open>auto simp: get_permissions_def\<close>)
  ultimately show ?thesis by (auto simp: has_permission_def assms(3) list_ex_iff)
qed

definition sample_defaults :: "(string \<times> json) list" where
  "sample_defaults = [(''studio'', JObj [(''models'', JBool False)]), (''chat'', JObj [(''delete'', JBool True)])]"

definition old_style_group :: group where
  "old_style_group = sample_group ''g1'' [''b2''] (Some [(''workspace'', JObj [(''models'', JBool True)])])"

lemma sample_text:
  "sql_like Sqlite [CHR ''%'', CHR 0x22, CHR ''b'', CHR ''2'', CHR 0x22, CHR ''%''] (json_dumps_strings [''b2''])"
  using member_text [of "''b2''" "[''b2'']" Sqlite] by (simp add: id_defs)

lemma sample_membership: "get_groups_by_member_id Sqlite ''b2'' [old_style_group] = [old_style_group]"
  by (simp add: get_groups_by_member_id_def sample_text old_style_group_def sample_group_def)

lemmas permission_run_defs =
  get_permissions_def merge_group_def fold_renamed_group_def OLD_NAME_def NEW_NAME_def Let_def

lemma sample_shown:
  "get_permissions Sqlite ''b2'' sample_defaults [old_style_group] =
     Inr (JObj [(''studio'', JObj [(''models'', JBool True)]), (''chat'', JObj [(''delete'', JBool True)])])"
  by (simp add: permission_run_defs sample_membership sample_defaults_def)
    (simp add: old_style_group_def sample_group_def OLD_NAME_def NEW_NAME_def)

theorem client_sees_what_server_permits_witness:
  "has_permission Sqlite ''b2'' ''studio.models'' sample_defaults [old_style_group]"
proof -
  have k: "split_on (CHR ''.'') ''studio.models'' = [''studio'', ''models'']" by simp
  from client_sees_what_server_permits [OF sample_shown _ k] show ?thesis
    by (simp add: old_style_group_def sample_group_def blob_def OLD_NAME_def NEW_NAME_def sample_defaults_def)
qed

text \<open>
  A permission that an administrator has turned off is not revived by the stale half of a
  half-migrated blob: in a group that has the renamed block, whatever it says about a permission
  decides, and what the block of the old name says is not consulted.
\<close>

lemma renamed_block_decides:
  assumes "map_of kvs NEW_NAME = Some v"
  shows "resolve_permission (JObj kvs) (NEW_NAME # ks) = get_permission v ks"
  using assms by (simp add: resolve_permission_def has_key_def)

section \<open>Access lists\<close>

interpretation group_write: row_write g_id "group_update_row now form" for now form
  by unfold_locales (simp add: group_update_row_def)

text \<open>
  The listing of users with access agrees with the check. For a resource with an access list a
  user of the table is listed for a kind of access exactly if the check grants it to that user,
  directly or through a group. A resource without a list is where they part: everybody is listed
  for every kind of access, but the check grants only reading.
\<close>

theorem access_listing_agrees:
  assumes "u \<in> set users" and "plain_id (u_id u)" and "plain_members groups" and "unique_by g_id groups"
  shows "(u \<in> set (get_users_with_access ty (Some rules) groups users) \<longleftrightarrow> has_access d (u_id u) ty (Some rules) groups) \<and>
         u \<in> set (get_users_with_access ty None groups users) \<and> (has_access d (u_id u) ty None groups \<longleftrightarrow> ty = ''read'')"
proof -
  obtain group_ids user_ids where p: "permitted ty rules = (group_ids, user_ids)" by fastforce
  have "(\<exists>gid \<in> set group_ids. u_id u \<in> set (case_option [] id (get_group_user_ids_by_id gid groups))) \<longleftrightarrow>
      (\<exists>g \<in> set groups. u_id u \<in> set (g_user_ids g) \<and> g_id g \<in> set group_ids)" (is "?l \<longleftrightarrow> ?r")
  proof
    assume ?l
    then obtain gid g where "gid \<in> set group_ids" "find_by g_id gid groups = Some g" "u_id u \<in> set (g_user_ids g)"
      unfolding get_group_user_ids_by_id_def get_group_by_id_def by (auto split: option.splits dest: sym)
    with find_by_mem find_by_key show ?r by metis
  next
    assume ?r
    then obtain g where g: "g \<in> set groups" "u_id u \<in> set (g_user_ids g)" "g_id g \<in> set group_ids" by blast
    with unique_by_find [OF assms(4) g(1)] show ?l
      by (intro bexI [of _ "g_id g"]) (simp_all add: get_group_user_ids_by_id_def get_group_by_id_def)
  qed
  moreover have "set (get_groups_by_member_id d (u_id u) groups) = {g \<in> set groups. u_id u \<in> set (g_user_ids g)}"
    using member_text [OF assms(2)] assms(3)
    by (auto simp: get_groups_by_member_id_def plain_members_def list_all_iff)
  ultimately show ?thesis
    using assms(1) by (auto simp: get_users_with_access_def has_access_def p get_users_by_user_ids_def list_ex_iff)
qed

theorem access_listing_agrees_witness:
  "has_access Sqlite ''b2'' ''write'' (Some [(''write'', \<lparr>ar_group_ids = Some [''g1''], ar_user_ids = None\<rparr>)]) [old_style_group]"
proof -
  let ?u = "\<lparr>u_id = ''b2'', u_role = ''user''\<rparr>"
  have "?u \<in> set (get_users_with_access ''write'' (Some [(''write'', \<lparr>ar_group_ids = Some [''g1''], ar_user_ids = None\<rparr>)])
      [old_style_group] [?u])"
    by (simp add: get_users_with_access_def permitted_def get_users_by_user_ids_def get_group_user_ids_by_id_def
        get_group_by_id_def old_style_group_def sample_group_def)
  with access_listing_agrees [of ?u "[?u]" "[old_style_group]" "''write''" _ Sqlite] show ?thesis
    by (simp add: id_defs old_style_group_def sample_group_def)
qed

text \<open>
  A group to which members are added before permissions locks its members out of the client. A
  group is created without a permission blob; when its members are then set by an update that does
  not send one, the server-side check goes on to the default permissions, but the merged tree that
  sign-in sends to the client is never built: merging the missing blob raises.
\<close>

theorem group_without_permissions_breaks_sign_in:
  "let form = \<lparr>gf_name = ''new'', gf_description = [], gf_permissions = None, gf_user_ids = Some [''b2'']\<rparr>;
       groups = fst (update_group_by_id True 2 ''g9'' form (fst (insert_new_group True 1 ''g9'' ''a1'' ''new'' [] [])))
   in get_permissions Sqlite ''b2'' sample_defaults groups = Inl AttributeError \<and>
      has_permission Sqlite ''b2'' ''chat.delete'' sample_defaults groups"
  by (simp add: permission_run_defs has_permission_def update_group_by_id_def insert_new_group_def group_update_row_def
      get_groups_by_member_id_def sample_text sample_defaults_def resolve_permission_def has_key_def)

end
