(* ===== verification/Model_Versions.thy ===== *)
theory Model_Versions
  imports Gpu_Dispatch Access_Control "HOL-Library.Sublist"
begin

text \<open>
  Model lines and their versions: the tables (\<open>models/model_versions.py\<close>), the service every
  producer calls (\<open>utils/model_versions.py\<close>) and the endpoints (\<open>routers/model_versions.py\<close>).
  The two tables are lists of rows; \<open>vd_commits\<close> logs the commits made in self.corpus, which the
  code can neither take back nor see in the tables. Everything outside is the environment of a
  call: the clock, the ids minted, whether a row write succeeds, what self.corpus and the trainer
  answer, and what other requests do to the tables while the commit is awaited.

  The lemmas show that every operation keeps the history of a line walkable, that the walk
  through it ends and returns the whole of it, that a version row is only ever written for a
  commit that was made, what a publish starts from and what it leaves behind when it fails, and
  that the picker shows a line once.
\<close>

section \<open>Data\<close>

record model_line =
  ml_id :: string
  ml_name :: string
  ml_user_id :: string
  ml_corpus_repo :: "string option"
  ml_current_version_id :: "string option"
  ml_access_control :: access_control
  ml_meta :: "(string \<times> json) list option"
  ml_created_at :: int
  ml_updated_at :: int

record model_version =
  mv_id :: string
  mv_line_id :: string
  mv_sequence :: int
  mv_kind :: string
  mv_corpus_commit_id :: string
  mv_parent_version_id :: "string option"
  mv_base_version_id :: "string option"
  mv_produced_by :: "(string \<times> json) list option"
  mv_published_by :: "string option"
  mv_artifact_ref :: "string option"
  mv_meta :: "(string \<times> json) list option"
  mv_created_at :: int

record line_form =
  lf_name :: string
  lf_corpus_repo :: "string option"
  lf_access_control :: access_control
  lf_meta :: "(string \<times> json) list option"

record version_form =
  vf_kind :: string
  vf_corpus_commit_id :: string
  vf_parent_version_id :: "string option"
  vf_base_version_id :: "string option"
  vf_produced_by :: "(string \<times> json) list option"
  vf_published_by :: "string option"
  vf_artifact_ref :: "string option"
  vf_meta :: "(string \<times> json) list option"

record version_db =
  vd_lines :: "model_line list"
  vd_versions :: "model_version list"
  vd_commits :: "(string \<times> string) list"

text \<open>
  The reasons an operation raises for. \<open>Provenance_\<close> is raised as \<open>ProvenanceBroken\<close>,
  \<open>Unresolvable_\<close> as \<open>VersionUnresolvable\<close>, \<open>Corpus_error\<close> by the self.corpus client and \<open>Py_error\<close> by
  the language; the rest is \<open>ModelVersionError\<close>.
\<close>

datatype version_error =
    Line_not_found | Invalid_kind | Parent_not_found | Parent_on_other_line | Parent_required
  | Base_not_on_line | Base_not_base | Commit_id_missing | Own_parent | Write_failed
  | Version_not_of_line | Line_has_versions | No_corpus_repo | Line_not_created | Repo_not_attached
  | Manifest_not_staged | No_versions | No_base | Nothing_to_publish | Base_gone | Adapters_gone "string list"
  | No_task_id | Move_failed
  | Provenance_not_found | Provenance_cycle string | Provenance_gap string string
  | Unresolvable_not_found | Unresolvable_base string | Unresolvable_no_base
  | Unresolvable_no_artifact string | Unresolvable_artifact_missing string
  | Corpus_error | Py_error py_exn

definition provenance_broken :: "version_error \<Rightarrow> bool" where
  "provenance_broken e = (case e of
     Provenance_not_found \<Rightarrow> True | Provenance_cycle _ \<Rightarrow> True | Provenance_gap _ _ \<Rightarrow> True | _ \<Rightarrow> False)"

definition version_unresolvable :: "version_error \<Rightarrow> bool" where
  "version_unresolvable e = (case e of
     Unresolvable_not_found \<Rightarrow> True | Unresolvable_base _ \<Rightarrow> True | Unresolvable_no_base \<Rightarrow> True
   | Unresolvable_no_artifact _ \<Rightarrow> True | Unresolvable_artifact_missing _ \<Rightarrow> True | _ \<Rightarrow> False)"

definition model_version_error :: "version_error \<Rightarrow> bool" where
  "model_version_error e = (case e of Corpus_error \<Rightarrow> False | Py_error _ \<Rightarrow> False | _ \<Rightarrow> True)"

section \<open>The tables\<close>

definition VERSION_KINDS :: "string list" where
  "VERSION_KINDS = [''base'', ''adapter'']"

definition insert_new_line ::
    "bool \<Rightarrow> int \<Rightarrow> string \<Rightarrow> string \<Rightarrow> line_form \<Rightarrow> version_db \<Rightarrow> version_db \<times> model_line option" where
  "insert_new_line ok now uuid user form db =
     (let line = \<lparr>ml_id = uuid, ml_name = lf_name form, ml_user_id = user, ml_corpus_repo = lf_corpus_repo form,
                  ml_current_version_id = None, ml_access_control = lf_access_control form, ml_meta = lf_meta form,
                  ml_created_at = now, ml_updated_at = now\<rparr>
      in if ok \<and> uuid \<notin> set (map ml_id (vd_lines db))
         then (db\<lparr>vd_lines := vd_lines db @ [line]\<rparr>, Some line) else (db, None))"

definition get_lines_by_user_id :: "string \<Rightarrow> version_db \<Rightarrow> model_line list" where
  "get_lines_by_user_id user db = [l \<leftarrow> vd_lines db. ml_user_id l = user]"

definition get_line_by_id :: "string \<Rightarrow> version_db \<Rightarrow> model_line option" where
  "get_line_by_id lid db = find_by ml_id lid (vd_lines db)"

definition get_line_by_corpus_repo :: "string \<Rightarrow> version_db \<Rightarrow> model_line option" where
  "get_line_by_corpus_repo repo db = find_by ml_corpus_repo (Some repo) (vd_lines db)"

definition write_line :: "string \<Rightarrow> (model_line \<Rightarrow> model_line) \<Rightarrow> version_db \<Rightarrow> version_db" where
  "write_line lid f db = db\<lparr>vd_lines := update_by ml_id lid f (vd_lines db)\<rparr>"

definition update_corpus_repo ::
    "bool \<Rightarrow> int \<Rightarrow> string \<Rightarrow> string \<Rightarrow> version_db \<Rightarrow> version_db \<times> model_line option" where
  "update_corpus_repo ok now lid repo db =
     (if ok then (let db' = write_line lid (\<lambda>l. l\<lparr>ml_corpus_repo := Some repo, ml_updated_at := now\<rparr>) db
                  in (db', get_line_by_id lid db'))
      else (db, None))"

definition get_version_by_id :: "string \<Rightarrow> version_db \<Rightarrow> model_version option" where
  "get_version_by_id vid db = find_by mv_id vid (vd_versions db)"

definition get_versions_by_line :: "string \<Rightarrow> version_db \<Rightarrow> model_version list" where
  "get_versions_by_line lid db = sort_key mv_sequence [v \<leftarrow> vd_versions db. mv_line_id v = lid]"

text \<open>\<open>list(meta.get("version_moves") or [])\<close>: a free-form value of the form may sit there.\<close>

definition moves_of :: "(string \<times> json) list \<Rightarrow> py_exn + json list" where
  "moves_of meta =
     (case map_of meta ''version_moves'' of
        None \<Rightarrow> Inr []
      | Some v \<Rightarrow>
          if \<not> json_truthy v then Inr []
          else (case v of
                  JList xs \<Rightarrow> Inr xs
                | JStr s \<Rightarrow> Inr (map (\<lambda>c. JStr [c]) s)
                | JObj kvs \<Rightarrow> Inr (map (JStr \<circ> fst) kvs)
                | _ \<Rightarrow> Inl TypeError))"

definition opt_str :: "string option \<Rightarrow> json" where
  "opt_str x = (case x of None \<Rightarrow> JNull | Some s \<Rightarrow> JStr s)"

definition move_row :: "int \<Rightarrow> string \<Rightarrow> (string \<times> json) list \<Rightarrow> model_line \<Rightarrow> model_line" where
  "move_row now vid meta l = l\<lparr>ml_current_version_id := Some vid, ml_meta := Some meta, ml_updated_at := now\<rparr>"

definition set_current_version ::
    "bool \<Rightarrow> int \<Rightarrow> string \<Rightarrow> string \<Rightarrow> string option \<Rightarrow> version_db \<Rightarrow> version_db \<times> (version_error + model_line option)" where
  "set_current_version ok now lid vid moved_by db =
     (case get_version_by_id vid db of
        None \<Rightarrow> (db, Inl Version_not_of_line)
      | Some v \<Rightarrow>
          if mv_line_id v \<noteq> lid then (db, Inl Version_not_of_line)
          else (case get_line_by_id lid db of
                  None \<Rightarrow> (db, Inl Line_not_found)
                | Some line \<Rightarrow>
                    (let meta = case_option [] id (ml_meta line)
                     in case moves_of meta of
                          Inl e \<Rightarrow> (db, Inl (Py_error e))
                        | Inr history \<Rightarrow>
                            (let move = JObj [(''to'', JStr vid), (''from'', opt_str (ml_current_version_id line)),
                                              (''at'', JInt now), (''by'', opt_str moved_by)];
                                 meta' = AList.update ''version_moves'' (JList (history @ [move])) meta
                             in if ok then (let db' = write_line lid (move_row now vid meta') db
                                            in (db', Inr (get_line_by_id lid db')))
                                else (db, Inr None)))))"

definition delete_line_by_id :: "bool \<Rightarrow> string \<Rightarrow> version_db \<Rightarrow> version_db \<times> (version_error + bool)" where
  "delete_line_by_id ok lid db =
     (if get_versions_by_line lid db \<noteq> [] then (db, Inl Line_has_versions)
      else if ok then (db\<lparr>vd_lines := [l \<leftarrow> vd_lines db. ml_id l \<noteq> lid]\<rparr>, Inr True)
      else (db, Inr False))"

definition validate_append ::
    "string \<Rightarrow> string \<Rightarrow> string option \<Rightarrow> string option \<Rightarrow> version_db \<Rightarrow> version_error + unit" where
  "validate_append lid kind parent base db =
     (if get_line_by_id lid db = None then Inl Line_not_found
      else if kind \<notin> set VERSION_KINDS then Inl Invalid_kind
      else case (case parent of
                   Some p \<Rightarrow> (case get_version_by_id p db of
                                None \<Rightarrow> Inl Parent_not_found
                              | Some v \<Rightarrow> if mv_line_id v \<noteq> lid then Inl Parent_on_other_line else Inr ())
                 | None \<Rightarrow> if get_versions_by_line lid db \<noteq> [] then Inl Parent_required else Inr ()) of
             Inl e \<Rightarrow> Inl e
           | Inr _ \<Rightarrow>
               (case base of
                  None \<Rightarrow> Inr ()
                | Some b \<Rightarrow> (case get_version_by_id b db of
                               None \<Rightarrow> Inl Base_not_on_line
                             | Some v \<Rightarrow> if mv_line_id v \<noteq> lid then Inl Base_not_on_line
                                         else if mv_kind v \<noteq> ''base'' then Inl Base_not_base else Inr ())))"

definition version_row :: "int \<Rightarrow> string \<Rightarrow> string \<Rightarrow> int \<Rightarrow> version_form \<Rightarrow> model_version" where
  "version_row now uuid lid seq form =
     \<lparr>mv_id = uuid, mv_line_id = lid, mv_sequence = seq, mv_kind = vf_kind form,
      mv_corpus_commit_id = vf_corpus_commit_id form, mv_parent_version_id = vf_parent_version_id form,
      mv_base_version_id = vf_base_version_id form, mv_produced_by = vf_produced_by form,
      mv_published_by = vf_published_by form, mv_artifact_ref = vf_artifact_ref form, mv_meta = vf_meta form,
      mv_created_at = now\<rparr>"

definition insert_new_version ::
    "bool \<Rightarrow> int \<Rightarrow> string \<Rightarrow> string \<Rightarrow> version_form \<Rightarrow> version_db \<Rightarrow> version_db \<times> (version_error + model_version)" where
  "insert_new_version ok now uuid lid form db =
     (case validate_append lid (vf_kind form) (vf_parent_version_id form) (vf_base_version_id form) db of
        Inl e \<Rightarrow> (db, Inl e)
      | Inr _ \<Rightarrow>
          if vf_corpus_commit_id form = [] then (db, Inl Commit_id_missing)
          else if vf_parent_version_id form = Some uuid then (db, Inl Own_parent)
          else (let existing = get_versions_by_line lid db;
                    seq = (if existing = [] then 1 else max_default 0 (map mv_sequence existing) + 1);
                    v = version_row now uuid lid seq form
                in if ok \<and> uuid \<notin> set (map mv_id (vd_versions db))
                   then (db\<lparr>vd_versions := vd_versions db @ [v]\<rparr>, Inr v)
                   else (db, Inl Write_failed)))"

definition delete_versions_by_line :: "bool \<Rightarrow> string \<Rightarrow> version_db \<Rightarrow> version_db \<times> bool" where
  "delete_versions_by_line ok lid db =
     (if ok then (db\<lparr>vd_versions := [v \<leftarrow> vd_versions db. mv_line_id v \<noteq> lid]\<rparr>, True) else (db, False))"

section \<open>The service\<close>

text \<open>The environment of one call.\<close>

record version_env =
  ve_now :: int
  ve_uuid :: string
  ve_line_uuid :: string
  ve_ok :: bool
  ve_line_ok :: bool
  ve_move_ok :: bool
  ve_commit :: "string option"
  ve_meanwhile :: "version_db \<Rightarrow> version_db"
  ve_repo_ok :: bool
  ve_repo_meanwhile :: "version_db \<Rightarrow> version_db"
  ve_staged :: bool
  ve_text :: "version_error \<Rightarrow> string"

definition repo_id_for_model_line :: "string \<Rightarrow> string" where
  "repo_id_for_model_line lid = ''selfai-'' @ ''line-'' @ lid"

text \<open>
  Validation, then the commit, then the row. While the commit is awaited other requests run
  (\<open>ve_meanwhile\<close>); the row is validated again when it is written.
\<close>

definition append_version ::
    "version_env \<Rightarrow> string \<Rightarrow> version_form \<Rightarrow> version_db \<Rightarrow> version_db \<times> (version_error + model_version)" where
  "append_version env lid form db =
     (case get_line_by_id lid db of
        None \<Rightarrow> (db, Inl Line_not_found)
      | Some line \<Rightarrow>
          (case nonempty (ml_corpus_repo line) of
             None \<Rightarrow> (db, Inl No_corpus_repo)
           | Some repo \<Rightarrow>
               (case validate_append lid (vf_kind form) (vf_parent_version_id form) (vf_base_version_id form) db of
                  Inl e \<Rightarrow> (db, Inl e)
                | Inr _ \<Rightarrow>
                    (let db1 = ve_meanwhile env db
                     in case ve_commit env of
                          None \<Rightarrow> (db1, Inl Corpus_error)
                        | Some commit \<Rightarrow>
                            insert_new_version (ve_ok env) (ve_now env) (ve_uuid env) lid
                              (form\<lparr>vf_corpus_commit_id := commit\<rparr>)
                              (db1\<lparr>vd_commits := (repo, commit) # vd_commits db1\<rparr>)))))"

definition latest_version :: "string \<Rightarrow> version_db \<Rightarrow> model_version option" where
  "latest_version lid db =
     (let history = get_versions_by_line lid db in if history = [] then None else Some (last history))"

lemma walk_measure:
  assumes "get_version_by_id pid db = Some p" and "pid \<notin> set seen"
  shows "card (mv_id ` set (vd_versions db) - set (pid # seen)) < card (mv_id ` set (vd_versions db) - set seen)"
proof -
  have "pid \<in> mv_id ` set (vd_versions db)"
    using assms(1) find_by_mem find_by_key unfolding get_version_by_id_def by (metis image_eqI)
  with assms(2) show ?thesis by (intro psubset_card_mono) auto
qed

text \<open>The walk stops at a version it has seen, so it ends on any table.\<close>

function walk_from ::
    "version_db \<Rightarrow> model_version \<Rightarrow> string list \<Rightarrow> model_version list \<Rightarrow> version_error + model_version list" where
  "walk_from db v seen chain =
     (case mv_parent_version_id v of
        None \<Rightarrow> Inr chain
      | Some pid \<Rightarrow>
          if pid \<in> set seen then Inl (Provenance_cycle pid)
          else (case get_version_by_id pid db of
                  None \<Rightarrow> Inl (Provenance_gap (mv_id v) pid)
                | Some p \<Rightarrow> walk_from db p (pid # seen) (chain @ [p])))"
  by pat_completeness auto
termination
  by (relation "measure (\<lambda>(db, v, seen, chain). card (mv_id ` set (vd_versions db) - set seen))")
    (simp_all add: walk_measure del: list.set)

declare walk_from.simps [simp del]

definition walk_provenance :: "string \<Rightarrow> version_db \<Rightarrow> version_error + model_version list" where
  "walk_provenance vid db =
     (case get_version_by_id vid db of
        None \<Rightarrow> Inl Provenance_not_found
      | Some v \<Rightarrow> walk_from db v [vid] [v])"

definition require_artifact ::
    "model_version \<Rightarrow> string option \<Rightarrow> (string option \<Rightarrow> string \<Rightarrow> bool) option \<Rightarrow> version_error + unit" where
  "require_artifact v repo artifact_exists =
     (case nonempty (mv_artifact_ref v) of
        None \<Rightarrow> Inl (Unresolvable_no_artifact (mv_id v))
      | Some ref \<Rightarrow>
          (case artifact_exists of
             Some ex \<Rightarrow> if \<not> ex repo ref then Inl (Unresolvable_artifact_missing (mv_id v)) else Inr ()
           | None \<Rightarrow> Inr ()))"

record resolved_version =
  rv_line_id :: string
  rv_version_id :: string
  rv_kind :: string
  rv_corpus_repo :: "string option"
  rv_corpus_commit_id :: string
  rv_artifact_ref :: "string option"
  rv_base_version_id :: "string option"
  rv_base_artifact_ref :: "string option"

definition resolve_base :: "model_version \<Rightarrow> version_db \<Rightarrow> version_error + model_version option" where
  "resolve_base v db =
     (if mv_kind v \<noteq> ''adapter'' then Inr None
      else case nonempty (mv_base_version_id v) of
             Some b \<Rightarrow> (case get_version_by_id b db of
                          None \<Rightarrow> Inl (Unresolvable_base b)
                        | Some base \<Rightarrow> Inr (Some base))
           | None \<Rightarrow>
               (case walk_provenance (mv_id v) db of
                  Inl e \<Rightarrow> Inl e
                | Inr chain \<Rightarrow> (case find (\<lambda>w. mv_kind w = ''base'') chain of
                                  None \<Rightarrow> Inl Unresolvable_no_base
                                | Some base \<Rightarrow> Inr (Some base))))"

definition resolve_version ::
    "string \<Rightarrow> (string option \<Rightarrow> string \<Rightarrow> bool) option \<Rightarrow> version_db \<Rightarrow> version_error + resolved_version" where
  "resolve_version vid artifact_exists db =
     (case get_version_by_id vid db of
        None \<Rightarrow> Inl Unresolvable_not_found
      | Some v \<Rightarrow>
          (let repo = (case get_line_by_id (mv_line_id v) db of None \<Rightarrow> None | Some l \<Rightarrow> ml_corpus_repo l)
           in case resolve_base v db of
                Inl e \<Rightarrow> Inl e
              | Inr base \<Rightarrow>
                  (case require_artifact v repo artifact_exists of
                     Inl e \<Rightarrow> Inl e
                   | Inr _ \<Rightarrow>
                       (case (case base of None \<Rightarrow> Inr () | Some b \<Rightarrow> require_artifact b repo artifact_exists) of
                          Inl e \<Rightarrow> Inl e
                        | Inr _ \<Rightarrow> Inr \<lparr>rv_line_id = mv_line_id v, rv_version_id = mv_id v, rv_kind = mv_kind v,
                                       rv_corpus_repo = repo, rv_corpus_commit_id = mv_corpus_commit_id v,
                                       rv_artifact_ref = mv_artifact_ref v, rv_base_version_id = map_option mv_id base,
                                       rv_base_artifact_ref = Option.bind base mv_artifact_ref\<rparr>))))"

definition ensure_line ::
    "version_env \<Rightarrow> string \<Rightarrow> string option \<Rightarrow> string option \<Rightarrow> version_db \<Rightarrow> version_db \<times> (version_error + model_line)" where
  "ensure_line env user lid lname db =
     (case nonempty lid of
        Some i \<Rightarrow> (case get_line_by_id i db of
                     None \<Rightarrow> (db, Inl Line_not_found)
                   | Some line \<Rightarrow> (db, Inr line))
      | None \<Rightarrow>
          (case insert_new_line (ve_line_ok env) (ve_now env) (ve_line_uuid env) user
                  \<lparr>lf_name = case_option ''model line'' id (nonempty lname), lf_corpus_repo = None,
                   lf_access_control = None, lf_meta = None\<rparr> db of
             (db1, None) \<Rightarrow> (db1, Inl Line_not_created)
           | (db1, Some line) \<Rightarrow>
               (let db2 = ve_repo_meanwhile env db1
                in if \<not> ve_repo_ok env then (db2, Inl Corpus_error)
                   else case update_corpus_repo (ve_line_ok env) (ve_now env) (ml_id line)
                               (repo_id_for_model_line (ml_id line)) db2 of
                          (db3, None) \<Rightarrow> (db3, Inl Repo_not_attached)
                        | (db3, Some l) \<Rightarrow> (db3, Inr l))))"

definition record_version_for_artifact ::
    "version_env \<Rightarrow> string \<Rightarrow> string \<Rightarrow> string option \<Rightarrow> json \<Rightarrow> string option \<Rightarrow> string option \<Rightarrow>
     (string \<times> json) list option \<Rightarrow> version_db \<Rightarrow> version_db \<times> (version_error + model_version)" where
  "record_version_for_artifact env user kind artifact_ref manifest lid lname produced_by db =
     (case ensure_line env user lid lname db of
        (db1, Inl e) \<Rightarrow> (db1, Inl e)
      | (db1, Inr line) \<Rightarrow>
          if \<not> ve_staged env then (db1, Inl Manifest_not_staged)
          else append_version env (ml_id line)
                 \<lparr>vf_kind = kind, vf_corpus_commit_id = [],
                  vf_parent_version_id = map_option mv_id (latest_version (ml_id line) db1),
                  vf_base_version_id =
                    (if kind = ''adapter''
                     then map_option mv_id (find (\<lambda>v. mv_kind v = ''base'') (rev (get_versions_by_line (ml_id line) db1)))
                     else None),
                  vf_produced_by = produced_by, vf_published_by = Some user, vf_artifact_ref = artifact_ref,
                  vf_meta = Some [(''manifest'', manifest)]\<rparr> db1)"

section \<open>Publishing\<close>

definition current_base_and_adapters :: "string \<Rightarrow> version_db \<Rightarrow> version_error + model_version \<times> model_version list" where
  "current_base_and_adapters lid db =
     (case get_line_by_id lid db of
        None \<Rightarrow> Inl Line_not_found
      | Some line \<Rightarrow>
          (let history = get_versions_by_line lid db
           in if history = [] then Inl No_versions
              else (let current = (case Option.bind (nonempty (ml_current_version_id line)) (\<lambda>c. get_version_by_id c db) of
                                     Some v \<Rightarrow> v | None \<Rightarrow> last history);
                        base = (if mv_kind current = ''base'' then Inr current
                                else case walk_provenance (mv_id current) db of
                                       Inl e \<Rightarrow> Inl e
                                     | Inr chain \<Rightarrow> (case find (\<lambda>v. mv_kind v = ''base'') chain of
                                                       None \<Rightarrow> Inl No_base | Some b \<Rightarrow> Inr b))
                    in case base of
                         Inl e \<Rightarrow> Inl e
                       | Inr b \<Rightarrow> Inr (b, [v \<leftarrow> history. mv_kind v = ''adapter'' \<and> mv_sequence v > mv_sequence b]))))"

record publish_form =
  pf_output_name :: "string option"
  pf_quant_type :: "string option"
  pf_priority :: job_priority
  pf_scheduled_for :: "int option"

text \<open>A publish job: the row of the job table with the columns only publishing uses.\<close>

record publish_job =
  pj_job :: job
  pj_base_version_id :: string
  pj_adapter_version_ids :: "string list"
  pj_output_name :: "string option"
  pj_quant_type :: "string option"

function nat_str :: "nat \<Rightarrow> string" where
  "nat_str n = (if n < 10 then [char_of (48 + n)] else nat_str (n div 10) @ [char_of (48 + n mod 10)])"
  by pat_completeness auto
termination by (relation "measure id") auto

declare nat_str.simps [simp del]

definition int_str :: "int \<Rightarrow> string" where
  "int_str n = (if n < 0 then CHR ''-'' # nat_str (nat (- n)) else nat_str (nat n))"

definition create_publish_job ::
    "bool \<Rightarrow> int \<Rightarrow> string \<Rightarrow> string \<Rightarrow> string \<Rightarrow> publish_form \<Rightarrow> version_db \<Rightarrow> job list \<Rightarrow>
     version_error + job list \<times> publish_job" where
  "create_publish_job ok now uuid lid user form db jobs =
     (case get_line_by_id lid db of
        None \<Rightarrow> Inl Line_not_found
      | Some line \<Rightarrow>
          if nonempty (ml_corpus_repo line) = None then Inl No_corpus_repo
          else case current_base_and_adapters lid db of
                 Inl e \<Rightarrow> Inl e
               | Inr (base, adapters) \<Rightarrow>
                   if adapters = [] then Inl Nothing_to_publish
                   else (case publish_insert_new_job ok now uuid lid user (pf_scheduled_for form) (pf_priority form) jobs of
                           Inl _ \<Rightarrow> Inl Write_failed
                         | Inr (jobs', j) \<Rightarrow>
                             Inr (jobs', \<lparr>pj_job = j, pj_base_version_id = mv_id base,
                               pj_adapter_version_ids = map mv_id adapters,
                               pj_output_name = (case nonempty (pf_output_name form) of
                                   Some s \<Rightarrow> Some s
                                 | None \<Rightarrow> Some (ml_name line @ ''-v'' @ int_str (mv_sequence base + int (length adapters) + 1))),
                               pj_quant_type = pf_quant_type form\<rparr>)))"

text \<open>\<open>merge\<close> is the reply of the trainer to a base and adapters; it may lack the task id.\<close>

definition start_publish_merge ::
    "(model_version \<Rightarrow> model_version list \<Rightarrow> version_error + string option) \<Rightarrow> publish_job \<Rightarrow> version_db \<Rightarrow>
     version_error + string" where
  "start_publish_merge merge pj db =
     (case get_version_by_id (pj_base_version_id pj) db of
        None \<Rightarrow> Inl Base_gone
      | Some base \<Rightarrow>
          (let missing = [v \<leftarrow> pj_adapter_version_ids pj. get_version_by_id v db = None]
           in if missing \<noteq> [] then Inl (Adapters_gone missing)
              else case merge base (List.map_filter (\<lambda>v. get_version_by_id v db) (pj_adapter_version_ids pj)) of
                     Inl e \<Rightarrow> Inl e
                   | Inr task \<Rightarrow> (case nonempty task of None \<Rightarrow> Inl No_task_id | Some t \<Rightarrow> Inr t)))"

text \<open>
  \<open>complete_publish_job\<close>; the status written to the job is the \<open>publish_completion\<close> the queue acts on.
\<close>

definition complete_publish ::
    "version_env \<Rightarrow> publish_job \<Rightarrow> string option \<Rightarrow> version_db \<Rightarrow> version_db \<times> publish_completion" where
  "complete_publish env pj artifact_ref db =
     (let lid = case_option [] id (line_id (pj_job pj));
          artifact = (case nonempty artifact_ref of Some a \<Rightarrow> Some a | None \<Rightarrow> pj_output_name pj)
      in if get_line_by_id lid db = None then (db, Left_alone)
         else if \<not> ve_staged env then (db, Record_failed (ve_text env Manifest_not_staged))
         else case append_version env lid
                     \<lparr>vf_kind = ''base'', vf_corpus_commit_id = [], vf_parent_version_id = Some (pj_base_version_id pj),
                      vf_base_version_id = None,
                      vf_produced_by = Some [(''job_kind'', JStr ''publish''), (''job_id'', JStr (job_id (pj_job pj)))],
                      vf_published_by = Some (job_user (pj_job pj)), vf_artifact_ref = artifact,
                      vf_meta = Some [(''merged_adapter_versions'', JList (map JStr (pj_adapter_version_ids pj))),
                                      (''base_version'', JStr (pj_base_version_id pj))]\<rparr> db of
                (db1, Inl e) \<Rightarrow> (db1, Record_failed (ve_text env e))
              | (db1, Inr v) \<Rightarrow>
                  (case set_current_version (ve_move_ok env) (ve_now env) lid (mv_id v) (Some (job_user (pj_job pj))) db1 of
                     (db2, Inl e) \<Rightarrow> (db2, Left_alone)
                   | (db2, Inr _) \<Rightarrow>
                       if get_version_by_id (pj_base_version_id pj) db = None then (db2, Left_alone)
                       else (db2, Recorded (mv_id v))))"

definition revert_line ::
    "bool \<Rightarrow> int \<Rightarrow> string \<Rightarrow> string \<Rightarrow> string option \<Rightarrow> version_db \<Rightarrow> version_db \<times> (version_error + model_line)" where
  "revert_line ok now lid vid moved_by db =
     (case set_current_version ok now lid vid moved_by db of
        (db', Inl e) \<Rightarrow> (db', Inl e)
      | (db', Inr None) \<Rightarrow> (db', Inl Move_failed)
      | (db', Inr (Some line)) \<Rightarrow> (db', Inr line))"

section \<open>The model picker\<close>

text \<open>
  An entry of the model surface is a dict, whose \<open>info\<close> is a dict where it has one. Entries are
  told apart by their identity, here their position in the list.
\<close>

type_synonym model_entry = "(string \<times> json) list"

definition dict_of :: "json option \<Rightarrow> (string \<times> json) list option" where
  "dict_of v = (case v of
      None \<Rightarrow> Some []
    | Some j \<Rightarrow> if \<not> json_truthy j then Some [] else (case j of JObj kvs \<Rightarrow> Some kvs | _ \<Rightarrow> None))"

definition get_or_null :: "string \<Rightarrow> (string \<times> json) list \<Rightarrow> json" where
  "get_or_null k kvs = case_option JNull id (map_of kvs k)"

definition line_pointer :: "model_entry \<Rightarrow> json \<times> json" where
  "line_pointer entry =
     (case dict_of (Option.bind (dict_of (map_of entry ''info'')) (\<lambda>info. map_of info ''meta'')) of
        None \<Rightarrow> (JNull, JNull)
      | Some meta \<Rightarrow> (get_or_null ''line_id'' meta, get_or_null ''version_id'' meta))"

definition line_of :: "version_db \<Rightarrow> json \<Rightarrow> model_line option" where
  "line_of db j = (case j of JStr lid \<Rightarrow> if lid = [] then None else get_line_by_id lid db | _ \<Rightarrow> None)"

definition version_summary :: "model_version \<Rightarrow> json" where
  "version_summary v = JObj [(''id'', JStr (mv_id v)), (''sequence'', JInt (mv_sequence v)), (''kind'', JStr (mv_kind v)),
     (''corpus_commit_id'', JStr (mv_corpus_commit_id v)), (''artifact_ref'', opt_str (mv_artifact_ref v)),
     (''created_at'', JInt (mv_created_at v))]"

definition line_summary :: "version_db \<Rightarrow> model_line \<Rightarrow> json \<Rightarrow> json" where
  "line_summary db line version = JObj [(''id'', JStr (ml_id line)), (''name'', JStr (ml_name line)),
     (''current_version_id'', opt_str (ml_current_version_id line)), (''version_id'', version),
     (''versions'', JList (map version_summary (get_versions_by_line (ml_id line) db)))]"

definition sequence_of :: "version_db \<Rightarrow> model_line \<Rightarrow> json \<Rightarrow> int" where
  "sequence_of db line version =
     (case version of
        JStr vid \<Rightarrow> (case find_by mv_id vid (rev (get_versions_by_line (ml_id line) db)) of
                       None \<Rightarrow> 0 | Some v \<Rightarrow> mv_sequence v)
      | _ \<Rightarrow> 0)"

definition entries_of :: "json \<Rightarrow> model_entry list \<Rightarrow> nat list" where
  "entries_of lk models = [i \<leftarrow> [0..<length models]. fst (line_pointer (models ! i)) = lk]"

definition chosen_entry :: "version_db \<Rightarrow> model_line \<Rightarrow> json \<Rightarrow> model_entry list \<Rightarrow> nat" where
  "chosen_entry db line lk models =
     (let own = entries_of lk models
      in case find (\<lambda>i. snd (line_pointer (models ! i)) = opt_str (ml_current_version_id line)) own of
           Some i \<Rightarrow> i
         | None \<Rightarrow> max_by (\<lambda>i. sequence_of db line (snd (line_pointer (models ! i)))) (hd own) (tl own))"

definition picker_entry :: "version_db \<Rightarrow> model_entry list \<Rightarrow> nat \<Rightarrow> model_entry option" where
  "picker_entry db models i =
     (let entry = models ! i
      in case line_of db (fst (line_pointer entry)) of
           None \<Rightarrow> Some entry
         | Some line \<Rightarrow>
             if i = chosen_entry db line (fst (line_pointer entry)) models
             then Some (AList.update ''line'' (line_summary db line (snd (line_pointer entry))) entry)
             else None)"

definition attach_lines_to_models :: "version_db \<Rightarrow> model_entry list \<Rightarrow> model_entry list" where
  "attach_lines_to_models db models = List.map_filter (picker_entry db models) [0..<length models]"

section \<open>The endpoints\<close>

text \<open>\<open>corpus\<close> is \<open>ENABLE_SELF_CORPUS\<close>; an exception a handler does not catch is a status 500.\<close>

definition readable :: "dialect \<Rightarrow> group list \<Rightarrow> user \<Rightarrow> model_line \<Rightarrow> bool" where
  "readable d groups user line \<longleftrightarrow>
     u_role user = ''admin'' \<or> ml_user_id line = u_id user \<or> has_access d (u_id user) ''read'' (ml_access_control line) groups"

definition writable :: "dialect \<Rightarrow> group list \<Rightarrow> user \<Rightarrow> model_line \<Rightarrow> bool" where
  "writable d groups user line \<longleftrightarrow>
     u_role user = ''admin'' \<or> ml_user_id line = u_id user \<or> has_access d (u_id user) ''write'' (ml_access_control line) groups"

definition require_corpus :: "bool \<Rightarrow> 'a result \<Rightarrow> 'a result" where
  "require_corpus corpus r = (if corpus then r else Inl (HTTPException 503))"

definition line_or_404 :: "string \<Rightarrow> version_db \<Rightarrow> model_line result" where
  "line_or_404 lid db = (case get_line_by_id lid db of None \<Rightarrow> Inl (HTTPException 404) | Some l \<Rightarrow> Inr l)"

definition get_model_lines :: "dialect \<Rightarrow> group list \<Rightarrow> user \<Rightarrow> bool \<Rightarrow> version_db \<Rightarrow> model_line list result" where
  "get_model_lines d groups user corpus db = require_corpus corpus (Inr [l \<leftarrow> vd_lines db. readable d groups user l])"

definition may_use :: "dialect \<Rightarrow> group list \<Rightarrow> (string \<times> json) list \<Rightarrow> user \<Rightarrow> string \<Rightarrow> bool" where
  "may_use d groups defaults user key \<longleftrightarrow> u_role user = ''admin'' \<or> has_permission d (u_id user) key defaults groups"

definition create_model_line ::
    "dialect \<Rightarrow> group list \<Rightarrow> (string \<times> json) list \<Rightarrow> user \<Rightarrow> bool \<Rightarrow> bool \<Rightarrow> int \<Rightarrow> string \<Rightarrow> line_form \<Rightarrow> version_db \<Rightarrow>
     version_db \<times> model_line option result" where
  "create_model_line d groups defaults user corpus ok now uuid form db =
     (if \<not> corpus then (db, Inl (HTTPException 503))
      else if \<not> may_use d groups defaults user ''studio.models'' then (db, Inl (HTTPException 401))
      else case insert_new_line ok now uuid (u_id user) form db of
             (db1, None) \<Rightarrow> (db1, Inl (HTTPException 400))
           | (db1, Some line) \<Rightarrow>
               if nonempty (ml_corpus_repo line) = None
               then (let db2 = fst (update_corpus_repo ok now (ml_id line) (repo_id_for_model_line (ml_id line)) db1)
                     in (db2, Inr (get_line_by_id (ml_id line) db2)))
               else (db1, Inr (Some line)))"

definition get_model_line_by_id ::
    "dialect \<Rightarrow> group list \<Rightarrow> user \<Rightarrow> bool \<Rightarrow> string \<Rightarrow> version_db \<Rightarrow> (model_line \<times> model_version list) result" where
  "get_model_line_by_id d groups user corpus lid db =
     require_corpus corpus
       (case line_or_404 lid db of
          Inl e \<Rightarrow> Inl e
        | Inr line \<Rightarrow> if \<not> readable d groups user line then Inl (HTTPException 401)
                      else Inr (line, get_versions_by_line (ml_id line) db))"

definition set_current_version_endpoint ::
    "dialect \<Rightarrow> group list \<Rightarrow> user \<Rightarrow> bool \<Rightarrow> bool \<Rightarrow> int \<Rightarrow> string \<Rightarrow> string \<Rightarrow> version_db \<Rightarrow> version_db \<times> model_line result" where
  "set_current_version_endpoint d groups user corpus ok now lid vid db =
     (if \<not> corpus then (db, Inl (HTTPException 503))
      else case line_or_404 lid db of
             Inl e \<Rightarrow> (db, Inl e)
           | Inr line \<Rightarrow>
               if \<not> writable d groups user line then (db, Inl (HTTPException 401))
               else (case revert_line ok now (ml_id line) vid (Some (u_id user)) db of
                       (db', Inl e) \<Rightarrow> (db', Inl (HTTPException (if model_version_error e then 400 else 500)))
                     | (db', Inr l) \<Rightarrow> (db', Inr l)))"

definition delete_model_line ::
    "dialect \<Rightarrow> group list \<Rightarrow> user \<Rightarrow> bool \<Rightarrow> bool \<Rightarrow> string \<Rightarrow> version_db \<Rightarrow> version_db \<times> bool result" where
  "delete_model_line d groups user corpus ok lid db =
     (if \<not> corpus then (db, Inl (HTTPException 503))
      else case line_or_404 lid db of
             Inl e \<Rightarrow> (db, Inl e)
           | Inr line \<Rightarrow>
               if \<not> writable d groups user line then (db, Inl (HTTPException 401))
               else (case delete_line_by_id ok (ml_id line) db of
                       (db', Inl e) \<Rightarrow> (db', Inl (HTTPException 409))
                     | (db', Inr b) \<Rightarrow> (db', Inr b)))"

text \<open>What the three version endpoints share: the version must exist and its line be readable.\<close>

definition readable_version ::
    "dialect \<Rightarrow> group list \<Rightarrow> user \<Rightarrow> string \<Rightarrow> version_db \<Rightarrow> model_version result" where
  "readable_version d groups user vid db =
     (case get_version_by_id vid db of
        None \<Rightarrow> Inl (HTTPException 404)
      | Some v \<Rightarrow>
          (case line_or_404 (mv_line_id v) db of
             Inl e \<Rightarrow> Inl e
           | Inr line \<Rightarrow> if \<not> readable d groups user line then Inl (HTTPException 401) else Inr v))"

definition get_version_endpoint ::
    "dialect \<Rightarrow> group list \<Rightarrow> user \<Rightarrow> bool \<Rightarrow> string \<Rightarrow> version_db \<Rightarrow> model_version result" where
  "get_version_endpoint d groups user corpus vid db = require_corpus corpus (readable_version d groups user vid db)"

definition get_version_provenance ::
    "dialect \<Rightarrow> group list \<Rightarrow> user \<Rightarrow> bool \<Rightarrow> string \<Rightarrow> version_db \<Rightarrow> model_version list result" where
  "get_version_provenance d groups user corpus vid db =
     require_corpus corpus
       (case readable_version d groups user vid db of
          Inl e \<Rightarrow> Inl e
        | Inr _ \<Rightarrow> (case walk_provenance vid db of
                      Inl e \<Rightarrow> Inl (HTTPException (if provenance_broken e then 409 else 500))
                    | Inr chain \<Rightarrow> Inr chain))"

definition resolve_version_by_id ::
    "dialect \<Rightarrow> group list \<Rightarrow> user \<Rightarrow> bool \<Rightarrow> string \<Rightarrow> version_db \<Rightarrow> resolved_version result" where
  "resolve_version_by_id d groups user corpus vid db =
     require_corpus corpus
       (case readable_version d groups user vid db of
          Inl e \<Rightarrow> Inl e
        | Inr _ \<Rightarrow> (case resolve_version vid None db of
                      Inl e \<Rightarrow> Inl (HTTPException (if version_unresolvable e then 409 else 500))
                    | Inr r \<Rightarrow> Inr r))"

definition preview_publish ::
    "dialect \<Rightarrow> group list \<Rightarrow> user \<Rightarrow> bool \<Rightarrow> string \<Rightarrow> version_db \<Rightarrow> (string \<times> string list \<times> bool) result" where
  "preview_publish d groups user corpus lid db =
     require_corpus corpus
       (case line_or_404 lid db of
          Inl e \<Rightarrow> Inl e
        | Inr line \<Rightarrow>
            if \<not> readable d groups user line then Inl (HTTPException 401)
            else (case current_base_and_adapters (ml_id line) db of
                    Inl e \<Rightarrow> Inl (HTTPException 409)
                  | Inr (base, adapters) \<Rightarrow> Inr (mv_id base, map mv_id adapters, adapters \<noteq> [])))"

definition publish_model_line ::
    "dialect \<Rightarrow> group list \<Rightarrow> (string \<times> json) list \<Rightarrow> user \<Rightarrow> bool \<Rightarrow> bool \<Rightarrow> int \<Rightarrow> string \<Rightarrow> string \<Rightarrow> publish_form \<Rightarrow>
     version_db \<Rightarrow> job list \<Rightarrow> (job list \<times> publish_job) result" where
  "publish_model_line d groups defaults user corpus ok now uuid lid form db jobs =
     require_corpus corpus
       (case line_or_404 lid db of
          Inl e \<Rightarrow> Inl e
        | Inr line \<Rightarrow>
            if \<not> writable d groups user line then Inl (HTTPException 401)
            else if \<not> may_use d groups defaults user ''studio.publish'' then Inl (HTTPException 401)
            else (case create_publish_job ok now uuid (ml_id line) (u_id user) form db jobs of
                    Inl e \<Rightarrow> Inl (HTTPException 409)
                  | Inr r \<Rightarrow> Inr r))"

section \<open>Well-formed histories\<close>

text \<open>
  Keys are unique, every version belongs to a line and carries a commit, its parent is an earlier
  version of the line, which only the first version lacks, its base an earlier \<open>base\<close> of the line,
  and no two versions of a line have the same position.
\<close>

definition parent_ok :: "model_version list \<Rightarrow> model_version \<Rightarrow> bool" where
  "parent_ok vs v =
     (case mv_parent_version_id v of
        None \<Rightarrow> (\<forall>w \<in> set vs. mv_line_id w = mv_line_id v \<longrightarrow> mv_sequence v \<le> mv_sequence w)
      | Some p \<Rightarrow> (\<exists>w \<in> set vs. mv_id w = p \<and> mv_line_id w = mv_line_id v \<and> mv_sequence w < mv_sequence v))"

definition base_ok :: "model_version list \<Rightarrow> model_version \<Rightarrow> bool" where
  "base_ok vs v =
     (case mv_base_version_id v of
        None \<Rightarrow> True
      | Some b \<Rightarrow> (\<exists>w \<in> set vs. mv_id w = b \<and> mv_line_id w = mv_line_id v \<and> mv_kind w = ''base'' \<and>
                     mv_sequence w < mv_sequence v))"

definition versions_ok :: "string set \<Rightarrow> model_version list \<Rightarrow> bool" where
  "versions_ok lids vs \<longleftrightarrow>
     unique_by mv_id vs \<and>
     (\<forall>v \<in> set vs. mv_line_id v \<in> lids \<and> mv_kind v \<in> set VERSION_KINDS \<and> mv_corpus_commit_id v \<noteq> [] \<and>
        parent_ok vs v \<and> base_ok vs v) \<and>
     (\<forall>v \<in> set vs. \<forall>w \<in> set vs. mv_line_id v = mv_line_id w \<and> mv_sequence v = mv_sequence w \<longrightarrow> v = w)"

definition history_ok :: "version_db \<Rightarrow> bool" where
  "history_ok db \<longleftrightarrow> unique_by ml_id (vd_lines db) \<and> versions_ok (ml_id ` set (vd_lines db)) (vd_versions db)"

interpretation repo_write: row_write ml_id "\<lambda>l. l\<lparr>ml_corpus_repo := repo, ml_updated_at := now\<rparr>" for repo now
  by unfold_locales simp

interpretation move_write: row_write ml_id "move_row now vid meta" for now vid meta
  by unfold_locales (simp add: move_row_def)

lemma get_line_mem: "get_line_by_id lid db = Some l \<Longrightarrow> l \<in> set (vd_lines db) \<and> ml_id l = lid"
  unfolding get_line_by_id_def by (auto dest: find_by_mem find_by_key)

lemma get_version_mem: "get_version_by_id vid db = Some v \<Longrightarrow> v \<in> set (vd_versions db) \<and> mv_id v = vid"
  unfolding get_version_by_id_def by (auto dest: find_by_mem find_by_key)

lemma get_version_self:
  "history_ok db \<Longrightarrow> v \<in> set (vd_versions db) \<Longrightarrow> get_version_by_id (mv_id v) db = Some v"
  unfolding get_version_by_id_def history_ok_def versions_ok_def by (blast intro: unique_by_find)

lemma line_history [simp]: "set (get_versions_by_line lid db) = {v \<in> set (vd_versions db). mv_line_id v = lid}"
  "get_versions_by_line lid db = [] \<longleftrightarrow> (\<forall>v \<in> set (vd_versions db). mv_line_id v \<noteq> lid)"
  by (auto simp: get_versions_by_line_def filter_empty_conv)

text \<open>What the validation of an append establishes.\<close>

lemma validate_append_ok:
  assumes "validate_append lid kind parent base db = Inr u"
  shows "get_line_by_id lid db \<noteq> None \<and> kind \<in> set VERSION_KINDS \<and>
         (case parent of
            None \<Rightarrow> get_versions_by_line lid db = []
          | Some p \<Rightarrow> \<exists>w \<in> set (vd_versions db). mv_id w = p \<and> mv_line_id w = lid) \<and>
         (case base of
            None \<Rightarrow> True
          | Some b \<Rightarrow> \<exists>w \<in> set (vd_versions db). mv_id w = b \<and> mv_line_id w = lid \<and> mv_kind w = ''base'')"
proof -
  have g: "\<exists>w \<in> set (vd_versions db). mv_id w = i \<and> P w" if "get_version_by_id i db = Some v" "P v" for i v P
    using get_version_mem [OF that(1)] that(2) by blast
  show ?thesis using assms unfolding validate_append_def
    by (auto split: if_splits option.splits simp del: line_history(2) intro!: g)
qed

lemma next_sequence:
  assumes "v \<in> set (vd_versions db)" and "mv_line_id v = lid"
  shows "mv_sequence v <
    (if get_versions_by_line lid db = [] then 1 else max_default 0 (map mv_sequence (get_versions_by_line lid db)) + 1)"
proof -
  have "mv_sequence v \<in> set (map mv_sequence (get_versions_by_line lid db))" using assms by simp
  from max_default_ge [OF this] assms show ?thesis by auto
qed

lemma append_row_ok:
  assumes ok: "versions_ok lids vs" and new: "mv_id v \<notin> mv_id ` set vs" "mv_line_id v \<in> lids"
    "mv_kind v \<in> set VERSION_KINDS" "mv_corpus_commit_id v \<noteq> []"
    and seq: "\<And>w. w \<in> set vs \<Longrightarrow> mv_line_id w = mv_line_id v \<Longrightarrow> mv_sequence w < mv_sequence v"
    and par: "case mv_parent_version_id v of None \<Rightarrow> \<forall>w \<in> set vs. mv_line_id w \<noteq> mv_line_id v
               | Some p \<Rightarrow> \<exists>w \<in> set vs. mv_id w = p \<and> mv_line_id w = mv_line_id v"
    and base: "case mv_base_version_id v of None \<Rightarrow> True
               | Some b \<Rightarrow> \<exists>w \<in> set vs. mv_id w = b \<and> mv_line_id w = mv_line_id v \<and> mv_kind w = ''base''"
  shows "versions_ok lids (vs @ [v])"
proof -
  have "parent_ok (vs @ [v]) w \<and> base_ok (vs @ [v]) w" if "w \<in> set vs" for w
  proof -
    from ok that have "parent_ok vs w" "base_ok vs w" by (simp_all add: versions_ok_def)
    with seq [OF that] show ?thesis by (auto simp: parent_ok_def base_ok_def split: option.splits)
  qed
  moreover have "parent_ok (vs @ [v]) v" "base_ok (vs @ [v]) v"
    using par base seq by (auto simp: parent_ok_def base_ok_def split: option.splits)
  moreover have "mv_sequence w \<noteq> mv_sequence v" "mv_sequence v \<noteq> mv_sequence w"
    if "w \<in> set vs" "mv_line_id v = mv_line_id w" for w
    using seq [OF that(1) that(2) [symmetric]] by simp_all
  ultimately show ?thesis
    using ok new unfolding versions_ok_def by (auto intro: unique_by_append_new dest: sym)
qed

lemma insert_version_ok:
  assumes "history_ok db"
  shows "history_ok (fst (insert_new_version ok now uuid lid form db))"
proof (cases "\<exists>v. snd (insert_new_version ok now uuid lid form db) = Inr v")
  case True
  define seq where "seq = (if get_versions_by_line lid db = [] then 1
      else max_default 0 (map mv_sequence (get_versions_by_line lid db)) + 1)"
  let ?v = "version_row now uuid lid seq form"
  from True obtain u where u: "validate_append lid (vf_kind form) (vf_parent_version_id form) (vf_base_version_id form) db = Inr u"
    and c: "vf_corpus_commit_id form \<noteq> []" "uuid \<notin> set (map mv_id (vd_versions db))"
    and db: "fst (insert_new_version ok now uuid lid form db) = db\<lparr>vd_versions := vd_versions db @ [?v]\<rparr>"
    unfolding insert_new_version_def Let_def seq_def by (auto split: sum.splits if_splits simp del: line_history(2))
  note ok = validate_append_ok [OF u]
  from ok have l: "lid \<in> ml_id ` set (vd_lines db)" by (auto dest: get_line_mem)
  have "versions_ok (ml_id ` set (vd_lines db)) (vd_versions db @ [?v])"
    by (rule append_row_ok) (use assms c l ok next_sequence [of _ db lid] in
        \<open>auto simp: history_ok_def version_row_def seq_def split: option.splits\<close>)
  with assms show ?thesis by (simp add: db history_ok_def)
next
  case False
  then have "fst (insert_new_version ok now uuid lid form db) = db"
    unfolding insert_new_version_def Let_def by (auto split: sum.splits if_splits)
  with assms show ?thesis by simp
qed

lemma lines_kept_ok:
  "history_ok db \<Longrightarrow> map ml_id ls = map ml_id (vd_lines db) \<Longrightarrow> history_ok (db\<lparr>vd_lines := ls\<rparr>)"
proof -
  assume ok: "history_ok db" and m: "map ml_id ls = map ml_id (vd_lines db)"
  from m have "ml_id ` set ls = ml_id ` set (vd_lines db)" by (metis list.set_map)
  with ok m show ?thesis by (simp add: history_ok_def unique_by_def)
qed

lemma versions_ok_mono: "versions_ok lids vs \<Longrightarrow> lids \<subseteq> lids' \<Longrightarrow> versions_ok lids' vs"
  by (auto simp: versions_ok_def)

lemma insert_line_ok: "history_ok db \<Longrightarrow> history_ok (fst (insert_new_line ok now uuid user form db))"
  by (auto simp: insert_new_line_def Let_def history_ok_def intro!: unique_by_append_new elim: versions_ok_mono)

lemma update_repo_ok: "history_ok db \<Longrightarrow> history_ok (fst (update_corpus_repo ok now lid repo db))"
  by (simp add: update_corpus_repo_def write_line_def Let_def lines_kept_ok repo_write.keys_kept)

lemma set_current_shape:
  "fst (set_current_version ok now lid vid by_user db) = db \<or>
   (\<exists>meta. fst (set_current_version ok now lid vid by_user db) = write_line lid (move_row now vid meta) db)"
  unfolding set_current_version_def Let_def by (auto split: option.split sum.split)

lemma set_current_ok:
  assumes "history_ok db"
  shows "history_ok (fst (set_current_version ok now lid vid by_user db))"
  using set_current_shape [of ok now lid vid by_user db]
proof (elim disjE exE)
  fix meta assume "fst (set_current_version ok now lid vid by_user db) = write_line lid (move_row now vid meta) db"
  with assms show ?thesis by (simp add: write_line_def lines_kept_ok move_write.keys_kept)
qed (use assms in simp)

lemma delete_line_ok:
  assumes "history_ok db"
  shows "history_ok (fst (delete_line_by_id ok lid db))"
proof (cases "ok \<and> get_versions_by_line lid db = []")
  case True
  have "ml_id ` {l \<in> set (vd_lines db). ml_id l \<noteq> lid} = ml_id ` set (vd_lines db) - {lid}" by auto
  with True assms show ?thesis
    by (auto simp: delete_line_by_id_def history_ok_def versions_ok_def unique_by_def distinct_map_filter)
qed (use assms in \<open>auto simp: delete_line_by_id_def\<close>)

lemma delete_versions_ok:
  assumes "history_ok db"
  shows "history_ok (fst (delete_versions_by_line ok lid db))"
proof -
  have "parent_ok [v \<leftarrow> vs. mv_line_id v \<noteq> lid] v \<and> base_ok [v \<leftarrow> vs. mv_line_id v \<noteq> lid] v"
    if "parent_ok vs v" "base_ok vs v" "mv_line_id v \<noteq> lid" for vs v
    using that by (auto simp: parent_ok_def base_ok_def split: option.splits)
  with assms show ?thesis
    by (auto simp: delete_versions_by_line_def history_ok_def versions_ok_def unique_by_def distinct_map_filter)
qed

lemma commit_logged_ok [simp]: "history_ok (db\<lparr>vd_commits := cs\<rparr>) = history_ok db"
  by (simp add: history_ok_def)

text \<open>The requests that run while a commit or a repository is awaited are other calls of the tables.\<close>

definition interference_ok :: "version_env \<Rightarrow> bool" where
  "interference_ok env \<longleftrightarrow>
     (\<forall>db. history_ok db \<longrightarrow> history_ok (ve_meanwhile env db) \<and> history_ok (ve_repo_meanwhile env db))"

lemma append_version_history:
  assumes "history_ok db" and "interference_ok env"
  shows "history_ok (fst (append_version env lid form db))"
  using assms insert_version_ok unfolding append_version_def Let_def interference_ok_def
  by (auto split: option.split sum.split)

lemma ensure_line_history:
  assumes "history_ok db" and "interference_ok env"
  shows "history_ok (fst (ensure_line env user lid lname db))"
proof -
  have i: "history_ok db1" if "insert_new_line ok now uuid u form db = (db1, l)" for ok now uuid u form db1 l
    using insert_line_ok [OF assms(1), of ok now uuid u form] that by simp
  have u: "history_ok db3" if "update_corpus_repo ok now i repo db2 = (db3, l)" "history_ok db2" for ok now i repo db2 db3 l
    using update_repo_ok [OF that(2), of ok now i repo] that(1) by simp
  show ?thesis using assms i u unfolding ensure_line_def Let_def interference_ok_def
    by (auto split: option.split prod.split)
qed

lemma record_version_history:
  assumes "history_ok db" and "interference_ok env"
  shows "history_ok (fst (record_version_for_artifact env user kind art man lid lname produced db))"
proof -
  obtain db1 r where e: "ensure_line env user lid lname db = (db1, r)" by fastforce
  with ensure_line_history [OF assms, of user lid lname] have "history_ok db1" by simp
  with append_version_history [OF this assms(2)] e show ?thesis
    by (auto simp: record_version_for_artifact_def split: sum.split)
qed

lemma complete_publish_history:
  assumes "history_ok db" and "interference_ok env"
  shows "history_ok (fst (complete_publish env pj art db))"
proof -
  have a: "history_ok db1" if "append_version env lid form db = (db1, r)" for lid form db1 r
    using append_version_history [OF assms, of lid form] that by simp
  have m: "history_ok db2" if "set_current_version ok now lid vid u db1 = (db2, r)" "history_ok db1" for ok now lid vid u db1 db2 r
    using set_current_ok [OF that(2), of ok now lid vid u] that(1) by simp
  show ?thesis using assms(1) unfolding complete_publish_def Let_def
    by (auto split: prod.split sum.split dest: a m)
qed

lemma revert_line_history:
  assumes "history_ok db"
  shows "history_ok (fst (revert_line ok now lid vid u db))"
  using set_current_ok [OF assms, of ok now lid vid u] unfolding revert_line_def
  by (auto split: prod.split sum.split option.split)
text \<open>One call: a table write, or a service call in an environment whose interference is made of such calls.\<close>

inductive version_step :: "version_db \<Rightarrow> version_db \<Rightarrow> bool" where
  new_line: "version_step db (fst (insert_new_line ok now uuid user form db))"
| attach_repo: "version_step db (fst (update_corpus_repo ok now lid repo db))"
| move: "version_step db (fst (set_current_version ok now lid vid u db))"
| drop_line: "version_step db (fst (delete_line_by_id ok lid db))"
| drop_versions: "version_step db (fst (delete_versions_by_line ok lid db))"
| new_version: "version_step db (fst (insert_new_version ok now uuid lid vform db))"
| append: "interference_ok env \<Longrightarrow> version_step db (fst (append_version env lid vform db))"
| record_artifact: "interference_ok env \<Longrightarrow>
    version_step db (fst (record_version_for_artifact env user kind art man olid lname produced db))"
| publish: "interference_ok env \<Longrightarrow> version_step db (fst (complete_publish env pj art db))"
| revert: "version_step db (fst (revert_line ok now lid vid u db))"

lemma version_step_ok: "version_step db db' \<Longrightarrow> history_ok db \<Longrightarrow> history_ok db'"
  by (induction rule: version_step.induct)
    (simp_all add: insert_line_ok update_repo_ok set_current_ok delete_line_ok delete_versions_ok insert_version_ok
      append_version_history record_version_history complete_publish_history revert_line_history)

definition empty_db :: version_db where
  "empty_db = \<lparr>vd_lines = [], vd_versions = [], vd_commits = []\<rparr>"

lemma reachable_ok: "rtranclp version_step empty_db db \<Longrightarrow> history_ok db"
proof (induction rule: rtranclp_induct)
  case base
  show ?case by (simp add: empty_db_def history_ok_def versions_ok_def)
qed (rule version_step_ok)

section \<open>Walking a history\<close>

text \<open>The ancestors of a version: parent by parent, earlier and earlier on its line, down to a version without one.\<close>

fun ancestry :: "version_db \<Rightarrow> model_version \<Rightarrow> model_version list \<Rightarrow> bool" where
  "ancestry db v [] \<longleftrightarrow> mv_parent_version_id v = None"
| "ancestry db v (p # ps) \<longleftrightarrow>
     mv_parent_version_id v = Some (mv_id p) \<and> p \<in> set (vd_versions db) \<and> mv_line_id p = mv_line_id v \<and>
     mv_sequence p < mv_sequence v \<and> ancestry db p ps"

lemma parent_on_line:
  assumes "history_ok db" and "v \<in> set (vd_versions db)" and "mv_parent_version_id v = Some pid"
  obtains p where "get_version_by_id pid db = Some p" "p \<in> set (vd_versions db)" "mv_id p = pid"
    "mv_line_id p = mv_line_id v" "mv_sequence p < mv_sequence v"
proof -
  from assms have "parent_ok (vd_versions db) v" by (simp add: history_ok_def versions_ok_def)
  with assms(3) obtain p where "p \<in> set (vd_versions db)" "mv_id p = pid" "mv_line_id p = mv_line_id v"
    "mv_sequence p < mv_sequence v" by (auto simp: parent_ok_def)
  with that get_version_self [OF assms(1)] show ?thesis by blast
qed

lemma walk_from_ancestry:
  "history_ok db \<Longrightarrow> v \<in> set (vd_versions db) \<Longrightarrow>
   (\<forall>s \<in> set seen. \<exists>w \<in> set (vd_versions db). mv_id w = s \<and> mv_sequence w \<ge> mv_sequence v) \<Longrightarrow>
   \<exists>older. walk_from db v seen chain = Inr (chain @ older) \<and> ancestry db v older"
proof (induction db v seen chain rule: walk_from.induct)
  case (1 db v seen chain)
  show ?case
  proof (cases "mv_parent_version_id v")
    case None
    then show ?thesis by (intro exI [of _ "[]"]) (simp add: walk_from.simps)
  next
    case (Some pid)
    obtain p where p: "get_version_by_id pid db = Some p" "p \<in> set (vd_versions db)" "mv_id p = pid"
      "mv_line_id p = mv_line_id v" "mv_sequence p < mv_sequence v"
      by (rule parent_on_line [OF 1(2,3) Some])
    have new: "pid \<notin> set seen"
    proof
      assume "pid \<in> set seen"
      with 1(4) obtain w where w: "w \<in> set (vd_versions db)" "mv_id w = pid" "mv_sequence w \<ge> mv_sequence v" by blast
      from get_version_self [OF 1(2) w(1)] w(2) p(1) have "w = p" by simp
      with w(3) p(5) show False by simp
    qed
    have "\<forall>s \<in> set (pid # seen). \<exists>w \<in> set (vd_versions db). mv_id w = s \<and> mv_sequence w \<ge> mv_sequence p"
      using 1(4) p by fastforce
    from 1(1) [OF Some new p(1) 1(2) p(2) this] obtain older where
      "walk_from db p (pid # seen) (chain @ [p]) = Inr ((chain @ [p]) @ older)" "ancestry db p older" by blast
    with Some new p show ?thesis by (intro exI [of _ "p # older"]) (simp add: walk_from.simps [of db v])
  qed
qed

lemma walk_ancestry:
  assumes "history_ok db" and "v \<in> set (vd_versions db)"
  shows "\<exists>older. walk_provenance (mv_id v) db = Inr (v # older) \<and> ancestry db v older"
  using walk_from_ancestry [OF assms, of "[mv_id v]" "[v]"] assms
  by (auto simp: walk_provenance_def get_version_self)

lemma ancestry_root:
  assumes "history_ok db"
  shows "ancestry db v older \<Longrightarrow> v \<in> set (vd_versions db) \<Longrightarrow> last (v # older) = hd (get_versions_by_line (mv_line_id v) db)"
proof (induction older arbitrary: v)
  case Nil
  let ?h = "get_versions_by_line (mv_line_id v) db"
  from Nil have v: "v \<in> set ?h" by simp
  then obtain h t where h: "?h = h # t" by (cases ?h) auto
  have "sorted (map mv_sequence ?h)" by (simp add: get_versions_by_line_def)
  with h v have "mv_sequence h \<le> mv_sequence v" by auto
  moreover have hm: "h \<in> set (vd_versions db)" "mv_line_id h = mv_line_id v"
    using h line_history(1) [of "mv_line_id v" db] by auto
  moreover have "parent_ok (vd_versions db) v" using assms Nil(2) by (simp add: history_ok_def versions_ok_def)
  ultimately have "mv_sequence h = mv_sequence v" using Nil(1) by (auto simp: parent_ok_def intro: order_antisym)
  with assms hm Nil(2) have "h = v" unfolding history_ok_def versions_ok_def by blast
  with h show ?case by simp
next
  case (Cons p ps)
  then show ?case by auto
qed

text \<open>
  C7: Every version's history can be walked to its beginning. Start from empty tables and make any
  calls whatever, failing or not, with other requests running while a commit is awaited: for every
  version in the table the provenance walk ends without an error and returns the version followed
  by its ancestors, each the parent of the one before it, on the same line and strictly earlier,
  down to the first version of the line.
\<close>

theorem history_stays_walkable:
  assumes "rtranclp version_step empty_db db" and "v \<in> set (vd_versions db)"
  shows "\<exists>older. walk_provenance (mv_id v) db = Inr (v # older) \<and> ancestry db v older \<and>
           last (v # older) = hd (get_versions_by_line (mv_line_id v) db)"
  using walk_ancestry [OF reachable_ok [OF assms(1)] assms(2)] ancestry_root [OF reachable_ok [OF assms(1)] _ assms(2)]
  by blast

definition sample_vform :: "string \<Rightarrow> string option \<Rightarrow> string option \<Rightarrow> version_form" where
  "sample_vform kind parent base =
     \<lparr>vf_kind = kind, vf_corpus_commit_id = ''c'', vf_parent_version_id = parent, vf_base_version_id = base,
      vf_produced_by = None, vf_published_by = None, vf_artifact_ref = Some ''f'', vf_meta = None\<rparr>"

definition sample_lform :: "(string \<times> json) list option \<Rightarrow> line_form" where
  "sample_lform meta = \<lparr>lf_name = ''m'', lf_corpus_repo = Some ''r'', lf_access_control = None, lf_meta = meta\<rparr>"

definition sample_line_db :: "(string \<times> json) list option \<Rightarrow> version_db" where
  "sample_line_db meta = fst (insert_new_line True 1 ''l1'' ''u'' (sample_lform meta) empty_db)"

definition sample_history :: "(string \<times> json) list option \<Rightarrow> version_db" where
  "sample_history meta =
     fst (insert_new_version True 4 ''v3'' ''l1'' (sample_vform ''adapter'' (Some ''v2'') (Some ''v1''))
       (fst (insert_new_version True 3 ''v2'' ''l1'' (sample_vform ''adapter'' (Some ''v1'') (Some ''v1''))
          (fst (insert_new_version True 2 ''v1'' ''l1'' (sample_vform ''base'' None None) (sample_line_db meta))))))"

lemmas version_run_defs =
  get_line_by_id_def get_version_by_id_def get_versions_by_line_def validate_append_def insert_new_version_def
  version_row_def VERSION_KINDS_def max_default_def Let_def

definition sample_versions :: "model_version list" where
  "sample_versions =
     [version_row 2 ''v1'' ''l1'' 1 (sample_vform ''base'' None None),
      version_row 3 ''v2'' ''l1'' 2 (sample_vform ''adapter'' (Some ''v1'') (Some ''v1'')),
      version_row 4 ''v3'' ''l1'' 3 (sample_vform ''adapter'' (Some ''v2'') (Some ''v1''))]"

lemma sample_history_rows:
  "sample_history meta =
     \<lparr>vd_lines = [\<lparr>ml_id = ''l1'', ml_name = ''m'', ml_user_id = ''u'', ml_corpus_repo = Some ''r'',
        ml_current_version_id = None, ml_access_control = None, ml_meta = meta, ml_created_at = 1, ml_updated_at = 1\<rparr>],
      vd_versions = sample_versions, vd_commits = []\<rparr>"
  by (simp add: sample_history_def sample_line_db_def insert_new_line_def empty_db_def sample_lform_def sample_vform_def
      version_run_defs sample_versions_def)

lemma sample_reachable: "rtranclp version_step empty_db (sample_history meta)"
proof -
  have "version_step empty_db (sample_line_db meta)" unfolding sample_line_db_def by (rule new_line)
  then have "rtranclp version_step empty_db (sample_line_db meta)" by (rule r_into_rtranclp)
  moreover have "rtranclp version_step empty_db (fst (insert_new_version ok now uuid lid vform db))"
    if "rtranclp version_step empty_db db" for ok now uuid lid vform db
    by (rule rtranclp.rtrancl_into_rtrancl) (rule that, rule new_version)
  ultimately show ?thesis unfolding sample_history_def by blast
qed

theorem history_stays_walkable_witness:
  "\<exists>older. walk_provenance ''v3'' (sample_history None) = Inr (sample_versions ! 2 # older) \<and>
     last (sample_versions ! 2 # older) = sample_versions ! 0"
proof -
  have v: "sample_versions ! 2 \<in> set (vd_versions (sample_history None))"
    by (simp add: sample_history_rows sample_versions_def)
  have "mv_id (sample_versions ! 2) = ''v3''"
    "hd (get_versions_by_line (mv_line_id (sample_versions ! 2)) (sample_history None)) = sample_versions ! 0"
    by (simp_all add: sample_history_rows sample_versions_def get_versions_by_line_def version_row_def)
  with history_stays_walkable [OF sample_reachable v] show ?thesis by metis
qed

section \<open>Appending\<close>

text \<open>The three ways an insertion ends.\<close>

lemma insert_version_shape:
  "(\<exists>e. insert_new_version ok now uuid lid form db = (db, Inl e)) \<or>
   (\<exists>seq. validate_append lid (vf_kind form) (vf_parent_version_id form) (vf_base_version_id form) db = Inr () \<and>
      uuid \<notin> mv_id ` set (vd_versions db) \<and>
      insert_new_version ok now uuid lid form db =
        (db\<lparr>vd_versions := vd_versions db @ [version_row now uuid lid seq form]\<rparr>, Inr (version_row now uuid lid seq form)))"
proof (cases "validate_append lid (vf_kind form) (vf_parent_version_id form) (vf_base_version_id form) db")
  case (Inr u)
  then show ?thesis unfolding insert_new_version_def Let_def by (simp only: sum.case) auto
qed (simp add: insert_new_version_def)

text \<open>An append either stops before the commit, or it is the insertion of the row with the commit made.\<close>

lemma append_version_shape:
  "(\<exists>e. append_version env lid form db = (db, Inl e)) \<or>
   (\<exists>e. append_version env lid form db = (ve_meanwhile env db, Inl e)) \<or>
   (\<exists>line repo commit. get_line_by_id lid db = Some line \<and> ml_corpus_repo line = Some repo \<and> ve_commit env = Some commit \<and>
      validate_append lid (vf_kind form) (vf_parent_version_id form) (vf_base_version_id form) db = Inr () \<and>
      append_version env lid form db =
        insert_new_version (ve_ok env) (ve_now env) (ve_uuid env) lid (form\<lparr>vf_corpus_commit_id := commit\<rparr>)
          (ve_meanwhile env db\<lparr>vd_commits := (repo, commit) # vd_commits (ve_meanwhile env db)\<rparr>))"
proof -
  have n: "s = Some r" if "nonempty s = Some r" for s r
    using that by (simp add: nonempty_def split: option.splits list.splits)
  show ?thesis unfolding append_version_def Let_def
    by (auto split: option.split sum.split dest!: n)
qed

lemma append_version_facts:
  assumes "append_version env lid form db = (db', r)"
  shows "case r of
           Inl e \<Rightarrow> db' = db \<or> vd_versions db' = vd_versions (ve_meanwhile env db) \<and> vd_lines db' = vd_lines (ve_meanwhile env db)
         | Inr v \<Rightarrow>
             validate_append lid (vf_kind form) (vf_parent_version_id form) (vf_base_version_id form) db = Inr () \<and>
             ve_commit env = Some (mv_corpus_commit_id v) \<and>
             (\<exists>line repo. get_line_by_id lid db = Some line \<and> ml_corpus_repo line = Some repo \<and>
                vd_commits db' = (repo, mv_corpus_commit_id v) # vd_commits (ve_meanwhile env db)) \<and>
             vd_versions db' = vd_versions (ve_meanwhile env db) @ [v] \<and> vd_lines db' = vd_lines (ve_meanwhile env db) \<and>
             (\<exists>seq. v = version_row (ve_now env) (ve_uuid env) lid seq (form\<lparr>vf_corpus_commit_id := mv_corpus_commit_id v\<rparr>))"
  using append_version_shape [of env lid form db]
proof (elim disjE exE conjE)
  fix line repo commit
  let ?db = "ve_meanwhile env db\<lparr>vd_commits := (repo, commit) # vd_commits (ve_meanwhile env db)\<rparr>"
  let ?form = "form\<lparr>vf_corpus_commit_id := commit\<rparr>"
  assume h: "get_line_by_id lid db = Some line" "ml_corpus_repo line = Some repo" "ve_commit env = Some commit"
    "validate_append lid (vf_kind form) (vf_parent_version_id form) (vf_base_version_id form) db = Inr ()"
    "append_version env lid form db = insert_new_version (ve_ok env) (ve_now env) (ve_uuid env) lid ?form ?db"
  from insert_version_shape [of "ve_ok env" "ve_now env" "ve_uuid env" lid ?form ?db] show ?thesis
    using h assms by (auto simp: version_row_def)
qed (use assms in auto)


definition sample_venv :: version_env where
  "sample_venv = \<lparr>ve_now = 9, ve_uuid = ''v9'', ve_line_uuid = ''l9'', ve_ok = True, ve_line_ok = True, ve_move_ok = True,
     ve_commit = Some ''abc'', ve_meanwhile = id, ve_repo_ok = True, ve_repo_meanwhile = id, ve_staged = True,
     ve_text = (\<lambda>e. ''failed'')\<rparr>"

section \<open>Resolving\<close>

lemma find_kind: "find P xs = Some x \<Longrightarrow> x \<in> set xs \<and> P x"
  by (induction xs) (auto split: if_splits)

lemma ancestry_mem:
  "ancestry db v older \<Longrightarrow> w \<in> set older \<Longrightarrow> w \<in> set (vd_versions db) \<and> mv_line_id w = mv_line_id v \<and> mv_sequence w < mv_sequence v"
  by (induction db v older rule: ancestry.induct) force+

text \<open>The base found for an adapter is an earlier base of its line, by name or by descent.\<close>

lemma resolve_base_ok:
  assumes "history_ok db" and "v \<in> set (vd_versions db)"
  shows "case resolve_base v db of
           Inl e \<Rightarrow> e = Unresolvable_no_base
         | Inr None \<Rightarrow> mv_kind v \<noteq> ''adapter''
         | Inr (Some b) \<Rightarrow> mv_kind v = ''adapter'' \<and> b \<in> set (vd_versions db) \<and> mv_kind b = ''base'' \<and>
             mv_line_id b = mv_line_id v \<and> mv_sequence b < mv_sequence v"
proof (cases "mv_kind v = ''adapter''")
  case True
  show ?thesis
  proof (cases "nonempty (mv_base_version_id v)")
    case (Some b)
    then have "mv_base_version_id v = Some b" by (simp add: nonempty_def split: option.splits list.splits)
    moreover have "base_ok (vd_versions db) v" using assms by (simp add: history_ok_def versions_ok_def)
    ultimately obtain w where "w \<in> set (vd_versions db)" "mv_id w = b" "mv_line_id w = mv_line_id v"
      "mv_kind w = ''base''" "mv_sequence w < mv_sequence v" by (auto simp: base_ok_def)
    with Some True get_version_self [OF assms(1)] show ?thesis by (auto simp: resolve_base_def)
  next
    case None
    obtain older where w: "walk_provenance (mv_id v) db = Inr (v # older)" "ancestry db v older"
      using walk_ancestry [OF assms] by blast
    show ?thesis
    proof (cases "find (\<lambda>w. mv_kind w = ''base'') older")
      case (Some b)
      with find_kind [OF Some] ancestry_mem [OF w(2)] None True w(1) show ?thesis by (simp add: resolve_base_def)
    qed (use None True w in \<open>simp add: resolve_base_def\<close>)
  qed
qed (simp add: resolve_base_def)



section \<open>Publishing\<close>

lemma set_current_moves:
  assumes "set_current_version True now lid vid u db = (db', Inr r)"
  shows "\<exists>l. get_line_by_id lid db' = Some l \<and> ml_current_version_id l = Some vid"
  using assms unfolding set_current_version_def Let_def get_line_by_id_def write_line_def
  by (auto simp: move_write.find_written move_row_def split: option.splits sum.splits if_splits)

lemma set_current_versions [simp]:
  "vd_versions (fst (set_current_version ok now lid vid u db)) = vd_versions db"
  "vd_commits (fst (set_current_version ok now lid vid u db)) = vd_commits db"
  using set_current_shape [of ok now lid vid u db] by (auto simp: write_line_def)

text \<open>
  A finished publish is recorded as a new base on the base it started from. When the job is
  settled as completed, the table has exactly one more version than the other requests left: a
  base of the line of the job whose parent is the base the publish started from and whose commit
  was made; and if the pointer could be written, the line is now at that version. When the job is
  settled as failed, no version was written and no pointer moved.
\<close>

theorem publish_records_all_or_nothing:
  assumes "complete_publish env pj art db = (db', c)"
  shows "case c of
           Recorded vid \<Rightarrow>
             (\<exists>v. vd_versions db' = vd_versions (ve_meanwhile env db) @ [v] \<and> mv_id v = vid \<and> mv_kind v = ''base'' \<and>
                mv_line_id v = case_option [] id (line_id (pj_job pj)) \<and>
                mv_parent_version_id v = Some (pj_base_version_id pj) \<and>
                (\<exists>repo. (repo, mv_corpus_commit_id v) \<in> set (vd_commits db')) \<and> ve_commit env = Some (mv_corpus_commit_id v) \<and>
                (if ve_move_ok env then \<exists>l. get_line_by_id (mv_line_id v) db' = Some l \<and> ml_current_version_id l = Some vid
                 else vd_lines db' = vd_lines (ve_meanwhile env db)))
         | Record_failed e \<Rightarrow> db' = db \<or>
             vd_versions db' = vd_versions (ve_meanwhile env db) \<and> vd_lines db' = vd_lines (ve_meanwhile env db)
         | Left_alone \<Rightarrow> db' = db \<or> vd_lines db' = vd_lines (ve_meanwhile env db)"
proof -
  let ?lid = "case_option [] id (line_id (pj_job pj))"
  define form where "form = \<lparr>vf_kind = ''base'', vf_corpus_commit_id = [], vf_parent_version_id = Some (pj_base_version_id pj),
      vf_base_version_id = None,
      vf_produced_by = Some [(''job_kind'', JStr ''publish''), (''job_id'', JStr (job_id (pj_job pj)))],
      vf_published_by = Some (job_user (pj_job pj)),
      vf_artifact_ref = (case nonempty art of Some a \<Rightarrow> Some a | None \<Rightarrow> pj_output_name pj),
      vf_meta = Some [(''merged_adapter_versions'', JList (map JStr (pj_adapter_version_ids pj))),
                      (''base_version'', JStr (pj_base_version_id pj))]\<rparr>"
  obtain db1 r where a: "append_version env ?lid form db = (db1, r)" by fastforce
  note f = append_version_facts [OF a]
  show ?thesis
  proof (cases "get_line_by_id ?lid db = None \<or> \<not> ve_staged env")
    case True
    then have "db' = db \<and> (c = Left_alone \<or> (\<exists>e. c = Record_failed e))"
      using assms unfolding complete_publish_def Let_def by (auto split: if_splits)
    then show ?thesis by auto
  next
    case False
    show ?thesis
    proof (cases r)
      case (Inl e)
      with False assms a have "db' = db1" "c = Record_failed (ve_text env e)"
        by (auto simp: complete_publish_def Let_def form_def)
      with f Inl show ?thesis by simp
    next
      case (Inr v)
      obtain db2 m where m: "set_current_version (ve_move_ok env) (ve_now env) ?lid (mv_id v) (Some (job_user (pj_job pj))) db1 = (db2, m)"
        by fastforce
      have base: "get_version_by_id (pj_base_version_id pj) db \<noteq> None"
      proof -
        have "validate_append ?lid ''base'' (Some (pj_base_version_id pj)) None db = Inr ()"
          using f Inr by (simp add: form_def)
        from validate_append_ok [OF this] obtain w where "w \<in> set (vd_versions db)" "mv_id w = pj_base_version_id pj" by auto
        then have "pj_base_version_id pj \<in> mv_id ` set (vd_versions db)" by (metis image_eqI)
        then show ?thesis by (simp add: get_version_by_id_def find_by_None)
      qed
      from False assms a Inr m base have c: "db' = db2" "c = (case m of Inl e \<Rightarrow> Left_alone | Inr l \<Rightarrow> Recorded (mv_id v))"
        by (auto simp: complete_publish_def Let_def form_def split: sum.splits)
      have v: "mv_kind v = ''base''" "mv_line_id v = ?lid" "mv_parent_version_id v = Some (pj_base_version_id pj)"
      proof -
        from f Inr obtain seq where e: "v = version_row (ve_now env) (ve_uuid env) ?lid seq
            (form\<lparr>vf_corpus_commit_id := mv_corpus_commit_id v\<rparr>)" by (simp only: sum.case) blast
        show "mv_kind v = ''base''" "mv_line_id v = ?lid" "mv_parent_version_id v = Some (pj_base_version_id pj)"
          by (subst e, simp add: version_row_def form_def)+
      qed
      have kept: "vd_versions db2 = vd_versions db1" "vd_commits db2 = vd_commits db1"
        using set_current_versions [of "ve_move_ok env" "ve_now env" ?lid "mv_id v" "Some (job_user (pj_job pj))" db1] m by simp_all
      have still: "vd_lines db2 = vd_lines db1" if "\<not> ve_move_ok env \<or> (\<exists>e. m = Inl e)"
        using m that by (auto simp: set_current_version_def Let_def split: option.splits sum.splits if_splits)
      show ?thesis
      proof (cases m)
        case (Inl e)
        with c still f Inr show ?thesis by simp
      next
        case (Inr l)
        with m set_current_moves have "\<exists>l. get_line_by_id ?lid db2 = Some l \<and> ml_current_version_id l = Some (mv_id v)"
          if "ve_move_ok env" using that by simp
        with c kept still v f \<open>r = Inr v\<close> Inr show ?thesis by auto
      qed
    qed
  qed
qed

definition sample_publish :: publish_job where
  "sample_publish = \<lparr>pj_job = (blank_job ''p1'' ''u'' Running Normal 1)\<lparr>line_id := Some ''l1''\<rparr>, pj_base_version_id = ''v1'',
     pj_adapter_version_ids = [''v2'', ''v3''], pj_output_name = Some ''m-v4'', pj_quant_type = None\<rparr>"

lemmas publish_run_defs =
  complete_publish_def append_version_def set_current_version_def moves_of_def write_line_def move_row_def opt_str_def
  sample_venv_def sample_publish_def sample_history_rows sample_versions_def sample_vform_def version_run_defs blank_job_def

theorem publish_records_all_or_nothing_witness:
  "\<exists>db. complete_publish sample_venv sample_publish None (sample_history None) = (db, Recorded ''v9'') \<and>
     map mv_id (vd_versions db) = [''v1'', ''v2'', ''v3'', ''v9'']"
proof -
  obtain db where c: "complete_publish sample_venv sample_publish None (sample_history None) = (db, Recorded ''v9'')"
    by (simp add: publish_run_defs)
  from publish_records_all_or_nothing [OF c] have
    "\<exists>v. vd_versions db = vd_versions (ve_meanwhile sample_venv (sample_history None)) @ [v] \<and> mv_id v = ''v9''" by auto
  with c show ?thesis by (auto simp: sample_venv_def sample_history_rows sample_versions_def version_row_def)
qed

text \<open>
  A publish can leave a version behind without settling. If the free-form \<open>meta\<close> a line was created
  with holds a number under the key of the audit trail, moving the pointer raises after the version
  row was written: the job stays running, and the next sync of the finished merge records the same
  result again as another version.
\<close>

theorem publish_repeats_on_an_odd_meta:
  "let odd = Some [(''version_moves'', JInt 5)];
       (db1, c1) = complete_publish sample_venv sample_publish None (sample_history odd);
       (db2, c2) = complete_publish (sample_venv\<lparr>ve_uuid := ''v10''\<rparr>) sample_publish None db1
   in c1 = Left_alone \<and> c2 = Left_alone \<and> map mv_id (vd_versions db2) = [''v1'', ''v2'', ''v3'', ''v9'', ''v10''] \<and>
      map ml_current_version_id (vd_lines db2) = [None]"
  by (simp add: publish_run_defs)

text \<open>
  Going back does not narrow a publish. The line has a base and two adapters; reverting it to the
  first adapter moves the pointer, but a publish still merges both adapters, exactly as before the
  revert: the adapters are all later ones than the base, whichever version the line is at.
\<close>

theorem revert_does_not_narrow_a_publish:
  "let db = sample_history None; (db', r) = revert_line True 9 ''l1'' ''v2'' None db
   in map ml_current_version_id (vd_lines db') = [Some ''v2''] \<and>
      current_base_and_adapters ''l1'' db' = Inr (sample_versions ! 0, [sample_versions ! 1, sample_versions ! 2]) \<and>
      current_base_and_adapters ''l1'' db = current_base_and_adapters ''l1'' db'"
  by (simp add: revert_line_def current_base_and_adapters_def walk_provenance_def walk_from.simps publish_run_defs)

section \<open>The picker\<close>

lemma chosen_mem:
  assumes "i < length models" and "fst (line_pointer (models ! i)) = lk"
  shows "chosen_entry db line lk models < length models \<and> fst (line_pointer (models ! chosen_entry db line lk models)) = lk"
proof -
  let ?own = "entries_of lk models"
  from assms have "i \<in> set ?own" by (simp add: entries_of_def)
  then obtain j js where own: "?own = j # js" by (cases ?own) auto
  have "chosen_entry db line lk models \<in> set ?own"
  proof (cases "find (\<lambda>i. snd (line_pointer (models ! i)) = opt_str (ml_current_version_id line)) ?own")
    case None
    with max_by_mem [of "\<lambda>i. sequence_of db line (snd (line_pointer (models ! i)))" j js] own show ?thesis
      by (simp add: chosen_entry_def)
  next
    case (Some k)
    with find_kind [OF Some] show ?thesis by (simp add: chosen_entry_def)
  qed
  then show ?thesis by (simp add: entries_of_def)
qed

lemma picker_pointer:
  "picker_entry db models i = Some e \<Longrightarrow> line_pointer e = line_pointer (models ! i)"
  by (auto simp: picker_entry_def Let_def line_pointer_def update_conv' split: option.splits if_splits)

lemma filter_index: "c < n \<Longrightarrow> [i \<leftarrow> [0..<n]. i = c] = [c]"
  by (induction n) (auto simp: filter_empty_conv less_Suc_eq)

lemma map_filter_total: "(\<And>x. x \<in> set xs \<Longrightarrow> f x = Some (g x)) \<Longrightarrow> List.map_filter f xs = map g xs"
  by (induction xs) (simp_all add: map_filter_simps)

lemma filter_map_filter: "filter P (List.map_filter f xs) = List.map_filter f (filter (\<lambda>x. \<exists>y. f x = Some y \<and> P y) xs)"
  by (induction xs) (auto simp: map_filter_simps split: option.split)

text \<open>
  The picker shows a line once. Of all entries of an existing line exactly one is left, the one at
  the line's current version where there is one, and it carries the summary of the line with its
  whole history; the entries of no line, and of a line that is gone, are left as they were, in
  their order.
\<close>

theorem picker_shows_a_line_once:
  assumes "line_of db lk = Some line" and "e0 \<in> set models" and "fst (line_pointer e0) = lk"
  shows "(\<exists>e. [e \<leftarrow> attach_lines_to_models db models. fst (line_pointer e) = lk] = [e] \<and>
            map_of e ''line'' = Some (line_summary db line (snd (line_pointer e))) \<and>
            ((\<exists>w \<in> set models. line_pointer w = (lk, opt_str (ml_current_version_id line))) \<longrightarrow>
               snd (line_pointer e) = opt_str (ml_current_version_id line))) \<and>
         [e \<leftarrow> attach_lines_to_models db models. line_of db (fst (line_pointer e)) = None] =
           [e \<leftarrow> models. line_of db (fst (line_pointer e)) = None]"
proof (intro conjI)
  let ?n = "length models" let ?c = "chosen_entry db line lk models"
  from assms(2,3) obtain i0 where "i0 < ?n" "fst (line_pointer (models ! i0)) = lk" by (auto simp: in_set_conv_nth)
  from chosen_mem [OF this] have c: "?c < ?n" "fst (line_pointer (models ! ?c)) = lk" by auto
  define e where "e = AList.update ''line'' (line_summary db line (snd (line_pointer (models ! ?c)))) (models ! ?c)"
  have pc: "picker_entry db models ?c = Some e" using c assms(1) by (simp add: picker_entry_def Let_def e_def)
  have "(\<exists>y. picker_entry db models i = Some y \<and> fst (line_pointer y) = lk) \<longleftrightarrow> i = ?c" for i
  proof
    assume "\<exists>y. picker_entry db models i = Some y \<and> fst (line_pointer y) = lk"
    then obtain y where y: "picker_entry db models i = Some y" "fst (line_pointer y) = lk" by blast
    then have "fst (line_pointer (models ! i)) = lk" using picker_pointer by simp
    with y(1) assms(1) show "i = ?c" by (simp add: picker_entry_def Let_def split: if_splits)
  qed (use pc picker_pointer [OF pc] c in auto)
  then have "[e \<leftarrow> attach_lines_to_models db models. fst (line_pointer e) = lk] =
      List.map_filter (picker_entry db models) [i \<leftarrow> [0..<?n]. i = ?c]"
    unfolding attach_lines_to_models_def filter_map_filter by simp
  also have "[i \<leftarrow> [0..<?n]. i = ?c] = [?c]" using filter_index [OF c(1)] .
  finally have one: "[e \<leftarrow> attach_lines_to_models db models. fst (line_pointer e) = lk] = [e]"
    by (simp add: map_filter_simps pc)
  have ptr: "line_pointer e = line_pointer (models ! ?c)" by (rule picker_pointer [OF pc])
  have ml: "map_of e ''line'' = Some (line_summary db line (snd (line_pointer e)))" unfolding ptr by (simp add: e_def update_conv)
  have cur: "snd (line_pointer (models ! ?c)) = opt_str (ml_current_version_id line)"
    if w: "\<exists>w \<in> set models. line_pointer w = (lk, opt_str (ml_current_version_id line))"
  proof -
    from w obtain k where k: "k < ?n" "line_pointer (models ! k) = (lk, opt_str (ml_current_version_id line))"
      by (auto simp: in_set_conv_nth)
    then have "k \<in> set (entries_of lk models)" by (simp add: entries_of_def)
    with k(2) have "find (\<lambda>i. snd (line_pointer (models ! i)) = opt_str (ml_current_version_id line)) (entries_of lk models) \<noteq> None"
      unfolding find_None_iff by auto
    then obtain i where i: "find (\<lambda>i. snd (line_pointer (models ! i)) = opt_str (ml_current_version_id line))
        (entries_of lk models) = Some i" by auto
    with find_kind [OF i] show ?thesis by (simp add: chosen_entry_def)
  qed
  show "\<exists>e. [e \<leftarrow> attach_lines_to_models db models. fst (line_pointer e) = lk] = [e] \<and>
      map_of e ''line'' = Some (line_summary db line (snd (line_pointer e))) \<and>
      ((\<exists>w \<in> set models. line_pointer w = (lk, opt_str (ml_current_version_id line))) \<longrightarrow>
         snd (line_pointer e) = opt_str (ml_current_version_id line))"
    using cur ml by (intro exI [of _ e]) (auto simp: one ptr)
next
  let ?P = "\<lambda>e. line_of db (fst (line_pointer e)) = None"
  have "(\<exists>y. picker_entry db models i = Some y \<and> ?P y) \<longleftrightarrow> ?P (models ! i)" for i
  proof (cases "?P (models ! i)")
    case True
    then have "picker_entry db models i = Some (models ! i)" by (simp add: picker_entry_def Let_def)
    with True show ?thesis by simp
  qed (auto dest: picker_pointer)
  then have "[e \<leftarrow> attach_lines_to_models db models. ?P e] =
      List.map_filter (picker_entry db models) [i \<leftarrow> [0..<length models]. ?P (models ! i)]"
    unfolding attach_lines_to_models_def filter_map_filter by simp
  also have "\<dots> = map ((!) models) [i \<leftarrow> [0..<length models]. ?P (models ! i)]"
    by (rule map_filter_total) (simp add: picker_entry_def Let_def)
  also have "\<dots> = [e \<leftarrow> map ((!) models) [0..<length models]. ?P e]" by (simp add: filter_map o_def)
  finally show "[e \<leftarrow> attach_lines_to_models db models. ?P e] = [e \<leftarrow> models. ?P e]" by (simp add: map_nth)
qed

definition picker_sample :: "model_entry list" where
  "picker_sample =
     [[(''info'', JObj [(''meta'', JObj [(''line_id'', JStr ''l1''), (''version_id'', JStr v)])])]. v \<leftarrow> [''v1'', ''v3'', ''v2'']]
      @ [[(''id'', JStr ''other'')]]"

theorem picker_shows_a_line_once_witness:
  "\<exists>e. [e \<leftarrow> attach_lines_to_models (sample_history None) picker_sample. fst (line_pointer e) = JStr ''l1''] = [e]"
proof -
  have "line_of (sample_history None) (JStr ''l1'') = Some (hd (vd_lines (sample_history None)))"
    by (simp add: line_of_def get_line_by_id_def sample_history_rows)
  moreover have "picker_sample ! 0 \<in> set picker_sample" "fst (line_pointer (picker_sample ! 0)) = JStr ''l1''"
    by (simp_all add: picker_sample_def line_pointer_def dict_of_def get_or_null_def)
  ultimately show ?thesis using picker_shows_a_line_once [of "sample_history None" "JStr ''l1''"] by blast
qed

end
