(* ===== verification/Chats.thy ===== *)
theory Chats
  imports Access_Control "HOL-Library.Sublist"
begin

text \<open>
  Conversations, tags and folders: the tables (\<open>models/chats.py\<close>, \<open>models/tags.py\<close>,
  \<open>models/folders.py\<close>) and their endpoints (\<open>routers/chats.py\<close>, \<open>routers/folders.py\<close>), with the
  check of the references of a folder preset (\<open>utils/folder_presets.py\<close>). The three tables are lists
  of rows. The content of a chat is a dict of which the code reads the title and the message
  history; the rest is kept as JSON. A write that fails is not modelled apart where the code
  reports it as \<open>None\<close> or \<open>False\<close>: those are the branches where the row is missing.

  Sharing a chat stores a copy under the owner \<open>shared-\<close> followed by the key of the chat, and the
  key of the copy as \<open>share_id\<close> of the original. Deleting a folder recurses through its children
  without looking for a cycle; the recursion is bounded by the interpreter's recursion limit, an
  argument here, and running out of it is the \<open>RecursionError\<close> the code catches.

  The lemmas show what a share link gives to whom and until when, that the endpoints keep the
  rows of other users, what deleting a folder removes, that siblings keep different names, and
  that a message that is stored can be read back.
\<close>

section \<open>Data\<close>

type_synonym message = "(string \<times> json) list"

record chat_history =
  h_messages :: "(string \<times> message) list option"
  h_current_id :: "string option"
  h_rest :: "(string \<times> json) list"

record chat_content =
  cc_title :: "string option"
  cc_history :: "chat_history option"
  cc_rest :: "(string \<times> json) list"

record chat =
  c_id :: string
  c_user_id :: string
  c_title :: string
  c_chat :: chat_content
  c_created_at :: int
  c_updated_at :: int
  c_share_id :: "string option"
  c_archived :: bool
  c_pinned :: "bool option"
  c_tags :: "string list option"
  c_meta :: "(string \<times> json) list"
  c_folder_id :: "string option"
  c_kind :: "string option"

record tag =
  t_id :: string
  t_user_id :: string
  t_name :: string

record folder =
  f_id :: string
  f_parent_id :: "string option"
  f_user_id :: string
  f_name :: string
  f_meta :: "(string \<times> json) list option"
  f_is_expanded :: bool
  f_created_at :: int
  f_updated_at :: int

record chat_db =
  cd_chats :: "chat list"
  cd_tags :: "tag list"
  cd_folders :: "folder list"

definition on_chats :: "(chat list \<Rightarrow> chat list) \<Rightarrow> chat_db \<Rightarrow> chat_db" where
  "on_chats f db = db\<lparr>cd_chats := f (cd_chats db)\<rparr>"

definition on_tags :: "(tag list \<Rightarrow> tag list) \<Rightarrow> chat_db \<Rightarrow> chat_db" where
  "on_tags f db = db\<lparr>cd_tags := f (cd_tags db)\<rparr>"

definition on_folders :: "(folder list \<Rightarrow> folder list) \<Rightarrow> chat_db \<Rightarrow> chat_db" where
  "on_folders f db = db\<lparr>cd_folders := f (cd_folders db)\<rparr>"

text \<open>\<open>{**a, **b}\<close>.\<close>

definition dict_merge :: "(string \<times> 'v) list \<Rightarrow> (string \<times> 'v) list \<Rightarrow> (string \<times> 'v) list" where
  "dict_merge a b = fold (\<lambda>(k, v). AList.update k v) b a"

section \<open>Tags\<close>

definition tag_key :: "string \<Rightarrow> string" where
  "tag_key name = lower (map (\<lambda>c. if c = CHR '' '' then CHR ''_'' else c) name)"

definition get_tag_by_name_and_user_id :: "string \<Rightarrow> string \<Rightarrow> chat_db \<Rightarrow> tag option" where
  "get_tag_by_name_and_user_id name user db = find (\<lambda>t. t_id t = tag_key name \<and> t_user_id t = user) (cd_tags db)"

text \<open>The key of a tag is its name and its user.\<close>

definition insert_new_tag :: "string \<Rightarrow> string \<Rightarrow> chat_db \<Rightarrow> chat_db \<times> tag option" where
  "insert_new_tag name user db =
     (let t = \<lparr>t_id = tag_key name, t_user_id = user, t_name = name\<rparr>
      in if get_tag_by_name_and_user_id name user db = None then (on_tags (\<lambda>ts. ts @ [t]) db, Some t) else (db, None))"

definition get_tags_by_user_id :: "string \<Rightarrow> chat_db \<Rightarrow> tag list" where
  "get_tags_by_user_id user db = [t \<leftarrow> cd_tags db. t_user_id t = user]"

definition get_tags_by_ids_and_user_id :: "string list \<Rightarrow> string \<Rightarrow> chat_db \<Rightarrow> tag list" where
  "get_tags_by_ids_and_user_id ids user db = [t \<leftarrow> cd_tags db. t_id t \<in> set ids \<and> t_user_id t = user]"

definition delete_tag_by_name_and_user_id :: "string \<Rightarrow> string \<Rightarrow> chat_db \<Rightarrow> chat_db" where
  "delete_tag_by_name_and_user_id name user = on_tags (filter (\<lambda>t. \<not> (t_id t = tag_key name \<and> t_user_id t = user)))"

section \<open>Chats\<close>

definition get_chat_by_id :: "string \<Rightarrow> chat_db \<Rightarrow> chat option" where
  "get_chat_by_id cid db = find_by c_id cid (cd_chats db)"

definition get_chat_by_id_and_user_id :: "string \<Rightarrow> string \<Rightarrow> chat_db \<Rightarrow> chat option" where
  "get_chat_by_id_and_user_id cid user db = find (\<lambda>c. c_id c = cid \<and> c_user_id c = user) (cd_chats db)"

definition title_of :: "chat_content \<Rightarrow> string" where
  "title_of content = case_option ''New Chat'' id (cc_title content)"

definition add_chat :: "chat \<Rightarrow> chat_db \<Rightarrow> chat_db" where
  "add_chat c = on_chats (\<lambda>cs. cs @ [c])"

definition insert_new_chat ::
    "int \<Rightarrow> string \<Rightarrow> string \<Rightarrow> chat_content \<Rightarrow> string option \<Rightarrow> chat_db \<Rightarrow> chat_db \<times> chat" where
  "insert_new_chat now uuid user content kind db =
     (let c = \<lparr>c_id = uuid, c_user_id = user, c_title = title_of content, c_chat = content, c_created_at = now,
               c_updated_at = now, c_share_id = None, c_archived = False, c_pinned = Some False, c_tags = None,
               c_meta = [], c_folder_id = None, c_kind = kind\<rparr>
      in (add_chat c db, c))"

definition import_chat ::
    "int \<Rightarrow> string \<Rightarrow> string \<Rightarrow> chat_content \<Rightarrow> string list option \<Rightarrow> (string \<times> json) list \<Rightarrow> bool option \<Rightarrow>
     string option \<Rightarrow> chat_db \<Rightarrow> chat_db \<times> chat" where
  "import_chat now uuid user content tags meta pinned folder db =
     (let c = \<lparr>c_id = uuid, c_user_id = user, c_title = title_of content, c_chat = content, c_created_at = now,
               c_updated_at = now, c_share_id = None, c_archived = False, c_pinned = pinned, c_tags = tags,
               c_meta = meta, c_folder_id = folder, c_kind = None\<rparr>
      in (add_chat c db, c))"

definition write_chat :: "string \<Rightarrow> (chat \<Rightarrow> chat) \<Rightarrow> chat_db \<Rightarrow> chat_db \<times> chat option" where
  "write_chat cid f db =
     (let db' = on_chats (update_by c_id cid f) db in (db', get_chat_by_id cid db'))"

definition content_row :: "int \<Rightarrow> chat_content \<Rightarrow> chat \<Rightarrow> chat" where
  "content_row now content c = c\<lparr>c_chat := content, c_title := title_of content, c_updated_at := now\<rparr>"

definition update_chat_by_id :: "int \<Rightarrow> string \<Rightarrow> chat_content \<Rightarrow> chat_db \<Rightarrow> chat_db \<times> chat option" where
  "update_chat_by_id now cid content = write_chat cid (content_row now content)"

definition update_chat_title_by_id :: "int \<Rightarrow> string \<Rightarrow> string \<Rightarrow> chat_db \<Rightarrow> chat_db \<times> chat option" where
  "update_chat_title_by_id now cid title db =
     (case get_chat_by_id cid db of
        None \<Rightarrow> (db, None)
      | Some c \<Rightarrow> update_chat_by_id now cid ((c_chat c)\<lparr>cc_title := Some title\<rparr>) db)"

definition get_chat_title_by_id :: "string \<Rightarrow> chat_db \<Rightarrow> string option" where
  "get_chat_title_by_id cid db = map_option (\<lambda>c. title_of (c_chat c)) (get_chat_by_id cid db)"

definition no_history :: chat_history where
  "no_history = \<lparr>h_messages = None, h_current_id = None, h_rest = []\<rparr>"

definition history_of :: "chat \<Rightarrow> chat_history" where
  "history_of c = case_option no_history id (cc_history (c_chat c))"

definition messages_of :: "chat_history \<Rightarrow> (string \<times> message) list" where
  "messages_of h = case_option [] id (h_messages h)"

definition get_messages_by_chat_id :: "string \<Rightarrow> chat_db \<Rightarrow> (string \<times> message) list option" where
  "get_messages_by_chat_id cid db = map_option (\<lambda>c. messages_of (history_of c)) (get_chat_by_id cid db)"

definition get_message_by_id_and_message_id :: "string \<Rightarrow> string \<Rightarrow> chat_db \<Rightarrow> message option" where
  "get_message_by_id_and_message_id cid mid db =
     map_option (\<lambda>c. case_option [] id (map_of (messages_of (history_of c)) mid)) (get_chat_by_id cid db)"

text \<open>A new message in a history without \<open>messages\<close> is a \<open>KeyError\<close>.\<close>

definition upsert_message_to_chat_by_id_and_message_id ::
    "int \<Rightarrow> string \<Rightarrow> string \<Rightarrow> message \<Rightarrow> chat_db \<Rightarrow> chat_db \<times> chat option result" where
  "upsert_message_to_chat_by_id_and_message_id now cid mid message db =
     (case get_chat_by_id cid db of
        None \<Rightarrow> (db, Inr None)
      | Some c \<Rightarrow>
          (let h = history_of c
           in case h_messages h of
                None \<Rightarrow> (db, Inl KeyError)
              | Some ms \<Rightarrow>
                  (let new = (case map_of ms mid of Some old \<Rightarrow> dict_merge old message | None \<Rightarrow> message);
                       h' = h\<lparr>h_messages := Some (AList.update mid new ms), h_current_id := Some mid\<rparr>;
                       (db', r) = update_chat_by_id now cid ((c_chat c)\<lparr>cc_history := Some h'\<rparr>) db
                   in (db', Inr r))))"

definition add_message_status_to_chat_by_id_and_message_id ::
    "int \<Rightarrow> string \<Rightarrow> string \<Rightarrow> json \<Rightarrow> chat_db \<Rightarrow> chat_db \<times> chat option result" where
  "add_message_status_to_chat_by_id_and_message_id now cid mid status db =
     (case get_chat_by_id cid db of
        None \<Rightarrow> (db, Inr None)
      | Some c \<Rightarrow>
          (let h = history_of c
           in case map_of (messages_of h) mid of
                None \<Rightarrow> (let (db', r) = update_chat_by_id now cid ((c_chat c)\<lparr>cc_history := Some h\<rparr>) db in (db', Inr r))
              | Some m \<Rightarrow>
                  (case case_option (JList []) id (map_of m ''statusHistory'') of
                     JList ss \<Rightarrow>
                       (let m' = AList.update ''statusHistory'' (JList (ss @ [status])) m;
                            h' = h\<lparr>h_messages := Some (AList.update mid m' (messages_of h))\<rparr>;
                            (db', r) = update_chat_by_id now cid ((c_chat c)\<lparr>cc_history := Some h'\<rparr>) db
                        in (db', Inr r))
                   | _ \<Rightarrow> (db, Inl AttributeError))))"

definition shared_owner :: "string \<Rightarrow> string" where
  "shared_owner cid = ''shared-'' @ cid"

text \<open>An unknown chat is an \<open>AttributeError\<close>; a chat that is shared already is looked up under the owner \<open>shared\<close>.\<close>

definition insert_shared_chat_by_chat_id :: "int \<Rightarrow> string \<Rightarrow> string \<Rightarrow> chat_db \<Rightarrow> chat_db \<times> chat option result" where
  "insert_shared_chat_by_chat_id now uuid cid db =
     (case get_chat_by_id cid db of
        None \<Rightarrow> (db, Inl AttributeError)
      | Some c \<Rightarrow>
          (case nonempty (c_share_id c) of
             Some s \<Rightarrow> (db, Inr (get_chat_by_id_and_user_id s ''shared'' db))
           | None \<Rightarrow>
               (let copy = \<lparr>c_id = uuid, c_user_id = shared_owner cid, c_title = c_title c, c_chat = c_chat c,
                            c_created_at = c_created_at c, c_updated_at = now, c_share_id = None, c_archived = False,
                            c_pinned = Some False, c_tags = None, c_meta = [], c_folder_id = None, c_kind = None\<rparr>
                in (on_chats (update_by c_id cid (\<lambda>c. c\<lparr>c_share_id := Some uuid\<rparr>)) (add_chat copy db), Inr (Some copy)))))"

definition shared_row :: "int \<Rightarrow> chat \<Rightarrow> chat \<Rightarrow> chat" where
  "shared_row now c s = s\<lparr>c_title := c_title c, c_chat := c_chat c, c_updated_at := now\<rparr>"

text \<open>The first copy of the owner is updated.\<close>

fun update_first :: "('a \<Rightarrow> bool) \<Rightarrow> ('a \<Rightarrow> 'a) \<Rightarrow> 'a list \<Rightarrow> 'a list" where
  "update_first P f [] = []"
| "update_first P f (x # xs) = (if P x then f x # xs else x # update_first P f xs)"

definition update_shared_chat_by_chat_id :: "int \<Rightarrow> string \<Rightarrow> string \<Rightarrow> chat_db \<Rightarrow> chat_db \<times> chat option" where
  "update_shared_chat_by_chat_id now uuid cid db =
     (case find (\<lambda>c. c_user_id c = shared_owner cid) (cd_chats db) of
        None \<Rightarrow> (case insert_shared_chat_by_chat_id now uuid cid db of (db', Inl e) \<Rightarrow> (db', None) | (db', Inr r) \<Rightarrow> (db', r))
      | Some s \<Rightarrow>
          (case get_chat_by_id cid db of
             None \<Rightarrow> (db, None)
           | Some c \<Rightarrow>
               (on_chats (update_first (\<lambda>r. c_user_id r = shared_owner cid) (shared_row now c)) db,
                Some (shared_row now c s))))"

definition delete_shared_chat_by_chat_id :: "string \<Rightarrow> chat_db \<Rightarrow> chat_db" where
  "delete_shared_chat_by_chat_id cid = on_chats (filter (\<lambda>c. c_user_id c \<noteq> shared_owner cid))"

definition update_chat_share_id_by_id :: "string \<Rightarrow> string option \<Rightarrow> chat_db \<Rightarrow> chat_db \<times> chat option" where
  "update_chat_share_id_by_id cid share = write_chat cid (\<lambda>c. c\<lparr>c_share_id := share\<rparr>)"

definition pin_row :: "int \<Rightarrow> chat \<Rightarrow> chat" where
  "pin_row now c = c\<lparr>c_pinned := Some (c_pinned c \<noteq> Some True), c_updated_at := now\<rparr>"

definition toggle_chat_pinned_by_id :: "int \<Rightarrow> string \<Rightarrow> chat_db \<Rightarrow> chat_db \<times> chat option" where
  "toggle_chat_pinned_by_id now cid = write_chat cid (pin_row now)"

definition toggle_chat_archive_by_id :: "int \<Rightarrow> string \<Rightarrow> chat_db \<Rightarrow> chat_db \<times> chat option" where
  "toggle_chat_archive_by_id now cid = write_chat cid (\<lambda>c. c\<lparr>c_archived := \<not> c_archived c, c_updated_at := now\<rparr>)"

definition archive_all_chats_by_user_id :: "string \<Rightarrow> chat_db \<Rightarrow> chat_db" where
  "archive_all_chats_by_user_id user = on_chats (map (\<lambda>c. if c_user_id c = user then c\<lparr>c_archived := True\<rparr> else c))"

definition newest_first :: "chat list \<Rightarrow> chat list" where
  "newest_first cs = sort_key (\<lambda>c. - c_updated_at c) cs"

text \<open>\<open>if skip: offset(skip)\<close> and \<open>if limit: limit(limit)\<close>.\<close>

definition page_of :: "nat \<Rightarrow> nat \<Rightarrow> 'a list \<Rightarrow> 'a list" where
  "page_of skip limit xs = (let ys = drop skip xs in if limit = 0 then ys else take limit ys)"

definition unpinned :: "chat \<Rightarrow> bool" where
  "unpinned c \<longleftrightarrow> c_pinned c \<noteq> Some True"

definition get_archived_chat_list_by_user_id :: "string \<Rightarrow> chat_db \<Rightarrow> chat list" where
  "get_archived_chat_list_by_user_id user db = newest_first [c \<leftarrow> cd_chats db. c_user_id c = user \<and> c_archived c]"

definition get_chat_list_by_user_id :: "string \<Rightarrow> bool \<Rightarrow> nat \<Rightarrow> nat \<Rightarrow> chat_db \<Rightarrow> chat list" where
  "get_chat_list_by_user_id user include_archived skip limit db =
     page_of skip limit (newest_first [c \<leftarrow> cd_chats db. c_user_id c = user \<and> c_folder_id c = None \<and> c_kind c = None \<and>
        (include_archived \<or> \<not> c_archived c)])"

definition get_chat_list_by_user_id_and_kind :: "string \<Rightarrow> string \<Rightarrow> bool \<Rightarrow> nat \<Rightarrow> nat \<Rightarrow> chat_db \<Rightarrow> chat list" where
  "get_chat_list_by_user_id_and_kind user kind include_archived skip limit db =
     page_of skip limit (newest_first [c \<leftarrow> cd_chats db. c_user_id c = user \<and> c_folder_id c = None \<and>
        c_kind c = Some kind \<and> (include_archived \<or> \<not> c_archived c)])"

definition get_chat_title_id_list_by_user_id :: "string \<Rightarrow> bool \<Rightarrow> nat \<Rightarrow> nat \<Rightarrow> chat_db \<Rightarrow> (string \<times> string \<times> int \<times> int) list" where
  "get_chat_title_id_list_by_user_id user include_archived skip limit db =
     map (\<lambda>c. (c_id c, c_title c, c_updated_at c, c_created_at c))
       (page_of skip limit (newest_first [c \<leftarrow> cd_chats db. c_user_id c = user \<and> c_folder_id c = None \<and> c_kind c = None \<and>
          unpinned c \<and> (include_archived \<or> \<not> c_archived c)]))"

definition get_chat_list_by_chat_ids :: "string list \<Rightarrow> chat_db \<Rightarrow> chat list" where
  "get_chat_list_by_chat_ids ids db = newest_first [c \<leftarrow> cd_chats db. c_id c \<in> set ids \<and> \<not> c_archived c]"

definition get_chat_by_share_id :: "string \<Rightarrow> chat_db \<Rightarrow> chat option" where
  "get_chat_by_share_id s db =
     (if find (\<lambda>c. c_share_id c = Some s) (cd_chats db) = None then None else get_chat_by_id s db)"

definition get_chats :: "chat_db \<Rightarrow> chat list" where
  "get_chats db = newest_first (cd_chats db)"

definition get_chats_by_user_id :: "string \<Rightarrow> chat_db \<Rightarrow> chat list" where
  "get_chats_by_user_id user db = newest_first [c \<leftarrow> cd_chats db. c_user_id c = user]"

definition get_pinned_chats_by_user_id :: "string \<Rightarrow> chat_db \<Rightarrow> chat list" where
  "get_pinned_chats_by_user_id user db =
     newest_first [c \<leftarrow> cd_chats db. c_user_id c = user \<and> \<not> unpinned c \<and> \<not> c_archived c]"

definition get_archived_chats_by_user_id :: "string \<Rightarrow> chat_db \<Rightarrow> chat list" where
  "get_archived_chats_by_user_id user db = newest_first [c \<leftarrow> cd_chats db. c_user_id c = user \<and> c_archived c]"

definition get_chats_by_folder_ids_and_user_id :: "string list \<Rightarrow> string \<Rightarrow> chat_db \<Rightarrow> chat list" where
  "get_chats_by_folder_ids_and_user_id fids user db =
     newest_first [c \<leftarrow> cd_chats db. (\<exists>f \<in> set fids. c_folder_id c = Some f) \<and> c_user_id c = user \<and> unpinned c \<and> \<not> c_archived c]"

definition get_chats_by_folder_id_and_user_id :: "string \<Rightarrow> string \<Rightarrow> chat_db \<Rightarrow> chat list" where
  "get_chats_by_folder_id_and_user_id fid user db =
     newest_first [c \<leftarrow> cd_chats db. c_folder_id c = Some fid \<and> c_user_id c = user \<and> unpinned c \<and> \<not> c_archived c]"

definition update_chat_folder_id_by_id_and_user_id ::
    "int \<Rightarrow> string \<Rightarrow> string \<Rightarrow> string option \<Rightarrow> chat_db \<Rightarrow> chat_db \<times> chat option" where
  "update_chat_folder_id_by_id_and_user_id now cid user fid =
     write_chat cid (\<lambda>c. c\<lparr>c_folder_id := fid, c_updated_at := now, c_pinned := Some False\<rparr>)"

text \<open>\<open>list(set(tags))\<close> has no defined order; the model keeps the first occurrences.\<close>

definition tags_of :: "chat \<Rightarrow> string list" where
  "tags_of c = case_option [] id (c_tags c)"

definition count_chats_by_tag_name_and_user_id :: "string \<Rightarrow> string \<Rightarrow> chat_db \<Rightarrow> nat" where
  "count_chats_by_tag_name_and_user_id name user db =
     length [c \<leftarrow> cd_chats db. c_user_id c = user \<and> \<not> c_archived c \<and> tag_key name \<in> set (tags_of c)]"

definition get_chat_list_by_user_id_and_tag_name :: "string \<Rightarrow> string \<Rightarrow> chat_db \<Rightarrow> chat list" where
  "get_chat_list_by_user_id_and_tag_name user name db =
     [c \<leftarrow> cd_chats db. c_user_id c = user \<and> tag_key name \<in> set (tags_of c)]"

definition add_chat_tag_by_id_and_user_id_and_tag_name :: "string \<Rightarrow> string \<Rightarrow> string \<Rightarrow> chat_db \<Rightarrow> chat_db \<times> chat option" where
  "add_chat_tag_by_id_and_user_id_and_tag_name cid user name db =
     (let (db1, tag) = (case get_tag_by_name_and_user_id name user db of
                          Some t \<Rightarrow> (db, Some t) | None \<Rightarrow> insert_new_tag name user db)
      in case tag of
           None \<Rightarrow> (db1, None)
         | Some t \<Rightarrow> write_chat cid (\<lambda>c. if t_id t \<in> set (tags_of c) then c
                                         else c\<lparr>c_tags := Some (remdups (tags_of c @ [t_id t]))\<rparr>) db1)"

definition delete_tag_by_id_and_user_id_and_tag_name :: "string \<Rightarrow> string \<Rightarrow> chat_db \<Rightarrow> chat_db" where
  "delete_tag_by_id_and_user_id_and_tag_name cid name =
     on_chats (update_by c_id cid (\<lambda>c. c\<lparr>c_tags := Some (remdups [t \<leftarrow> tags_of c. t \<noteq> tag_key name])\<rparr>))"

definition delete_all_tags_by_id_and_user_id :: "string \<Rightarrow> chat_db \<Rightarrow> chat_db" where
  "delete_all_tags_by_id_and_user_id cid = on_chats (update_by c_id cid (\<lambda>c. c\<lparr>c_tags := Some []\<rparr>))"

text \<open>Tags that no unarchived chat of the user carries any more are dropped.\<close>

definition drop_tag_at :: "nat \<Rightarrow> string \<Rightarrow> string \<Rightarrow> chat_db \<Rightarrow> chat_db" where
  "drop_tag_at n user tag db =
     (if count_chats_by_tag_name_and_user_id tag user db = n then delete_tag_by_name_and_user_id tag user db else db)"

definition update_chat_tags_by_id :: "string \<Rightarrow> string list \<Rightarrow> string \<Rightarrow> chat_db \<Rightarrow> chat_db \<times> chat option" where
  "update_chat_tags_by_id cid tags user db =
     (case get_chat_by_id cid db of
        None \<Rightarrow> (db, None)
      | Some c \<Rightarrow>
          (let db1 = fold (drop_tag_at 0 user) (tags_of c) (delete_all_tags_by_id_and_user_id cid db);
               db2 = fold (\<lambda>name d. if lower name = ''none'' then d
                                     else fst (add_chat_tag_by_id_and_user_id_and_tag_name cid user name d)) tags db1
           in (db2, get_chat_by_id cid db2)))"

definition delete_chat_by_id :: "string \<Rightarrow> chat_db \<Rightarrow> chat_db" where
  "delete_chat_by_id cid db = delete_shared_chat_by_chat_id cid (on_chats (filter (\<lambda>c. c_id c \<noteq> cid)) db)"

definition delete_chat_by_id_and_user_id :: "string \<Rightarrow> string \<Rightarrow> chat_db \<Rightarrow> chat_db" where
  "delete_chat_by_id_and_user_id cid user db =
     delete_shared_chat_by_chat_id cid (on_chats (filter (\<lambda>c. \<not> (c_id c = cid \<and> c_user_id c = user))) db)"

definition delete_shared_chats_by_user_id :: "string \<Rightarrow> chat_db \<Rightarrow> chat_db" where
  "delete_shared_chats_by_user_id user db =
     on_chats (filter (\<lambda>c. c_user_id c \<notin> set (map (shared_owner \<circ> c_id) [c \<leftarrow> cd_chats db. c_user_id c = user]))) db"

definition delete_chats_by_user_id :: "string \<Rightarrow> chat_db \<Rightarrow> chat_db" where
  "delete_chats_by_user_id user db = on_chats (filter (\<lambda>c. c_user_id c \<noteq> user)) (delete_shared_chats_by_user_id user db)"

definition delete_chats_by_user_id_and_folder_id :: "string \<Rightarrow> string \<Rightarrow> chat_db \<Rightarrow> chat_db" where
  "delete_chats_by_user_id_and_folder_id user fid =
     on_chats (filter (\<lambda>c. \<not> (c_user_id c = user \<and> c_folder_id c = Some fid)))"

section \<open>Folders\<close>

definition insert_new_folder :: "int \<Rightarrow> string \<Rightarrow> string \<Rightarrow> string \<Rightarrow> string option \<Rightarrow> chat_db \<Rightarrow> chat_db \<times> folder" where
  "insert_new_folder now uuid user name parent db =
     (let f = \<lparr>f_id = uuid, f_parent_id = parent, f_user_id = user, f_name = name, f_meta = None, f_is_expanded = False,
               f_created_at = now, f_updated_at = now\<rparr>
      in (on_folders (\<lambda>fs. fs @ [f]) db, f))"

definition get_folder_by_id_and_user_id :: "string \<Rightarrow> string \<Rightarrow> chat_db \<Rightarrow> folder option" where
  "get_folder_by_id_and_user_id fid user db = find (\<lambda>f. f_id f = fid \<and> f_user_id f = user) (cd_folders db)"

definition get_folders_by_user_id :: "string \<Rightarrow> chat_db \<Rightarrow> folder list" where
  "get_folders_by_user_id user db = [f \<leftarrow> cd_folders db. f_user_id f = user]"

definition get_folders_by_parent_id_and_user_id :: "string option \<Rightarrow> string \<Rightarrow> chat_db \<Rightarrow> folder list" where
  "get_folders_by_parent_id_and_user_id parent user db = [f \<leftarrow> cd_folders db. f_parent_id f = parent \<and> f_user_id f = user]"

definition get_folder_by_parent_id_and_user_id_and_name ::
    "dialect \<Rightarrow> string option \<Rightarrow> string \<Rightarrow> string \<Rightarrow> chat_db \<Rightarrow> folder option" where
  "get_folder_by_parent_id_and_user_id_and_name d parent user name db =
     find (\<lambda>f. f_parent_id f = parent \<and> f_user_id f = user \<and> sql_ilike d name (f_name f)) (cd_folders db)"

text \<open>The descendants, children after their own descendants; \<open>None\<close> when the recursion limit is hit.\<close>

primrec get_children :: "nat \<Rightarrow> string \<Rightarrow> chat_db \<Rightarrow> string \<Rightarrow> folder list option" where
  "get_children 0 user db fid = None"
| "get_children (Suc n) user db fid =
     foldl (\<lambda>acc child. case acc of
               None \<Rightarrow> None
             | Some fs \<Rightarrow> (case get_children n user db (f_id child) of None \<Rightarrow> None | Some cs \<Rightarrow> Some (fs @ cs @ [child])))
       (Some []) (get_folders_by_parent_id_and_user_id (Some fid) user db)"

definition get_children_folders_by_id_and_user_id :: "nat \<Rightarrow> string \<Rightarrow> string \<Rightarrow> chat_db \<Rightarrow> folder list option" where
  "get_children_folders_by_id_and_user_id limit fid user db =
     (case get_folder_by_id_and_user_id fid user db of None \<Rightarrow> None | Some f \<Rightarrow> get_children limit user db (f_id f))"

definition write_folder :: "string \<Rightarrow> string \<Rightarrow> (folder \<Rightarrow> folder) \<Rightarrow> chat_db \<Rightarrow> chat_db \<times> folder option" where
  "write_folder fid user f db =
     (case get_folder_by_id_and_user_id fid user db of
        None \<Rightarrow> (db, None)
      | Some r \<Rightarrow> (on_folders (update_first (\<lambda>r. f_id r = fid \<and> f_user_id r = user) f) db, Some (f r)))"

definition update_folder_parent_id_by_id_and_user_id ::
    "int \<Rightarrow> string \<Rightarrow> string \<Rightarrow> string option \<Rightarrow> chat_db \<Rightarrow> chat_db \<times> folder option" where
  "update_folder_parent_id_by_id_and_user_id now fid user parent =
     write_folder fid user (\<lambda>f. f\<lparr>f_parent_id := parent, f_updated_at := now\<rparr>)"

definition update_folder_name_by_id_and_user_id ::
    "int \<Rightarrow> string \<Rightarrow> string \<Rightarrow> string \<Rightarrow> chat_db \<Rightarrow> chat_db \<times> folder option" where
  "update_folder_name_by_id_and_user_id now fid user name db =
     (case get_folder_by_id_and_user_id fid user db of
        None \<Rightarrow> (db, None)
      | Some f \<Rightarrow>
          if find (\<lambda>g. f_name g = name \<and> f_parent_id g = f_parent_id f \<and> f_user_id g = user) (cd_folders db) \<noteq> None
          then (db, None)
          else write_folder fid user (\<lambda>f. f\<lparr>f_name := name, f_updated_at := now\<rparr>) db)"

definition update_folder_is_expanded_by_id_and_user_id ::
    "int \<Rightarrow> string \<Rightarrow> string \<Rightarrow> bool \<Rightarrow> chat_db \<Rightarrow> chat_db \<times> folder option" where
  "update_folder_is_expanded_by_id_and_user_id now fid user ex =
     write_folder fid user (\<lambda>f. f\<lparr>f_is_expanded := ex, f_updated_at := now\<rparr>)"

definition update_folder_meta_by_id_and_user_id ::
    "int \<Rightarrow> string \<Rightarrow> string \<Rightarrow> (string \<times> json) list \<Rightarrow> chat_db \<Rightarrow> chat_db \<times> folder option" where
  "update_folder_meta_by_id_and_user_id now fid user meta =
     write_folder fid user (\<lambda>f. f\<lparr>f_meta := Some (dict_merge (case_option [] id (f_meta f)) meta), f_updated_at := now\<rparr>)"

text \<open>
  The children are read before any of them is deleted. A child whose row is gone when it is to be
  deleted, and the recursion limit, are the exceptions the caller catches (\<open>False\<close>).
\<close>

definition delete_child ::
    "(string \<Rightarrow> chat_db \<Rightarrow> chat_db \<times> bool) \<Rightarrow> string \<Rightarrow> folder \<Rightarrow> chat_db \<times> bool \<Rightarrow> chat_db \<times> bool" where
  "delete_child rec user child st =
     (if \<not> snd st then st
      else (let (db2, ok) = rec (f_id child) (delete_chats_by_user_id_and_folder_id user (f_id child) (fst st))
            in if \<not> ok then (db2, False)
               else if find_by f_id (f_id child) (cd_folders db2) = None then (db2, False)
               else (on_folders (filter (\<lambda>f. f_id f \<noteq> f_id child)) db2, True)))"

primrec delete_children :: "nat \<Rightarrow> string \<Rightarrow> string \<Rightarrow> chat_db \<Rightarrow> chat_db \<times> bool" where
  "delete_children 0 user fid db = (db, False)"
| "delete_children (Suc n) user fid db =
     fold (delete_child (delete_children n user) user) (get_folders_by_parent_id_and_user_id (Some fid) user db) (db, True)"

definition delete_folder_by_id_and_user_id :: "nat \<Rightarrow> string \<Rightarrow> string \<Rightarrow> chat_db \<Rightarrow> chat_db \<times> bool" where
  "delete_folder_by_id_and_user_id limit fid user db =
     (case get_folder_by_id_and_user_id fid user db of
        None \<Rightarrow> (db, False)
      | Some f \<Rightarrow>
          (let (db2, ok) = delete_children limit user fid (delete_chats_by_user_id_and_folder_id user fid db)
           in if \<not> ok then (db2, False) else (on_folders (filter (\<lambda>f. f_id f \<noteq> fid)) db2, True)))"

section \<open>References of a folder preset\<close>

record ref_record =
  rr_user_id :: string
  rr_access_control :: access_control

record preset =
  fp_default_model_id :: "string option"
  fp_tool_ids :: "string list option"
  fp_knowledge_ids :: "string list option"
  fp_extra :: "(string \<times> json) list"

datatype ref_kind = REF_MODEL | REF_TOOL | REF_KNOWLEDGE

definition BUILTIN_TOOL_IDS :: "string list" where
  "BUILTIN_TOOL_IDS = [''web_search'']"

text \<open>What a request runs in: the clock, a fresh key, the permissions and the tables a preset refers to.\<close>

record chat_env =
  ce_now :: int
  ce_uuid :: string
  ce_dialect :: dialect
  ce_groups :: "group list"
  ce_permissions :: "(string \<times> json) list"
  ce_recursion_limit :: nat
  ce_web_search :: bool
  ce_models :: "string \<Rightarrow> ref_record option"
  ce_tools :: "string \<Rightarrow> ref_record option"
  ce_knowledge :: "string \<Rightarrow> ref_record option"

definition record_accessible :: "chat_env \<Rightarrow> ref_record option \<Rightarrow> user \<Rightarrow> string \<Rightarrow> bool" where
  "record_accessible env record user permission =
     (case record of
        None \<Rightarrow> False
      | Some r \<Rightarrow> u_role user = ''admin'' \<or> rr_user_id r = u_id user \<or>
                   has_access (ce_dialect env) (u_id user) permission (rr_access_control r) (ce_groups env))"

definition resolve_model_ref :: "chat_env \<Rightarrow> string \<Rightarrow> user \<Rightarrow> string \<Rightarrow> bool" where
  "resolve_model_ref env mid user permission = record_accessible env (ce_models env mid) user permission"

definition resolve_tool_ref :: "chat_env \<Rightarrow> string \<Rightarrow> user \<Rightarrow> string \<Rightarrow> bool" where
  "resolve_tool_ref env tid user permission =
     (if ce_tools env tid \<noteq> None then record_accessible env (ce_tools env tid) user permission
      else tid \<in> set BUILTIN_TOOL_IDS \<and> ce_web_search env)"

definition resolve_knowledge_ref :: "chat_env \<Rightarrow> string \<Rightarrow> user \<Rightarrow> string \<Rightarrow> bool" where
  "resolve_knowledge_ref env kid user permission = record_accessible env (ce_knowledge env kid) user permission"

definition unresolved_preset_references :: "chat_env \<Rightarrow> preset \<Rightarrow> user \<Rightarrow> string \<Rightarrow> (ref_kind \<times> string) list" where
  "unresolved_preset_references env p user permission =
     (case fp_default_model_id p of
        None \<Rightarrow> []
      | Some m \<Rightarrow> if resolve_model_ref env m user permission then [] else [(REF_MODEL, m)]) @
     map (Pair REF_TOOL) [t \<leftarrow> case_option [] id (fp_tool_ids p). \<not> resolve_tool_ref env t user permission] @
     map (Pair REF_KNOWLEDGE) [k \<leftarrow> case_option [] id (fp_knowledge_ids p). \<not> resolve_knowledge_ref env k user permission]"

definition preset_references_resolve :: "chat_env \<Rightarrow> preset \<Rightarrow> user \<Rightarrow> string \<Rightarrow> bool" where
  "preset_references_resolve env p user permission \<longleftrightarrow> unresolved_preset_references env p user permission = []"

definition opt_json :: "('a \<Rightarrow> json) \<Rightarrow> 'a option \<Rightarrow> json" where
  "opt_json f x = (case x of None \<Rightarrow> JNull | Some v \<Rightarrow> f v)"

definition preset_json :: "preset \<Rightarrow> json" where
  "preset_json p = JObj ([(''default_model_id'', opt_json JStr (fp_default_model_id p)),
     (''tool_ids'', opt_json (JList \<circ> map JStr) (fp_tool_ids p)),
     (''knowledge_ids'', opt_json (JList \<circ> map JStr) (fp_knowledge_ids p))] @ fp_extra p)"

section \<open>Chat endpoints\<close>

text \<open>Each endpoint returns the tables and its answer; a status 500 is an exception no handler catches.\<close>

definition unauthorized :: "chat_db \<Rightarrow> chat_db \<times> 'a result" where
  "unauthorized db = (db, Inl (HTTPException 401))"

definition answered :: "chat_db \<times> chat option \<Rightarrow> chat_db \<times> chat result" where
  "answered r = (fst r, case snd r of None \<Rightarrow> Inl (HTTPException 500) | Some c \<Rightarrow> Inr c)"

definition create_new_chat :: "chat_env \<Rightarrow> user \<Rightarrow> chat_content \<Rightarrow> string option \<Rightarrow> chat_db \<Rightarrow> chat_db \<times> chat result" where
  "create_new_chat env user content kind db =
     (if kind \<notin> {None, Some ''tokenization''} then (db, Inl (HTTPException 422))
      else (let (db', c) = insert_new_chat (ce_now env) (ce_uuid env) (u_id user) content kind db in (db', Inr c)))"

definition capitalize :: "string \<Rightarrow> string" where
  "capitalize s = (case s of [] \<Rightarrow> [] | c # cs \<Rightarrow> upper_char c # lower cs)"

definition tag_title :: "string \<Rightarrow> string" where
  "tag_title tid = py_join '' '' (map capitalize (split_on (CHR ''_'') tid))"

definition import_chat_endpoint ::
    "chat_env \<Rightarrow> user \<Rightarrow> chat_content \<Rightarrow> string list option \<Rightarrow> (string \<times> json) list \<Rightarrow> bool option \<Rightarrow> string option \<Rightarrow>
     chat_db \<Rightarrow> chat_db \<times> chat result" where
  "import_chat_endpoint env user content tags meta pinned folder db =
     (let (db1, c) = import_chat (ce_now env) (ce_uuid env) (u_id user) content tags meta pinned folder db;
          db2 = fold (\<lambda>t d. let name = tag_title (tag_key t)
                            in if tag_key t \<noteq> ''none'' \<and> get_tag_by_name_and_user_id name (u_id user) d = None
                               then fst (insert_new_tag name (u_id user) d) else d) (tags_of c) db1
      in (db2, Inr c))"

definition get_shared_chat_by_id :: "bool \<Rightarrow> user \<Rightarrow> string \<Rightarrow> chat_db \<Rightarrow> chat result" where
  "get_shared_chat_by_id admin_access user s db =
     (if u_role user = ''pending'' then Inl (HTTPException 401)
      else case (if u_role user = ''admin'' \<and> admin_access then get_chat_by_id s db else get_chat_by_share_id s db) of
             None \<Rightarrow> Inl (HTTPException 401)
           | Some c \<Rightarrow> Inr c)"

text \<open>Most endpoints first look the chat up among the chats of the user.\<close>

definition own_chat ::
    "user \<Rightarrow> string \<Rightarrow> (chat \<Rightarrow> chat_db \<times> 'a result) \<Rightarrow> chat_db \<Rightarrow> chat_db \<times> 'a result" where
  "own_chat user cid k db =
     (case get_chat_by_id_and_user_id cid (u_id user) db of None \<Rightarrow> unauthorized db | Some c \<Rightarrow> k c)"

definition merge_content :: "chat_content \<Rightarrow> chat_content \<Rightarrow> chat_content" where
  "merge_content a b =
     \<lparr>cc_title = (case cc_title b of None \<Rightarrow> cc_title a | Some t \<Rightarrow> Some t),
      cc_history = (case cc_history b of None \<Rightarrow> cc_history a | Some h \<Rightarrow> Some h),
      cc_rest = dict_merge (cc_rest a) (cc_rest b)\<rparr>"

definition update_chat_endpoint :: "chat_env \<Rightarrow> user \<Rightarrow> string \<Rightarrow> chat_content \<Rightarrow> chat_db \<Rightarrow> chat_db \<times> chat result" where
  "update_chat_endpoint env user cid content db =
     own_chat user cid (\<lambda>c. answered (update_chat_by_id (ce_now env) cid (merge_content (c_chat c) content) db)) db"

definition may_delete :: "chat_env \<Rightarrow> user \<Rightarrow> bool" where
  "may_delete env user = has_permission (ce_dialect env) (u_id user) ''chat.delete'' (ce_permissions env) (ce_groups env)"

definition delete_chat_endpoint :: "chat_env \<Rightarrow> user \<Rightarrow> string \<Rightarrow> chat_db \<Rightarrow> chat_db \<times> bool result" where
  "delete_chat_endpoint env user cid db =
     (if u_role user \<noteq> ''admin'' \<and> \<not> may_delete env user then unauthorized db
      else case get_chat_by_id cid db of
             None \<Rightarrow> (db, Inl (HTTPException 500))
           | Some c \<Rightarrow>
               (let db1 = fold (drop_tag_at 1 (u_id user)) (tags_of c) db
                in if u_role user = ''admin'' then (delete_chat_by_id cid db1, Inr True)
                   else (delete_chat_by_id_and_user_id cid (u_id user) db1, Inr True)))"

definition delete_all_user_chats :: "chat_env \<Rightarrow> user \<Rightarrow> chat_db \<Rightarrow> chat_db \<times> bool result" where
  "delete_all_user_chats env user db =
     (if u_role user = ''user'' \<and> \<not> may_delete env user then unauthorized db
      else (delete_chats_by_user_id (u_id user) db, Inr True))"

definition pin_chat_by_id :: "chat_env \<Rightarrow> user \<Rightarrow> string \<Rightarrow> chat_db \<Rightarrow> chat_db \<times> chat option result" where
  "pin_chat_by_id env user cid db =
     own_chat user cid (\<lambda>c. let (db', r) = toggle_chat_pinned_by_id (ce_now env) cid db in (db', Inr r)) db"

definition clone_content :: "chat \<Rightarrow> chat_content option" where
  "clone_content c =
     Option.bind (cc_history (c_chat c)) (\<lambda>h. map_option (\<lambda>cur.
       (c_chat c)\<lparr>cc_title := Some (''Clone of '' @ c_title c),
         cc_rest := dict_merge (cc_rest (c_chat c)) [(''originalChatId'', JStr (c_id c)), (''branchPointMessageId'', JStr cur)]\<rparr>)
       (h_current_id h))"

definition clone_chat :: "chat_env \<Rightarrow> user \<Rightarrow> chat \<Rightarrow> chat_db \<Rightarrow> chat_db \<times> chat result" where
  "clone_chat env user c db =
     (case clone_content c of
        None \<Rightarrow> (db, Inl (HTTPException 500))
      | Some content \<Rightarrow>
          (let (db', n) = insert_new_chat (ce_now env) (ce_uuid env) (u_id user) content None db in (db', Inr n)))"

definition clone_chat_by_id :: "chat_env \<Rightarrow> user \<Rightarrow> string \<Rightarrow> chat_db \<Rightarrow> chat_db \<times> chat result" where
  "clone_chat_by_id env user cid db = own_chat user cid (\<lambda>c. clone_chat env user c db) db"

definition clone_shared_chat_by_id :: "chat_env \<Rightarrow> user \<Rightarrow> string \<Rightarrow> chat_db \<Rightarrow> chat_db \<times> chat result" where
  "clone_shared_chat_by_id env user s db =
     (case get_chat_by_share_id s db of None \<Rightarrow> unauthorized db | Some c \<Rightarrow> clone_chat env user c db)"

definition archive_chat_by_id :: "chat_env \<Rightarrow> user \<Rightarrow> string \<Rightarrow> chat_db \<Rightarrow> chat_db \<times> chat result" where
  "archive_chat_by_id env user cid db =
     own_chat user cid (\<lambda>_.
       case toggle_chat_archive_by_id (ce_now env) cid db of
         (db1, None) \<Rightarrow> (db1, Inl (HTTPException 500))
       | (db1, Some c) \<Rightarrow>
           if c_archived c then (fold (drop_tag_at 0 (u_id user)) (tags_of c) db1, Inr c)
           else (fold (\<lambda>t d. if get_tag_by_name_and_user_id t (u_id user) d = None
                              then fst (insert_new_tag t (u_id user) d) else d) (tags_of c) db1, Inr c)) db"

definition share_chat_by_id :: "chat_env \<Rightarrow> user \<Rightarrow> string \<Rightarrow> chat_db \<Rightarrow> chat_db \<times> chat result" where
  "share_chat_by_id env user cid db =
     own_chat user cid (\<lambda>c.
       if nonempty (c_share_id c) \<noteq> None then answered (update_shared_chat_by_chat_id (ce_now env) (ce_uuid env) cid db)
       else (case insert_shared_chat_by_chat_id (ce_now env) (ce_uuid env) cid db of
               (db', Inl e) \<Rightarrow> (db', Inl (HTTPException 500))
             | (db', Inr r) \<Rightarrow> answered (db', r))) db"

definition delete_shared_chat_by_id :: "user \<Rightarrow> string \<Rightarrow> chat_db \<Rightarrow> chat_db \<times> bool result" where
  "delete_shared_chat_by_id user cid db =
     own_chat user cid (\<lambda>c.
       if nonempty (c_share_id c) = None then (db, Inr False)
       else (let (db', r) = update_chat_share_id_by_id cid None (delete_shared_chat_by_chat_id cid db)
             in (db', Inr (r \<noteq> None)))) db"

definition update_chat_folder_id_by_id :: "chat_env \<Rightarrow> user \<Rightarrow> string \<Rightarrow> string option \<Rightarrow> chat_db \<Rightarrow> chat_db \<times> chat result" where
  "update_chat_folder_id_by_id env user cid fid db =
     own_chat user cid (\<lambda>c. answered (update_chat_folder_id_by_id_and_user_id (ce_now env) cid (u_id user) fid db)) db"

definition chat_tags_answer :: "user \<Rightarrow> string \<Rightarrow> chat_db \<Rightarrow> chat_db \<times> tag list result" where
  "chat_tags_answer user cid db =
     (db, case get_chat_by_id_and_user_id cid (u_id user) db of
            None \<Rightarrow> Inl (HTTPException 500)
          | Some c \<Rightarrow> Inr (get_tags_by_ids_and_user_id (tags_of c) (u_id user) db))"

definition get_chat_tags_by_id :: "user \<Rightarrow> string \<Rightarrow> chat_db \<Rightarrow> chat_db \<times> tag list result" where
  "get_chat_tags_by_id user cid db = own_chat user cid (\<lambda>c. chat_tags_answer user cid db) db"

definition add_tag_by_id_and_tag_name :: "user \<Rightarrow> string \<Rightarrow> string \<Rightarrow> chat_db \<Rightarrow> chat_db \<times> tag list result" where
  "add_tag_by_id_and_tag_name user cid name db =
     own_chat user cid (\<lambda>c.
       if tag_key name = ''none'' then (db, Inl (HTTPException 400))
       else chat_tags_answer user cid
              (if tag_key name \<in> set (tags_of c) then db
               else fst (add_chat_tag_by_id_and_user_id_and_tag_name cid (u_id user) name db))) db"

definition delete_tag_by_id_and_tag_name :: "user \<Rightarrow> string \<Rightarrow> string \<Rightarrow> chat_db \<Rightarrow> chat_db \<times> tag list result" where
  "delete_tag_by_id_and_tag_name user cid name db =
     own_chat user cid (\<lambda>c.
       chat_tags_answer user cid (drop_tag_at 0 (u_id user) name (delete_tag_by_id_and_user_id_and_tag_name cid name db))) db"

definition delete_all_tags_by_id :: "user \<Rightarrow> string \<Rightarrow> chat_db \<Rightarrow> chat_db \<times> bool result" where
  "delete_all_tags_by_id user cid db =
     own_chat user cid (\<lambda>c.
       (fold (drop_tag_at 0 (u_id user)) (tags_of c) (delete_all_tags_by_id_and_user_id cid db), Inr True)) db"

definition get_user_chat_list_by_tag_name :: "user \<Rightarrow> string \<Rightarrow> chat_db \<Rightarrow> chat_db \<times> chat list result" where
  "get_user_chat_list_by_tag_name user name db =
     (let cs = get_chat_list_by_user_id_and_tag_name (u_id user) name db
      in (if cs = [] then delete_tag_by_name_and_user_id name (u_id user) db else db, Inr cs))"

definition get_chats_by_folder_id :: "chat_env \<Rightarrow> user \<Rightarrow> string \<Rightarrow> chat_db \<Rightarrow> chat list" where
  "get_chats_by_folder_id env user fid db =
     get_chats_by_folder_ids_and_user_id
       (fid # map f_id (case_option [] id
          (get_children_folders_by_id_and_user_id (ce_recursion_limit env) fid (u_id user) db))) (u_id user) db"

section \<open>Folder endpoints\<close>

definition get_folders :: "user \<Rightarrow> chat_db \<Rightarrow> (folder \<times> (string \<times> string) list) list" where
  "get_folders user db =
     map (\<lambda>f. (f, map (\<lambda>c. (c_title c, c_id c)) (get_chats_by_folder_id_and_user_id (f_id f) (u_id user) db)))
       (get_folders_by_user_id (u_id user) db)"

definition create_folder :: "chat_env \<Rightarrow> user \<Rightarrow> string \<Rightarrow> chat_db \<Rightarrow> chat_db \<times> folder result" where
  "create_folder env user name db =
     (if get_folder_by_parent_id_and_user_id_and_name (ce_dialect env) None (u_id user) name db \<noteq> None
      then (db, Inl (HTTPException 400))
      else (let (db', f) = insert_new_folder (ce_now env) (ce_uuid env) (u_id user) name None db in (db', Inr f)))"

definition own_folder ::
    "user \<Rightarrow> string \<Rightarrow> (folder \<Rightarrow> chat_db \<times> 'a result) \<Rightarrow> chat_db \<Rightarrow> chat_db \<times> 'a result" where
  "own_folder user fid k db =
     (case get_folder_by_id_and_user_id fid (u_id user) db of None \<Rightarrow> (db, Inl (HTTPException 404)) | Some f \<Rightarrow> k f)"

text \<open>A preset whose references do not all resolve rejects the whole update, the rename included.\<close>

definition update_folder_name_by_id ::
    "chat_env \<Rightarrow> user \<Rightarrow> string \<Rightarrow> string \<Rightarrow> preset option \<Rightarrow> chat_db \<Rightarrow> chat_db \<times> folder option result" where
  "update_folder_name_by_id env user fid name preset db =
     own_folder user fid (\<lambda>f.
       if (case preset of None \<Rightarrow> False | Some p \<Rightarrow> unresolved_preset_references env p user ''read'' \<noteq> [])
       then (db, Inl (HTTPException 400))
       else if name \<noteq> f_name f \<and>
               get_folder_by_parent_id_and_user_id_and_name (ce_dialect env) (f_parent_id f) (u_id user) name db \<noteq> None
       then (db, Inl (HTTPException 400))
       else (let (db1, f1) = (if name \<noteq> f_name f then update_folder_name_by_id_and_user_id (ce_now env) fid (u_id user) name db
                              else (db, Some f))
             in case preset of
                  None \<Rightarrow> (db1, Inr f1)
                | Some p \<Rightarrow>
                    (let (db2, f2) = update_folder_meta_by_id_and_user_id (ce_now env) fid (u_id user)
                                       [(''preset'', preset_json p)] db1
                     in (db2, Inr (if f2 = None then f1 else f2))))) db"

definition update_folder_parent_id_by_id ::
    "chat_env \<Rightarrow> user \<Rightarrow> string \<Rightarrow> string option \<Rightarrow> chat_db \<Rightarrow> chat_db \<times> folder option result" where
  "update_folder_parent_id_by_id env user fid parent db =
     own_folder user fid (\<lambda>f.
       if get_folder_by_parent_id_and_user_id_and_name (ce_dialect env) parent (u_id user) (f_name f) db \<noteq> None
       then (db, Inl (HTTPException 400))
       else (let (db', r) = update_folder_parent_id_by_id_and_user_id (ce_now env) fid (u_id user) parent db
             in (db', Inr r))) db"

definition update_folder_is_expanded_by_id ::
    "chat_env \<Rightarrow> user \<Rightarrow> string \<Rightarrow> bool \<Rightarrow> chat_db \<Rightarrow> chat_db \<times> folder option result" where
  "update_folder_is_expanded_by_id env user fid ex db =
     own_folder user fid (\<lambda>f.
       let (db', r) = update_folder_is_expanded_by_id_and_user_id (ce_now env) fid (u_id user) ex db in (db', Inr r)) db"

definition delete_folder_by_id :: "chat_env \<Rightarrow> user \<Rightarrow> string \<Rightarrow> chat_db \<Rightarrow> chat_db \<times> bool result" where
  "delete_folder_by_id env user fid db =
     own_folder user fid (\<lambda>f.
       let (db', ok) = delete_folder_by_id_and_user_id (ce_recursion_limit env) fid (u_id user) db
       in (db', if ok then Inr True else Inl (HTTPException 400))) db"

section \<open>What deleting a folder removes\<close>

definition folder_child :: "string \<Rightarrow> folder list \<Rightarrow> string \<Rightarrow> string \<Rightarrow> bool" where
  "folder_child user fs a b \<longleftrightarrow> (\<exists>f \<in> set fs. f_parent_id f = Some a \<and> f_user_id f = user \<and> f_id f = b)"

abbreviation folder_below :: "string \<Rightarrow> folder list \<Rightarrow> string \<Rightarrow> string \<Rightarrow> bool" where
  "folder_below user fs \<equiv> (folder_child user fs)\<^sup>+\<^sup>+"

text \<open>The tree under a folder is at most \<open>n - 1\<close> levels deep.\<close>

primrec tree_fits :: "nat \<Rightarrow> string \<Rightarrow> folder list \<Rightarrow> string \<Rightarrow> bool" where
  "tree_fits 0 user fs fid = False"
| "tree_fits (Suc n) user fs fid =
     (\<forall>f \<in> set fs. f_parent_id f = Some fid \<and> f_user_id f = user \<longrightarrow> tree_fits n user fs (f_id f))"

definition purge :: "string \<Rightarrow> string set \<Rightarrow> chat_db \<Rightarrow> chat_db" where
  "purge user X db = db\<lparr>cd_folders := [f \<leftarrow> cd_folders db. f_id f \<notin> X],
     cd_chats := [c \<leftarrow> cd_chats db. \<not> (c_user_id c = user \<and> (\<exists>x. c_folder_id c = Some x \<and> x \<in> X))]\<rparr>"

lemma tree_fits_child: "tree_fits (Suc n) user fs a \<Longrightarrow> folder_child user fs a b \<Longrightarrow> tree_fits n user fs b"
  by (auto simp: folder_child_def)

lemma tree_fits_mono: "tree_fits n user fs a \<Longrightarrow> set gs \<subseteq> set fs \<Longrightarrow> tree_fits n user gs a"
  by (induction n arbitrary: a) auto

lemma tree_fits_acyclic: "tree_fits n user fs a \<Longrightarrow> \<not> folder_below user fs a a"
proof (induction n arbitrary: a)
  case (Suc n)
  show ?case
  proof
    assume "folder_below user fs a a"
    then obtain b where b: "folder_child user fs a b" "(folder_child user fs)\<^sup>*\<^sup>* b a"
      by (meson tranclpD)
    then have "folder_below user fs b b" by (simp add: rtranclp_into_tranclp1)
    with Suc.IH tree_fits_child[OF Suc.prems b(1)] show False by blast
  qed
qed simp

lemma folder_child_mono: "folder_child user gs a b \<Longrightarrow> set gs \<subseteq> set fs \<Longrightarrow> folder_child user fs a b"
  by (auto simp: folder_child_def)

lemma unique_parent:
  assumes "unique_by f_id fs" "folder_child user fs a c" "folder_child user fs b c"
  shows "a = b"
proof -
  obtain f g where "f \<in> set fs" "f_parent_id f = Some a" "f_id f = c" "g \<in> set fs" "f_parent_id g = Some b" "f_id g = c"
    using assms(2,3) by (auto simp: folder_child_def)
  with unique_by_find[OF assms(1)] show ?thesis by (metis option.inject)
qed

text \<open>Two children of a folder are not below one another.\<close>

lemma siblings_apart:
  assumes u: "unique_by f_id fs" and fits: "tree_fits n user fs a"
    and c: "folder_child user fs a c" "folder_child user fs a d"
  shows "\<not> folder_below user fs c d"
proof
  assume "folder_below user fs c d"
  then obtain x where x: "(folder_child user fs)\<^sup>*\<^sup>* c x" "folder_child user fs x d"
    by (metis rtranclp.rtrancl_refl tranclp.cases tranclp_into_rtranclp)
  then have "x = a" using unique_parent[OF u _ c(2)] by blast
  with c(1) x(1) have "folder_below user fs a a" by (simp add: rtranclp_into_tranclp2)
  with tree_fits_acyclic[OF fits] show False by blast
qed

text \<open>Removing a set that is closed under children does not change what is below the others.\<close>

lemma below_without_closed:
  assumes closed: "\<And>x y. x \<in> X \<Longrightarrow> folder_child user fs x y \<Longrightarrow> y \<in> X" and c: "c \<notin> X"
  shows "X \<union> {x. folder_below user [f \<leftarrow> fs. f_id f \<notin> X] c x} = X \<union> {x. folder_below user fs c x}"
proof -
  have sub: "folder_below user fs c x" if "folder_below user [f \<leftarrow> fs. f_id f \<notin> X] c x" for x
    using that by induction (auto dest: folder_child_mono[where fs = fs] intro: tranclp.intros)
  have "x \<in> X \<or> folder_below user [f \<leftarrow> fs. f_id f \<notin> X] c x" if "folder_below user fs c x" for x
    using that
  proof induction
    case (base y)
    then show ?case by (auto simp: folder_child_def intro!: tranclp.r_into_trancl)
  next
    case (step y z)
    have "z \<in> X \<or> folder_child user [f \<leftarrow> fs. f_id f \<notin> X] y z"
      using step.hyps(2) by (auto simp: folder_child_def)
    with step.IH closed[OF _ step.hyps(2)] show ?case by (blast intro: tranclp.trancl_into_trancl)
  qed
  with sub show ?thesis by blast
qed

lemma purge_folders [simp]: "cd_folders (purge user X db) = [f \<leftarrow> cd_folders db. f_id f \<notin> X]"
  by (simp add: purge_def)

lemma purge_purge: "purge user Y (purge user X db) = purge user (X \<union> Y) db"
  by (rule chat_db.equality) (auto simp: purge_def intro!: filter_cong)

lemma purge_empty [simp]: "purge user {} db = db"
  by (simp add: purge_def)

lemma purge_one:
  "on_folders (filter (\<lambda>f. f_id f \<noteq> c)) (purge user Y (delete_chats_by_user_id_and_folder_id user c db)) =
     purge user (insert c Y) db"
  by (rule chat_db.equality) (auto simp: purge_def on_folders_def on_chats_def delete_chats_by_user_id_and_folder_id_def intro!: filter_cong)

lemma delete_chats_folders [simp]: "cd_folders (delete_chats_by_user_id_and_folder_id user fid db) = cd_folders db"
  by (simp add: delete_chats_by_user_id_and_folder_id_def on_chats_def)

text \<open>One child: everything at and below it goes, given what the recursion does.\<close>

lemma delete_child_exact:
  assumes u: "unique_by f_id (cd_folders db)"
    and rec: "\<And>d. unique_by f_id (cd_folders d) \<Longrightarrow> tree_fits n user (cd_folders d) (f_id c) \<Longrightarrow>
                rec (f_id c) d = (purge user {x. folder_below user (cd_folders d) (f_id c) x} d, True)"
    and fits: "tree_fits n user (cd_folders db) (f_id c)"
    and c: "c \<in> set (cd_folders db)" "f_id c \<notin> X"
    and closed: "\<And>x y. x \<in> X \<Longrightarrow> folder_child user (cd_folders db) x y \<Longrightarrow> y \<in> X"
  shows "delete_child rec user c (purge user X db, True) =
         (purge user (X \<union> insert (f_id c) {x. folder_below user (cd_folders db) (f_id c) x}) db, True)"
proof -
  let ?d = "purge user X db" and ?B = "{x. folder_below user [f \<leftarrow> cd_folders db. f_id f \<notin> X] (f_id c) x}"
  have fits': "tree_fits n user [f \<leftarrow> cd_folders db. f_id f \<notin> X] (f_id c)"
    by (rule tree_fits_mono[OF fits]) auto
  have r: "rec (f_id c) (delete_chats_by_user_id_and_folder_id user (f_id c) ?d) =
           (purge user ?B (delete_chats_by_user_id_and_folder_id user (f_id c) ?d), True)"
    by (subst rec) (simp_all add: unique_by_filter[OF u] fits')
  have "f_id c \<notin> ?B" using tree_fits_acyclic[OF fits'] by simp
  with c have "find_by f_id (f_id c) [f \<leftarrow> [f \<leftarrow> cd_folders db. f_id f \<notin> X]. f_id f \<notin> ?B] \<noteq> None"
    by (auto simp: find_by_None)
  then have "delete_child rec user c (?d, True) = (purge user (insert (f_id c) ?B) ?d, True)"
    by (simp add: delete_child_def r purge_one)
  also have "purge user (insert (f_id c) ?B) ?d = purge user (X \<union> insert (f_id c) ?B) db"
    by (simp add: purge_purge)
  also have "X \<union> insert (f_id c) ?B = X \<union> insert (f_id c) {x. folder_below user (cd_folders db) (f_id c) x}"
  proof -
    have "X \<union> ?B = X \<union> {x. folder_below user (cd_folders db) (f_id c) x}"
      by (rule below_without_closed[OF _ c(2)]) (rule closed)
    then show ?thesis by blast
  qed
  finally show ?thesis .
qed

lemma below_step: "folder_below user fs a x \<longleftrightarrow> (\<exists>b. folder_child user fs a b \<and> (x = b \<or> folder_below user fs b x))"
proof
  assume "folder_below user fs a x"
  then obtain b where "folder_child user fs a b" "(folder_child user fs)\<^sup>*\<^sup>* b x" by (blast dest: tranclpD)
  then show "\<exists>b. folder_child user fs a b \<and> (x = b \<or> folder_below user fs b x)" by (auto dest: rtranclpD)
qed (auto intro: tranclp_into_tranclp2)

lemma delete_siblings_exact:
  assumes u: "unique_by f_id (cd_folders db)" and fits: "tree_fits (Suc n) user (cd_folders db) fid"
    and rec: "\<And>c d. unique_by f_id (cd_folders d) \<Longrightarrow> tree_fits n user (cd_folders d) c \<Longrightarrow>
                rec c d = (purge user {x. folder_below user (cd_folders d) c x} d, True)"
    and cs: "distinct (map f_id (ps @ cs))"
      "\<And>c. c \<in> set (ps @ cs) \<Longrightarrow> c \<in> set (cd_folders db) \<and> f_parent_id c = Some fid \<and> f_user_id c = user"
  shows "fold (delete_child rec user) cs
           (purge user {x. \<exists>p \<in> set ps. x = f_id p \<or> folder_below user (cd_folders db) (f_id p) x} db, True) =
         (purge user {x. \<exists>p \<in> set (ps @ cs). x = f_id p \<or> folder_below user (cd_folders db) (f_id p) x} db, True)"
  using cs
proof (induction cs arbitrary: ps)
  case (Cons c cs)
  let ?X = "{x. \<exists>p \<in> set ps. x = f_id p \<or> folder_below user (cd_folders db) (f_id p) x}"
  have child: "folder_child user (cd_folders db) fid (f_id p)" if "p \<in> set (ps @ c # cs)" for p
    using Cons.prems(2)[OF that] by (auto simp: folder_child_def)
  have cX: "f_id c \<notin> ?X"
    using siblings_apart[OF u fits child child, of _ c] Cons.prems(1) by auto
  have "delete_child rec user c (purge user ?X db, True) =
        (purge user (?X \<union> insert (f_id c) {x. folder_below user (cd_folders db) (f_id c) x}) db, True)"
  proof (rule delete_child_exact[where n = n])
    show "tree_fits n user (cd_folders db) (f_id c)" by (rule tree_fits_child[OF fits child]) simp
    show "y \<in> ?X" if "x \<in> ?X" "folder_child user (cd_folders db) x y" for x y
      using that by (auto intro: tranclp.intros)
  qed (use Cons.prems(2)[of c] cX u rec in auto)
  also have "?X \<union> insert (f_id c) {x. folder_below user (cd_folders db) (f_id c) x} =
             {x. \<exists>p \<in> set (ps @ [c]). x = f_id p \<or> folder_below user (cd_folders db) (f_id p) x}" by auto
  finally show ?case using Cons.IH[of "ps @ [c]"] Cons.prems by simp
qed simp

lemma delete_children_exact:
  assumes "unique_by f_id (cd_folders db)" "tree_fits n user (cd_folders db) fid"
  shows "delete_children n user fid db = (purge user {x. folder_below user (cd_folders db) fid x} db, True)"
  using assms
proof (induction n arbitrary: fid db)
  case (Suc n)
  let ?cs = "get_folders_by_parent_id_and_user_id (Some fid) user db"
  have d: "distinct (map f_id ?cs)"
    using unique_by_filter[OF Suc.prems(1)] by (simp add: unique_by_def get_folders_by_parent_id_and_user_id_def)
  have "delete_children (Suc n) user fid db =
        (purge user {x. \<exists>p \<in> set ?cs. x = f_id p \<or> folder_below user (cd_folders db) (f_id p) x} db, True)"
  proof -
    have "fold (delete_child (delete_children n user) user) ?cs
            (purge user {x. \<exists>p \<in> set ([] :: folder list). x = f_id p \<or> folder_below user (cd_folders db) (f_id p) x} db, True) =
          (purge user {x. \<exists>p \<in> set ([] @ ?cs). x = f_id p \<or> folder_below user (cd_folders db) (f_id p) x} db, True)"
      by (rule delete_siblings_exact[OF Suc.prems Suc.IH])
         (use d in \<open>auto simp: get_folders_by_parent_id_and_user_id_def\<close>)
    then show ?thesis by simp
  qed
  also have "{x. \<exists>p \<in> set ?cs. x = f_id p \<or> folder_below user (cd_folders db) (f_id p) x} =
             {x. folder_below user (cd_folders db) fid x}"
  proof (rule Collect_cong)
    show "(\<exists>p \<in> set ?cs. x = f_id p \<or> folder_below user (cd_folders db) (f_id p) x) =
          folder_below user (cd_folders db) fid x" for x
      unfolding below_step[of user _ fid]
      by (auto simp: folder_child_def[of _ _ fid] get_folders_by_parent_id_and_user_id_def)
  qed
  finally show ?case .
qed simp

text \<open>
  C22: Deleting a folder of a user whose tree fits the recursion limit answers \<open>True\<close> and removes
  exactly the folder and the folders below it, and exactly the chats of the user that are in one
  of them. No other folder and no other chat is touched, and the tags are kept.
\<close>

theorem folder_deletion_is_exact:
  assumes "unique_by f_id (cd_folders db)" and "tree_fits limit user (cd_folders db) fid"
    and "get_folder_by_id_and_user_id fid user db \<noteq> None"
  shows "delete_folder_by_id_and_user_id limit fid user db =
     (db\<lparr>cd_folders := [f \<leftarrow> cd_folders db. \<not> (folder_child user (cd_folders db))\<^sup>*\<^sup>* fid (f_id f)],
         cd_chats := [c \<leftarrow> cd_chats db. \<not> (c_user_id c = user \<and>
            (\<exists>x. c_folder_id c = Some x \<and> (folder_child user (cd_folders db))\<^sup>*\<^sup>* fid x))]\<rparr>, True)"
proof -
  let ?B = "{x. folder_below user (cd_folders db) fid x}"
  have "delete_folder_by_id_and_user_id limit fid user db = (purge user (insert fid ?B) db, True)"
    using assms delete_children_exact[of "delete_chats_by_user_id_and_folder_id user fid db" limit user fid]
    by (auto simp: delete_folder_by_id_and_user_id_def purge_one)
  also have "insert fid ?B = {x. (folder_child user (cd_folders db))\<^sup>*\<^sup>* fid x}"
    by (auto dest: rtranclpD tranclp_into_rtranclp)
  finally show ?thesis by (simp add: purge_def)
qed

definition example_folder :: "string \<Rightarrow> string option \<Rightarrow> string \<Rightarrow> folder" where
  "example_folder fid parent user = \<lparr>f_id = fid, f_parent_id = parent, f_user_id = user, f_name = fid, f_meta = None,
     f_is_expanded = False, f_created_at = 0, f_updated_at = 0\<rparr>"

definition example_chat :: "string \<Rightarrow> string \<Rightarrow> string option \<Rightarrow> chat" where
  "example_chat cid user fid = \<lparr>c_id = cid, c_user_id = user, c_title = ''New Chat'',
     c_chat = \<lparr>cc_title = None, cc_history = Some \<lparr>h_messages = Some [], h_current_id = Some ''m'', h_rest = []\<rparr>, cc_rest = []\<rparr>,
     c_created_at = 0, c_updated_at = 0, c_share_id = None, c_archived = False, c_pinned = None, c_tags = None,
     c_meta = [], c_folder_id = fid, c_kind = None\<rparr>"

definition example_tree :: chat_db where
  "example_tree = \<lparr>cd_chats = [example_chat ''1'' ''ann'' (Some ''leaf''), example_chat ''2'' ''ann'' (Some ''other''),
      example_chat ''3'' ''bob'' (Some ''leaf'')],
    cd_tags = [],
    cd_folders = [example_folder ''leaf'' (Some ''mid'') ''ann'', example_folder ''mid'' (Some ''top'') ''ann'',
      example_folder ''top'' None ''ann'', example_folder ''other'' None ''ann'']\<rparr>"

theorem folder_deletion_is_exact_witness:
  "unique_by f_id (cd_folders example_tree) \<and> tree_fits 3 ''ann'' (cd_folders example_tree) ''top'' \<and>
   get_folder_by_id_and_user_id ''top'' ''ann'' example_tree \<noteq> None \<and>
   snd (delete_folder_by_id_and_user_id 3 ''top'' ''ann'' example_tree) \<and>
   map c_id (cd_chats (fst (delete_folder_by_id_and_user_id 3 ''top'' ''ann'' example_tree))) = [''2'', ''3''] \<and>
   map f_id (cd_folders (fst (delete_folder_by_id_and_user_id 3 ''top'' ''ann'' example_tree))) = [''other'']"
proof -
  have h: "unique_by f_id (cd_folders example_tree)" "tree_fits 3 ''ann'' (cd_folders example_tree) ''top''"
    "get_folder_by_id_and_user_id ''top'' ''ann'' example_tree \<noteq> None"
    by (simp_all add: example_tree_def example_folder_def get_folder_by_id_and_user_id_def eval_nat_numeral)
  have "map c_id (cd_chats (fst (delete_folder_by_id_and_user_id 3 ''top'' ''ann'' example_tree))) = [''2'', ''3'']"
       "map f_id (cd_folders (fst (delete_folder_by_id_and_user_id 3 ''top'' ''ann'' example_tree))) = [''other'']"
    by code_simp+
  with h folder_deletion_is_exact[OF h] show ?thesis by simp
qed

section \<open>Folders in a cycle\<close>

definition example_pair :: "string \<Rightarrow> string option \<Rightarrow> chat list \<Rightarrow> chat_db" where
  "example_pair user parent cs = \<lparr>cd_chats = cs, cd_tags = [],
     cd_folders = [example_folder ''a'' parent user, example_folder ''b'' (Some ''a'') user]\<rparr>"

abbreviation cyclic_pair :: "int \<Rightarrow> string \<Rightarrow> chat list \<Rightarrow> chat_db" where
  "cyclic_pair now user cs \<equiv> example_pair user None cs
     \<lparr>cd_folders := [(example_folder ''a'' (Some ''b'') user)\<lparr>f_updated_at := now\<rparr>, example_folder ''b'' (Some ''a'') user]\<rparr>"

lemma cyclic_children:
  "map f_id (get_folders_by_parent_id_and_user_id (Some ''a'') user (cyclic_pair now user cs)) = [''b'']"
  "map f_id (get_folders_by_parent_id_and_user_id (Some ''b'') user (cyclic_pair now user cs)) = [''a'']"
  by (simp_all add: get_folders_by_parent_id_and_user_id_def example_folder_def)

lemma no_chats_to_delete:
  "delete_chats_by_user_id_and_folder_id user fid (cyclic_pair now user []) = cyclic_pair now user []"
  by (simp add: delete_chats_by_user_id_and_folder_id_def on_chats_def example_pair_def)

lemma cycle_exhausts_the_limit:
  "x \<in> {''a'', ''b''} \<Longrightarrow> delete_children n user x (cyclic_pair now user []) = (cyclic_pair now user [], False)"
proof (induction n arbitrary: x)
  case (Suc n)
  obtain c where c: "get_folders_by_parent_id_and_user_id (Some x) user (cyclic_pair now user []) = [c]" "f_id c \<in> {''a'', ''b''}"
    using Suc.prems cyclic_children[of user now "[]"] by auto
  show ?case by (simp only: delete_children.simps c(1)) (simp add: delete_child_def no_chats_to_delete Suc.IH[OF c(2)])
qed simp

text \<open>
  Nothing stops a folder from being moved under its own child. Deleting it then runs into the
  recursion limit, whatever that is: the answer is the error 400 and both folders are still there,
  but the chats in them are gone.
\<close>

theorem deleting_a_folder_cycle_loses_chats:
  "let user = \<lparr>u_id = ''ann'', u_role = ''user''\<rparr>;
       chats = [example_chat ''1'' ''ann'' (Some ''a''), example_chat ''2'' ''ann'' (Some ''b'')];
       db1 = fst (update_folder_parent_id_by_id env user ''a'' (Some ''b'') (example_pair ''ann'' None chats));
       (db2, answer) = delete_folder_by_id (env\<lparr>ce_recursion_limit := Suc n\<rparr>) user ''a'' db1
   in answer = Inl (HTTPException 400) \<and> cd_folders db2 = cd_folders db1 \<and> map f_id (cd_folders db2) = [''a'', ''b''] \<and>
      cd_chats db1 = chats \<and> cd_chats db2 = []"
proof -
  let ?user = "\<lparr>u_id = ''ann'', u_role = ''user''\<rparr>"
  let ?chats = "[example_chat ''1'' ''ann'' (Some ''a''), example_chat ''2'' ''ann'' (Some ''b'')]"
  have 1: "fst (update_folder_parent_id_by_id env ?user ''a'' (Some ''b'') (example_pair ''ann'' None ?chats)) =
           cyclic_pair (ce_now env) ''ann'' ?chats"
    by (simp add: update_folder_parent_id_by_id_def own_folder_def get_folder_by_id_and_user_id_def example_pair_def
        example_folder_def get_folder_by_parent_id_and_user_id_and_name_def on_folders_def write_folder_def
        update_folder_parent_id_by_id_and_user_id_def)
  have 2: "delete_children (Suc n) ''ann'' ''a'' (cyclic_pair (ce_now env) ''ann'' [example_chat ''2'' ''ann'' (Some ''b'')]) =
           (cyclic_pair (ce_now env) ''ann'' [], False)"
  proof -
    let ?db = "cyclic_pair (ce_now env) ''ann'' [example_chat ''2'' ''ann'' (Some ''b'')]"
    have "delete_chats_by_user_id_and_folder_id ''ann'' ''b'' ?db = cyclic_pair (ce_now env) ''ann'' []"
      by (simp add: delete_chats_by_user_id_and_folder_id_def on_chats_def example_chat_def example_pair_def)
    moreover obtain c where "get_folders_by_parent_id_and_user_id (Some ''a'') ''ann'' ?db = [c]" "f_id c = ''b''"
      using cyclic_children(1)[of "''ann''" "ce_now env" "[example_chat ''2'' ''ann'' (Some ''b'')]"] by auto
    ultimately show ?thesis
      by (simp only: delete_children.simps) (simp add: delete_child_def cycle_exhausts_the_limit)
  qed
  have 3: "delete_chats_by_user_id_and_folder_id ''ann'' ''a'' (cyclic_pair (ce_now env) ''ann'' ?chats) =
           cyclic_pair (ce_now env) ''ann'' [example_chat ''2'' ''ann'' (Some ''b'')]"
    by (simp add: delete_chats_by_user_id_and_folder_id_def on_chats_def example_chat_def example_pair_def)
  have 4: "get_folder_by_id_and_user_id ''a'' ''ann'' (cyclic_pair (ce_now env) ''ann'' ?chats) =
           Some ((example_folder ''a'' (Some ''b'') ''ann'')\<lparr>f_updated_at := ce_now env\<rparr>)"
    by (simp add: get_folder_by_id_and_user_id_def example_folder_def)
  show ?thesis
    unfolding Let_def 1
    by (simp add: delete_folder_by_id_def own_folder_def delete_folder_by_id_and_user_id_def 2 3 4 del: delete_children.simps)
       (simp add: example_pair_def example_folder_def)
qed

section \<open>What a request can touch\<close>

text \<open>The requests of the two routers that change a table.\<close>

datatype chat_request =
    CreateChat chat_content "string option"
  | ImportChat chat_content "string list option" "(string \<times> json) list" "bool option" "string option"
  | UpdateChat string chat_content
  | DeleteChat string
  | DeleteAllChats
  | PinChat string
  | CloneChat string
  | CloneSharedChat string
  | ArchiveChat string
  | ArchiveAllChats
  | ShareChat string
  | UnshareChat string
  | MoveChat string "string option"
  | AddTag string string
  | DeleteTag string string
  | DeleteAllTags string
  | ListByTag string
  | CreateFolder string
  | UpdateFolder string string "preset option"
  | MoveFolder string "string option"
  | ExpandFolder string bool
  | DeleteFolder string

definition serve :: "chat_env \<Rightarrow> user \<Rightarrow> chat_request \<Rightarrow> chat_db \<Rightarrow> chat_db" where
  "serve env user req db =
     (case req of
        CreateChat content kind \<Rightarrow> fst (create_new_chat env user content kind db)
      | ImportChat content tags meta pinned folder \<Rightarrow> fst (import_chat_endpoint env user content tags meta pinned folder db)
      | UpdateChat cid content \<Rightarrow> fst (update_chat_endpoint env user cid content db)
      | DeleteChat cid \<Rightarrow> fst (delete_chat_endpoint env user cid db)
      | DeleteAllChats \<Rightarrow> fst (delete_all_user_chats env user db)
      | PinChat cid \<Rightarrow> fst (pin_chat_by_id env user cid db)
      | CloneChat cid \<Rightarrow> fst (clone_chat_by_id env user cid db)
      | CloneSharedChat s \<Rightarrow> fst (clone_shared_chat_by_id env user s db)
      | ArchiveChat cid \<Rightarrow> fst (archive_chat_by_id env user cid db)
      | ArchiveAllChats \<Rightarrow> archive_all_chats_by_user_id (u_id user) db
      | ShareChat cid \<Rightarrow> fst (share_chat_by_id env user cid db)
      | UnshareChat cid \<Rightarrow> fst (delete_shared_chat_by_id user cid db)
      | MoveChat cid fid \<Rightarrow> fst (update_chat_folder_id_by_id env user cid fid db)
      | AddTag cid name \<Rightarrow> fst (add_tag_by_id_and_tag_name user cid name db)
      | DeleteTag cid name \<Rightarrow> fst (delete_tag_by_id_and_tag_name user cid name db)
      | DeleteAllTags cid \<Rightarrow> fst (delete_all_tags_by_id user cid db)
      | ListByTag name \<Rightarrow> fst (get_user_chat_list_by_tag_name user name db)
      | CreateFolder name \<Rightarrow> fst (create_folder env user name db)
      | UpdateFolder fid name preset \<Rightarrow> fst (update_folder_name_by_id env user fid name preset db)
      | MoveFolder fid parent \<Rightarrow> fst (update_folder_parent_id_by_id env user fid parent db)
      | ExpandFolder fid ex \<Rightarrow> fst (update_folder_is_expanded_by_id env user fid ex db)
      | DeleteFolder fid \<Rightarrow> fst (delete_folder_by_id env user fid db))"

text \<open>The rows of a user.\<close>

definition rows_of :: "string \<Rightarrow> chat_db \<Rightarrow> chat list \<times> tag list \<times> folder list" where
  "rows_of u db = ([c \<leftarrow> cd_chats db. c_user_id c = u], [t \<leftarrow> cd_tags db. t_user_id t = u], [f \<leftarrow> cd_folders db. f_user_id f = u])"

definition keys_unique :: "chat_db \<Rightarrow> bool" where
  "keys_unique db \<longleftrightarrow> unique_by c_id (cd_chats db) \<and> unique_by f_id (cd_folders db)"

definition is_shared_owner :: "string \<Rightarrow> bool" where
  "is_shared_owner u \<longleftrightarrow> prefix ''shared-'' u"

text \<open>A change that is confined to a user keeps the rows of everybody else, and the keys unique.\<close>

definition confined :: "string \<Rightarrow> chat_db \<Rightarrow> chat_db \<Rightarrow> bool" where
  "confined me db db' \<longleftrightarrow>
     (keys_unique db \<longrightarrow> keys_unique db') \<and>
     (\<forall>u. u \<noteq> me \<and> \<not> is_shared_owner u \<longrightarrow> rows_of u db' = rows_of u db)"

definition chat_owned :: "string \<Rightarrow> string \<Rightarrow> chat_db \<Rightarrow> bool" where
  "chat_owned cid me db \<longleftrightarrow> (\<forall>c \<in> set (cd_chats db). c_id c = cid \<longrightarrow> c_user_id c = me)"

lemma confined_refl [intro!, simp]: "confined me db db"
  by (simp add: confined_def)

lemma confined_trans: "confined me a b \<Longrightarrow> confined me b c \<Longrightarrow> confined me a c"
  by (simp add: confined_def)

lemma confined_fold:
  assumes "\<And>x d. x \<in> set xs \<Longrightarrow> confined me d (f x d)"
  shows "confined me db (fold f xs db)"
  using assms by (induction xs arbitrary: db) (auto intro: confined_trans)

lemma shared_owner_is [simp]: "is_shared_owner (shared_owner cid)"
  by (simp add: is_shared_owner_def shared_owner_def)

lemma shared_owner_inj [simp]: "shared_owner a = shared_owner b \<longleftrightarrow> a = b"
  by (simp add: shared_owner_def)

text \<open>The four ways a chat table is written, each confined to its user.\<close>

lemma confined_filter_chats:
  assumes "\<And>c. c \<in> set (cd_chats db) \<Longrightarrow> \<not> P c \<Longrightarrow> c_user_id c = me \<or> is_shared_owner (c_user_id c)"
  shows "confined me db (on_chats (filter P) db)"
  using assms by (auto simp: confined_def rows_of_def on_chats_def keys_unique_def unique_by_filter intro!: filter_cong)

lemma confined_add_chat:
  assumes "c_user_id c = me \<or> is_shared_owner (c_user_id c)" "c_id c \<notin> c_id ` set (cd_chats db)"
  shows "confined me db (add_chat c db)"
  using assms by (auto simp: confined_def rows_of_def add_chat_def on_chats_def keys_unique_def unique_by_append_new)

lemma confined_map_chats:
  assumes "\<And>c. c_id (f c) = c_id c" "\<And>c. c_user_id (f c) = c_user_id c"
    and "\<And>c. c \<in> set (cd_chats db) \<Longrightarrow> c_user_id c \<noteq> me \<Longrightarrow> \<not> is_shared_owner (c_user_id c) \<Longrightarrow> f c = c"
  shows "confined me db (on_chats (map f) db)"
proof -
  have "filter (\<lambda>c. c_user_id c = u) (map f cs) = filter (\<lambda>c. c_user_id c = u) cs"
    if "u \<noteq> me" "\<not> is_shared_owner u" "set cs \<subseteq> set (cd_chats db)" for u cs
    using that(3) by (induction cs) (use that(1,2) assms in auto)
  moreover have "unique_by c_id (map f cs) = unique_by c_id cs" for cs
    by (simp add: unique_by_def comp_def assms(1))
  ultimately show ?thesis by (simp add: confined_def rows_of_def on_chats_def keys_unique_def)
qed

locale owned_write = row_write c_id f for f :: "chat \<Rightarrow> chat" +
  assumes owner_kept: "c_user_id (f c) = c_user_id c"
begin

lemma confined_update: "chat_owned cid me db \<Longrightarrow> confined me db (on_chats (update_by c_id cid f) db)"
  unfolding update_by_def
  by (rule confined_map_chats) (auto simp: key_kept owner_kept chat_owned_def)

lemma owned_update: "chat_owned k me (on_chats (update_by c_id cid f) db) = chat_owned k me db"
  by (simp add: chat_owned_def on_chats_def update_by_def key_kept owner_kept del: if_image_distrib) blast

lemma confined_write: "chat_owned cid me db \<Longrightarrow> confined me db (fst (write_chat cid f db))"
  by (simp add: write_chat_def Let_def confined_update)

end

interpretation content_write: owned_write "content_row now content" for now content
  by unfold_locales (simp_all add: content_row_def)

interpretation pin_write: owned_write "pin_row now" for now
  by unfold_locales (simp_all add: pin_row_def)

interpretation archive_write: owned_write "\<lambda>c. c\<lparr>c_archived := \<not> c_archived c, c_updated_at := now\<rparr>" for now
  by unfold_locales simp_all

interpretation share_write: owned_write "\<lambda>c. c\<lparr>c_share_id := s\<rparr>" for s
  by unfold_locales simp_all

interpretation folder_write: owned_write "\<lambda>c. c\<lparr>c_folder_id := fid, c_updated_at := now, c_pinned := Some False\<rparr>" for fid now
  by unfold_locales simp_all

interpretation tag_write: owned_write "\<lambda>c. if t \<in> set (tags_of c) then c else c\<lparr>c_tags := Some (remdups (tags_of c @ [t]))\<rparr>" for t
  by unfold_locales simp_all

interpretation untag_write: owned_write "\<lambda>c. c\<lparr>c_tags := Some (remdups [t \<leftarrow> tags_of c. t \<noteq> k])\<rparr>" for k
  by unfold_locales simp_all

interpretation untag_all_write: owned_write "\<lambda>c. c\<lparr>c_tags := Some []\<rparr>"
  by unfold_locales simp_all

lemma confined_tags:
  assumes "\<And>u. u \<noteq> me \<Longrightarrow> [t \<leftarrow> f (cd_tags db). t_user_id t = u] = [t \<leftarrow> cd_tags db. t_user_id t = u]"
  shows "confined me db (on_tags f db)"
  using assms by (simp add: confined_def rows_of_def on_tags_def keys_unique_def)

lemma confined_delete_tag [intro]: "confined me db (delete_tag_by_name_and_user_id name me db)"
  unfolding delete_tag_by_name_and_user_id_def by (rule confined_tags) (auto intro!: filter_cong)

lemma confined_insert_tag [intro]: "confined me db (fst (insert_new_tag name me db))"
  by (auto simp: insert_new_tag_def Let_def intro!: confined_tags)

lemma confined_drop_tag [intro]: "confined me db (drop_tag_at n me tag db)"
  by (auto simp: drop_tag_at_def)

lemma confined_drop_tags [intro]: "confined me db (fold (drop_tag_at n me) tags db)"
  by (rule confined_fold) blast

lemma tags_keep_chats [simp]:
  "cd_chats (delete_tag_by_name_and_user_id name u db) = cd_chats db"
  "cd_chats (fst (insert_new_tag name u db)) = cd_chats db"
  "cd_chats (drop_tag_at n u tag db) = cd_chats db"
  by (simp_all add: delete_tag_by_name_and_user_id_def on_tags_def insert_new_tag_def drop_tag_at_def Let_def)

lemma fold_drop_keeps_chats [simp]: "cd_chats (fold (drop_tag_at n u) tags db) = cd_chats db"
  by (induction tags arbitrary: db) simp_all

lemma chat_owned_cong: "cd_chats a = cd_chats b \<Longrightarrow> chat_owned cid me a = chat_owned cid me b"
  by (simp add: chat_owned_def)

lemma own_chat_confined:
  assumes u: "keys_unique db"
    and k: "\<And>c. c \<in> set (cd_chats db) \<Longrightarrow> c_id c = cid \<Longrightarrow> c_user_id c = u_id user \<Longrightarrow> chat_owned cid (u_id user) db \<Longrightarrow>
              confined (u_id user) db (fst (k c))"
  shows "confined (u_id user) db (fst (own_chat user cid k db))"
proof (cases "get_chat_by_id_and_user_id cid (u_id user) db")
  case (Some c)
  then have c: "c \<in> set (cd_chats db)" "c_id c = cid" "c_user_id c = u_id user"
    by (auto simp: get_chat_by_id_and_user_id_def find_Some_iff)
  with u have "chat_owned cid (u_id user) db"
    unfolding chat_owned_def keys_unique_def by (metis unique_by_eq)
  with c Some k show ?thesis by (simp add: own_chat_def)
qed (simp add: own_chat_def unauthorized_def)

lemma confined_delete_shared [intro]: "confined me db (delete_shared_chat_by_chat_id cid db)"
  unfolding delete_shared_chat_by_chat_id_def by (rule confined_filter_chats) auto

lemma confined_delete_own: "confined me db (delete_chat_by_id_and_user_id cid me db)"
  unfolding delete_chat_by_id_and_user_id_def
  by (rule confined_trans[OF _ confined_delete_shared]) (auto intro: confined_filter_chats)

lemma confined_delete_all: "confined me db (delete_chats_by_user_id me db)"
  unfolding delete_chats_by_user_id_def delete_shared_chats_by_user_id_def
  by (rule confined_trans; rule confined_filter_chats) auto

lemma confined_delete_in_folder: "confined me db (delete_chats_by_user_id_and_folder_id me fid db)"
  unfolding delete_chats_by_user_id_and_folder_id_def by (rule confined_filter_chats) auto

lemma confined_write_first:
  assumes "\<And>c. c_id (f c) = c_id c" "\<And>c. c_user_id (f c) = c_user_id c"
  shows "confined me db (on_chats (update_first (\<lambda>r. c_user_id r = shared_owner cid) f) db)"
proof -
  have "filter (\<lambda>c. c_user_id c = u) (update_first (\<lambda>r. c_user_id r = shared_owner cid) f cs) = filter (\<lambda>c. c_user_id c = u) cs"
    if "\<not> is_shared_owner u" for u cs
    using that by (induction cs) (auto simp: assms)
  moreover have "map c_id (update_first P f cs) = map c_id cs" for P cs
    by (induction cs) (auto simp: assms)
  ultimately show ?thesis
    by (simp add: confined_def rows_of_def on_chats_def keys_unique_def unique_by_def)
qed

lemma confined_insert_shared:
  assumes o: "chat_owned cid me db" and fresh: "uuid \<notin> c_id ` set (cd_chats db)"
  shows "confined me db (fst (insert_shared_chat_by_chat_id now uuid cid db))"
proof -
  have "confined me (add_chat c db) (on_chats (update_by c_id cid (\<lambda>c. c\<lparr>c_share_id := Some uuid\<rparr>)) (add_chat c db))"
    if "c_id c = uuid" "uuid \<noteq> cid" for c
    by (rule share_write.confined_update) (use o that in \<open>auto simp: chat_owned_def add_chat_def on_chats_def\<close>)
  then have step: "confined me db (on_chats (update_by c_id cid (\<lambda>c. c\<lparr>c_share_id := Some uuid\<rparr>)) (add_chat c db))"
    if "c_id c = uuid" "uuid \<noteq> cid" "is_shared_owner (c_user_id c)" for c
    using that fresh by (blast intro: confined_trans[OF confined_add_chat])
  show ?thesis
  proof (cases "get_chat_by_id cid db")
    case (Some c)
    then have "uuid \<noteq> cid" using fresh by (auto simp: get_chat_by_id_def dest: find_by_mem find_by_key)
    with Some step show ?thesis by (simp add: insert_shared_chat_by_chat_id_def Let_def split: option.split)
  qed (simp add: insert_shared_chat_by_chat_id_def)
qed

lemma confined_update_shared:
  assumes "chat_owned cid me db" "uuid \<notin> c_id ` set (cd_chats db)"
  shows "confined me db (fst (update_shared_chat_by_chat_id now uuid cid db))"
  using confined_insert_shared[OF assms, of now]
  by (auto simp: update_shared_chat_by_chat_id_def shared_row_def intro!: confined_write_first split: option.splits prod.splits sum.splits)

lemma confined_insert_chat:
  "uuid \<notin> c_id ` set (cd_chats db) \<Longrightarrow> confined me db (fst (insert_new_chat now uuid me content kind db))"
  by (simp add: insert_new_chat_def Let_def confined_add_chat)

lemma confined_clone:
  "ce_uuid env \<notin> c_id ` set (cd_chats db) \<Longrightarrow> confined (u_id user) db (fst (clone_chat env user c db))"
  by (auto simp: clone_chat_def split_beta Let_def intro: confined_insert_chat split: option.splits)

lemma confined_add_tag:
  assumes "chat_owned cid me db"
  shows "confined me db (fst (add_chat_tag_by_id_and_user_id_and_tag_name cid me name db))"
proof -
  let ?d = "fst (insert_new_tag name me db)"
  have "chat_owned cid me ?d" using assms by (simp cong: chat_owned_cong add: chat_owned_def)
  then have "confined me db (fst (write_chat cid (\<lambda>c. if t \<in> set (tags_of c) then c
               else c\<lparr>c_tags := Some (remdups (tags_of c @ [t]))\<rparr>) ?d))" for t
    by (blast intro: confined_trans[OF confined_insert_tag] tag_write.confined_write)
  with assms tag_write.confined_write show ?thesis
    by (auto simp: add_chat_tag_by_id_and_user_id_and_tag_name_def split_beta split: option.splits)
qed

lemma confined_folders:
  assumes "\<And>u. u \<noteq> me \<Longrightarrow> [f \<leftarrow> g (cd_folders db). f_user_id f = u] = [f \<leftarrow> cd_folders db. f_user_id f = u]"
    and "unique_by f_id (cd_folders db) \<Longrightarrow> unique_by f_id (g (cd_folders db))"
  shows "confined me db (on_folders g db)"
  using assms by (simp add: confined_def rows_of_def on_folders_def keys_unique_def)

lemma confined_insert_folder:
  "uuid \<notin> f_id ` set (cd_folders db) \<Longrightarrow> confined me db (fst (insert_new_folder now uuid me name parent db))"
  by (auto simp: insert_new_folder_def Let_def intro!: confined_folders unique_by_append_new)

lemma confined_write_folder:
  assumes "\<And>f. f_id (g f) = f_id f" "\<And>f. f_user_id (g f) = f_user_id f"
  shows "confined me db (fst (write_folder fid me g db))"
proof -
  let ?P = "\<lambda>r. f_id r = fid \<and> f_user_id r = me"
  have "filter (\<lambda>f. f_user_id f = u) (update_first ?P g fs) = filter (\<lambda>f. f_user_id f = u) fs" if "u \<noteq> me" for u fs
    using that by (induction fs) (auto simp: assms)
  moreover have "map f_id (update_first ?P g fs) = map f_id fs" for fs
    by (induction fs) (auto simp: assms)
  ultimately have "confined me db (on_folders (update_first ?P g) db)"
    by (intro confined_folders) (simp_all add: unique_by_def)
  then show ?thesis by (simp add: write_folder_def split: option.split)
qed

lemma own_folder_confined:
  assumes "\<And>f. confined (u_id user) db (fst (k f))"
  shows "confined (u_id user) db (fst (own_folder user fid k db))"
  using assms by (simp add: own_folder_def split: option.split)

text \<open>Deleting folders: confined, and no folder appears.\<close>

definition shrinks :: "string \<Rightarrow> chat_db \<Rightarrow> chat_db \<Rightarrow> bool" where
  "shrinks me db db' \<longleftrightarrow> confined me db db' \<and> set (cd_folders db') \<subseteq> set (cd_folders db)"

lemma shrinks_refl [simp]: "shrinks me db db"
  by (simp add: shrinks_def)

lemma shrinks_trans: "shrinks me a b \<Longrightarrow> shrinks me b c \<Longrightarrow> shrinks me a c"
  by (auto simp: shrinks_def intro: confined_trans)

lemma shrinks_unique: "shrinks me a b \<Longrightarrow> keys_unique a \<Longrightarrow> keys_unique b"
  by (simp add: shrinks_def confined_def)

lemma shrinks_delete_chats: "shrinks me db (delete_chats_by_user_id_and_folder_id me fid db)"
  by (simp add: shrinks_def confined_delete_in_folder)

lemma shrinks_drop_folder:
  assumes "\<And>f. f \<in> set (cd_folders db) \<Longrightarrow> f_id f = fid \<Longrightarrow> f_user_id f = me"
  shows "shrinks me db (on_folders (filter (\<lambda>f. f_id f \<noteq> fid)) db)"
  unfolding shrinks_def
proof
  show "confined me db (on_folders (filter (\<lambda>f. f_id f \<noteq> fid)) db)"
    by (rule confined_folders) (use assms in \<open>auto intro!: filter_cong unique_by_filter\<close>)
qed (auto simp: on_folders_def)

lemma shrinks_delete_child:
  assumes st: "shrinks me db (fst st)" and u: "keys_unique db"
    and rec: "\<And>d. keys_unique d \<Longrightarrow> shrinks me d (fst (rec (f_id c) d))"
    and c: "c \<in> set (cd_folders db)" "f_user_id c = me"
  shows "shrinks me db (fst (delete_child rec me c st))"
proof -
  let ?d = "delete_chats_by_user_id_and_folder_id me (f_id c) (fst st)"
  have d: "shrinks me db ?d" by (rule shrinks_trans[OF st shrinks_delete_chats])
  have r: "shrinks me db (fst (rec (f_id c) ?d))"
    by (rule shrinks_trans[OF d rec[OF shrinks_unique[OF d u]]])
  have "shrinks me db (on_folders (filter (\<lambda>f. f_id f \<noteq> f_id c)) (fst (rec (f_id c) ?d)))"
  proof (rule shrinks_trans[OF r shrinks_drop_folder])
    fix f assume "f \<in> set (cd_folders (fst (rec (f_id c) ?d)))" "f_id f = f_id c"
    with r have "f \<in> set (cd_folders db)" by (auto simp: shrinks_def)
    with \<open>f_id f = f_id c\<close> c u show "f_user_id f = me"
      unfolding keys_unique_def by (metis unique_by_eq)
  qed
  with st r show ?thesis by (auto simp: delete_child_def split_beta Let_def)
qed

lemma shrinks_delete_children:
  "keys_unique db \<Longrightarrow> shrinks me db (fst (delete_children n me fid db))"
proof (induction n arbitrary: fid db)
  case (Suc n)
  have "shrinks me db (fst (fold (delete_child (delete_children n me) me) cs st))"
    if "set cs \<subseteq> set (get_folders_by_parent_id_and_user_id (Some fid) me db)" "shrinks me db (fst st)" for cs st
    using that
  proof (induction cs arbitrary: st)
    case (Cons c cs)
    have "shrinks me db (fst (delete_child (delete_children n me) me c st))"
      by (rule shrinks_delete_child[OF Cons.prems(2) Suc.prems Suc.IH])
         (use Cons.prems(1) in \<open>auto simp: get_folders_by_parent_id_and_user_id_def\<close>)
    with Cons show ?case by simp
  qed simp
  then show ?case by simp
qed simp

lemma confined_delete_folder:
  assumes "keys_unique db"
  shows "confined me db (fst (delete_folder_by_id_and_user_id limit fid me db))"
proof (cases "get_folder_by_id_and_user_id fid me db")
  case (Some g)
  let ?d = "fst (delete_children limit me fid (delete_chats_by_user_id_and_folder_id me fid db))"
  have g: "g \<in> set (cd_folders db)" "f_id g = fid" "f_user_id g = me"
    using Some by (auto simp: get_folder_by_id_and_user_id_def find_Some_iff)
  have d: "shrinks me db ?d"
    by (meson shrinks_trans shrinks_delete_chats shrinks_delete_children shrinks_unique assms)
  have "shrinks me db (on_folders (filter (\<lambda>f. f_id f \<noteq> fid)) ?d)"
  proof (rule shrinks_trans[OF d shrinks_drop_folder])
    fix f assume "f \<in> set (cd_folders ?d)" "f_id f = fid"
    with d have "f \<in> set (cd_folders db)" by (auto simp: shrinks_def)
    with \<open>f_id f = fid\<close> g assms show "f_user_id f = me"
      unfolding keys_unique_def by (metis unique_by_eq)
  qed
  with d Some show ?thesis
    by (auto simp: delete_folder_by_id_and_user_id_def split_beta Let_def shrinks_def)
qed (simp add: delete_folder_by_id_and_user_id_def)

text \<open>A request of a user who is not an administrator, with a key nobody has yet, is confined to that user.\<close>

definition fresh_key :: "string \<Rightarrow> chat_db \<Rightarrow> bool" where
  "fresh_key k db \<longleftrightarrow> k \<notin> c_id ` set (cd_chats db) \<and> k \<notin> f_id ` set (cd_folders db)"

lemma answered_fst [simp]: "fst (answered r) = fst r"
  by (simp add: answered_def)

lemma tags_answer_fst [simp]: "fst (chat_tags_answer user cid db) = db"
  by (simp add: chat_tags_answer_def)

lemma confined_create:
  "fresh_key (ce_uuid env) db \<Longrightarrow> confined (u_id user) db (fst (create_new_chat env user content kind db))"
  by (auto simp: create_new_chat_def split_beta Let_def fresh_key_def intro: confined_insert_chat)

lemma confined_import:
  assumes "fresh_key (ce_uuid env) db"
  shows "confined (u_id user) db (fst (import_chat_endpoint env user content tags meta pinned folder db))"
proof -
  let ?d = "fst (import_chat (ce_now env) (ce_uuid env) (u_id user) content tags meta pinned folder db)"
  have "confined (u_id user) db ?d"
    using assms by (auto simp: import_chat_def Let_def fresh_key_def intro: confined_add_chat)
  then show ?thesis
    unfolding import_chat_endpoint_def split_beta Let_def fst_conv
    by (rule confined_trans) (auto intro!: confined_fold)
qed

lemma confined_update_endpoint:
  "keys_unique db \<Longrightarrow> confined (u_id user) db (fst (update_chat_endpoint env user cid content db))"
  unfolding update_chat_endpoint_def update_chat_by_id_def
  by (rule own_chat_confined) (simp_all add: content_write.confined_write)

lemma confined_delete_endpoint:
  assumes "u_role user \<noteq> ''admin''"
  shows "confined (u_id user) db (fst (delete_chat_endpoint env user cid db))"
  using assms
  by (auto simp: delete_chat_endpoint_def unauthorized_def Let_def split: option.split
      intro: confined_trans[OF confined_drop_tags confined_delete_own])

lemma confined_delete_all_endpoint: "confined (u_id user) db (fst (delete_all_user_chats env user db))"
  by (simp add: delete_all_user_chats_def unauthorized_def confined_delete_all)

lemma confined_pin: "keys_unique db \<Longrightarrow> confined (u_id user) db (fst (pin_chat_by_id env user cid db))"
  unfolding pin_chat_by_id_def toggle_chat_pinned_by_id_def
  by (rule own_chat_confined) (simp_all add: split_beta pin_write.confined_write)

lemma confined_clone_endpoints:
  assumes "keys_unique db" "fresh_key (ce_uuid env) db"
  shows "confined (u_id user) db (fst (clone_chat_by_id env user cid db))"
    and "confined (u_id user) db (fst (clone_shared_chat_by_id env user s db))"
proof -
  show "confined (u_id user) db (fst (clone_chat_by_id env user cid db))"
    unfolding clone_chat_by_id_def
    by (rule own_chat_confined) (use assms in \<open>auto simp: fresh_key_def intro: confined_clone\<close>)
  show "confined (u_id user) db (fst (clone_shared_chat_by_id env user s db))"
    using assms by (auto simp: clone_shared_chat_by_id_def unauthorized_def fresh_key_def intro: confined_clone split: option.split)
qed

lemma confined_archive:
  assumes "keys_unique db"
  shows "confined (u_id user) db (fst (archive_chat_by_id env user cid db))"
  unfolding archive_chat_by_id_def toggle_chat_archive_by_id_def
proof (rule own_chat_confined[OF assms])
  assume "chat_owned cid (u_id user) db"
  then have w: "confined (u_id user) db (fst (write_chat cid (\<lambda>c. c\<lparr>c_archived := \<not> c_archived c, c_updated_at := ce_now env\<rparr>) db))"
    by (rule archive_write.confined_write)
  have "confined (u_id user) d (fold (\<lambda>t d. if get_tag_by_name_and_user_id t (u_id user) d = None
          then fst (insert_new_tag t (u_id user) d) else d) ts d)" for d ts
    by (rule confined_fold) auto
  with w show "confined (u_id user) db (fst (case write_chat cid (\<lambda>c. c\<lparr>c_archived := \<not> c_archived c, c_updated_at := ce_now env\<rparr>) db of
      (db1, None) \<Rightarrow> (db1, Inl (HTTPException 500))
    | (db1, Some c) \<Rightarrow>
        if c_archived c then (fold (drop_tag_at 0 (u_id user)) (tags_of c) db1, Inr c)
        else (fold (\<lambda>t d. if get_tag_by_name_and_user_id t (u_id user) d = None
                then fst (insert_new_tag t (u_id user) d) else d) (tags_of c) db1, Inr c)))"
    by (auto split: prod.split option.split intro: confined_trans)
qed

lemma confined_archive_all: "confined me db (archive_all_chats_by_user_id me db)"
  unfolding archive_all_chats_by_user_id_def by (rule confined_map_chats) auto

lemma confined_share:
  assumes "keys_unique db" "fresh_key (ce_uuid env) db"
  shows "confined (u_id user) db (fst (share_chat_by_id env user cid db))"
  unfolding share_chat_by_id_def
proof (rule own_chat_confined[OF assms(1)])
  fix c assume c: "chat_owned cid (u_id user) db"
  have "ce_uuid env \<notin> c_id ` set (cd_chats db)" using assms(2) by (simp add: fresh_key_def)
  with confined_insert_shared[OF c, of _ "ce_now env"] confined_update_shared[OF c, of _ "ce_now env"]
  have i: "confined (u_id user) db (fst (insert_shared_chat_by_chat_id (ce_now env) (ce_uuid env) cid db))"
    and u: "confined (u_id user) db (fst (update_shared_chat_by_chat_id (ce_now env) (ce_uuid env) cid db))" by blast+
  show "confined (u_id user) db (fst (if nonempty (c_share_id c) \<noteq> None
      then answered (update_shared_chat_by_chat_id (ce_now env) (ce_uuid env) cid db)
      else (case insert_shared_chat_by_chat_id (ce_now env) (ce_uuid env) cid db of
               (db', Inl e) \<Rightarrow> (db', Inl (HTTPException 500)) | (db', Inr r) \<Rightarrow> answered (db', r))))"
    using u i by (cases "insert_shared_chat_by_chat_id (ce_now env) (ce_uuid env) cid db") (auto split: sum.split)
qed

lemma confined_unshare:
  assumes "keys_unique db"
  shows "confined (u_id user) db (fst (delete_shared_chat_by_id user cid db))"
  unfolding delete_shared_chat_by_id_def update_chat_share_id_by_id_def
proof (rule own_chat_confined[OF assms])
  fix c assume "chat_owned cid (u_id user) db"
  then have "chat_owned cid (u_id user) (delete_shared_chat_by_chat_id cid db)"
    by (simp add: chat_owned_def delete_shared_chat_by_chat_id_def on_chats_def)
  from confined_trans[OF confined_delete_shared share_write.confined_write[OF this]]
  show "confined (u_id user) db (fst (if nonempty (c_share_id c) = None then (db, Inr False)
      else (let (db', r) = write_chat cid (\<lambda>c. c\<lparr>c_share_id := None\<rparr>) (delete_shared_chat_by_chat_id cid db)
            in (db', Inr (r \<noteq> None)))))"
    by (simp add: split_beta Let_def)
qed

lemma confined_move_chat: "keys_unique db \<Longrightarrow> confined (u_id user) db (fst (update_chat_folder_id_by_id env user cid fid db))"
  unfolding update_chat_folder_id_by_id_def update_chat_folder_id_by_id_and_user_id_def
  by (rule own_chat_confined) (simp_all add: folder_write.confined_write)

lemma confined_tag_endpoints:
  assumes "keys_unique db"
  shows "confined (u_id user) db (fst (add_tag_by_id_and_tag_name user cid name db))"
    and "confined (u_id user) db (fst (delete_tag_by_id_and_tag_name user cid name db))"
    and "confined (u_id user) db (fst (delete_all_tags_by_id user cid db))"
    and "confined (u_id user) db (fst (get_user_chat_list_by_tag_name user name db))"
proof -
  show "confined (u_id user) db (fst (add_tag_by_id_and_tag_name user cid name db))"
    unfolding add_tag_by_id_and_tag_name_def by (rule own_chat_confined[OF assms]) (simp add: confined_add_tag)
  show "confined (u_id user) db (fst (delete_tag_by_id_and_tag_name user cid name db))"
    unfolding delete_tag_by_id_and_tag_name_def delete_tag_by_id_and_user_id_and_tag_name_def
    by (rule own_chat_confined[OF assms])
       (auto intro: confined_trans[OF untag_write.confined_update confined_drop_tag])
  show "confined (u_id user) db (fst (delete_all_tags_by_id user cid db))"
    unfolding delete_all_tags_by_id_def delete_all_tags_by_id_and_user_id_def
    by (rule own_chat_confined[OF assms])
       (auto intro: confined_trans[OF untag_all_write.confined_update confined_drop_tags])
  show "confined (u_id user) db (fst (get_user_chat_list_by_tag_name user name db))"
    by (auto simp: get_user_chat_list_by_tag_name_def Let_def)
qed

lemma confined_folder_endpoints:
  assumes "keys_unique db"
  shows "fresh_key (ce_uuid env) db \<Longrightarrow> confined (u_id user) db (fst (create_folder env user name db))"
    and "confined (u_id user) db (fst (update_folder_name_by_id env user fid name preset db))"
    and "confined (u_id user) db (fst (update_folder_parent_id_by_id env user fid parent db))"
    and "confined (u_id user) db (fst (update_folder_is_expanded_by_id env user fid ex db))"
    and "confined (u_id user) db (fst (delete_folder_by_id env user fid db))"
proof -
  have w: "confined (u_id user) d (fst (write_folder fid (u_id user) g d))"
    if "\<And>f. f_id (g f) = f_id f" "\<And>f. f_user_id (g f) = f_user_id f" for d g
    by (rule confined_write_folder[OF that])
  show "fresh_key (ce_uuid env) db \<Longrightarrow> confined (u_id user) db (fst (create_folder env user name db))"
    by (auto simp: create_folder_def split_beta Let_def fresh_key_def intro: confined_insert_folder)
  have n: "confined (u_id user) d (fst (update_folder_name_by_id_and_user_id (ce_now env) fid (u_id user) name d))" for d
    by (simp add: update_folder_name_by_id_and_user_id_def w split: option.split)
  have m: "confined (u_id user) d (fst (update_folder_meta_by_id_and_user_id (ce_now env) fid (u_id user) meta d))" for d meta
    by (simp add: update_folder_meta_by_id_and_user_id_def w)
  show "confined (u_id user) db (fst (update_folder_name_by_id env user fid name preset db))"
    unfolding update_folder_name_by_id_def
    by (rule own_folder_confined) (auto simp: split_beta Let_def n m intro: confined_trans[OF n m] split: option.split)
  show "confined (u_id user) db (fst (update_folder_parent_id_by_id env user fid parent db))"
    unfolding update_folder_parent_id_by_id_def update_folder_parent_id_by_id_and_user_id_def
    by (rule own_folder_confined) (simp add: split_beta Let_def w)
  show "confined (u_id user) db (fst (update_folder_is_expanded_by_id env user fid ex db))"
    unfolding update_folder_is_expanded_by_id_def update_folder_is_expanded_by_id_and_user_id_def
    by (rule own_folder_confined) (simp add: split_beta Let_def w)
  show "confined (u_id user) db (fst (delete_folder_by_id env user fid db))"
    unfolding delete_folder_by_id_def
    by (rule own_folder_confined) (simp add: split_beta Let_def confined_delete_folder[OF assms])
qed

lemmas confined_requests =
  confined_create confined_import confined_update_endpoint confined_delete_endpoint confined_delete_all_endpoint confined_pin
  confined_clone_endpoints confined_archive confined_archive_all confined_share confined_unshare confined_move_chat
  confined_tag_endpoints confined_folder_endpoints

lemma serve_confined:
  assumes "keys_unique db" "fresh_key (ce_uuid env) db" "u_role user \<noteq> ''admin''"
  shows "confined (u_id user) db (serve env user req db)"
  using assms by (cases req) (simp_all add: serve_def confined_requests)

text \<open>A run of requests of other users, none of them an administrator, each with a fresh key.\<close>

inductive others_run :: "string \<Rightarrow> chat_db \<Rightarrow> chat_db \<Rightarrow> bool" for me where
  run_nil: "others_run me db db"
| run_request: "others_run me db db1 \<Longrightarrow> u_id user \<noteq> me \<Longrightarrow> u_role user \<noteq> ''admin'' \<Longrightarrow> fresh_key (ce_uuid env) db1 \<Longrightarrow>
    others_run me db (serve env user req db1)"


definition example_env :: chat_env where
  "example_env = \<lparr>ce_now = 7, ce_uuid = ''new'', ce_dialect = Sqlite, ce_groups = [],
     ce_permissions = [(''chat'', JObj [(''delete'', JBool True)])], ce_recursion_limit = 10, ce_web_search = False,
     ce_models = (\<lambda>_. None), ce_tools = (\<lambda>_. None), ce_knowledge = (\<lambda>_. None)\<rparr>"

abbreviation bob :: user where
  "bob \<equiv> \<lparr>u_id = ''bob'', u_role = ''user''\<rparr>"

abbreviation ann :: user where
  "ann \<equiv> \<lparr>u_id = ''ann'', u_role = ''user''\<rparr>"


section \<open>The life of a share link\<close>

text \<open>The chat \<open>cid\<close> of \<open>owner\<close> is linked under \<open>s\<close> to the copy, which is the only one of the chat.\<close>

definition linked :: "string \<Rightarrow> string \<Rightarrow> string \<Rightarrow> chat \<Rightarrow> chat_db \<Rightarrow> bool" where
  "linked cid owner s copy db \<longleftrightarrow>
     keys_unique db \<and> s \<noteq> '''' \<and> \<not> is_shared_owner owner \<and>
     (\<exists>c \<in> set (cd_chats db). c_id c = cid \<and> c_user_id c = owner \<and> c_share_id c = Some s) \<and>
     (\<forall>c \<in> set (cd_chats db). c_share_id c = Some s \<longrightarrow> c_id c = cid) \<and>
     copy \<in> set (cd_chats db) \<and> c_id copy = s \<and>
     (\<forall>c \<in> set (cd_chats db). c_user_id c = shared_owner cid \<longleftrightarrow> c = copy)"

lemma share_lookup:
  "get_chat_by_share_id s db = (if \<exists>c \<in> set (cd_chats db). c_share_id c = Some s then get_chat_by_id s db else None)"
  by (simp add: get_chat_by_share_id_def find_None_iff)

lemma linked_lookup: "linked cid owner s copy db \<Longrightarrow> get_chat_by_share_id s db = Some copy"
  using unique_by_find[of c_id "cd_chats db" copy]
  by (auto simp: linked_def share_lookup get_chat_by_id_def keys_unique_def)

lemma linked_ids: "linked cid owner s copy db \<Longrightarrow> s \<noteq> cid"
  unfolding linked_def keys_unique_def by (metis unique_by_eq shared_owner_is)

lemma linked_original:
  assumes "linked cid owner s copy db"
  obtains c where "get_chat_by_id cid db = Some c" "get_chat_by_id_and_user_id cid owner db = Some c"
    "c_share_id c = Some s" "c_id c = cid" "c_user_id c = owner"
proof -
  obtain c where c: "c \<in> set (cd_chats db)" "c_id c = cid" "c_user_id c = owner" "c_share_id c = Some s"
    and u: "unique_by c_id (cd_chats db)"
    using assms by (auto simp: linked_def keys_unique_def)
  have "get_chat_by_id_and_user_id cid owner db \<noteq> None"
    using c by (auto simp: get_chat_by_id_and_user_id_def find_None_iff)
  then obtain r where r: "get_chat_by_id_and_user_id cid owner db = Some r" by blast
  then have "r \<in> set (cd_chats db)" "c_id r = cid" by (auto simp: get_chat_by_id_and_user_id_def find_Some_iff)
  with c u have "r = c" by (metis unique_by_eq)
  with r c u show ?thesis
    by (intro that[of c]) (auto simp: get_chat_by_id_def dest: unique_by_find)
qed

text \<open>A write to the original that keeps its key, its owner and its link keeps the link as it is.\<close>

lemma linked_write:
  assumes l: "linked cid owner s copy db"
    and f: "\<And>c. c_id (f c) = c_id c" "\<And>c. c_user_id (f c) = c_user_id c" "\<And>c. c_share_id (f c) = c_share_id c"
  shows "linked cid owner s copy (on_chats (update_by c_id cid f) db)"
proof -
  let ?cs' = "update_by c_id cid f (cd_chats db)"
  have ids: "c_id copy = s" "s \<noteq> cid" "copy \<in> set (cd_chats db)" using l linked_ids[OF l] by (auto simp: linked_def)
  have row: "\<exists>r \<in> set (cd_chats db). c_id r = c_id r' \<and> c_user_id r = c_user_id r' \<and> c_share_id r = c_share_id r' \<and> (r = r' \<or> c_id r' = cid)"
    if "r' \<in> set ?cs'" for r'
    using that unfolding mem_update_by by (elim bexE) (rule bexI, auto simp: f)
  have 1: "unique_by c_id ?cs'" using l by (simp add: unique_by_def map_update_by_same f linked_def keys_unique_def)
  have 2: "\<exists>c \<in> set ?cs'. c_id c = cid \<and> c_user_id c = owner \<and> c_share_id c = Some s"
  proof -
    obtain c where "c \<in> set (cd_chats db)" "c_id c = cid" "c_user_id c = owner" "c_share_id c = Some s"
      using l by (auto simp: linked_def)
    then show ?thesis by (intro bexI[of _ "f c"]) (auto simp: f mem_update_by)
  qed
  have 3: "\<forall>c \<in> set ?cs'. c_share_id c = Some s \<longrightarrow> c_id c = cid"
  proof (intro ballI impI)
    fix r' assume "r' \<in> set ?cs'" "c_share_id r' = Some s"
    with row obtain r where "r \<in> set (cd_chats db)" "c_id r = c_id r'" "c_share_id r = Some s" by metis
    with l show "c_id r' = cid" unfolding linked_def by metis
  qed
  have 4: "copy \<in> set ?cs'" using ids by (auto simp: mem_update_by)
  have 5: "\<forall>c \<in> set ?cs'. c_user_id c = shared_owner cid \<longleftrightarrow> c = copy"
  proof (intro ballI iffI)
    fix r' assume r': "r' \<in> set ?cs'" "c_user_id r' = shared_owner cid"
    then obtain r where "r \<in> set (cd_chats db)" "c_id r = c_id r'" "c_user_id r = shared_owner cid" "r = r' \<or> c_id r' = cid"
      using row by metis
    moreover from this have "r = copy" using l by (simp add: linked_def)
    ultimately show "r' = copy" using ids by auto
  next
    fix r' assume "r' = copy"
    then show "c_user_id r' = shared_owner cid" using l by (simp add: linked_def)
  qed
  show ?thesis using l 1 2 3 4 5 ids by (simp add: linked_def on_chats_def keys_unique_def)
qed

lemma linked_edit:
  assumes "linked cid (u_id user) s copy db"
  shows "linked cid (u_id user) s copy (fst (update_chat_endpoint env user cid content db))"
proof -
  obtain c where "get_chat_by_id_and_user_id cid (u_id user) db = Some c" using assms by (rule linked_original)
  then show ?thesis
    by (simp add: update_chat_endpoint_def own_chat_def update_chat_by_id_def write_chat_def Let_def)
       (rule linked_write[OF assms]; simp add: content_row_def)
qed

lemma linked_edits:
  "linked cid (u_id user) s copy db \<Longrightarrow>
   linked cid (u_id user) s copy (fold (\<lambda>(env, content) d. fst (update_chat_endpoint env user cid content d)) edits db)"
  by (induction edits arbitrary: db) (auto intro: linked_edit)

lemma unshared_is_gone:
  assumes l: "linked cid (u_id user) s copy db"
  shows "get_chat_by_share_id s (fst (delete_shared_chat_by_id user cid db)) = None"
proof -
  obtain c where c: "get_chat_by_id_and_user_id cid (u_id user) db = Some c" "c_share_id c = Some s"
    using l by (rule linked_original)
  have "s \<noteq> ''''" using l by (simp add: linked_def)
  then have "fst (delete_shared_chat_by_id user cid db) =
             on_chats (update_by c_id cid (\<lambda>c. c\<lparr>c_share_id := None\<rparr>)) (delete_shared_chat_by_chat_id cid db)"
    using c by (cases s) (simp_all add: delete_shared_chat_by_id_def own_chat_def update_chat_share_id_by_id_def write_chat_def Let_def)
  moreover have "c_share_id r' \<noteq> Some s"
    if "r' \<in> set (update_by c_id cid (\<lambda>c. c\<lparr>c_share_id := None\<rparr>) [c \<leftarrow> cd_chats db. c_user_id c \<noteq> shared_owner cid])" for r'
    using that l unfolding mem_update_by linked_def by (elim bexE) (simp split: if_splits, blast)
  ultimately show ?thesis
    by (simp add: share_lookup on_chats_def delete_shared_chat_by_chat_id_def)
qed

lemma deleted_is_gone:
  assumes l: "linked cid (u_id user) s copy db" and p: "u_role user = ''admin'' \<or> may_delete env user"
  shows "get_chat_by_share_id s (fst (delete_chat_endpoint env user cid db)) = None"
proof -
  obtain c where c: "get_chat_by_id cid db = Some c" "c_user_id c = u_id user" using l by (rule linked_original)
  have owned: "chat_owned cid (u_id user) db"
    unfolding chat_owned_def using l by (auto simp: linked_def keys_unique_def dest: unique_by_eq)
  have "cd_chats (fst (delete_chat_endpoint env user cid db)) = [c \<leftarrow> cd_chats db. c_id c \<noteq> cid \<and> c_user_id c \<noteq> shared_owner cid]"
    using p c owned
    by (auto simp: delete_chat_endpoint_def Let_def delete_chat_by_id_def delete_chat_by_id_and_user_id_def on_chats_def
        delete_shared_chat_by_chat_id_def chat_owned_def intro!: filter_cong)
  then show ?thesis using l by (auto simp: share_lookup linked_def)
qed

definition no_copy_of :: "string \<Rightarrow> string \<Rightarrow> chat_db \<Rightarrow> bool" where
  "no_copy_of cid s db \<longleftrightarrow> (\<forall>c \<in> set (cd_chats db). c_user_id c \<noteq> shared_owner cid \<and> c_share_id c \<noteq> Some s)"

lemma shared_is_linked:
  assumes u: "keys_unique db" and c: "get_chat_by_id_and_user_id cid (u_id user) db = Some c" "c_share_id c = None"
    and s: "fresh_key (ce_uuid env) db" "no_copy_of cid (ce_uuid env) db" "ce_uuid env \<noteq> ''''"
    and owner: "\<not> is_shared_owner (u_id user)"
  obtains copy where "snd (share_chat_by_id env user cid db) = Inr copy" "c_title copy = c_title c" "c_chat copy = c_chat c"
    "linked cid (u_id user) (ce_uuid env) copy (fst (share_chat_by_id env user cid db))"
proof -
  let ?s = "ce_uuid env" and ?f = "\<lambda>c. c\<lparr>c_share_id := Some (ce_uuid env)\<rparr>"
  define copy where "copy = \<lparr>c_id = ?s, c_user_id = shared_owner cid, c_title = c_title c, c_chat = c_chat c,
    c_created_at = c_created_at c, c_updated_at = ce_now env, c_share_id = None, c_archived = False,
    c_pinned = Some False, c_tags = None, c_meta = [], c_folder_id = None, c_kind = None\<rparr>"
  have row: "c \<in> set (cd_chats db)" "c_id c = cid" "c_user_id c = u_id user"
    using c(1) by (auto simp: get_chat_by_id_and_user_id_def find_Some_iff)
  with u have g: "get_chat_by_id cid db = Some c" by (auto simp: get_chat_by_id_def keys_unique_def dest: unique_by_find)
  have ne: "?s \<noteq> cid" using s(1) row by (auto simp: fresh_key_def)
  have r: "share_chat_by_id env user cid db = (on_chats (update_by c_id cid ?f) (add_chat copy db), Inr copy)"
    by (simp add: share_chat_by_id_def own_chat_def c g insert_shared_chat_by_chat_id_def answered_def copy_def Let_def)
  have fresh: "c_id c \<noteq> ?s" "c_user_id c \<noteq> shared_owner cid" "c_share_id c \<noteq> Some ?s" if "c \<in> set (cd_chats db)" for c
    using that s by (auto simp: fresh_key_def no_copy_of_def image_iff)
  have cs: "cd_chats (fst (share_chat_by_id env user cid db)) = update_by c_id cid ?f (cd_chats db) @ [copy]"
    using ne by (simp add: r on_chats_def add_chat_def update_by_def copy_def)
  have "unique_by c_id (update_by c_id cid ?f (cd_chats db) @ [copy])"
  proof (rule unique_by_append_new)
    show "unique_by c_id (update_by c_id cid ?f (cd_chats db))"
      using u by (simp add: unique_by_def map_update_by_same keys_unique_def)
    have "map c_id (update_by c_id cid ?f (cd_chats db)) = map c_id (cd_chats db)" by (rule map_update_by_same) simp
    then have "c_id ` set (update_by c_id cid ?f (cd_chats db)) = c_id ` set (cd_chats db)" by (metis set_map)
    with s(1) show "c_id copy \<notin> c_id ` set (update_by c_id cid ?f (cd_chats db))" by (simp add: copy_def fresh_key_def)
  qed
  moreover have "cd_folders (fst (share_chat_by_id env user cid db)) = cd_folders db"
    by (simp add: r on_chats_def add_chat_def)
  moreover have "?f c \<in> set (update_by c_id cid ?f (cd_chats db))"
    using row unfolding mem_update_by by (intro bexI[of _ c]) auto
  moreover have "c_id r = cid \<or> c_share_id r \<noteq> Some ?s" "c_user_id r \<noteq> shared_owner cid" "r \<noteq> copy"
    if mem: "r \<in> set (update_by c_id cid ?f (cd_chats db))" for r
  proof -
    obtain q where "q \<in> set (cd_chats db)" "r = (if c_id q = cid then ?f q else q)" using mem unfolding mem_update_by by blast
    with fresh[of q] have q: "c_id r = cid \<or> c_share_id r \<noteq> Some ?s" "c_user_id r \<noteq> shared_owner cid"
      by (cases "c_id q = cid"; simp)+
    then show "c_id r = cid \<or> c_share_id r \<noteq> Some ?s" "c_user_id r \<noteq> shared_owner cid" by blast+
    from q(2) show "r \<noteq> copy" by (auto simp: copy_def)
  qed
  ultimately have "linked cid (u_id user) ?s copy (fst (share_chat_by_id env user cid db))"
    unfolding linked_def keys_unique_def cs
    using u s(3) owner row by (auto simp: copy_def keys_unique_def intro!: bexI[of _ "?f c"])
  then show ?thesis by (intro that[of copy]) (simp_all add: r, simp_all add: copy_def)
qed

lemma map_first_only:
  assumes "\<And>x y. x \<in> set xs \<Longrightarrow> y \<in> set xs \<Longrightarrow> P x \<Longrightarrow> P y \<Longrightarrow> x = y" "distinct xs"
  shows "update_first P f xs = map (\<lambda>x. if P x then f x else x) xs"
  using assms
proof (induction xs)
  case (Cons x xs)
  show ?case
  proof (cases "P x")
    case True
    have "\<not> P y" if "y \<in> set xs" for y using Cons.prems(1)[of x y] Cons.prems(2) True that by auto
    with True show ?thesis by (simp add: map_idI)
  next
    case False
    with Cons show ?thesis by simp
  qed
qed simp

text \<open>Sharing a linked chat again brings the copy up to date, under the same link.\<close>

lemma reshared_is_current:
  assumes l: "linked cid (u_id user) s copy db" and c: "get_chat_by_id cid db = Some c"
  shows "get_chat_by_share_id s (fst (share_chat_by_id env user cid db)) =
         Some (copy\<lparr>c_title := c_title c, c_chat := c_chat c, c_updated_at := ce_now env\<rparr>)"
proof -
  let ?P = "\<lambda>r. c_user_id r = shared_owner cid" and ?f = "shared_row (ce_now env) c"
  have orig: "get_chat_by_id_and_user_id cid (u_id user) db = Some c" "c_share_id c = Some s"
    using l c by (metis linked_original option.inject)+
  have copy: "copy \<in> set (cd_chats db)" "c_id copy = s" "?P copy"
    and only: "\<And>r. r \<in> set (cd_chats db) \<Longrightarrow> ?P r \<Longrightarrow> r = copy"
    and u: "unique_by c_id (cd_chats db)" and s: "s \<noteq> ''''"
    using l by (auto simp: linked_def keys_unique_def)
  have f: "find ?P (cd_chats db) = Some copy"
  proof (cases "find ?P (cd_chats db)")
    case (Some r)
    then have "r \<in> set (cd_chats db)" "?P r" by (auto simp: find_Some_iff)
    with only Some show ?thesis by simp
  qed (use copy in \<open>simp add: find_None_iff\<close>)
  have "cd_chats (fst (share_chat_by_id env user cid db)) = update_first ?P ?f (cd_chats db)"
    using orig s by (cases s) (simp_all add: share_chat_by_id_def own_chat_def update_shared_chat_by_chat_id_def f c on_chats_def)
  also have "\<dots> = map (\<lambda>r. if ?P r then ?f r else r) (cd_chats db)"
    by (rule map_first_only) (use only u in \<open>auto simp: unique_by_def distinct_map\<close>)
  also have "\<dots> = update_by c_id s ?f (cd_chats db)"
    unfolding update_by_def
  proof (rule map_cong[OF refl])
    fix r assume r: "r \<in> set (cd_chats db)"
    then have "?P r \<longleftrightarrow> c_id r = s" using only copy u by (metis unique_by_eq)
    then show "(if ?P r then ?f r else r) = (if c_id r = s then ?f r else r)" by simp
  qed
  finally have cs: "cd_chats (fst (share_chat_by_id env user cid db)) = update_by c_id s ?f (cd_chats db)" .
  have "find_by c_id s (update_by c_id s ?f rows) = map_option ?f (find_by c_id s rows)" for rows
    by (induction rows) (auto simp: shared_row_def)
  moreover have "find_by c_id s (cd_chats db) = Some copy" using unique_by_find[OF u copy(1)] copy(2) by simp
  moreover have "c \<in> set (update_by c_id s ?f (cd_chats db))"
    using c linked_ids[OF l] unfolding mem_update_by get_chat_by_id_def
    by (intro bexI[of _ c]) (auto dest: find_by_mem find_by_key)
  ultimately show ?thesis using orig by (auto simp: share_lookup get_chat_by_id_def cs shared_row_def)
qed

text \<open>
  C26: The link of a shared chat. Sharing answers a copy with the title and the content of the
  chat, and the link leads to it. However the owner edits the chat afterwards, the link keeps
  leading to that copy. Sharing again brings the copy up to what the chat is then, under the same
  link. Unsharing the chat, or deleting it, ends the link.
\<close>

theorem share_link_lifecycle:
  assumes "keys_unique db" and "get_chat_by_id_and_user_id cid (u_id user) db = Some c" and "c_share_id c = None"
    and "fresh_key (ce_uuid env) db" and "no_copy_of cid (ce_uuid env) db" and "ce_uuid env \<noteq> ''''"
    and "\<not> is_shared_owner (u_id user)"
    and db1: "db1 = fst (share_chat_by_id env user cid db)"
    and db2: "db2 = fold (\<lambda>(e, content) d. fst (update_chat_endpoint e user cid content d)) edits db1"
  shows "\<exists>copy now. snd (share_chat_by_id env user cid db) = Inr copy \<and> c_title copy = c_title c \<and> c_chat copy = c_chat c \<and>
      get_chat_by_share_id (ce_uuid env) db1 = Some copy \<and>
      get_chat_by_share_id (ce_uuid env) db2 = Some copy \<and>
      get_chat_by_id cid db2 = Some now \<and>
      get_chat_by_share_id (ce_uuid env) (fst (share_chat_by_id env2 user cid db2)) =
        Some (copy\<lparr>c_title := c_title now, c_chat := c_chat now, c_updated_at := ce_now env2\<rparr>) \<and>
      get_chat_by_share_id (ce_uuid env) (fst (delete_shared_chat_by_id user cid db2)) = None \<and>
      (get_chat_by_share_id (ce_uuid env) (fst (delete_chat_endpoint env2 user cid db2)) = None \<or>
       snd (delete_chat_endpoint env2 user cid db2) = Inl (HTTPException 401))"
proof -
  obtain copy where copy: "snd (share_chat_by_id env user cid db) = Inr copy" "c_title copy = c_title c" "c_chat copy = c_chat c"
    and l1: "linked cid (u_id user) (ce_uuid env) copy db1"
    using shared_is_linked[OF assms(1-7)] unfolding db1 by blast
  have l2: "linked cid (u_id user) (ce_uuid env) copy db2" unfolding db2 by (rule linked_edits[OF l1])
  then obtain now where now: "get_chat_by_id cid db2 = Some now" by (rule linked_original)
  have "get_chat_by_share_id (ce_uuid env) (fst (delete_chat_endpoint env2 user cid db2)) = None \<or>
       snd (delete_chat_endpoint env2 user cid db2) = Inl (HTTPException 401)"
  proof (cases "u_role user = ''admin'' \<or> may_delete env2 user")
    case True
    with deleted_is_gone[OF l2] show ?thesis by blast
  qed (simp add: delete_chat_endpoint_def unauthorized_def)
  with copy linked_lookup[OF l1] linked_lookup[OF l2] now reshared_is_current[OF l2 now, of env2] unshared_is_gone[OF l2]
  show ?thesis by blast
qed

definition example_chats :: chat_db where
  "example_chats = \<lparr>cd_chats = [example_chat ''1'' ''ann'' None, example_chat ''2'' ''bob'' None], cd_tags = [], cd_folders = []\<rparr>"

definition example_edit :: chat_content where
  "example_edit = \<lparr>cc_title = Some ''Edited'', cc_history = None, cc_rest = []\<rparr>"

theorem share_link_lifecycle_witness:
  "keys_unique example_chats \<and> get_chat_by_id_and_user_id ''1'' (u_id ann) example_chats = Some (example_chat ''1'' ''ann'' None) \<and>
   c_share_id (example_chat ''1'' ''ann'' None) = None \<and> fresh_key (ce_uuid example_env) example_chats \<and>
   no_copy_of ''1'' (ce_uuid example_env) example_chats \<and> \<not> is_shared_owner (u_id ann) \<and>
   (\<exists>copy. snd (share_chat_by_id example_env ann ''1'' example_chats) = Inr copy \<and>
      get_chat_by_share_id ''new'' (fst (update_chat_endpoint example_env ann ''1'' example_edit
        (fst (share_chat_by_id example_env ann ''1'' example_chats)))) = Some copy \<and> c_title copy = ''New Chat'')"
proof -
  have h: "keys_unique example_chats"
    "get_chat_by_id_and_user_id ''1'' (u_id ann) example_chats = Some (example_chat ''1'' ''ann'' None)"
    "c_share_id (example_chat ''1'' ''ann'' None) = None" "fresh_key (ce_uuid example_env) example_chats"
    "no_copy_of ''1'' (ce_uuid example_env) example_chats" "ce_uuid example_env \<noteq> ''''" "\<not> is_shared_owner (u_id ann)"
    by (simp_all add: keys_unique_def example_chats_def example_chat_def get_chat_by_id_and_user_id_def fresh_key_def
        example_env_def no_copy_of_def shared_owner_def is_shared_owner_def)
  from share_link_lifecycle[OF h refl refl, of "[(example_env, example_edit)]"] h
  show ?thesis by (auto simp: example_chat_def example_env_def)
qed

text \<open>
  The endpoint that deletes a chat removes the shared copy of the chat without looking
  whose chat it is. A user with the permission to delete chats who names the chat of somebody
  else is answered \<open>True\<close>; the chat itself stays, with its link, but the link leads nowhere.
\<close>

theorem deleting_a_foreign_chat_breaks_its_link:
  "let db1 = fst (share_chat_by_id example_env ann ''1'' example_chats);
       (db2, answer) = delete_chat_endpoint example_env bob ''1'' db1
   in get_chat_by_share_id ''new'' db1 \<noteq> None \<and> answer = Inr True \<and> rows_of ''ann'' db2 = rows_of ''ann'' db1 \<and>
      map_option c_share_id (get_chat_by_id ''1'' db2) = Some (Some ''new'') \<and> get_chat_by_share_id ''new'' db2 = None"
  by code_simp

section \<open>Names of sibling folders\<close>

definition folder_key :: "folder \<Rightarrow> string \<times> string option \<times> string" where
  "folder_key f = (f_user_id f, f_parent_id f, f_name f)"

abbreviation siblings_distinct :: "chat_db \<Rightarrow> bool" where
  "siblings_distinct db \<equiv> distinct (map folder_key (cd_folders db))"

lemma sql_match_star: "sql_match False f p s \<Longrightarrow> sql_match False f (CHR ''%'' # p) s"
  by (cases s) auto

lemma sql_match_self: "sql_match False f p p"
  by (induction p) (auto intro: sql_match_star)

lemma sqlite_ilike_self: "sql_ilike Sqlite n n"
  by (simp add: sql_ilike_def sql_match_self)

lemma no_sibling:
  assumes "get_folder_by_parent_id_and_user_id_and_name Sqlite parent user name db = None"
  shows "(user, parent, name) \<notin> folder_key ` set (cd_folders db)"
  using assms sqlite_ilike_self
  by (auto simp: get_folder_by_parent_id_and_user_id_and_name_def find_None_iff folder_key_def)

lemma update_first_split:
  "find P xs = Some r \<Longrightarrow> \<exists>us vs. xs = us @ r # vs \<and> update_first P f xs = us @ f r # vs"
proof (induction xs)
  case (Cons x xs)
  show ?case
  proof (cases "P x")
    case True
    with Cons.prems show ?thesis by (intro exI[of _ "[]"] exI[of _ xs]) simp
  next
    case False
    with Cons obtain us vs where "xs = us @ r # vs" "update_first P f xs = us @ f r # vs" by auto
    with False show ?thesis by (intro exI[of _ "x # us"] exI[of _ vs]) simp
  qed
qed simp

lemma distinct_update_first:
  assumes "distinct (map key xs)" "find P xs = Some r" "key (f r) = key r \<or> key (f r) \<notin> key ` set xs"
  shows "distinct (map key (update_first P f xs))"
proof -
  obtain us vs where "xs = us @ r # vs" "update_first P f xs = us @ f r # vs"
    using update_first_split[OF assms(2), of f] by blast
  with assms(1,3) show ?thesis by (auto simp: image_iff)
qed

lemma siblings_write:
  assumes "siblings_distinct db"
    and "\<And>r. get_folder_by_id_and_user_id fid user db = Some r \<Longrightarrow>
           folder_key (g r) = folder_key r \<or> folder_key (g r) \<notin> folder_key ` set (cd_folders db)"
  shows "siblings_distinct (fst (write_folder fid user g db))"
proof (cases "get_folder_by_id_and_user_id fid user db")
  case (Some r)
  then have "find (\<lambda>f. f_id f = fid \<and> f_user_id f = user) (cd_folders db) = Some r"
    by (simp add: get_folder_by_id_and_user_id_def)
  from distinct_update_first[OF assms(1) this, where f = g] assms(2)[OF Some] Some show ?thesis
    by (simp add: write_folder_def on_folders_def get_folder_by_id_and_user_id_def)
qed (simp add: write_folder_def assms(1))

lemma distinct_subseq: "subseq xs ys \<Longrightarrow> distinct ys \<Longrightarrow> distinct xs"
  by (induction rule: list_emb.induct) (auto dest: list_emb_set)

lemma siblings_delete_children: "subseq (cd_folders (fst (delete_children n user fid db))) (cd_folders db)"
proof (induction n arbitrary: fid db)
  case (Suc n)
  have child: "subseq (cd_folders (fst (delete_child (delete_children n user) user c st))) (cd_folders (fst st))" for c st
    using Suc.IH[of "f_id c" "delete_chats_by_user_id_and_folder_id user (f_id c) (fst st)"]
    by (auto simp: delete_child_def split_beta Let_def on_folders_def intro: subseq_order.trans[OF subseq_filter_left])
  have "subseq (cd_folders (fst (fold (delete_child (delete_children n user) user) cs st))) (cd_folders (fst st))" for cs st
  proof (induction cs arbitrary: st)
    case (Cons c cs)
    from subseq_order.trans[OF Cons.IH child] show ?case by simp
  qed simp
  then show ?case by (metis delete_children.simps(2) fst_conv)
qed simp

lemma siblings_delete_folder:
  "subseq (cd_folders (fst (delete_folder_by_id_and_user_id limit fid user db))) (cd_folders db)"
  using siblings_delete_children[of limit user fid "delete_chats_by_user_id_and_folder_id user fid db"]
  by (auto simp: delete_folder_by_id_and_user_id_def split_beta Let_def on_folders_def
      intro: subseq_order.trans[OF subseq_filter_left] split: option.split)

lemma siblings_rename:
  assumes "siblings_distinct db"
  shows "siblings_distinct (fst (update_folder_name_by_id_and_user_id now fid user name db))"
proof (cases "get_folder_by_id_and_user_id fid user db")
  case (Some f)
  have f: "f \<in> set (cd_folders db)" "f_id f = fid" "f_user_id f = user"
    using Some by (auto simp: get_folder_by_id_and_user_id_def find_Some_iff)
  have "folder_key (f\<lparr>f_name := name, f_updated_at := now\<rparr>) \<notin> folder_key ` set (cd_folders db)"
    if "find (\<lambda>g. f_name g = name \<and> f_parent_id g = f_parent_id f \<and> f_user_id g = user) (cd_folders db) = None"
    using that f(3) by (auto simp: find_None_iff folder_key_def)
  with Some assms show ?thesis
    by (auto simp: update_folder_name_by_id_and_user_id_def intro!: siblings_write)
qed (simp add: update_folder_name_by_id_and_user_id_def assms)

text \<open>The requests on chats leave the folders alone.\<close>

lemma keeps_folders [simp]:
  "cd_folders (on_chats f db) = cd_folders db"
  "cd_folders (on_tags g db) = cd_folders db"
  "cd_folders (fst (write_chat cid h db)) = cd_folders db"
  "cd_folders (delete_tag_by_name_and_user_id name u db) = cd_folders db"
  "cd_folders (fst (insert_new_tag name u db)) = cd_folders db"
  "cd_folders (drop_tag_at n u name db) = cd_folders db"
  "cd_folders (add_chat c db) = cd_folders db"
  by (simp_all add: on_chats_def on_tags_def write_chat_def Let_def delete_tag_by_name_and_user_id_def insert_new_tag_def
      drop_tag_at_def add_chat_def)

lemma fold_keeps_folders:
  "(\<And>x d. cd_folders (f x d) = cd_folders d) \<Longrightarrow> cd_folders (fold f xs db) = cd_folders db"
  by (induction xs arbitrary: db) auto

lemma own_chat_keeps_folders:
  "(\<And>c. cd_folders (fst (k c)) = cd_folders db) \<Longrightarrow> cd_folders (fst (own_chat user cid k db)) = cd_folders db"
  by (simp add: own_chat_def unauthorized_def split: option.split)

lemma write_keeps_folders [simp]:
  "cd_folders (fst (update_chat_by_id now cid content db)) = cd_folders db"
  "cd_folders (fst (insert_new_chat now uuid u content kind db)) = cd_folders db"
  "cd_folders (delete_shared_chat_by_chat_id cid db) = cd_folders db"
  "cd_folders (fst (insert_shared_chat_by_chat_id now uuid cid db)) = cd_folders db"
  "cd_folders (fst (clone_chat env user c db)) = cd_folders db"
  "cd_folders (fst (add_chat_tag_by_id_and_user_id_and_tag_name cid u name db)) = cd_folders db"
  "cd_folders (fold (drop_tag_at n u) tags db) = cd_folders db"
  by (auto simp: update_chat_by_id_def insert_new_chat_def delete_shared_chat_by_chat_id_def insert_shared_chat_by_chat_id_def
      Let_def clone_chat_def add_chat_tag_by_id_and_user_id_and_tag_name_def split_beta split: option.splits
      intro!: fold_keeps_folders)

lemma share_keeps_folders [simp]:
  "cd_folders (fst (update_shared_chat_by_chat_id now uuid cid db)) = cd_folders db"
  "cd_folders (fst (share_chat_by_id env user cid db)) = cd_folders db"
proof -
  have i: "cd_folders d = cd_folders db" if "insert_shared_chat_by_chat_id now uuid cid db = (d, r)" for d r now uuid
    using that write_keeps_folders(4)[of now uuid cid db] by simp
  show u: "cd_folders (fst (update_shared_chat_by_chat_id now uuid cid db)) = cd_folders db" for now uuid
    by (auto simp: update_shared_chat_by_chat_id_def split: option.split prod.split sum.split dest: i)
  show "cd_folders (fst (share_chat_by_id env user cid db)) = cd_folders db"
    unfolding share_chat_by_id_def
    by (rule own_chat_keeps_folders) (auto simp: u split: prod.split sum.split dest: i)
qed

lemma archive_keeps_folders [simp]: "cd_folders (fst (archive_chat_by_id env user cid db)) = cd_folders db"
proof -
  have w: "cd_folders d = cd_folders db" if "toggle_chat_archive_by_id now cid db = (d, r)" for now d r
    using that keeps_folders(3)[of cid _ db] by (metis fst_conv toggle_chat_archive_by_id_def)
  show ?thesis unfolding archive_chat_by_id_def
    by (rule own_chat_keeps_folders) (auto split: prod.split option.split dest: w intro!: fold_keeps_folders[THEN trans])
qed

definition folder_request :: "chat_request \<Rightarrow> bool" where
  "folder_request req = (case req of CreateFolder _ \<Rightarrow> True | UpdateFolder _ _ _ \<Rightarrow> True | MoveFolder _ _ \<Rightarrow> True
     | ExpandFolder _ _ \<Rightarrow> True | DeleteFolder _ \<Rightarrow> True | _ \<Rightarrow> False)"

lemma chat_requests_keep_folders:
  assumes "\<not> folder_request req"
  shows "cd_folders (serve env user req db) = cd_folders db"
proof -
  have tagged: "cd_folders (fold (\<lambda>t d. if P t \<and> get_tag_by_name_and_user_id (g t) u d = None
                  then fst (insert_new_tag (g t) u d) else d) ts d0) = cd_folders d0" for P g u ts d0
    by (rule fold_keeps_folders) simp
  show ?thesis
    using assms
    by (cases req)
       (auto simp: serve_def folder_request_def create_new_chat_def import_chat_endpoint_def import_chat_def update_chat_endpoint_def
         delete_chat_endpoint_def delete_chat_by_id_def delete_chat_by_id_and_user_id_def delete_all_user_chats_def
         delete_chats_by_user_id_def delete_shared_chats_by_user_id_def pin_chat_by_id_def toggle_chat_pinned_by_id_def
         clone_chat_by_id_def clone_shared_chat_by_id_def archive_all_chats_by_user_id_def delete_shared_chat_by_id_def
         update_chat_share_id_by_id_def update_chat_folder_id_by_id_def update_chat_folder_id_by_id_and_user_id_def
         add_tag_by_id_and_tag_name_def delete_tag_by_id_and_tag_name_def delete_tag_by_id_and_user_id_and_tag_name_def
         delete_all_tags_by_id_def delete_all_tags_by_id_and_user_id_def get_user_chat_list_by_tag_name_def
         unauthorized_def tagged split_beta Let_def split: option.split intro!: own_chat_keeps_folders)
qed

lemma own_folder_siblings:
  assumes "siblings_distinct db"
    and "\<And>f. get_folder_by_id_and_user_id fid (u_id user) db = Some f \<Longrightarrow> siblings_distinct (fst (k f))"
  shows "siblings_distinct (fst (own_folder user fid k db))"
  using assms by (simp add: own_folder_def split: option.split)

lemma folder_requests_keep_siblings:
  assumes d: "ce_dialect env = Sqlite" and s: "siblings_distinct db"
  shows "siblings_distinct (fst (create_folder env user name db))"
    and "siblings_distinct (fst (update_folder_name_by_id env user fid name preset db))"
    and "siblings_distinct (fst (update_folder_parent_id_by_id env user fid parent db))"
    and "siblings_distinct (fst (update_folder_is_expanded_by_id env user fid ex db))"
    and "siblings_distinct (fst (delete_folder_by_id env user fid db))"
proof -
  show "siblings_distinct (fst (create_folder env user name db))"
    using no_sibling[of None "u_id user" name db] s
    by (auto simp: create_folder_def d insert_new_folder_def Let_def on_folders_def folder_key_def[where f = "\<lparr>f_id = _, f_parent_id = _, f_user_id = _, f_name = _, f_meta = _, f_is_expanded = _, f_created_at = _, f_updated_at = _\<rparr>"])
  have m: "siblings_distinct (fst (update_folder_meta_by_id_and_user_id (ce_now env) fid (u_id user) meta d))"
    if "siblings_distinct d" for meta d
    unfolding update_folder_meta_by_id_and_user_id_def by (rule siblings_write[OF that]) (simp add: folder_key_def)
  show "siblings_distinct (fst (update_folder_name_by_id env user fid name preset db))"
    unfolding update_folder_name_by_id_def
    by (rule own_folder_siblings[OF s]) (auto simp: split_beta Let_def s siblings_rename m split: option.split)
  show "siblings_distinct (fst (update_folder_parent_id_by_id env user fid parent db))"
    unfolding update_folder_parent_id_by_id_def
  proof (rule own_folder_siblings[OF s])
    fix f assume f: "get_folder_by_id_and_user_id fid (u_id user) db = Some f"
    have "siblings_distinct (fst (update_folder_parent_id_by_id_and_user_id (ce_now env) fid (u_id user) parent db))"
      if n: "get_folder_by_parent_id_and_user_id_and_name Sqlite parent (u_id user) (f_name f) db = None"
      unfolding update_folder_parent_id_by_id_and_user_id_def
    proof (rule siblings_write[OF s])
      fix r assume "get_folder_by_id_and_user_id fid (u_id user) db = Some r"
      with f have "r = f" by simp
      moreover from f have "f_user_id f = u_id user" by (auto simp: get_folder_by_id_and_user_id_def find_Some_iff)
      ultimately show "folder_key (r\<lparr>f_parent_id := parent, f_updated_at := ce_now env\<rparr>) = folder_key r \<or>
            folder_key (r\<lparr>f_parent_id := parent, f_updated_at := ce_now env\<rparr>) \<notin> folder_key ` set (cd_folders db)"
        using no_sibling[OF n] by (simp add: folder_key_def[of "_\<lparr>f_parent_id := _, f_updated_at := _\<rparr>"])
    qed
    then show "siblings_distinct (fst (if get_folder_by_parent_id_and_user_id_and_name (ce_dialect env) parent (u_id user) (f_name f) db \<noteq> None
       then (db, Inl (HTTPException 400))
       else (let (db', r) = update_folder_parent_id_by_id_and_user_id (ce_now env) fid (u_id user) parent db in (db', Inr r))))"
      by (simp add: d s split_beta Let_def)
  qed
  show "siblings_distinct (fst (update_folder_is_expanded_by_id env user fid ex db))"
    unfolding update_folder_is_expanded_by_id_def update_folder_is_expanded_by_id_and_user_id_def
    by (rule own_folder_siblings[OF s]) (simp add: split_beta Let_def siblings_write[OF s] folder_key_def)
  show "siblings_distinct (fst (delete_folder_by_id env user fid db))"
    unfolding delete_folder_by_id_def
    by (rule own_folder_siblings[OF s])
       (simp add: split_beta Let_def distinct_subseq[OF subseq_map[OF siblings_delete_folder] s])
qed

lemma serve_keeps_siblings:
  assumes "ce_dialect env = Sqlite" "siblings_distinct db"
  shows "siblings_distinct (serve env user req db)"
proof (cases "folder_request req")
  case True
  with folder_requests_keep_siblings[OF assms] show ?thesis
    by (cases req) (simp_all add: folder_request_def serve_def)
qed (simp add: chat_requests_keep_folders assms(2))

text \<open>
  On SQLite, whatever requests are served in whatever order, two folders of a user under the
  same parent never get the same name.
\<close>

theorem sibling_folders_keep_different_names:
  assumes "distinct (map folder_key (cd_folders db))" and "list_all (\<lambda>(env, user, req). ce_dialect env = Sqlite) requests"
  shows "distinct (map folder_key (cd_folders (fold (\<lambda>(env, user, req) d. serve env user req d) requests db)))"
  using assms
proof (induction requests arbitrary: db)
  case (Cons r rs)
  obtain env user req where "r = (env, user, req)" by (cases r) auto
  with Cons serve_keeps_siblings[of env db user req] show ?case by simp
qed simp

theorem sibling_folders_keep_different_names_witness:
  "distinct (map folder_key (cd_folders example_tree)) \<and>
   list_all (\<lambda>(env, user, req). ce_dialect env = Sqlite) [(example_env, ann, CreateFolder ''new''), (example_env, ann, CreateFolder ''NEW'')] \<and>
   distinct (map folder_key (cd_folders (fold (\<lambda>(env, user, req) d. serve env user req d)
     [(example_env, ann, CreateFolder ''new''), (example_env, ann, CreateFolder ''NEW'')] example_tree)))"
proof -
  have h: "distinct (map folder_key (cd_folders example_tree))"
    "list_all (\<lambda>(env, user, req). ce_dialect env = Sqlite) [(example_env, ann, CreateFolder ''new''), (example_env, ann, CreateFolder ''NEW'')]"
    by (simp_all add: folder_key_def example_tree_def example_folder_def example_env_def)
  with sibling_folders_keep_different_names[OF h] show ?thesis by blast
qed

section \<open>Messages\<close>

lemma map_of_dict_merge:
  "distinct (map fst b) \<Longrightarrow> map_of (dict_merge a b) k = (case map_of b k of Some v \<Rightarrow> Some v | None \<Rightarrow> map_of a k)"
  unfolding dict_merge_def
proof (induction b arbitrary: a)
  case (Cons p b)
  obtain k' v' where p: "p = (k', v')" by (cases p)
  with Cons have "map_of b k' = None" by (simp add: map_of_eq_None_iff)
  with p Cons show ?case by (auto simp: update_conv' split: option.split)
qed simp

text \<open>
  A message that is stored in the history of a chat is read back: every key of the message
  has its new value, the keys the message does not name keep what the stored message had, every
  other message of the chat is read as before, and every other chat is the same row.
\<close>

theorem message_upsert_roundtrip:
  assumes c: "get_chat_by_id cid db = Some c" "h_messages (history_of c) = Some ms" and d: "distinct (map fst message)"
    and db': "db' = fst (upsert_message_to_chat_by_id_and_message_id now cid mid message db)"
  shows "\<exists>m. get_message_by_id_and_message_id cid mid db' = Some m \<and>
           (\<forall>k. map_of m k = (case map_of message k of Some v \<Rightarrow> Some v
                               | None \<Rightarrow> (case map_of ms mid of None \<Rightarrow> None | Some old \<Rightarrow> map_of old k))) \<and>
           (\<forall>n. n = mid \<or> get_message_by_id_and_message_id cid n db' = get_message_by_id_and_message_id cid n db) \<and>
           (\<forall>k. k = cid \<or> get_chat_by_id k db' = get_chat_by_id k db)"
proof -
  define new where "new = (case map_of ms mid of Some old \<Rightarrow> dict_merge old message | None \<Rightarrow> message)"
  define h where "h = (history_of c)\<lparr>h_messages := Some (AList.update mid new ms), h_current_id := Some mid\<rparr>"
  let ?f = "content_row now ((c_chat c)\<lparr>cc_history := Some h\<rparr>)"
  have "db' = on_chats (update_by c_id cid ?f) db"
    by (simp add: db' upsert_message_to_chat_by_id_and_message_id_def c split_beta Let_def update_chat_by_id_def write_chat_def
        new_def h_def)
  then have g: "get_chat_by_id k db' = (if k = cid then Some (?f c) else get_chat_by_id k db)" for k
    using c(1) by (simp add: get_chat_by_id_def on_chats_def content_write.find_any)
  have "messages_of (history_of (?f c)) = AList.update mid new ms"
    by (simp add: messages_of_def history_of_def content_row_def h_def)
  then have m: "get_message_by_id_and_message_id cid n db' = Some (case_option [] id (map_of (AList.update mid new ms) n))" for n
    by (simp add: get_message_by_id_and_message_id_def g)
  have "get_message_by_id_and_message_id cid n db = Some (case_option [] id (map_of ms n))" for n
    by (simp add: get_message_by_id_and_message_id_def c messages_of_def)
  moreover have "map_of new k = (case map_of message k of Some v \<Rightarrow> Some v
      | None \<Rightarrow> (case map_of ms mid of None \<Rightarrow> None | Some old \<Rightarrow> map_of old k))" for k
    by (simp add: new_def map_of_dict_merge[OF d] split: option.split)
  ultimately show ?thesis by (auto simp: m g update_conv')
qed

theorem message_upsert_roundtrip_witness:
  "get_chat_by_id ''1'' example_chats = Some (example_chat ''1'' ''ann'' None) \<and>
   h_messages (history_of (example_chat ''1'' ''ann'' None)) = Some [] \<and>
   distinct (map fst [(''role'', JStr ''user''), (''content'', JStr ''hello'')]) \<and>
   (\<exists>m. get_message_by_id_and_message_id ''1'' ''m1'' (fst (upsert_message_to_chat_by_id_and_message_id 7 ''1'' ''m1''
          [(''role'', JStr ''user''), (''content'', JStr ''hello'')] example_chats)) = Some m \<and>
        map_of m ''content'' = Some (JStr ''hello''))"
proof -
  have h: "get_chat_by_id ''1'' example_chats = Some (example_chat ''1'' ''ann'' None)"
    "h_messages (history_of (example_chat ''1'' ''ann'' None)) = Some []"
    "distinct (map fst [(''role'', JStr ''user''), (''content'', JStr ''hello'')])"
    by (simp_all add: get_chat_by_id_def example_chats_def example_chat_def history_of_def)
  from message_upsert_roundtrip[OF h refl, where now = 7 and mid = "''m1''"]
  obtain m where m: "get_message_by_id_and_message_id ''1'' ''m1'' (fst (upsert_message_to_chat_by_id_and_message_id 7 ''1'' ''m1''
          [(''role'', JStr ''user''), (''content'', JStr ''hello'')] example_chats)) = Some m"
    "map_of m ''content'' = Some (JStr ''hello'')"
    by (elim exE conjE) (erule_tac x = "''content''" in allE, simp)
  with h show ?thesis by blast
qed

end
