(* ===== verification/App_Config.thy ===== *)
theory App_Config
  imports Selfai_Prelude "HOL-Library.AList" "HOL-Library.Sublist"
begin

text \<open>
  The persistent settings of the application (\<open>PersistentConfig\<close>, \<open>AppConfig\<close> and the store behind
  them in \<open>config.py\<close>), their import and export (\<open>routers/configs.py\<close>) and the redaction of an export
  (\<open>utils/config_redaction.py\<close>). \<open>CONFIG_DATA\<close> is a nested dict in memory, a copy of the one row of
  the config table; a setting lives at a dotted path in it. \<open>PersistentConfig\<close> objects are shared
  between the registry and \<open>AppConfig\<close>, so they are the entries of a list and \<open>AppConfig\<close> refers to
  them by position. \<open>None\<close> is \<open>JNull\<close>.

  The lemmas show that a setting that was saved is what the next start reads and that saving one
  setting disturbs no other, that nothing is stored when the environment is authoritative, and
  which leaves of an export are hidden and which are not.
\<close>

section \<open>Settings\<close>

record persistent_config =
  pc_env_name :: string
  pc_config_path :: string
  pc_env_value :: json
  pc_config_value :: json
  pc_value :: json

record config_state =
  cs_enabled :: bool
  cs_data :: "(string \<times> json) list"
  cs_db :: "(string \<times> json) list option"
  cs_registry :: "persistent_config list"
  cs_app :: "(string \<times> nat) list"

definition get_config :: "(string \<times> json) list \<Rightarrow> config_state \<Rightarrow> (string \<times> json) list" where
  "get_config default_config st = (case cs_db st of None \<Rightarrow> default_config | Some d \<Rightarrow> d)"

definition save_to_db :: "(string \<times> json) list \<Rightarrow> config_state \<Rightarrow> config_state" where
  "save_to_db data st = st\<lparr>cs_db := Some data\<rparr>"

text \<open>
  \<open>key in cur_config\<close> is also defined on strings and lists; the subscript that follows a hit is not.
\<close>

fun get_config_value :: "string list \<Rightarrow> json \<Rightarrow> json result" where
  "get_config_value [] cur = Inr cur"
| "get_config_value (k # ks) (JObj kvs) =
     (case map_of kvs k of None \<Rightarrow> Inr JNull | Some v \<Rightarrow> get_config_value ks v)"
| "get_config_value (k # ks) (JStr s) = (if sublist k s then Inl TypeError else Inr JNull)"
| "get_config_value (k # ks) (JList xs) = (if JStr k \<in> set xs then Inl TypeError else Inr JNull)"
| "get_config_value (k # ks) _ = Inl TypeError"

definition path_parts :: "string \<Rightarrow> string list" where
  "path_parts p = split_on (CHR ''.'') p"

definition config_value_at :: "string \<Rightarrow> config_state \<Rightarrow> json result" where
  "config_value_at path st =
     (if cs_enabled st then get_config_value (path_parts path) (JObj (cs_data st)) else Inr JNull)"

text \<open>Constructing an entry appends it to the registry; its position is the object.\<close>

definition new_persistent_config :: "string \<Rightarrow> string \<Rightarrow> json \<Rightarrow> config_state \<Rightarrow> (config_state \<times> nat) result" where
  "new_persistent_config env_name path env_value st =
     (case config_value_at path st of
        Inl e \<Rightarrow> Inl e
      | Inr c \<Rightarrow>
          Inr (st\<lparr>cs_registry := cs_registry st @
                 [\<lparr>pc_env_name = env_name, pc_config_path = path, pc_env_value = env_value, pc_config_value = c,
                   pc_value = (if c \<noteq> JNull then c else env_value)\<rparr>]\<rparr>, length (cs_registry st)))"

definition update_entry :: "config_state \<Rightarrow> persistent_config \<Rightarrow> persistent_config result" where
  "update_entry st pc =
     (if \<not> cs_enabled st then Inr pc
      else case config_value_at (pc_config_path pc) st of
             Inl e \<Rightarrow> Inl e
           | Inr v \<Rightarrow> Inr (if v \<noteq> JNull then pc\<lparr>pc_value := v\<rparr> else pc))"

text \<open>Setting a value at a path; the missing dicts on the way are created. Anything else on the way is a \<open>TypeError\<close>.\<close>

fun set_path :: "string list \<Rightarrow> json \<Rightarrow> (string \<times> json) list \<Rightarrow> (string \<times> json) list result" where
  "set_path [] v d = Inr d"
| "set_path [k] v d = Inr (AList.update k v d)"
| "set_path (k # k' # ks) v d =
     (case (case map_of d k of None \<Rightarrow> Some [] | Some (JObj sub) \<Rightarrow> Some sub | Some _ \<Rightarrow> None) of
        None \<Rightarrow> Inl TypeError
      | Some sub \<Rightarrow>
          (case set_path (k' # ks) v sub of Inl e \<Rightarrow> Inl e | Inr sub' \<Rightarrow> Inr (AList.update k (JObj sub') d)))"

definition save_entry :: "nat \<Rightarrow> config_state \<Rightarrow> config_state \<times> unit result" where
  "save_entry i st =
     (if \<not> cs_enabled st then (st, Inr ())
      else let pc = cs_registry st ! i
           in case set_path (path_parts (pc_config_path pc)) (pc_value pc) (cs_data st) of
                Inl e \<Rightarrow> (st, Inl e)
              | Inr d \<Rightarrow>
                  (let st1 = save_to_db d (st\<lparr>cs_data := d\<rparr>)
                   in (st1\<lparr>cs_registry := (cs_registry st1)[i := pc\<lparr>pc_config_value := pc_value pc\<rparr>]\<rparr>, Inr ())))"

text \<open>\<open>AppConfig.__setattr__\<close> with an entry and with a value, and \<open>__getattr__\<close>.\<close>

definition app_set_entry :: "string \<Rightarrow> nat \<Rightarrow> config_state \<Rightarrow> config_state" where
  "app_set_entry key i st = st\<lparr>cs_app := AList.update key i (cs_app st)\<rparr>"

definition app_set_value :: "string \<Rightarrow> json \<Rightarrow> config_state \<Rightarrow> config_state \<times> unit result" where
  "app_set_value key v st =
     (case map_of (cs_app st) key of
        None \<Rightarrow> (st, Inl KeyError)
      | Some i \<Rightarrow> save_entry i (st\<lparr>cs_registry := (cs_registry st)[i := (cs_registry st ! i)\<lparr>pc_value := v\<rparr>]\<rparr>))"

definition app_get :: "string \<Rightarrow> config_state \<Rightarrow> json result" where
  "app_get key st =
     (case map_of (cs_app st) key of None \<Rightarrow> Inl KeyError | Some i \<Rightarrow> Inr (pc_value (cs_registry st ! i)))"

text \<open>The entries are updated in the order of the registry; the first that raises ends the loop.\<close>

fun update_all :: "config_state \<Rightarrow> persistent_config list \<Rightarrow> persistent_config list \<times> bool" where
  "update_all st [] = ([], True)"
| "update_all st (pc # pcs) =
     (case update_entry st pc of
        Inl e \<Rightarrow> (pc # pcs, False)
      | Inr pc' \<Rightarrow> (let (rest, ok) = update_all st pcs in (pc' # rest, ok)))"

definition save_config :: "(string \<times> json) list \<Rightarrow> config_state \<Rightarrow> config_state \<times> bool" where
  "save_config config st =
     (let st1 = (save_to_db config st)\<lparr>cs_data := config\<rparr>;
          (reg, ok) = update_all st1 (cs_registry st1)
      in (st1\<lparr>cs_registry := reg\<rparr>, ok))"

definition reset_config :: "config_state \<Rightarrow> config_state" where
  "reset_config st = st\<lparr>cs_db := None\<rparr>"

text \<open>A start of the process: the row is read, and no entry exists yet.\<close>

definition restart :: "(string \<times> json) list \<Rightarrow> bool \<Rightarrow> config_state \<Rightarrow> config_state" where
  "restart default_config enabled st =
     \<lparr>cs_enabled = enabled, cs_data = get_config default_config st, cs_db = cs_db st, cs_registry = [], cs_app = []\<rparr>"

section \<open>Redaction\<close>

definition REDACTED :: string where
  "REDACTED = ''[redacted]''"

definition SENSITIVE_WORDS :: "string list" where
  "SENSITIVE_WORDS = [''apikey'', ''api_key'', ''secret'', ''password'', ''passwd'', ''token'', ''credential'', ''access_key'',
     ''private_key'', ''client_secret'']"

definition SENSITIVE_PATTERN :: "string \<Rightarrow> bool" where
  "SENSITIVE_PATTERN name =
     (let s = lower name
      in list_ex (\<lambda>w. sublist w s) SENSITIVE_WORDS \<or>
         up_to_newline (\<lambda>t. suffix ''_key'' t \<or> suffix ''_keys'' t \<or> t = ''key'' \<or> t = ''keys'') s)"

definition NOT_SENSITIVE_ENV_NAMES :: "string list" where
  "NOT_SENSITIVE_ENV_NAMES = [''ENABLE_API_KEY'', ''ENABLE_API_KEY_ENDPOINT_RESTRICTIONS'', ''API_KEY_ALLOWED_ENDPOINTS'',
     ''TIKTOKEN_ENCODING_NAME'']"

definition ALWAYS_SENSITIVE_ENV_NAMES :: "string list" where
  "ALWAYS_SENSITIVE_ENV_NAMES = [''WEBHOOK_URL'', ''AUTOMATIC1111_API_AUTH'']"

definition is_sensitive_env_name :: "string \<Rightarrow> bool" where
  "is_sensitive_env_name env_name =
     (if env_name \<in> set NOT_SENSITIVE_ENV_NAMES then False
      else if env_name \<in> set ALWAYS_SENSITIVE_ENV_NAMES then True
      else SENSITIVE_PATTERN env_name)"

definition sensitive_config_paths :: "config_state \<Rightarrow> string list" where
  "sensitive_config_paths st = map pc_config_path [e \<leftarrow> cs_registry st. is_sensitive_env_name (pc_env_name e)]"

fun redact_value :: "json \<Rightarrow> json" where
  "redact_value (JList xs) = JList (map redact_value xs)"
| "redact_value (JObj kvs) = (if kvs = [] then JObj [] else JStr REDACTED)"
| "redact_value (JStr s) = (if s = [] then JStr [] else JStr REDACTED)"
| "redact_value v = v"

definition sub_path :: "string \<Rightarrow> string \<Rightarrow> string" where
  "sub_path path key = (if path \<noteq> [] then path @ ''.'' @ key else key)"

definition leaf_sensitive :: "string list \<Rightarrow> string \<Rightarrow> bool" where
  "leaf_sensitive known path \<longleftrightarrow> path \<in> set known \<or> is_sensitive_env_name (last (split_on (CHR ''.'') path))"

fun redact_walk :: "string list \<Rightarrow> string \<Rightarrow> json \<Rightarrow> json" where
  "redact_walk known path (JObj kvs) = JObj (map (\<lambda>(k, v). (k, redact_walk known (sub_path path k) v)) kvs)"
| "redact_walk known path (JList xs) = JList (map (redact_walk known path) xs)"
| "redact_walk known path v = (if leaf_sensitive known path then redact_value v else v)"

definition redact_config :: "config_state \<Rightarrow> (string \<times> json) list \<Rightarrow> json" where
  "redact_config st config = redact_walk (sensitive_config_paths st) [] (JObj config)"

definition import_config :: "(string \<times> json) list \<Rightarrow> (string \<times> json) list \<Rightarrow> config_state \<Rightarrow> config_state \<times> json result" where
  "import_config default_config config st =
     (if \<not> cs_enabled st then (st, Inl (HTTPException 409))
      else let st1 = fst (save_config config st) in (st1, Inr (redact_config st1 (get_config default_config st1))))"

definition export_config :: "(string \<times> json) list \<Rightarrow> config_state \<Rightarrow> json" where
  "export_config default_config st = redact_config st (get_config default_config st)"

section \<open>Saved settings\<close>

lemma set_path_get: "set_path ks v d = Inr d' \<Longrightarrow> ks \<noteq> [] \<Longrightarrow> get_config_value ks (JObj d') = Inr v"
  by (induction ks v d arbitrary: d' rule: set_path.induct)
    (auto simp: update_conv' split: option.splits sum.splits json.splits)

lemma set_path_other:
  assumes "set_path ks v d = Inr d'" "\<not> prefix ks qs" "\<not> prefix qs ks"
  shows "get_config_value qs (JObj d') = get_config_value qs (JObj d)"
  using assms
proof (induction ks v d arbitrary: d' qs rule: set_path.induct)
  case (2 k v d)
  then show ?case by (cases qs) (auto simp: update_conv')
next
  case (3 k k' ks v d)
  obtain q rest where qs: "qs = q # rest" using 3(4) by (cases qs) auto
  obtain sub sub' where sub: "map_of d k = None \<and> sub = [] \<or> map_of d k = Some (JObj sub)"
    "set_path (k' # ks) v sub = Inr sub'" "d' = AList.update k (JObj sub') d"
    using 3(2) by (auto split: option.splits sum.splits json.splits)
  show ?case
  proof (cases "q = k")
    case True
    with 3(3,4) qs have rest: "\<not> prefix (k' # ks) rest" "\<not> prefix rest (k' # ks)" by auto
    have "get_config_value rest (JObj sub') = get_config_value rest (JObj sub)"
      using 3(1)[of sub] sub rest by (auto split: option.splits)
    with True qs sub rest show ?thesis by (cases rest) (auto simp: update_conv')
  qed (simp add: qs sub(3) update_conv')
qed auto

lemma path_parts_ne [simp]: "path_parts p \<noteq> []"
  by (simp add: path_parts_def)


definition example_config :: config_state where
  "example_config = \<lparr>cs_enabled = True, cs_data = [(''ui'', JObj [(''locale'', JStr ''en'')])], cs_db = None,
     cs_registry = [\<lparr>pc_env_name = ''TITLE'', pc_config_path = ''ui.title'', pc_env_value = JStr ''t'',
       pc_config_value = JNull, pc_value = JStr ''t''\<rparr>], cs_app = [(''TITLE'', 0)]\<rparr>"


section \<open>What an export hides\<close>

text \<open>A place in a JSON value, and the dotted path the redaction sees there: list positions do not show.\<close>

datatype json_step = Key string | Item nat

fun json_at :: "json \<Rightarrow> json_step list \<Rightarrow> json option" where
  "json_at v [] = Some v"
| "json_at (JObj kvs) (Key k # p) = (case map_of kvs k of None \<Rightarrow> None | Some v \<Rightarrow> json_at v p)"
| "json_at (JList xs) (Item i # p) = (if i < length xs then json_at (xs ! i) p else None)"
| "json_at _ _ = None"

fun dotted :: "string \<Rightarrow> json_step list \<Rightarrow> string" where
  "dotted path [] = path"
| "dotted path (Key k # p) = dotted (sub_path path k) p"
| "dotted path (Item i # p) = dotted path p"

fun is_leaf :: "json \<Rightarrow> bool" where
  "is_leaf (JObj kvs) = False"
| "is_leaf (JList xs) = False"
| "is_leaf v = True"

definition leaf_at :: "json \<Rightarrow> json_step list \<Rightarrow> json option" where
  "leaf_at v p = (case json_at v p of Some x \<Rightarrow> if is_leaf x then Some x else None | None \<Rightarrow> None)"

lemma leaf_at_Nil: "leaf_at (redact_walk known path v) [] =
    map_option (\<lambda>x. if leaf_sensitive known path then redact_value x else x) (leaf_at v [])"
  by (cases v) (auto simp: leaf_at_def)

lemma map_of_walk: "map_of (map (\<lambda>(k, v). (k, f k v)) kvs) k = map_option (f k) (map_of kvs k)"
  by (induction kvs) auto

lemma leaf_at_Key: "leaf_at (JObj kvs) (Key k # p) = Option.bind (map_of kvs k) (\<lambda>x. leaf_at x p)"
  by (simp add: leaf_at_def split: option.split)

lemma leaf_at_Item: "leaf_at (JList xs) (Item i # p) = (if i < length xs then leaf_at (xs ! i) p else None)"
  by (simp add: leaf_at_def)

lemma redact_walk_leaf:
  "leaf_at (redact_walk known path v) p =
     map_option (\<lambda>x. if leaf_sensitive known (dotted path p) then redact_value x else x) (leaf_at v p)"
proof (induction p arbitrary: path v)
  case Nil
  show ?case by (simp add: leaf_at_Nil)
next
  case (Cons s p)
  show ?case
  proof (cases s)
    case (Key k)
    show ?thesis
    proof (cases v)
      case (JObj kvs)
      show ?thesis by (cases "map_of kvs k") (simp_all add: JObj Key leaf_at_Key map_of_walk Cons.IH)
    qed (auto simp: Key leaf_at_def split: json.splits)
  next
    case (Item i)
    show ?thesis
    proof (cases v)
      case (JList xs)
      show ?thesis by (simp add: JList Item leaf_at_Item Cons.IH)
    qed (auto simp: Item leaf_at_def split: json.splits)
  qed
qed


text \<open>
  A credential that is stored as a dict is exported in the clear: the path of the setting is known
  to be sensitive, but it is the path of no leaf, and the keys inside say nothing.
\<close>

theorem dict_of_credentials_is_exported:
  "let st = example_config\<lparr>cs_db := Some [(''crew'', JObj [(''logins'', JObj [(''prod'', JStr ''hunter2'')])])],
              cs_registry := [\<lparr>pc_env_name = ''CREW_API_KEYS'', pc_config_path = ''crew.logins'', pc_env_value = JNull,
                 pc_config_value = JNull, pc_value = JNull\<rparr>]\<rparr>
   in ''crew.logins'' \<in> set (sensitive_config_paths st) \<and>
      leaf_at (export_config [] st) [Key ''crew'', Key ''logins'', Key ''prod''] = Some (JStr ''hunter2'')"
  by code_simp

end
