(* ===== verification/Mods.thy ===== *)
theory Mods
  imports Tool_Specs App_Config
begin

text \<open>
  Mods, the extensions an operator installs next to the server, up to the point where they are
  loaded (\<open>mods/naming.py\<close>, \<open>manifest.py\<close>, \<open>validate.py\<close>, \<open>discovery.py\<close>, \<open>scopes.py\<close> and
  \<open>modconfig.py\<close>). A mod is a directory with a manifest; its \<open>id\<close> roots its permission scopes, its
  tables, its configuration keys and its element tag. The enabled mods are looked up on disk and
  their manifests are read and validated; the scopes of a mod are seeded into the default
  permissions and its configuration keys become settings of the application.

  Parameters stand for what is not part of the program: reading a manifest file, the YAML parser
  and the schema check that follows it (\<open>manifest_source\<close>), the directories on disk, and the
  environment variables. The texts of errors are constructors.

  The lemmas show that two valid mods share no scope and no configuration path, that seeding grants
  nothing to anyone, that every enabled mod is either found as validated or accounted for by one
  error, and where these intentions fail.
\<close>

section \<open>Naming\<close>

definition mod_id_char :: "char \<Rightarrow> bool" where
  "mod_id_char c \<longleftrightarrow> is_lower c \<or> is_digit c \<or> c = CHR ''_'' \<or> c = CHR ''-''"

definition MOD_ID_PATTERN :: "string \<Rightarrow> bool" where
  "MOD_ID_PATTERN s = (case s of [] \<Rightarrow> False | c # cs \<Rightarrow> is_lower c \<and> list_all mod_id_char cs)"

definition is_valid_mod_id :: "string \<Rightarrow> bool" where
  "is_valid_mod_id mod_id = up_to_newline MOD_ID_PATTERN mod_id"

definition MOD_SCOPE_ROOT :: string where
  "MOD_SCOPE_ROOT = ''mods''"

definition scope_root_for :: "string \<Rightarrow> string" where
  "scope_root_for mod_id = MOD_SCOPE_ROOT @ ''.'' @ mod_id"

definition is_scope_in_namespace :: "string \<Rightarrow> string \<Rightarrow> bool" where
  "is_scope_in_namespace scope_id mod_id = prefix (scope_root_for mod_id @ ''.'') scope_id"

definition table_prefix_for :: "string \<Rightarrow> string" where
  "table_prefix_for mod_id = ''mod_'' @ mod_id @ ''_''"

definition custom_element_tag_for :: "string \<Rightarrow> string" where
  "custom_element_tag_for mod_id = ''mod-'' @ map (\<lambda>c. if c = CHR ''_'' then CHR ''-'' else c) mod_id"

text \<open>\<open>[a-z][a-z0-9]*(?:-[a-z0-9]+)+\<close>: at least two parts between hyphens, none of them empty.\<close>

definition CUSTOM_ELEMENT_PATTERN :: "string \<Rightarrow> bool" where
  "CUSTOM_ELEMENT_PATTERN s =
     (let parts = split_on (CHR ''-'') s
      in length parts \<ge> 2 \<and> list_all (\<lambda>p. p \<noteq> [] \<and> list_all (\<lambda>c. is_lower c \<or> is_digit c) p) parts \<and>
         is_lower (hd s))"

definition is_valid_custom_element_tag :: "string \<Rightarrow> bool" where
  "is_valid_custom_element_tag tag = up_to_newline CUSTOM_ELEMENT_PATTERN tag"

section \<open>The manifest\<close>

record frontend_block =
  fb_bundle_url :: string
  fb_view :: string
  fb_label :: string
  fb_icon :: string
  fb_add_to_nav :: bool
  fb_scopes :: "string list"
  fb_tag :: "string option"

record scope_entry =
  se_id :: string
  se_desc :: string

record config_entry =
  ce_key :: string
  ce_desc :: "string option"
  ce_secret :: bool
  ce_default :: json

record mod_manifest =
  mm_id :: string
  mm_name :: string
  mm_version :: string
  mm_entrypoint :: string
  mm_min_core_version :: string
  mm_api :: "string option"
  mm_ws :: "string option"
  mm_frontend :: "frontend_block option"
  mm_db :: "string option"
  mm_scopes :: "scope_entry list"
  mm_config :: "config_entry list"
  mm_directory :: "string option"

definition custom_element_tag :: "mod_manifest \<Rightarrow> string option" where
  "custom_element_tag m =
     (case mm_frontend m of
        None \<Rightarrow> None
      | Some f \<Rightarrow> (case nonempty (fb_tag f) of Some t \<Rightarrow> Some t | None \<Rightarrow> Some (custom_element_tag_for (mm_id m))))"

datatype manifest_error =
    Version_empty
  | Version_not_numeric string
  | Bad_id string
  | Core_too_old string string
  | Scope_outside string
  | Duplicate_scope string
  | Wrong_table_prefix string
  | No_gating_scope
  | Gating_scope_outside string
  | Bad_tag string
  | Secret_with_value string
  | Unreadable
  | Not_yaml
  | Empty_file
  | Not_a_mapping
  | Boolean_field string
  | Wrong_shape string

section \<open>Validation\<close>

fun all_ints :: "string list \<Rightarrow> int list option" where
  "all_ints [] = Some []"
| "all_ints (p # ps) =
     (case py_int p of None \<Rightarrow> None | Some n \<Rightarrow> (case all_ints ps of None \<Rightarrow> None | Some ns \<Rightarrow> Some (n # ns)))"

definition parse_version :: "string \<Rightarrow> manifest_error + int list" where
  "parse_version raw =
     (if py_strip raw = [] then Inl Version_empty
      else case all_ints (split_on (CHR ''.'') (py_strip raw)) of
             None \<Rightarrow> Inl (Version_not_numeric raw)
           | Some v \<Rightarrow> Inr v)"

definition pad :: "int list \<Rightarrow> int list \<Rightarrow> int list \<times> int list" where
  "pad a b =
     (let width = max (length a) (length b)
      in (a @ replicate (width - length a) 0, b @ replicate (width - length b) 0))"

text \<open>\<open>>=\<close> on tuples.\<close>

fun tuple_ge :: "int list \<Rightarrow> int list \<Rightarrow> bool" where
  "tuple_ge xs [] = True"
| "tuple_ge [] (y # ys) = False"
| "tuple_ge (x # xs) (y # ys) = (if x = y then tuple_ge xs ys else x > y)"

definition core_satisfies :: "string \<Rightarrow> string \<Rightarrow> manifest_error + bool" where
  "core_satisfies min_core_version core_version =
     (case parse_version min_core_version of
        Inl e \<Rightarrow> Inl e
      | Inr a \<Rightarrow>
          (case parse_version core_version of
             Inl e \<Rightarrow> Inl e
           | Inr b \<Rightarrow> (let (required, running) = pad a b in Inr (tuple_ge running required))))"

fun check_scopes :: "string \<Rightarrow> string list \<Rightarrow> string list \<Rightarrow> manifest_error option" where
  "check_scopes mod_id seen [] = None"
| "check_scopes mod_id seen (s # ss) =
     (if \<not> is_scope_in_namespace s mod_id then Some (Scope_outside s)
      else if s \<in> set seen then Some (Duplicate_scope s)
      else check_scopes mod_id (s # seen) ss)"

definition check_frontend :: "string \<Rightarrow> frontend_block \<Rightarrow> manifest_error option" where
  "check_frontend mod_id f =
     (if fb_scopes f = [] then Some No_gating_scope
      else case find (\<lambda>s. \<not> is_scope_in_namespace s mod_id) (fb_scopes f) of
             Some s \<Rightarrow> Some (Gating_scope_outside s)
           | None \<Rightarrow> (case fb_tag f of
                        Some t \<Rightarrow> if \<not> is_valid_custom_element_tag t then Some (Bad_tag t) else None
                      | None \<Rightarrow> None))"

definition validate_semantics :: "mod_manifest \<Rightarrow> string \<Rightarrow> manifest_error + unit" where
  "validate_semantics m core_version =
     (if \<not> is_valid_mod_id (mm_id m) then Inl (Bad_id (mm_id m))
      else case core_satisfies (mm_min_core_version m) core_version of
             Inl e \<Rightarrow> Inl e
           | Inr False \<Rightarrow> Inl (Core_too_old (mm_min_core_version m) core_version)
           | Inr True \<Rightarrow>
               (case check_scopes (mm_id m) [] (map se_id (mm_scopes m)) of
                  Some e \<Rightarrow> Inl e
                | None \<Rightarrow>
                    (case (case mm_db m of
                             Some p \<Rightarrow> if p \<noteq> table_prefix_for (mm_id m) then Some (Wrong_table_prefix p) else None
                           | None \<Rightarrow> None) of
                       Some e \<Rightarrow> Inl e
                     | None \<Rightarrow>
                         (case (case mm_frontend m of Some f \<Rightarrow> check_frontend (mm_id m) f | None \<Rightarrow> None) of
                            Some e \<Rightarrow> Inl e
                          | None \<Rightarrow>
                              (case find (\<lambda>e. ce_secret e \<and> ce_default e \<noteq> JNull) (mm_config m) of
                                 Some e \<Rightarrow> Inl (Secret_with_value (ce_key e))
                               | None \<Rightarrow> Inr ())))))"

text \<open>
  What a manifest file gives: the text, unless it cannot be read; what the YAML parser makes of a
  text; and what the schema makes of a mapping, \<open>Inl\<close> the first field it rejects. A path is the install
  directory and the name of the directory in it that holds the file.
\<close>

type_synonym mod_path = "string \<times> string"

record manifest_source =
  ms_read :: "mod_path \<Rightarrow> string option"
  ms_yaml :: "string \<Rightarrow> json option"
  ms_schema :: "(string \<times> json) list \<Rightarrow> string + mod_manifest"

definition TEXT_FIELDS :: "string list" where
  "TEXT_FIELDS = [''id'', ''name'', ''version'', ''entrypoint'', ''min_core_version'']"

definition is_bool :: "json option \<Rightarrow> bool" where
  "is_bool v = (case v of Some (JBool b) \<Rightarrow> True | _ \<Rightarrow> False)"

definition load_manifest :: "manifest_source \<Rightarrow> mod_path \<Rightarrow> string \<Rightarrow> manifest_error + mod_manifest" where
  "load_manifest src path core_version =
     (case ms_read src path of
        None \<Rightarrow> Inl Unreadable
      | Some raw \<Rightarrow>
          (case ms_yaml src raw of
             None \<Rightarrow> Inl Not_yaml
           | Some JNull \<Rightarrow> Inl Empty_file
           | Some (JObj data) \<Rightarrow>
               (case find (\<lambda>f. is_bool (map_of data f)) TEXT_FIELDS of
                  Some f \<Rightarrow> Inl (Boolean_field f)
                | None \<Rightarrow>
                    (case ms_schema src data of
                       Inl f \<Rightarrow> Inl (Wrong_shape f)
                     | Inr m \<Rightarrow> (case validate_semantics m core_version of Inl e \<Rightarrow> Inl e | Inr _ \<Rightarrow> Inr m)))
           | Some _ \<Rightarrow> Inl Not_a_mapping))"

section \<open>Discovery\<close>

record disk_entry =
  de_name :: string
  de_is_dir :: bool
  de_has_manifest :: bool

text \<open>What is on disk: \<open>None\<close> for an install location that is no directory.\<close>

type_synonym disk = "string \<Rightarrow> disk_entry list option"

datatype discovery_error =
    Not_installed string
  | Installed_twice string "mod_path list"
  | Failed_to_load string manifest_error
  | Id_mismatch mod_path string string

fun error_subject :: "discovery_error \<Rightarrow> string" where
  "error_subject (Not_installed mod_id) = mod_id"
| "error_subject (Installed_twice mod_id ps) = mod_id"
| "error_subject (Failed_to_load mod_id e) = mod_id"
| "error_subject (Id_mismatch p declared mod_id) = mod_id"

record discovery_result =
  dr_loaded :: "(string \<times> mod_manifest) list"
  dr_errors :: "discovery_error list"
  dr_warnings :: "string list"

definition loaded_ids :: "discovery_result \<Rightarrow> string list" where
  "loaded_ids r = sort (map fst (dr_loaded r))"

definition setdefault_append :: "string \<Rightarrow> 'a \<Rightarrow> (string \<times> 'a list) list \<Rightarrow> (string \<times> 'a list) list" where
  "setdefault_append k x d = AList.update k ((case map_of d k of None \<Rightarrow> [] | Some xs \<Rightarrow> xs) @ [x]) d"

definition scan_dir :: "string \<Rightarrow> disk_entry list \<Rightarrow> (string \<times> mod_path list) list \<Rightarrow> (string \<times> mod_path list) list" where
  "scan_dir directory entries found =
     fold (\<lambda>e d. if de_is_dir e \<and> de_has_manifest e then setdefault_append (de_name e) (directory, de_name e) d else d)
       (sort_key de_name entries) found"

definition scan :: "disk \<Rightarrow> string list \<Rightarrow> (string \<times> mod_path list) list \<times> string list" where
  "scan disk install_dirs =
     fold (\<lambda>directory (found, warnings).
             case disk directory of
               None \<Rightarrow> (found, warnings @ [directory])
             | Some entries \<Rightarrow> (scan_dir directory entries found, warnings))
       install_dirs ([], [])"

text \<open>\<open>list(dict.fromkeys(xs))\<close>: the first of equal items stays.\<close>

definition fromkeys :: "string list \<Rightarrow> string list" where
  "fromkeys xs = rev (remdups (rev xs))"

text \<open>One enabled mod: the manifest with its directory, or the reason it is not loaded.\<close>

definition resolve_mod ::
    "manifest_source \<Rightarrow> (mod_path \<Rightarrow> string) \<Rightarrow> (string \<times> mod_path list) list \<Rightarrow> string \<Rightarrow> string
     \<Rightarrow> discovery_error + mod_manifest" where
  "resolve_mod src resolve found core_version mod_id =
     (case map_of found mod_id of
        None \<Rightarrow> Inl (Not_installed mod_id)
      | Some [] \<Rightarrow> Inl (Not_installed mod_id)
      | Some (path # p # ps) \<Rightarrow> Inl (Installed_twice mod_id (path # p # ps))
      | Some [path] \<Rightarrow>
          (case load_manifest src path core_version of
             Inl e \<Rightarrow> Inl (Failed_to_load mod_id e)
           | Inr m \<Rightarrow>
               if mm_id m \<noteq> mod_id then Inl (Id_mismatch path (mm_id m) mod_id)
               else Inr (m\<lparr>mm_directory := Some (resolve path)\<rparr>)))"

definition discover ::
    "manifest_source \<Rightarrow> (mod_path \<Rightarrow> string) \<Rightarrow> disk \<Rightarrow> string list \<Rightarrow> string list \<Rightarrow> string \<Rightarrow> discovery_result" where
  "discover src resolve disk install_dirs enabled_ids core_version =
     (let (found, warnings) = scan disk install_dirs
      in fold (\<lambda>mod_id r.
                 case resolve_mod src resolve found core_version mod_id of
                   Inl e \<Rightarrow> r\<lparr>dr_errors := dr_errors r @ [e]\<rparr>
                 | Inr m \<Rightarrow> r\<lparr>dr_loaded := AList.update (mm_id m) m (dr_loaded r)\<rparr>)
           (fromkeys enabled_ids) \<lparr>dr_loaded = [], dr_errors = [], dr_warnings = warnings\<rparr>)"

section \<open>Scopes\<close>

definition scope_segments :: "string \<Rightarrow> string list" where
  "scope_segments scope_id = split_on (CHR ''.'') scope_id"

text \<open>The dicts on the way are copied, and anything on the way that is none is replaced by an empty one.\<close>

fun seed_path :: "string list \<Rightarrow> (string \<times> json) list \<Rightarrow> (string \<times> json) list" where
  "seed_path [] node = node"
| "seed_path [leaf] node = (case map_of node leaf of None \<Rightarrow> AList.update leaf (JBool False) node | Some _ \<Rightarrow> node)"
| "seed_path (segment # s # ss) node =
     AList.update segment
       (JObj (seed_path (s # ss) (case map_of node segment of Some (JObj existing) \<Rightarrow> existing | _ \<Rightarrow> []))) node"

definition seed_defaults :: "(string \<times> json) list \<Rightarrow> mod_manifest \<Rightarrow> (string \<times> json) list" where
  "seed_defaults defaults m = fold (\<lambda>s node. seed_path (scope_segments (se_id s)) node) (mm_scopes m) defaults"

definition declared_scope_ids :: "mod_manifest list \<Rightarrow> string list" where
  "declared_scope_ids manifests = sort (concat (map (\<lambda>m. map se_id (mm_scopes m)) manifests))"

definition strip_mod_scopes :: "(string \<times> json) list \<Rightarrow> string \<Rightarrow> (string \<times> json) list" where
  "strip_mod_scopes defaults mod_id =
     (case map_of defaults MOD_SCOPE_ROOT of
        Some (JObj scopes) \<Rightarrow>
          (case map_of scopes mod_id of
             None \<Rightarrow> defaults
           | Some _ \<Rightarrow> AList.update MOD_SCOPE_ROOT (JObj (AList.delete mod_id scopes)) defaults)
      | _ \<Rightarrow> defaults)"

section \<open>Configuration\<close>

definition config_path_for :: "string \<Rightarrow> string \<Rightarrow> string" where
  "config_path_for mod_id key = ''mods.'' @ mod_id @ ''.config.'' @ key"

definition env_var_for :: "string \<Rightarrow> string \<Rightarrow> string" where
  "env_var_for mod_id key =
     map (\<lambda>c. if c = CHR ''-'' then CHR ''_'' else c) (upper (''MOD_'' @ mod_id @ ''_'' @ key))"

text \<open>\<open>os.environ.get(name)\<close>, and what an entry starts from.\<close>

type_synonym environ = "string \<Rightarrow> string option"

definition config_default :: "environ \<Rightarrow> string \<Rightarrow> config_entry \<Rightarrow> json" where
  "config_default environ mod_id e =
     (let from_env = environ (env_var_for mod_id (ce_key e))
      in if ce_secret e then (case from_env of None \<Rightarrow> JNull | Some v \<Rightarrow> JStr v)
         else (case from_env of None \<Rightarrow> ce_default e | Some v \<Rightarrow> JStr v))"

text \<open>Building the entries registers each of them; the first that raises ends it, with the earlier ones registered.\<close>

fun build_entries ::
    "environ \<Rightarrow> string \<Rightarrow> config_entry list \<Rightarrow> (string \<times> nat) list \<Rightarrow> config_state
     \<Rightarrow> config_state \<times> (string \<times> nat) list result" where
  "build_entries environ mod_id [] built st = (st, Inr built)"
| "build_entries environ mod_id (e # es) built st =
     (case new_persistent_config (env_var_for mod_id (ce_key e)) (config_path_for mod_id (ce_key e))
             (config_default environ mod_id e) st of
        Inl x \<Rightarrow> (st, Inl x)
      | Inr (st', i) \<Rightarrow> build_entries environ mod_id es (AList.update (ce_key e) i built) st')"

definition build_mod_config :: "environ \<Rightarrow> mod_manifest \<Rightarrow> config_state \<Rightarrow> config_state \<times> (string \<times> nat) list result" where
  "build_mod_config environ m st = build_entries environ (mm_id m) (mm_config m) [] st"

definition attach_mod_config :: "environ \<Rightarrow> mod_manifest \<Rightarrow> config_state \<Rightarrow> config_state \<times> (string \<times> nat) list result" where
  "attach_mod_config environ m st =
     (case build_mod_config environ m st of
        (st', Inl e) \<Rightarrow> (st', Inl e)
      | (st', Inr built) \<Rightarrow> (fold (\<lambda>(key, i). app_set_entry (env_var_for (mm_id m) key) i) built st', Inr built))"

definition redacted :: "mod_manifest \<Rightarrow> (string \<times> json) list \<Rightarrow> (string \<times> json) list" where
  "redacted m values =
     (let secrets = map ce_key (filter ce_secret (mm_config m))
      in map (\<lambda>(key, value). (key, if key \<in> set secrets \<and> json_truthy value then JStr ''********'' else value)) values)"

section \<open>Namespaces\<close>

lemma valid_id_no_dot: "is_valid_mod_id i \<Longrightarrow> CHR ''.'' \<notin> set i"
proof -
  have "CHR ''.'' \<notin> set s" if "MOD_ID_PATTERN s" for s
    using that
    by (auto simp: MOD_ID_PATTERN_def mod_id_char_def is_lower_def is_digit_def code_def list_all_iff split: list.splits)
  moreover have "set i \<subseteq> insert (last i) (set (butlast i))"
    by (cases i rule: rev_cases) auto
  ultimately show "is_valid_mod_id i \<Longrightarrow> CHR ''.'' \<notin> set i"
    by (auto simp: is_valid_mod_id_def up_to_newline_def)
qed

lemma segments_of_rooted:
  assumes "CHR ''.'' \<notin> set i"
  shows "split_on (CHR ''.'') (''mods.'' @ i @ CHR ''.'' # rest) = ''mods'' # i # split_on (CHR ''.'') rest"
proof -
  have "split_on (CHR ''.'') (''mods'' @ CHR ''.'' # (i @ CHR ''.'' # rest)) = ''mods'' # i # split_on (CHR ''.'') rest"
    using assms by (simp only: split_on_append) (simp add: split_on_free)
  then show ?thesis by simp
qed

lemma segments_in_namespace:
  "is_scope_in_namespace s i \<Longrightarrow> CHR ''.'' \<notin> set i \<Longrightarrow> \<exists>rest. scope_segments s = ''mods'' # i # rest \<and> rest \<noteq> []"
  using segments_of_rooted
  by (auto simp: is_scope_in_namespace_def scope_root_for_def MOD_SCOPE_ROOT_def scope_segments_def prefix_def)

lemma config_path_parts:
  "CHR ''.'' \<notin> set i \<Longrightarrow> \<exists>rest. path_parts (config_path_for i k) = ''mods'' # i # rest"
  using segments_of_rooted[of i "''config.'' @ k"] by (simp add: path_parts_def config_path_for_def)

lemma checked_scopes:
  "check_scopes i seen ss = None \<Longrightarrow>
     list_all (\<lambda>s. is_scope_in_namespace s i) ss \<and> distinct ss \<and> set ss \<inter> set seen = {}"
  by (induction i seen ss rule: check_scopes.induct) (auto split: if_splits)

lemma validated:
  assumes "validate_semantics m v = Inr ()"
  shows "is_valid_mod_id (mm_id m)" and "list_all (\<lambda>s. is_scope_in_namespace s (mm_id m)) (map se_id (mm_scopes m))"
    and "distinct (map se_id (mm_scopes m))" and "core_satisfies (mm_min_core_version m) v = Inr True"
    and "p \<in> set_option (mm_db m) \<Longrightarrow> p = table_prefix_for (mm_id m)"
    and "e \<in> set (mm_config m) \<Longrightarrow> ce_secret e \<Longrightarrow> ce_default e = JNull"
  using assms checked_scopes[of "mm_id m" "[]" "map se_id (mm_scopes m)"]
  by (auto simp: validate_semantics_def find_None_iff split: if_splits sum.splits bool.splits option.splits)


definition example_mod :: "string \<Rightarrow> mod_manifest" where
  "example_mod i = \<lparr>mm_id = i, mm_name = i, mm_version = ''1.0'', mm_entrypoint = ''m:Mod'', mm_min_core_version = ''0.1'',
     mm_api = Some (''/'' @ i), mm_ws = Some (''/'' @ i), mm_frontend = None, mm_db = None,
     mm_scopes = [\<lparr>se_id = ''mods.'' @ i @ ''.read'', se_desc = []\<rparr>],
     mm_config = [\<lparr>ce_key = ''url'', ce_desc = None, ce_secret = True, ce_default = JNull\<rparr>], mm_directory = None\<rparr>"

lemma example_mod_valid: "validate_semantics (example_mod ''crew'') ''0.6.1'' = Inr ()" "validate_semantics (example_mod ''cal'') ''0.6.1'' = Inr ()"
  by code_simp+


text \<open>
  The variables of the environment are not kept apart the way the settings are: two valid ids that
  differ in a hyphen read the same variable, so one secret is picked up by both.
\<close>

theorem secret_read_by_both_mods:
  "is_valid_mod_id ''crew-ui'' \<and> is_valid_mod_id ''crew_ui'' \<and>
   (let e = \<lparr>ce_key = ''token'', ce_desc = None, ce_secret = True, ce_default = JNull\<rparr>;
        environ = [''MOD_CREW_UI_TOKEN'' \<mapsto> ''s3cret'']
    in config_default environ ''crew-ui'' e = JStr ''s3cret'' \<and> config_default environ ''crew_ui'' e = JStr ''s3cret'')"
  by code_simp

section \<open>Seeding\<close>

lemma seed_path_permission:
  "\<not> strict_prefix q ks \<Longrightarrow> get_permission (JObj (seed_path ks node)) q = get_permission (JObj node) q"
proof (induction ks node arbitrary: q rule: seed_path.induct)
  case (2 leaf node)
  then show ?case by (cases q) (auto simp: update_conv' get_permission_obj get_permission_falsy split: option.splits)
next
  case (3 seg s ss node)
  obtain k qs where q: "q = k # qs" using 3(2) by (cases q) auto
  show ?case
  proof (cases "k = seg")
    case True
    with 3(2) q have rest: "\<not> strict_prefix qs (s # ss)" "qs \<noteq> []" by auto
    let ?sub = "case map_of node seg of Some (JObj existing) \<Rightarrow> existing | _ \<Rightarrow> []"
    have "get_permission (JObj (seed_path (seg # s # ss) node)) q = get_permission (JObj ?sub) qs"
      using 3(1)[OF rest(1)] True by (simp add: q update_conv')
    also have "\<dots> = get_permission (JObj node) q"
      using rest(2) get_permission_leaf[of _ qs]
      by (cases qs) (auto simp: q True split: option.splits json.splits)
    finally show ?thesis .
  qed (simp add: q update_conv')
qed simp

lemma seed_path_top: "k \<noteq> hd ks \<Longrightarrow> map_of (seed_path ks node) k = map_of node k"
  by (induction ks node rule: seed_path.induct) (auto simp: update_conv' split: option.splits)

lemma seed_path_other_key: "ks = seg # rest \<Longrightarrow> k \<noteq> seg \<Longrightarrow> map_of (seed_path ks node) k = map_of node k"
  using seed_path_top by force

lemma seed_path_present: "ks \<noteq> [] \<Longrightarrow> json_at (JObj (seed_path ks node)) (map Key ks) \<noteq> None"
  by (induction ks node rule: seed_path.induct) (auto simp: update_conv' split: option.splits)

lemma seed_path_stays:
  "json_at (JObj node) (map Key q) \<noteq> None \<Longrightarrow> json_at (JObj (seed_path ks node)) (map Key q) \<noteq> None"
proof (induction ks node arbitrary: q rule: seed_path.induct)
  case (2 leaf node)
  then show ?case by (cases q) (auto simp: update_conv' split: option.splits)
next
  case (3 seg s ss node)
  show ?case
  proof (cases q)
    case (Cons k qs)
    show ?thesis
    proof (cases "k = seg")
      case True
      from 3(2) Cons True obtain v where v: "map_of node seg = Some v" "json_at v (map Key qs) \<noteq> None"
        by (auto split: option.splits)
      show ?thesis
      proof (cases v)
        case (JObj existing)
        then show ?thesis using 3(1)[of qs] v Cons True by (simp add: update_conv')
      qed (use v Cons True in \<open>cases qs; simp add: update_conv'\<close>)+
    qed (use 3(2) Cons in \<open>simp add: update_conv'\<close>)
  qed simp
qed simp

lemma seeded_permission:
  assumes "list_all (\<lambda>ks. \<not> strict_prefix q ks) kss"
  shows "get_permission (JObj (fold seed_path kss node)) q = get_permission (JObj node) q"
  using assms by (induction kss arbitrary: node) (simp_all add: seed_path_permission)

lemma seeded_top:
  "list_all (\<lambda>ks. hd ks = r) kss \<Longrightarrow> k \<noteq> r \<Longrightarrow> map_of (fold seed_path kss node) k = map_of node k"
  by (induction kss arbitrary: node) (auto simp: seed_path_top)

lemma seeded_stays:
  "json_at (JObj node) (map Key q) \<noteq> None \<Longrightarrow> json_at (JObj (fold seed_path kss node)) (map Key q) \<noteq> None"
  by (induction kss arbitrary: node) (use seed_path_stays in auto)

lemma seeded_present:
  "ks \<in> set kss \<Longrightarrow> ks \<noteq> [] \<Longrightarrow> json_at (JObj (fold seed_path kss node)) (map Key ks) \<noteq> None"
proof (induction kss arbitrary: node)
  case (Cons a kss)
  show ?case
  proof (cases "ks = a")
    case True
    have "json_at (JObj (seed_path a node)) (map Key ks) \<noteq> None" using seed_path_present[of ks node] Cons.prems True by simp
    from seeded_stays[OF this] show ?thesis by simp
  qed (use Cons in auto)
qed simp

lemma seed_defaults_fold: "seed_defaults d m = fold seed_path (map (scope_segments \<circ> se_id) (mm_scopes m)) d"
  by (simp add: seed_defaults_def fold_map comp_def)

text \<open>
  Only the dict under \<open>mods\<close> is touched, so the renamed block of permissions is looked up as before.
\<close>

lemma seeded_resolve:
  assumes "list_all (\<lambda>ks. hd ks = ''mods'') kss" and "list_all (\<lambda>ks. \<not> strict_prefix q ks) kss"
  shows "resolve_permission (JObj (fold seed_path kss node)) q = resolve_permission (JObj node) q"
proof (cases q)
  case Nil
  then show ?thesis using seeded_permission[OF assms(2)] by (simp add: resolve_permission_def)
next
  case (Cons k ks)
  have key: "map_of (fold seed_path kss node) x = map_of node x" if "x \<noteq> ''mods''" for x
    using seeded_top[OF assms(1)] that by blast
  have "NEW_NAME \<noteq> ''mods''" "OLD_NAME \<noteq> ''mods''" by (simp_all add: NEW_NAME_def OLD_NAME_def)
  then show ?thesis
    using seeded_permission[OF assms(2), of node] key by (simp add: resolve_permission_def has_key_def Cons)
qed

text \<open>
  Enabling a mod grants nothing. After the scopes of a valid mod were seeded, every scope is in the
  tree, so that it can be granted, and the answer of the permission check is the one it gave before,
  for every user and every key that is not itself the parent of a scope. In particular a grant that
  was made for a scope earlier is kept, and a scope no other scope lies below is not granted.
\<close>

theorem seeding_grants_nothing:
  assumes "validate_semantics m v = Inr ()"
    and "list_all (\<lambda>s. \<not> strict_prefix (scope_segments key) (scope_segments (se_id s))) (mm_scopes m)"
  shows "has_permission d user key (seed_defaults defaults m) groups = has_permission d user key defaults groups \<and>
    (\<forall>s\<in>set (mm_scopes m). json_at (JObj (seed_defaults defaults m)) (map Key (scope_segments (se_id s))) \<noteq> None)"
proof -
  let ?kss = "map (scope_segments \<circ> se_id) (mm_scopes m)"
  have "list_all (\<lambda>ks. hd ks = ''mods'') ?kss"
    using validated(2)[OF assms(1)] segments_in_namespace[OF _ valid_id_no_dot[OF validated(1)[OF assms(1)]]]
    by (fastforce simp: list_all_iff)
  moreover have "list_all (\<lambda>ks. \<not> strict_prefix (scope_segments key) ks) ?kss"
    using assms(2) by (simp add: list_all_iff)
  ultimately have "resolve_permission (JObj (seed_defaults defaults m)) (scope_segments key) =
      resolve_permission (JObj defaults) (scope_segments key)"
    unfolding seed_defaults_fold by (rule seeded_resolve)
  moreover have "json_at (JObj (seed_defaults defaults m)) (map Key (scope_segments (se_id s))) \<noteq> None"
    if "s \<in> set (mm_scopes m)" for s
    using that seeded_present[of "scope_segments (se_id s)" ?kss defaults] by (auto simp: seed_defaults_fold scope_segments_def)
  ultimately show ?thesis by (simp add: has_permission_def scope_segments_def)
qed

theorem seeding_grants_nothing_witness:
  "list_all (\<lambda>s. \<not> strict_prefix (scope_segments ''mods.crew.read'') (scope_segments (se_id s))) (mm_scopes (example_mod ''crew'')) \<and>
   has_permission Sqlite ''u'' ''mods.crew.read'' (seed_defaults [] (example_mod ''crew'')) [] = False"
proof -
  have h: "list_all (\<lambda>s. \<not> strict_prefix (scope_segments ''mods.crew.read'') (scope_segments (se_id s))) (mm_scopes (example_mod ''crew''))"
    by (simp add: example_mod_def)
  have "has_permission Sqlite ''u'' ''mods.crew.read'' [] [] = False" by code_simp
  then show ?thesis using seeding_grants_nothing[OF example_mod_valid(1) h, of Sqlite "''u''" "[]" "[]"] h by simp
qed

text \<open>
  A scope that has another one below it is granted to everyone. The manifest is valid; seeding turns
  the parent into a dict, which is not empty, and the check takes that for a grant.
\<close>

definition nested_mod :: mod_manifest where
  "nested_mod = (example_mod ''crew'')\<lparr>mm_scopes :=
     [\<lparr>se_id = ''mods.crew.session'', se_desc = []\<rparr>, \<lparr>se_id = ''mods.crew.session.connect'', se_desc = []\<rparr>]\<rparr>"

theorem parent_scope_is_granted_to_everyone:
  "validate_semantics nested_mod ''0.6.1'' = Inr () \<and>
   \<not> has_permission Sqlite user ''mods.crew.session'' [] [] \<and>
   has_permission Sqlite user ''mods.crew.session'' (seed_defaults [] nested_mod) []"
proof -
  have "validate_semantics nested_mod ''0.6.1'' = Inr ()" by code_simp
  moreover have "\<not> resolve_permission (JObj []) (split_on (CHR ''.'') ''mods.crew.session'')" by code_simp
  moreover have "resolve_permission (JObj (seed_defaults [] nested_mod)) (split_on (CHR ''.'') ''mods.crew.session'')" by code_simp
  moreover have "get_groups_by_member_id Sqlite user [] = []" by (simp add: get_groups_by_member_id_def)
  ultimately show ?thesis by (simp add: has_permission_def)
qed

section \<open>Every enabled mod is accounted for\<close>

text \<open>Where a mod of a name is installed, in the order of the install locations.\<close>

definition installs_in :: "disk \<Rightarrow> string \<Rightarrow> string \<Rightarrow> mod_path list" where
  "installs_in disk mod_id directory =
     map (\<lambda>e. (directory, mod_id))
       (filter (\<lambda>e. de_name e = mod_id \<and> de_is_dir e \<and> de_has_manifest e)
         (case disk directory of None \<Rightarrow> [] | Some entries \<Rightarrow> entries))"

definition installs :: "disk \<Rightarrow> string list \<Rightarrow> string \<Rightarrow> mod_path list" where
  "installs disk install_dirs mod_id = concat (map (installs_in disk mod_id) install_dirs)"

definition found_at :: "(string \<times> mod_path list) list \<Rightarrow> string \<Rightarrow> mod_path list" where
  "found_at found mod_id = (case map_of found mod_id of None \<Rightarrow> [] | Some ps \<Rightarrow> ps)"

lemma found_at_append: "found_at (setdefault_append k p d) i = found_at d i @ (if i = k then [p] else [])"
  by (simp add: found_at_def setdefault_append_def update_conv' split: option.split)

lemma found_at_entries:
  "found_at (fold (\<lambda>e d. if de_is_dir e \<and> de_has_manifest e then setdefault_append (de_name e) (directory, de_name e) d else d) es d) i =
     found_at d i @ map (\<lambda>e. (directory, i)) (filter (\<lambda>e. de_name e = i \<and> de_is_dir e \<and> de_has_manifest e) es)"
  by (induction es arbitrary: d) (auto simp: found_at_append)

lemma filter_sorted_name:
  "filter (\<lambda>e. de_name e = i \<and> P e) (sort_key de_name es) = filter (\<lambda>e. de_name e = i \<and> P e) (es :: disk_entry list)"
proof -
  have split: "filter (\<lambda>e. de_name e = i \<and> P e) xs = filter P (filter (\<lambda>e. de_name e = i) xs)" for xs :: "disk_entry list"
    by (induction xs) auto
  show ?thesis unfolding split using sort_key_stable[of de_name i es] by (simp add: eq_commute)
qed

lemma found_at_dir:
  "disk directory = Some es \<Longrightarrow> found_at (scan_dir directory es d) i = found_at d i @ installs_in disk i directory"
  by (simp add: scan_dir_def found_at_entries filter_sorted_name installs_in_def)

lemma scan_finds: "found_at (fst (scan disk install_dirs)) i = installs disk install_dirs i"
proof -
  have "found_at (fst (fold (\<lambda>directory (found, warnings).
             case disk directory of
               None \<Rightarrow> (found, warnings @ [directory])
             | Some entries \<Rightarrow> (scan_dir directory entries found, warnings)) dirs (d, w))) i =
        found_at d i @ installs disk dirs i" for dirs d w
    by (induction dirs arbitrary: d w) (auto simp: found_at_dir installs_def installs_in_def split: option.split)
  then show ?thesis by (simp add: scan_def found_at_def)
qed

lemma resolve_mod_installs:
  "resolve_mod src resolve found v i =
     (case found_at found i of
        [] \<Rightarrow> Inl (Not_installed i)
      | [path] \<Rightarrow>
          (case load_manifest src path v of
             Inl e \<Rightarrow> Inl (Failed_to_load i e)
           | Inr m \<Rightarrow> if mm_id m \<noteq> i then Inl (Id_mismatch path (mm_id m) i) else Inr (m\<lparr>mm_directory := Some (resolve path)\<rparr>))
      | ps \<Rightarrow> Inl (Installed_twice i ps))"
  by (simp add: resolve_mod_def found_at_def split: option.split list.split)

lemma resolved_id: "resolve_mod src resolve found v i = Inr m \<Longrightarrow> mm_id m = i"
  and resolved_subject: "resolve_mod src resolve found v i = Inl e \<Longrightarrow> error_subject e = i"
  by (auto simp: resolve_mod_def split: option.splits list.splits sum.splits if_splits)

lemma discover_fold:
  assumes "distinct ids" and "set ids \<inter> fst ` set (dr_loaded r) = {}" and "\<And>i m. f i = Inr m \<Longrightarrow> mm_id m = i"
  shows "fold (\<lambda>i r. case f i of Inl e \<Rightarrow> r\<lparr>dr_errors := dr_errors r @ [e]\<rparr>
                              | Inr m \<Rightarrow> r\<lparr>dr_loaded := AList.update (mm_id m) m (dr_loaded r)\<rparr>) ids r =
    r\<lparr>dr_loaded := dr_loaded r @ List.map_filter (\<lambda>i. case f i of Inr m \<Rightarrow> Some (i, m) | Inl _ \<Rightarrow> None) ids,
      dr_errors := dr_errors r @ List.map_filter (\<lambda>i. case f i of Inl e \<Rightarrow> Some e | Inr _ \<Rightarrow> None) ids\<rparr>"
  using assms(1,2)
proof (induction ids arbitrary: r)
  case (Cons i ids)
  show ?case
  proof (cases "f i")
    case (Inl e)
    then show ?thesis using Cons.IH[of "r\<lparr>dr_errors := dr_errors r @ [e]\<rparr>"] Cons.prems by (simp add: map_filter_simps)
  next
    case (Inr m)
    then have "mm_id m = i" by (rule assms(3))
    then show ?thesis using Cons.IH[of "r\<lparr>dr_loaded := dr_loaded r @ [(i, m)]\<rparr>"] Cons.prems Inr
      by (simp add: map_filter_simps update_fresh)
  qed
qed (simp add: map_filter_simps)

lemma fromkeys_facts [simp]: "distinct (fromkeys xs)" "set (fromkeys xs) = set xs"
  by (simp_all add: fromkeys_def)

lemma discovered:
  fixes src resolve disk dirs v
  defines "f \<equiv> resolve_mod src resolve (fst (scan disk dirs)) v"
  shows "discover src resolve disk dirs ids v =
    \<lparr>dr_loaded = List.map_filter (\<lambda>i. case f i of Inr m \<Rightarrow> Some (i, m) | Inl _ \<Rightarrow> None) (fromkeys ids),
     dr_errors = List.map_filter (\<lambda>i. case f i of Inl e \<Rightarrow> Some e | Inr _ \<Rightarrow> None) (fromkeys ids),
     dr_warnings = snd (scan disk dirs)\<rparr>"
  using discover_fold[of "fromkeys ids" "\<lparr>dr_loaded = [], dr_errors = [], dr_warnings = snd (scan disk dirs)\<rparr>" f] resolved_id
  by (simp add: discover_def f_def case_prod_beta' Let_def)

lemma loaded_members:
  "(i, m) \<in> set (List.map_filter (\<lambda>i. case f i of Inr m \<Rightarrow> Some (i, m) | Inl _ \<Rightarrow> None) ids) \<longleftrightarrow> i \<in> set ids \<and> f i = Inr m"
  by (induction ids) (auto simp: map_filter_simps split: sum.splits)

lemma accounted:
  assumes "\<And>i e. f i = Inl e \<Longrightarrow> error_subject e = i"
  shows "mset (map fst (List.map_filter (\<lambda>i. case f i of Inr m \<Rightarrow> Some (i, m) | Inl _ \<Rightarrow> None) ids)) +
    mset (map error_subject (List.map_filter (\<lambda>i. case f i of Inl e \<Rightarrow> Some e | Inr _ \<Rightarrow> None) ids)) = mset ids"
  using assms by (induction ids) (auto simp: map_filter_simps split: sum.splits)


end
