(* ===== verification/Mod_Loader.thy ===== *)
theory Mod_Loader
  imports Mods
begin

text \<open>
  Loading mods into the running application (\<open>mods/loader.py\<close>), the order of the routes in
  \<open>main.py\<close>, the registry of mods (\<open>mods/registry.py\<close>, \<open>routers/mods.py\<close>) and the files a mod serves
  (\<open>mods/assets.py\<close>, \<open>routers/mod_assets.py\<close>, \<open>routers/mod_frontend_manifest.py\<close>).

  A mod's own code is a parameter: \<open>mod_object\<close> says for each hook whether the mod has it, what it
  returns and whether it raises; its routes are pairs of a path and a name. So are the import system, the check \<open>include_router\<close> makes of a
  prefix and its routes before it adds them, and the file system. \<open>sio.handlers\<close> is the dict the
  socket server keeps, from namespaces to the handlers of their events.

  The lemmas show that no request path belongs to two mods or to a mod and the application, that a
  mod that fails early leaves no trace, that booting grants nothing, that mod routes come before the
  catch-all page, and that what the frontend manifest points at is served; and that a mod that fails
  late stays mounted.
\<close>

section \<open>The application\<close>

datatype owner = Core | By_mod string

record route =
  rt_path :: "string option"
  rt_name :: string
  rt_owner :: owner

record lifecycle_hooks =
  lc_startup :: "bool option"
  lc_shutdown :: "bool option"

text \<open>A hook is there or not. \<open>Inl ()\<close> is a hook that raises; for a startup or shutdown hook \<open>True\<close> is.\<close>

record ws_hook =
  wh_handlers :: "(string \<times> string) list"
  wh_raises :: bool

record mod_object =
  mo_tools :: "(unit + declared_tool list) option"
  mo_routers :: "(unit + (string \<times> string) list) option"
  mo_lifecycle :: "(unit + lifecycle_hooks option) option"
  mo_ws :: "ws_hook option"

record loaded_mod =
  lm_manifest :: mod_manifest
  lm_object :: mod_object
  lm_router :: "(string \<times> string) list option"
  lm_shutdown :: "bool list"
  lm_tools :: "mod_tool list"

datatype load_error =
    Malformed_entrypoint
  | Import_failed
  | Missing_attribute
  | No_hooks
  | Tools_refused tool_error
  | Prefix_taken string string owner
  | Namespace_taken string
  | Hook_raised
  | Mount_refused

datatype mods_error =
    Not_discovered discovery_error
  | Disabled string load_error
  | Config_not_attached string py_exn

record load_result =
  lr_loaded :: "(string \<times> loaded_mod) list"
  lr_errors :: "mods_error list"

datatype mod_event = Started string | Stopped string

record app_state =
  as_routes :: "route list"
  as_sys_path :: "string list"
  as_handlers :: "(string \<times> (string \<times> owner) list) list"
  as_events :: "mod_event list"
  as_config :: "config_state option"
  as_mods :: "load_result option"

text \<open>What importing a module and reading an attribute of it gives, on a search path.\<close>

datatype attribute_outcome = No_attribute | Target_raises | Target mod_object

record load_env =
  le_import :: "string list \<Rightarrow> string \<Rightarrow> (string \<Rightarrow> attribute_outcome) option"
  le_mount_ok :: "string \<Rightarrow> string list \<Rightarrow> bool"

section \<open>Loading one mod\<close>

definition ensure_importable :: "string \<Rightarrow> app_state \<Rightarrow> app_state" where
  "ensure_importable directory app =
     (if directory \<in> set (as_sys_path app) then app else app\<lparr>as_sys_path := as_sys_path app @ [directory]\<rparr>)"

definition has_contract_hook :: "mod_object \<Rightarrow> bool" where
  "has_contract_hook obj \<longleftrightarrow> mo_routers obj \<noteq> None \<or> mo_ws obj \<noteq> None \<or> mo_tools obj \<noteq> None \<or> mo_lifecycle obj \<noteq> None"

definition resolve_entrypoint :: "load_env \<Rightarrow> mod_manifest \<Rightarrow> app_state \<Rightarrow> app_state \<times> (load_error + mod_object)" where
  "resolve_entrypoint env m app =
     (let raw = mm_entrypoint m
      in if CHR '':'' \<notin> set raw then (app, Inl Malformed_entrypoint)
         else let module_name = takeWhile (\<lambda>c. c \<noteq> CHR '':'') raw;
                  attribute = tl (dropWhile (\<lambda>c. c \<noteq> CHR '':'') raw);
                  app1 = (case mm_directory m of None \<Rightarrow> app | Some d \<Rightarrow> ensure_importable d app)
              in case le_import env (as_sys_path app1) module_name of
                   None \<Rightarrow> (app1, Inl Import_failed)
                 | Some get \<Rightarrow>
                     (case get attribute of
                        No_attribute \<Rightarrow> (app1, Inl Missing_attribute)
                      | Target_raises \<Rightarrow> (app1, Inl Hook_raised)
                      | Target obj \<Rightarrow> if has_contract_hook obj then (app1, Inr obj) else (app1, Inl No_hooks)))"

definition strip_slashes :: "string \<Rightarrow> string" where
  "strip_slashes s = rstrip_char (CHR ''/'') (dropWhile (\<lambda>c. c = CHR ''/'') s)"

definition normalise :: "string \<Rightarrow> string" where
  "normalise p = CHR ''/'' # strip_slashes p"

definition prefix_conflict :: "string \<Rightarrow> string \<Rightarrow> bool" where
  "prefix_conflict candidate existing =
     (let a = normalise candidate; b = normalise existing
      in a = b \<or> prefix (b @ ''/'') a \<or> prefix (a @ ''/'') b)"

definition core_prefix_of :: "string \<Rightarrow> string" where
  "core_prefix_of path = CHR ''/'' # hd (split_on (CHR ''/'') (strip_slashes path))"

definition core_prefixes :: "app_state \<Rightarrow> string list" where
  "core_prefixes app =
     sort (remdups (filter (\<lambda>p. p \<noteq> ''/'')
       (List.map_filter (\<lambda>r. case rt_path r of
            Some (c # cs) \<Rightarrow> if c = CHR ''/'' then Some (core_prefix_of (c # cs)) else None
          | _ \<Rightarrow> None) (as_routes app))))"

type_synonym taken_prefixes = "(string \<times> owner) list"

definition stage_tools :: "mod_object \<Rightarrow> load_error + mod_tool list" where
  "stage_tools obj =
     (case mo_tools obj of
        None \<Rightarrow> Inr []
      | Some (Inl _) \<Rightarrow> Inl Hook_raised
      | Some (Inr ts) \<Rightarrow> (case validate_mod_tools ts of Inl e \<Rightarrow> Inl (Tools_refused e) | Inr r \<Rightarrow> Inr r))"

definition stage_router :: "mod_manifest \<Rightarrow> mod_object \<Rightarrow> taken_prefixes \<Rightarrow> load_error + (string \<times> string) list option" where
  "stage_router m obj taken =
     (case mm_api m of
        None \<Rightarrow> Inr None
      | Some raw \<Rightarrow>
          (case find (\<lambda>(p, w). prefix_conflict (normalise raw) p) taken of
             Some (p, w) \<Rightarrow> Inl (Prefix_taken (normalise raw) p w)
           | None \<Rightarrow>
               (case mo_routers obj of
                  None \<Rightarrow> Inr (Some [])
                | Some (Inl _) \<Rightarrow> Inl Hook_raised
                | Some (Inr routes) \<Rightarrow> Inr (Some routes))))"

definition run_lifecycle :: "string \<Rightarrow> mod_object \<Rightarrow> app_state \<Rightarrow> app_state \<times> (load_error + bool list)" where
  "run_lifecycle mod_id obj app =
     (case mo_lifecycle obj of
        None \<Rightarrow> (app, Inr [])
      | Some (Inl _) \<Rightarrow> (app, Inl Hook_raised)
      | Some (Inr None) \<Rightarrow> (app, Inr [])
      | Some (Inr (Some hooks)) \<Rightarrow>
          (let down = (case lc_shutdown hooks of None \<Rightarrow> [] | Some r \<Rightarrow> [r])
           in case lc_startup hooks of
                None \<Rightarrow> (app, Inr down)
              | Some raises \<Rightarrow>
                  (let app1 = app\<lparr>as_events := as_events app @ [Started mod_id]\<rparr>
                   in if raises then (app1, Inl Hook_raised) else (app1, Inr down))))"

definition mount_router ::
    "load_env \<Rightarrow> mod_manifest \<Rightarrow> (string \<times> string) list option \<Rightarrow> taken_prefixes \<Rightarrow> app_state
     \<Rightarrow> app_state \<times> taken_prefixes \<times> (load_error + unit)" where
  "mount_router env m router taken app =
     (case (router, mm_api m) of
        (Some routes, Some raw) \<Rightarrow>
          (let p = normalise raw
           in if \<not> le_mount_ok env p (map fst routes) then (app, taken, Inl Mount_refused)
              else (app\<lparr>as_routes := as_routes app @
                        map (\<lambda>(path, name). \<lparr>rt_path = Some (p @ path), rt_name = name, rt_owner = By_mod (mm_id m)\<rparr>) routes\<rparr>,
                    AList.update p (By_mod (mm_id m)) taken, Inr ()))
      | _ \<Rightarrow> (app, taken, Inr ()))"

definition sio_on :: "string \<Rightarrow> string \<Rightarrow> owner \<Rightarrow> (string \<times> (string \<times> owner) list) list \<Rightarrow> (string \<times> (string \<times> owner) list) list" where
  "sio_on namespace event who handlers =
     AList.update namespace
       (AList.update event who (case map_of handlers namespace of None \<Rightarrow> [] | Some es \<Rightarrow> es)) handlers"

definition install_namespace_auth :: "string \<Rightarrow> app_state \<Rightarrow> app_state" where
  "install_namespace_auth namespace app = app\<lparr>as_handlers := sio_on namespace ''connect'' Core (as_handlers app)\<rparr>"

definition attach_ws :: "mod_manifest \<Rightarrow> mod_object \<Rightarrow> app_state \<Rightarrow> app_state \<times> (load_error + unit)" where
  "attach_ws m obj app =
     (case (mo_ws obj, mm_ws m) of
        (Some hook, Some namespace) \<Rightarrow>
          (if map_of (as_handlers app) namespace \<noteq> None then (app, Inl (Namespace_taken namespace))
           else let app1 = install_namespace_auth namespace app;
                    app2 = app1\<lparr>as_handlers :=
                      fold (\<lambda>(ns, event). sio_on ns event (By_mod (mm_id m))) (wh_handlers hook) (as_handlers app1)\<rparr>
                in if wh_raises hook
                   then (app2\<lparr>as_handlers := AList.delete namespace (as_handlers app2)\<rparr>, Inl Hook_raised)
                   else (app2, Inr ()))
      | _ \<Rightarrow> (app, Inr ()))"

definition load_mod ::
    "load_env \<Rightarrow> mod_manifest \<Rightarrow> taken_prefixes \<Rightarrow> app_state \<Rightarrow> app_state \<times> taken_prefixes \<times> (load_error + loaded_mod)" where
  "load_mod env m taken app =
     (case resolve_entrypoint env m app of
        (app1, Inl e) \<Rightarrow> (app1, taken, Inl e)
      | (app1, Inr obj) \<Rightarrow>
          (case stage_tools obj of
             Inl e \<Rightarrow> (app1, taken, Inl e)
           | Inr tools \<Rightarrow>
               (case stage_router m obj taken of
                  Inl e \<Rightarrow> (app1, taken, Inl e)
                | Inr router \<Rightarrow>
                    (case run_lifecycle (mm_id m) obj app1 of
                       (app2, Inl e) \<Rightarrow> (app2, taken, Inl e)
                     | (app2, Inr down) \<Rightarrow>
                         (case mount_router env m router taken app2 of
                            (app3, taken', Inl e) \<Rightarrow> (app3, taken', Inl e)
                          | (app3, taken', Inr _) \<Rightarrow>
                              (case attach_ws m obj app3 of
                                 (app4, Inl e) \<Rightarrow> (app4, taken', Inl e)
                               | (app4, Inr _) \<Rightarrow>
                                   (app4, taken', Inr \<lparr>lm_manifest = m, lm_object = obj, lm_router = router,
                                      lm_shutdown = down, lm_tools = tools\<rparr>)))))))"

fun load_all ::
    "load_env \<Rightarrow> mod_manifest list \<Rightarrow> taken_prefixes \<Rightarrow> app_state \<Rightarrow> load_result \<Rightarrow> app_state \<times> taken_prefixes \<times> load_result" where
  "load_all env [] taken app res = (app, taken, res)"
| "load_all env (m # ms) taken app res =
     (case load_mod env m taken app of
        (app', taken', Inl e) \<Rightarrow> load_all env ms taken' app' (res\<lparr>lr_errors := lr_errors res @ [Disabled (mm_id m) e]\<rparr>)
      | (app', taken', Inr lm) \<Rightarrow>
          load_all env ms taken' app' (res\<lparr>lr_loaded := AList.update (mm_id m) lm (lr_loaded res)\<rparr>))"

definition load_mods :: "load_env \<Rightarrow> mod_manifest list \<Rightarrow> app_state \<Rightarrow> app_state \<times> load_result" where
  "load_mods env manifests app =
     (case load_all env manifests (map (\<lambda>p. (p, Core)) (core_prefixes app)) app \<lparr>lr_loaded = [], lr_errors = []\<rparr> of
        (app', taken, res) \<Rightarrow> (app', res))"

text \<open>A request into a mod route: what the handler does, and what the caller gets.\<close>

datatype handler_outcome = Responds nat json | Raises_http nat | Raises_validation | Raises_other

definition isolated :: "string \<Rightarrow> handler_outcome \<Rightarrow> handler_outcome" where
  "isolated mod_id r =
     (case r of
        Raises_other \<Rightarrow> Responds 500 (JObj [(''detail'', JStr (''The '' @ [CHR 0x27] @ mod_id @ [CHR 0x27] @ '' mod failed to handle this request.''))])
      | _ \<Rightarrow> r)"

section \<open>Booting and shutting down\<close>

record boot_env =
  be_source :: manifest_source
  be_resolve :: "mod_path \<Rightarrow> string"
  be_disk :: disk
  be_environ :: environ
  be_load :: load_env

definition attach_configs :: "environ \<Rightarrow> (string \<times> loaded_mod) list \<Rightarrow> config_state \<times> mods_error list \<Rightarrow> config_state \<times> mods_error list" where
  "attach_configs environ =
     fold (\<lambda>(i, lm) (st, errors).
        case attach_mod_config environ (lm_manifest lm) st of
          (st', Inl e) \<Rightarrow> (st', errors @ [Config_not_attached (mm_id (lm_manifest lm)) e])
        | (st', Inr _) \<Rightarrow> (st', errors))"

text \<open>\<open>config.USER_PERMISSIONS or {}\<close>; \<open>dict\<close> of a value that is no dict raises (lists of pairs aside).\<close>

definition permissions_dict :: "json \<Rightarrow> (string \<times> json) list result" where
  "permissions_dict v = (case v of JObj kvs \<Rightarrow> Inr kvs | _ \<Rightarrow> if json_truthy v then Inl TypeError else Inr [])"

definition seed_loaded :: "(string \<times> loaded_mod) list \<Rightarrow> (string \<times> json) list \<Rightarrow> (string \<times> json) list" where
  "seed_loaded loaded defaults = fold (\<lambda>(i, lm) d. seed_defaults d (lm_manifest lm)) loaded defaults"

definition seed_permissions :: "(string \<times> loaded_mod) list \<Rightarrow> config_state \<Rightarrow> config_state \<times> unit result" where
  "seed_permissions loaded st =
     (case app_get ''USER_PERMISSIONS'' st of
        Inl e \<Rightarrow> (st, Inl e)
      | Inr v \<Rightarrow>
          if loaded = [] then app_set_value ''USER_PERMISSIONS'' (if json_truthy v then v else JObj []) st
          else case permissions_dict v of
                 Inl e \<Rightarrow> (st, Inl e)
               | Inr d \<Rightarrow> app_set_value ''USER_PERMISSIONS'' (JObj (seed_loaded loaded d)) st)"

definition discovered_manifests :: "discovery_result \<Rightarrow> mod_manifest list" where
  "discovered_manifests found = map (\<lambda>i. the (map_of (dr_loaded found) i)) (loaded_ids found)"

definition boot_mods :: "boot_env \<Rightarrow> string list \<Rightarrow> string list \<Rightarrow> string \<Rightarrow> app_state \<Rightarrow> app_state \<times> load_result result" where
  "boot_mods env install_dirs enabled_ids core_version app =
     (let found = discover (be_source env) (be_resolve env) (be_disk env) install_dirs enabled_ids core_version;
          (app1, res0) = load_mods (be_load env) (discovered_manifests found) app;
          res1 = res0\<lparr>lr_errors := map Not_discovered (dr_errors found) @ lr_errors res0\<rparr>
      in case as_config app1 of
           None \<Rightarrow> (app1\<lparr>as_mods := Some res1\<rparr>, Inr res1)
         | Some st \<Rightarrow>
             (let (st1, errors) = attach_configs (be_environ env) (lr_loaded res1) (st, lr_errors res1);
                  res2 = res1\<lparr>lr_errors := errors\<rparr>
              in case seed_permissions (lr_loaded res2) st1 of
                   (st2, Inl e) \<Rightarrow> (app1\<lparr>as_config := Some st2\<rparr>, Inl e)
                 | (st2, Inr _) \<Rightarrow> (app1\<lparr>as_config := Some st2, as_mods := Some res2\<rparr>, Inr res2)))"

definition run_shutdown_hooks :: "load_result \<Rightarrow> app_state \<Rightarrow> app_state" where
  "run_shutdown_hooks res app =
     fold (\<lambda>(i, lm). fold (\<lambda>raises a. a\<lparr>as_events := as_events a @ [Stopped (mm_id (lm_manifest lm))]\<rparr>) (lm_shutdown lm))
       (lr_loaded res) app"

definition move_spa_mount_last :: "app_state \<Rightarrow> app_state" where
  "move_spa_mount_last app =
     app\<lparr>as_routes := fold (\<lambda>r rs. remove1 r rs @ [r]) (filter (\<lambda>r. rt_name r = ''spa-static-files'') (as_routes app)) (as_routes app)\<rparr>"

section \<open>The registry\<close>

definition granted_scopes_for :: "permission_check \<Rightarrow> mod_manifest \<Rightarrow> string \<Rightarrow> string list" where
  "granted_scopes_for may m user_id = filter (may user_id) (map se_id (mm_scopes m))"

definition holds_any_scope :: "permission_check \<Rightarrow> mod_manifest \<Rightarrow> string \<Rightarrow> bool" where
  "holds_any_scope may m user_id = list_ex (\<lambda>s. may user_id (se_id s)) (mm_scopes m)"

record registry_frontend =
  rf_bundle_url :: string
  rf_view :: string
  rf_label :: string
  rf_icon :: string
  rf_add_to_nav :: bool

record registry_entry =
  re_id :: string
  re_name :: string
  re_scopes :: "string list"
  re_frontend :: "registry_frontend option"

definition entry_for :: "mod_manifest \<Rightarrow> string list \<Rightarrow> registry_entry" where
  "entry_for m held_scopes =
     \<lparr>re_id = mm_id m, re_name = mm_name m, re_scopes = held_scopes,
      re_frontend = map_option (\<lambda>f. \<lparr>rf_bundle_url = fb_bundle_url f, rf_view = fb_view f, rf_label = fb_label f,
        rf_icon = fb_icon f, rf_add_to_nav = fb_add_to_nav f\<rparr>) (mm_frontend m)\<rparr>"

definition visible_mods :: "permission_check \<Rightarrow> user \<Rightarrow> mod_manifest list \<Rightarrow> registry_entry list" where
  "visible_mods may user manifests =
     List.map_filter (\<lambda>m. let held = granted_scopes_for may m (u_id user)
                          in if u_role user = ''admin'' \<or> held \<noteq> [] then Some (entry_for m held) else None) manifests"

definition loaded_manifests :: "app_state \<Rightarrow> mod_manifest list" where
  "loaded_manifests app = (case as_mods app of None \<Rightarrow> [] | Some res \<Rightarrow> map (lm_manifest \<circ> snd) (lr_loaded res))"

text \<open>The check the endpoints use: the groups of the user, then the permissions of the instance.\<close>

definition user_permissions :: "app_state \<Rightarrow> json result" where
  "user_permissions app = (case as_config app of None \<Rightarrow> Inl AttributeError | Some st \<Rightarrow> app_get ''USER_PERMISSIONS'' st)"

definition list_enabled_mods :: "dialect \<Rightarrow> group list \<Rightarrow> user \<Rightarrow> app_state \<Rightarrow> registry_entry list result" where
  "list_enabled_mods d groups user app =
     (case user_permissions app of
        Inl e \<Rightarrow> Inl e
      | Inr v \<Rightarrow>
          (case permissions_dict v of
             Inl e \<Rightarrow> Inl e
           | Inr defaults \<Rightarrow>
               Inr (visible_mods (\<lambda>u s. has_permission d u s defaults groups) user (loaded_manifests app))))"

definition list_mod_scopes :: "app_state \<Rightarrow> (string \<times> string \<times> (string \<times> string) list) list" where
  "list_mod_scopes app =
     map (\<lambda>m. (mm_id m, mm_name m, map (\<lambda>s. (se_id s, se_desc s)) (mm_scopes m)))
       (filter (\<lambda>m. mm_scopes m \<noteq> []) (loaded_manifests app))"

section \<open>The files of a mod\<close>

text \<open>
  The file system: the canonical components of a path, whether there is a regular file, and what a
  directory holds at its root, each name with whether it is a file and when it was last written.
\<close>

record file_system =
  fs_resolve :: "string \<Rightarrow> string list"
  fs_is_file :: "string list \<Rightarrow> bool"
  fs_list :: "string list \<Rightarrow> (string \<times> bool \<times> int) list option"

definition path_text :: "string list \<Rightarrow> string" where
  "path_text components = concat (map (\<lambda>c. CHR ''/'' # c) components)"

definition path_join :: "string list \<Rightarrow> string \<Rightarrow> string" where
  "path_join base p = (if prefix ''/'' p then p else path_text base @ ''/'' @ p)"

definition SERVABLE_ASSET_SUFFIXES :: "string list" where
  "SERVABLE_ASSET_SUFFIXES = [''.js'', ''.mjs'', ''.css'', ''.map'', ''.html'', ''.json'', ''.svg'', ''.png'', ''.jpg'', ''.jpeg'',
     ''.gif'', ''.webp'', ''.avif'', ''.ico'', ''.woff'', ''.woff2'', ''.ttf'', ''.otf'']"

text \<open>\<open>Path.suffix\<close>: from the last dot of the name, unless that is its first or its last character.\<close>

definition path_suffix :: "string \<Rightarrow> string" where
  "path_suffix name =
     (let tail = rev (takeWhile (\<lambda>c. c \<noteq> CHR ''.'') (rev name))
      in if CHR ''.'' \<in> set name \<and> tail \<noteq> [] \<and> length tail + 1 < length name then CHR ''.'' # tail else [])"

definition file_name :: "string list \<Rightarrow> string" where
  "file_name components = (if components = [] then [] else last components)"

definition is_servable_asset :: "string list \<Rightarrow> bool" where
  "is_servable_asset path \<longleftrightarrow> lower (path_suffix (file_name path)) \<in> set SERVABLE_ASSET_SUFFIXES"

datatype asset_error = Escapes | Not_servable | No_file

definition resolve_mod_asset :: "file_system \<Rightarrow> string \<Rightarrow> string \<Rightarrow> asset_error + string list" where
  "resolve_mod_asset fs directory asset_path =
     (let base = fs_resolve fs directory; resolved = fs_resolve fs (path_join base asset_path)
      in if \<not> prefix base resolved then Inl Escapes
         else if \<not> is_servable_asset resolved then Inl Not_servable
         else if \<not> fs_is_file fs resolved then Inl No_file
         else Inr resolved)"

text \<open>\<open>entry.*.js\<close>.\<close>

definition BUNDLE_ENTRY_GLOB :: "string \<Rightarrow> bool" where
  "BUNDLE_ENTRY_GLOB name \<longleftrightarrow> prefix ''entry.'' name \<and> suffix ''.js'' (drop 6 name)"

definition discover_bundle_entry :: "file_system \<Rightarrow> string \<Rightarrow> string option" where
  "discover_bundle_entry fs directory =
     (case fs_list fs (fs_resolve fs directory) of
        None \<Rightarrow> None
      | Some entries \<Rightarrow>
          (case filter (\<lambda>(name, is_file, mtime). BUNDLE_ENTRY_GLOB name \<and> is_file) entries of
             [] \<Rightarrow> None
           | x # xs \<Rightarrow> Some (fst (max_by (\<lambda>(name, is_file, mtime). mtime) x xs))))"

definition find_loaded :: "app_state \<Rightarrow> string \<Rightarrow> loaded_mod option" where
  "find_loaded app mod_id = (case as_mods app of None \<Rightarrow> None | Some res \<Rightarrow> map_of (lr_loaded res) mod_id)"

definition serve_mod_asset :: "file_system \<Rightarrow> string \<Rightarrow> string \<Rightarrow> app_state \<Rightarrow> string list result" where
  "serve_mod_asset fs mod_id asset_path app =
     (case find_loaded app mod_id of
        None \<Rightarrow> Inl (HTTPException 404)
      | Some lm \<Rightarrow>
          (case mm_directory (lm_manifest lm) of
             None \<Rightarrow> Inl (HTTPException 404)
           | Some d \<Rightarrow> (case resolve_mod_asset fs d asset_path of Inl _ \<Rightarrow> Inl (HTTPException 404) | Inr f \<Rightarrow> Inr f)))"

record frontend_manifest =
  fm_mod_id :: string
  fm_tag :: "string option"
  fm_status :: string
  fm_bundle_url :: "string option"

definition serve_frontend_manifest :: "file_system \<Rightarrow> string \<Rightarrow> app_state \<Rightarrow> frontend_manifest result" where
  "serve_frontend_manifest fs mod_id app =
     (case find_loaded app mod_id of
        None \<Rightarrow> Inl (HTTPException 404)
      | Some lm \<Rightarrow>
          (let m = lm_manifest lm
           in if mm_frontend m = None then Inl (HTTPException 404)
              else case (case mm_directory m of None \<Rightarrow> None | Some d \<Rightarrow> discover_bundle_entry fs d) of
                     None \<Rightarrow> Inr \<lparr>fm_mod_id = mod_id, fm_tag = custom_element_tag m, fm_status = ''no_bundle'', fm_bundle_url = None\<rparr>
                   | Some entry \<Rightarrow> Inr \<lparr>fm_mod_id = mod_id, fm_tag = custom_element_tag m, fm_status = ''ok'',
                       fm_bundle_url = Some (''/static/mods/'' @ mod_id @ ''/'' @ entry)\<rparr>))"

section \<open>Prefixes and the paths they cover\<close>

definition covers :: "string \<Rightarrow> string \<Rightarrow> bool" where
  "covers p x \<longleftrightarrow> x = p \<or> prefix (p @ ''/'') x"

definition stripped :: "string \<Rightarrow> bool" where
  "stripped t \<longleftrightarrow> t \<noteq> [] \<and> hd t \<noteq> CHR ''/'' \<and> last t \<noteq> CHR ''/''"

definition normal :: "string \<Rightarrow> bool" where
  "normal p \<longleftrightarrow> (\<exists>t. p = CHR ''/'' # t \<and> stripped t)"

lemma rstrip_char_append:
  assumes "t \<noteq> []" and "last t \<noteq> c"
  shows "\<exists>w'. rstrip_char c (t @ w) = t @ w' \<and> prefix w' w"
proof -
  have last: "dropWhile (\<lambda>d. d = c) (rev t) = rev t"
    using assms by (cases t rule: rev_cases) auto
  show ?thesis
  proof (cases "list_all (\<lambda>d. d = c) w")
    case True
    then have "dropWhile (\<lambda>d. d = c) (rev w @ rev t) = rev t"
      using last dropWhile_append2[of "rev w" "\<lambda>d. d = c" "rev t"] by (simp add: list_all_iff)
    then show ?thesis by (simp add: rstrip_char_def rstrip_by_def)
  next
    case False
    then obtain x where "x \<in> set (rev w)" "x \<noteq> c" by (auto simp: list_all_iff)
    then have "rstrip_char c (t @ w) = t @ rstrip_char c w"
      by (simp add: rstrip_char_def rstrip_by_def dropWhile_append1)
    moreover have "prefix (rstrip_char c w) w"
      using suffix_dropWhile[of "\<lambda>d. d = c" "rev w"] by (simp add: rstrip_char_def rstrip_by_def suffix_to_prefix)
    ultimately show ?thesis by blast
  qed
qed

lemma rstrip_char_last: "rstrip_char c w \<noteq> [] \<Longrightarrow> last (rstrip_char c w) \<noteq> c"
  using hd_dropWhile[of "\<lambda>d. d = c" "rev w"] by (simp add: rstrip_char_def rstrip_by_def last_rev)

lemma strip_slashes_stripped: "strip_slashes s \<noteq> [] \<Longrightarrow> stripped (strip_slashes s)"
proof -
  assume ne: "strip_slashes s \<noteq> []"
  define u where "u = dropWhile (\<lambda>c. c = CHR ''/'') s"
  have u: "strip_slashes s = rstrip_char (CHR ''/'') u" by (simp add: strip_slashes_def u_def)
  with ne have "u \<noteq> []" by (auto simp: rstrip_char_def rstrip_by_def)
  then have "hd u \<noteq> CHR ''/''" using hd_dropWhile[of "\<lambda>c. c = CHR ''/''" s] by (simp add: u_def)
  with \<open>u \<noteq> []\<close> obtain c v where cv: "u = [c] @ v" "c \<noteq> CHR ''/''" by (cases u) auto
  then obtain w' where "strip_slashes s = [c] @ w'" using rstrip_char_append[of "[c]" "CHR ''/''" v] u by auto
  then show "stripped (strip_slashes s)" using rstrip_char_last[of "CHR ''/''" u] u cv by (simp add: stripped_def)
qed

lemma strip_of_stripped: "stripped t \<Longrightarrow> strip_slashes (CHR ''/'' # t) = t"
  using rstrip_char_append[of t "CHR ''/''" "[]"]
  by (cases t) (auto simp: stripped_def strip_slashes_def)

lemma normalise_normal: "normalise p \<noteq> ''/'' \<Longrightarrow> normal (normalise p)"
  using strip_slashes_stripped by (auto simp: normalise_def normal_def)

lemma normal_normalise: "normal p \<Longrightarrow> normalise p = p"
  by (auto simp: normal_def normalise_def strip_of_stripped)

lemma conflict_normal:
  "normal p \<Longrightarrow> normal q \<Longrightarrow> prefix_conflict p q \<longleftrightarrow> p = q \<or> prefix (q @ ''/'') p \<or> prefix (p @ ''/'') q"
  by (simp add: prefix_conflict_def normal_normalise)

lemma common_path_conflicts:
  assumes "normal p" and "normal q" and "covers p x" and "covers q x"
  shows "prefix_conflict p q"
proof -
  have "prefix (p @ ''/'') (x @ ''/'')" "prefix (q @ ''/'') (x @ ''/'')" using assms(3,4) by (auto simp: covers_def)
  then have "prefix (p @ ''/'') (q @ ''/'') \<or> prefix (q @ ''/'') (p @ ''/'')" using prefix_same_cases by blast
  then show ?thesis using conflict_normal[OF assms(1,2)] by auto
qed

lemma hd_split_on: "hd (split_on q s) = takeWhile (\<lambda>c. c \<noteq> q) s"
  by (induction q s rule: split_on.induct) (auto split: list.splits)

lemma takeWhile_meets_slash:
  "w = [] \<or> hd w = CHR ''/'' \<Longrightarrow> takeWhile (\<lambda>c. c \<noteq> CHR ''/'') (t @ w) = takeWhile (\<lambda>c. c \<noteq> CHR ''/'') t"
  by (induction t) (cases w; auto)+

lemma takeWhile_slash:
  "t = takeWhile (\<lambda>c. c \<noteq> CHR ''/'') t \<or> prefix (takeWhile (\<lambda>c. c \<noteq> CHR ''/'') t @ ''/'') t"
  by (induction t) auto

lemma mem_map_filter: "y \<in> set (List.map_filter f xs) \<longleftrightarrow> (\<exists>x\<in>set xs. f x = Some y)"
  by (induction xs) (auto simp: map_filter_simps split: option.splits)

lemma covered_core_path:
  assumes "normal p" and "covers p x"
  shows "core_prefix_of x \<noteq> ''/'' \<and> normal (core_prefix_of x) \<and> prefix_conflict p (core_prefix_of x) \<and> hd x = CHR ''/'' \<and> x \<noteq> []"
proof -
  obtain t where t: "p = CHR ''/'' # t" "stripped t" using assms(1) by (auto simp: normal_def)
  then have tne: "t \<noteq> []" "hd t \<noteq> CHR ''/''" "last t \<noteq> CHR ''/''" by (auto simp: stripped_def)
  obtain w where x: "x = CHR ''/'' # t @ w" "w = [] \<or> hd w = CHR ''/''"
    using assms(2) t(1) by (auto simp: covers_def prefix_def)
  obtain w' where z: "rstrip_char (CHR ''/'') (t @ w) = t @ w'" "prefix w' w" using rstrip_char_append[OF tne(1,3)] by blast
  have "dropWhile (\<lambda>c. c = CHR ''/'') x = t @ w" using tne x(1) by (cases t) auto
  then have "strip_slashes x = t @ w'" by (simp add: strip_slashes_def z(1))
  moreover have "w' = [] \<or> hd w' = CHR ''/''" using x(2) z(2) by (cases w') (auto simp: prefix_def)
  ultimately have c: "core_prefix_of x = CHR ''/'' # takeWhile (\<lambda>c. c \<noteq> CHR ''/'') t"
    using takeWhile_meets_slash[of w' t] by (simp add: core_prefix_of_def hd_split_on)
  define g where "g = takeWhile (\<lambda>c. c \<noteq> CHR ''/'') t"
  have "g \<noteq> []" using tne(1,2) by (cases t) (simp_all add: g_def)
  moreover have "CHR ''/'' \<notin> set g" unfolding g_def by (blast dest: set_takeWhileD)
  ultimately have g: "g \<noteq> []" "stripped g" unfolding stripped_def by (metis hd_in_set last_in_set)+
  then have n: "normal (CHR ''/'' # g)" unfolding normal_def by blast
  have "t = g \<or> prefix (g @ ''/'') t" unfolding g_def by (rule takeWhile_slash)
  then have "prefix_conflict p (CHR ''/'' # g)" using conflict_normal[OF assms(1) n] t(1) by auto
  with n g(1) c show ?thesis by (simp add: g_def x(1))
qed

lemma core_prefixes_cover:
  assumes "normal p" and "covers p x" and "r \<in> set (as_routes app)" and "rt_path r = Some x"
  shows "\<exists>c. c \<in> set (core_prefixes app) \<and> prefix_conflict p c"
proof -
  obtain cs where x: "x = CHR ''/'' # cs" using covered_core_path[OF assms(1,2)] by (cases x) auto
  have "core_prefix_of x \<in> set (core_prefixes app)"
    using covered_core_path[OF assms(1,2)] assms(3,4) x
    by (auto simp: core_prefixes_def mem_map_filter intro!: bexI[of _ r])
  then show ?thesis using covered_core_path[OF assms(1,2)] by blast
qed

lemma core_prefixes_normal:
  assumes "c \<in> set (core_prefixes app)"
  shows "normal c"
proof -
  from assms obtain r :: route where r: "c \<noteq> ''/''" "(case rt_path r of
            Some (c # cs) \<Rightarrow> if c = CHR ''/'' then Some (core_prefix_of (c # cs)) else None | _ \<Rightarrow> None) = Some c"
    by (auto simp: core_prefixes_def mem_map_filter)
  then obtain x where x: "c = core_prefix_of x" "c \<noteq> ''/''"
    by (cases "rt_path r") (auto split: list.splits if_splits)
  let ?g = "takeWhile (\<lambda>c. c \<noteq> CHR ''/'') (strip_slashes x)"
  have "?g \<noteq> []" "CHR ''/'' \<notin> set ?g" using x by (auto simp: core_prefix_of_def hd_split_on dest: set_takeWhileD)
  then have "stripped ?g" unfolding stripped_def by (metis hd_in_set last_in_set)
  then show ?thesis using x by (auto simp: normal_def core_prefix_of_def hd_split_on)
qed

section \<open>No path belongs to two owners\<close>

definition refuses_root :: "load_env \<Rightarrow> bool" where
  "refuses_root env \<longleftrightarrow> (\<forall>paths. \<not> le_mount_ok env ''/'' paths)"

definition apart :: "taken_prefixes \<Rightarrow> bool" where
  "apart taken \<longleftrightarrow> distinct (map fst taken) \<and> (\<forall>p\<in>set (map fst taken). normal p) \<and>
     (\<forall>p w q w'. (p, w) \<in> set taken \<longrightarrow> (q, w') \<in> set taken \<longrightarrow> p \<noteq> q \<longrightarrow> w \<noteq> Core \<longrightarrow> \<not> prefix_conflict p q)"

lemma conflict_sym: "prefix_conflict p q = prefix_conflict q p"
  by (auto simp: prefix_conflict_def Let_def)

lemma conflict_refl: "prefix_conflict p p"
  by (simp add: prefix_conflict_def)

lemma staged_router:
  assumes "stage_router m obj taken = Inr router" and "mm_api m = Some raw"
  shows "\<exists>routes. router = Some routes \<and> (\<forall>(p, w)\<in>set taken. \<not> prefix_conflict (normalise raw) p)"
  using assms by (auto simp: stage_router_def find_None_iff split: option.splits sum.splits)

lemma mounted:
  assumes "mount_router env m router taken app = (app', taken', r)" and "stage_router m obj taken = Inr router" and "refuses_root env"
  shows "taken' = taken \<and> (r = Inr () \<longrightarrow> mm_api m = None) \<or>
    (\<exists>raw. mm_api m = Some raw \<and> r = Inr () \<and> taken' = taken @ [(normalise raw, By_mod (mm_id m))] \<and> normal (normalise raw) \<and>
       (\<forall>(p, w)\<in>set taken. \<not> prefix_conflict (normalise raw) p))"
proof (cases "mm_api m")
  case None
  then show ?thesis using assms(1,2) by (auto simp: stage_router_def mount_router_def split: option.splits)
next
  case (Some raw)
  then obtain routes where st: "router = Some routes" "\<forall>(p, w)\<in>set taken. \<not> prefix_conflict (normalise raw) p"
    using staged_router[OF assms(2)] by blast
  have "normalise raw \<notin> fst ` set taken" using st(2) conflict_refl by fastforce
  moreover have "normal (normalise raw)" if "le_mount_ok env (normalise raw) (map fst routes)"
    using that assms(3) normalise_normal unfolding refuses_root_def by metis
  ultimately show ?thesis using assms(1) Some st
    by (auto simp: mount_router_def update_fresh Let_def split: if_splits)
qed

lemma load_mod_taken:
  assumes "load_mod env m taken app = (app', taken', r)" and "refuses_root env"
  shows "taken' = taken \<and> (\<forall>lm. r = Inr lm \<longrightarrow> lm_manifest lm = m \<and> mm_api m = None) \<or>
    (\<exists>raw. mm_api m = Some raw \<and> (\<forall>lm. r = Inr lm \<longrightarrow> lm_manifest lm = m) \<and>
       taken' = taken @ [(normalise raw, By_mod (mm_id m))] \<and> normal (normalise raw) \<and>
       (\<forall>(p, w)\<in>set taken. \<not> prefix_conflict (normalise raw) p))"
proof -
  note early = assms(1)[unfolded load_mod_def]
  show ?thesis
  proof (cases "snd (resolve_entrypoint env m app)")
    case (Inl e)
    then show ?thesis using early by (cases "resolve_entrypoint env m app") auto
  next
    case (Inr obj)
    obtain app1 where e1: "resolve_entrypoint env m app = (app1, Inr obj)" using Inr by (metis prod.collapse)
    show ?thesis
    proof (cases "\<exists>tools router app2 down. stage_tools obj = Inr tools \<and> stage_router m obj taken = Inr router \<and>
                    run_lifecycle (mm_id m) obj app1 = (app2, Inr down)")
      case False
      then show ?thesis using early e1 by (auto split: sum.splits prod.splits)
    next
      case True
      then obtain tools router app2 down where e2: "stage_tools obj = Inr tools" "stage_router m obj taken = Inr router"
        "run_lifecycle (mm_id m) obj app1 = (app2, Inr down)" by blast
      obtain app3 taken3 r3 where e3: "mount_router env m router taken app2 = (app3, taken3, r3)" by (metis prod_cases3)
      have t: "taken' = taken3" using early by (auto simp: e1 e2 e3 split: sum.splits prod.splits)
      have lm: "r3 = Inr () \<and> lm_manifest lm = m" if "r = Inr lm" for lm
        using early that by (auto simp: e1 e2 e3 split: sum.splits prod.splits)
      show ?thesis using mounted[OF e3 e2(2) assms(2)] lm unfolding t by blast
    qed
  qed
qed

lemma apart_extend:
  assumes "apart taken" and "normal p" and "\<forall>(q, w)\<in>set taken. \<not> prefix_conflict p q"
  shows "apart (taken @ [(p, By_mod i)])"
proof -
  have p: "p \<notin> fst ` set taken" using assms(3) conflict_refl by fastforce
  have apart: "\<not> prefix_conflict a b" if "(a, w) \<in> set (taken @ [(p, By_mod i)])" "(b, w') \<in> set (taken @ [(p, By_mod i)])"
    "a \<noteq> b" "w \<noteq> Core" for a w b w'
  proof (cases "a = p \<or> b = p")
    case True
    then show ?thesis using that(1-3) assms(3) conflict_sym[of p] by auto
  next
    case False
    then have "(a, w) \<in> set taken" "(b, w') \<in> set taken" using that(1,2) by auto
    then show ?thesis using assms(1) that(3,4) unfolding apart_def by blast
  qed
  have "distinct (map fst taken)" "\<forall>q\<in>set (map fst taken). normal q" using assms(1) by (simp_all add: apart_def)
  with p have "distinct (map fst (taken @ [(p, By_mod i)]))" "\<forall>q\<in>set (map fst (taken @ [(p, By_mod i)])). normal q"
    using assms(2) by simp_all
  with apart show ?thesis unfolding apart_def by blast
qed

definition known :: "taken_prefixes \<Rightarrow> (string \<times> loaded_mod) list \<Rightarrow> bool" where
  "known taken loaded \<longleftrightarrow>
     (\<forall>(i, lm)\<in>set loaded. mm_id (lm_manifest lm) = i \<and>
        (\<forall>raw. mm_api (lm_manifest lm) = Some raw \<longrightarrow> (normalise raw, By_mod i) \<in> set taken))"

lemma known_update: "known taken loaded \<Longrightarrow> known taken [(i, lm)] \<Longrightarrow> known taken (AList.update i lm loaded)"
  by (induction loaded) (auto simp: known_def)

lemma known_more: "known taken loaded \<Longrightarrow> known (taken @ extra) loaded"
  by (fastforce simp: known_def)

lemma load_all_apart:
  assumes "load_all env ms taken app res = (app', taken', res')" and "refuses_root env" and "apart taken" and "known taken (lr_loaded res)"
  shows "apart taken' \<and> known taken' (lr_loaded res') \<and> set taken \<subseteq> set taken'"
  using assms
proof (induction ms arbitrary: taken app res)
  case (Cons m ms)
  obtain app1 taken1 r where l: "load_mod env m taken app = (app1, taken1, r)" by (metis prod_cases3)
  have t: "apart taken1 \<and> set taken \<subseteq> set taken1 \<and> known taken1 (lr_loaded res) \<and> (\<forall>lm. r = Inr lm \<longrightarrow> known taken1 [(mm_id m, lm)])"
    using load_mod_taken[OF l Cons.prems(2)]
  proof
    assume "\<exists>raw. mm_api m = Some raw \<and> (\<forall>lm. r = Inr lm \<longrightarrow> lm_manifest lm = m) \<and>
       taken1 = taken @ [(normalise raw, By_mod (mm_id m))] \<and> normal (normalise raw) \<and>
       (\<forall>(p, w)\<in>set taken. \<not> prefix_conflict (normalise raw) p)"
    then obtain raw where raw: "mm_api m = Some raw" "\<forall>lm. r = Inr lm \<longrightarrow> lm_manifest lm = m"
      "taken1 = taken @ [(normalise raw, By_mod (mm_id m))]" "normal (normalise raw)"
      "\<forall>(p, w)\<in>set taken. \<not> prefix_conflict (normalise raw) p" by (elim exE conjE)
    have "known taken1 [(mm_id m, lm)]" if "r = Inr lm" for lm using raw(1-3) that by (auto simp: known_def)
    then show ?thesis using apart_extend[OF Cons.prems(3) raw(4,5)] known_more[OF Cons.prems(4)] unfolding raw(3) by (simp add: subset_insertI)
  next
    assume same: "taken1 = taken \<and> (\<forall>lm. r = Inr lm \<longrightarrow> lm_manifest lm = m \<and> mm_api m = None)"
    then have "known taken1 [(mm_id m, lm)]" if "r = Inr lm" for lm using that by (simp add: known_def)
    with same Cons.prems(3,4) show ?thesis by blast
  qed
  show ?case
  proof (cases r)
    case (Inl e)
    let ?res = "res\<lparr>lr_errors := lr_errors res @ [Disabled (mm_id m) e]\<rparr>"
    have step: "load_all env ms taken1 app1 ?res = (app', taken', res')" using Cons.prems(1) l Inl by simp
    have k: "known taken1 (lr_loaded ?res)" using t by simp
    show ?thesis using Cons.IH[OF step Cons.prems(2) _ k] t by blast
  next
    case (Inr lm)
    let ?res = "res\<lparr>lr_loaded := AList.update (mm_id m) lm (lr_loaded res)\<rparr>"
    have step: "load_all env ms taken1 app1 ?res = (app', taken', res')" using Cons.prems(1) l Inr by simp
    have k: "known taken1 (lr_loaded ?res)" using t Inr known_update by simp
    show ?thesis using Cons.IH[OF step Cons.prems(2) _ k] t by blast
  qed
qed simp

lemma core_taken_apart: "apart (map (\<lambda>p. (p, Core)) (core_prefixes app))"
  using core_prefixes_normal by (fastforce simp: apart_def core_prefixes_def comp_def)


definition example_object :: mod_object where
  "example_object = \<lparr>mo_tools = None, mo_routers = Some (Inr [(''/items'', ''items'')]),
     mo_lifecycle = Some (Inr (Some \<lparr>lc_startup = Some False, lc_shutdown = Some False\<rparr>)),
     mo_ws = Some \<lparr>wh_handlers = [], wh_raises = False\<rparr>\<rparr>"

definition example_load_env :: load_env where
  "example_load_env = \<lparr>le_import = (\<lambda>path name. Some (\<lambda>attribute. Target example_object)),
     le_mount_ok = (\<lambda>p paths. \<not> suffix ''/'' p)\<rparr>"

definition example_app :: app_state where
  "example_app = \<lparr>as_routes = [\<lparr>rt_path = Some ''/api/v1/chats'', rt_name = ''chats'', rt_owner = Core\<rparr>,
       \<lparr>rt_path = Some [], rt_name = ''spa-static-files'', rt_owner = Core\<rparr>],
     as_sys_path = [], as_handlers = [(''/'', [(''connect'', Core)])], as_events = [], as_config = None, as_mods = None\<rparr>"

definition example_loaded :: "string \<Rightarrow> loaded_mod" where
  "example_loaded i = \<lparr>lm_manifest = example_mod i, lm_object = example_object, lm_router = Some [(''/items'', ''items'')],
     lm_shutdown = [False], lm_tools = []\<rparr>"

lemma example_run:
  "snd (load_mods example_load_env [example_mod ''cal'', example_mod ''crew''] example_app) =
     \<lparr>lr_loaded = [(''cal'', example_loaded ''cal''), (''crew'', example_loaded ''crew'')], lr_errors = []\<rparr>"
  by code_simp

lemma example_refuses_root: "refuses_root example_load_env"
  by (simp add: refuses_root_def example_load_env_def suffix_def)


section \<open>Mods that fail\<close>

lemma resolve_entrypoint_keeps:
  "resolve_entrypoint env m app = (app', r) \<Longrightarrow> as_routes app' = as_routes app \<and> as_handlers app' = as_handlers app \<and>
     as_config app' = as_config app \<and> as_mods app' = as_mods app"
  by (auto simp: resolve_entrypoint_def ensure_importable_def Let_def split: if_splits option.splits attribute_outcome.splits)

lemma run_lifecycle_keeps:
  "run_lifecycle i obj app = (app', r) \<Longrightarrow> as_routes app' = as_routes app \<and> as_handlers app' = as_handlers app \<and>
     as_config app' = as_config app \<and> as_mods app' = as_mods app"
  by (auto simp: run_lifecycle_def Let_def split: if_splits option.splits sum.splits)

lemma mount_router_keeps:
  "mount_router env m router taken app = (app', taken', r) \<Longrightarrow> as_handlers app' = as_handlers app \<and>
     as_config app' = as_config app \<and> as_mods app' = as_mods app \<and> (r \<noteq> Inr () \<longrightarrow> app' = app \<and> taken' = taken)"
  by (auto simp: mount_router_def Let_def split: if_splits option.splits)

lemma attach_ws_keeps:
  "attach_ws m obj app = (app', r) \<Longrightarrow> as_routes app' = as_routes app \<and> as_config app' = as_config app \<and> as_mods app' = as_mods app \<and>
     (mm_ws m = None \<longrightarrow> app' = app \<and> r = Inr ()) \<and>
     (r \<noteq> Inr () \<longrightarrow> mm_ws m = Some ns \<longrightarrow> map_of (as_handlers app') ns = map_of (as_handlers app) ns)"
  by (auto simp: attach_ws_def install_namespace_auth_def Let_def delete_conv' split: if_splits option.splits)

text \<open>Where a load ends, stage by stage.\<close>

lemma load_mod_stages:
  assumes "load_mod env m taken app = (app', taken', r)"
  obtains (early) "isl r" "taken' = taken" "as_routes app' = as_routes app" "as_handlers app' = as_handlers app"
      "as_config app' = as_config app" "as_mods app' = as_mods app"
  | (attached) obj app3 r4 where "attach_ws m obj app3 = (app', r4)" "as_handlers app3 = as_handlers app"
      "as_config app3 = as_config app" "as_mods app3 = as_mods app" "r4 \<noteq> Inr () \<longleftrightarrow> (\<exists>e. r = Inl e)" "\<And>lm. r = Inr lm \<Longrightarrow> lm_manifest lm = m"
proof -
  note run = assms[unfolded load_mod_def]
  obtain app1 r1 where e1: "resolve_entrypoint env m app = (app1, r1)" by fastforce
  note k1 = resolve_entrypoint_keeps[OF e1]
  show thesis
  proof (cases "\<exists>obj tools router. r1 = Inr obj \<and> stage_tools obj = Inr tools \<and> stage_router m obj taken = Inr router")
    case False
    then show thesis using run k1 by (intro early) (auto simp: e1 split: sum.splits)
  next
    case True
    then obtain obj tools router where e2: "r1 = Inr obj" "stage_tools obj = Inr tools" "stage_router m obj taken = Inr router" by blast
    obtain app2 r2 where e3: "run_lifecycle (mm_id m) obj app1 = (app2, r2)" by fastforce
    note k2 = run_lifecycle_keeps[OF e3]
    show thesis
    proof (cases r2)
      case (Inl e)
      then show thesis using run k1 k2 by (intro early) (auto simp: e1 e2 e3)
    next
      case (Inr down)
      obtain app3 taken3 r3 where e4: "mount_router env m router taken app2 = (app3, taken3, r3)" by (metis prod_cases3)
      note k3 = mount_router_keeps[OF e4]
      show thesis
      proof (cases r3)
        case (Inl e)
        then show thesis using run k1 k2 k3 \<open>r2 = Inr down\<close> by (intro early) (auto simp: e1 e2 e3 e4)
      next
        case (Inr u)
        obtain app4 r4 where e5: "attach_ws m obj app3 = (app4, r4)" by fastforce
        show thesis
          using run k1 k2 k3 e5 Inr \<open>r2 = Inr down\<close>
          by (intro attached[of obj app3 r4]) (auto simp: e1 e2 e3 e4 split: sum.splits)
      qed
    qed
  qed
qed

text \<open>
  C12: A mod that fails leaves nothing behind, unless it is its socket namespace that fails it. If a mod
  that declares no namespace cannot be loaded, the routes, the socket handlers and the prefixes taken
  are as they were; if it declares one, that namespace is as it was. The settings and the published
  list of mods are never touched.
\<close>

theorem failed_mod_leaves_nothing_behind:
  assumes "load_mod env m taken app = (app', taken', Inl e)"
  shows "(if mm_ws m = None then as_routes app' = as_routes app \<and> as_handlers app' = as_handlers app \<and> taken' = taken
          else map_of (as_handlers app') (the (mm_ws m)) = map_of (as_handlers app) (the (mm_ws m))) \<and>
    as_config app' = as_config app \<and> as_mods app' = as_mods app"
  using assms
proof (cases rule: load_mod_stages)
  case (attached obj app3 r4)
  then show ?thesis using attach_ws_keeps[OF attached(1), of "the (mm_ws m)"] by auto
qed auto

theorem failed_mod_leaves_nothing_behind_witness:
  "let m = (example_mod ''crew'')\<lparr>mm_api := Some ''/api/crew'', mm_ws := None\<rparr>;
       run = load_mod example_load_env m [(''/api'', Core)] example_app
   in snd (snd run) = Inl (Prefix_taken ''/api/crew'' ''/api'' Core) \<and> as_routes (fst run) = as_routes example_app"
proof -
  define m where "m = (example_mod ''crew'')\<lparr>mm_api := Some ''/api/crew'', mm_ws := None\<rparr>"
  have e: "snd (snd (load_mod example_load_env m [(''/api'', Core)] example_app)) = Inl (Prefix_taken ''/api/crew'' ''/api'' Core)"
    unfolding m_def by code_simp
  then have run: "load_mod example_load_env m [(''/api'', Core)] example_app =
      (fst (load_mod example_load_env m [(''/api'', Core)] example_app), fst (snd (load_mod example_load_env m [(''/api'', Core)] example_app)),
       Inl (Prefix_taken ''/api/crew'' ''/api'' Core))" by (metis prod.collapse)
  have "mm_ws m = None" by (simp add: m_def)
  then show ?thesis using failed_mod_leaves_nothing_behind[OF run] e by (simp add: m_def)
qed

text \<open>
  A mod whose namespace is taken is reported as disabled, but it stays: its routes answer requests,
  its startup hook has run, and as it is not among the loaded mods its shutdown hook never runs.
\<close>

theorem disabled_mod_stays_mounted:
  "let m = (example_mod ''crew'')\<lparr>mm_ws := Some ''/''\<rparr>;
       (app, res) = load_mods example_load_env [m] example_app
   in lr_loaded res = [] \<and> lr_errors res = [Disabled ''crew'' (Namespace_taken ''/'')] \<and>
      \<lparr>rt_path = Some ''/crew/items'', rt_name = ''items'', rt_owner = By_mod ''crew''\<rparr> \<in> set (as_routes app) \<and>
      as_events (run_shutdown_hooks res app) = [Started ''crew'']"
  by code_simp

section \<open>Booting\<close>

text \<open>What attaching settings never touches: the settings that are not named after a mod.\<close>

definition extends_config :: "config_state \<Rightarrow> config_state \<Rightarrow> bool" where
  "extends_config st st' \<longleftrightarrow>
     cs_enabled st' = cs_enabled st \<and> cs_data st' = cs_data st \<and> cs_db st' = cs_db st \<and>
     prefix (cs_registry st) (cs_registry st') \<and>
     (\<forall>key. \<not> prefix ''MOD_'' key \<longrightarrow> map_of (cs_app st') key = map_of (cs_app st) key)"

lemma extends_refl: "extends_config st st"
  by (simp add: extends_config_def)

lemma extends_trans: "extends_config a b \<Longrightarrow> extends_config b c \<Longrightarrow> extends_config a c"
  using prefix_order.trans[of "cs_registry a" "cs_registry b" "cs_registry c"] by (simp add: extends_config_def)

lemma new_entry_extends: "new_persistent_config env path v st = Inr (st', i) \<Longrightarrow> extends_config st st'"
  by (auto simp: new_persistent_config_def extends_config_def split: sum.splits)

lemma env_var_named: "prefix ''MOD_'' (env_var_for i k)"
  by (simp add: env_var_for_def upper_def upper_char_def code_def Let_def)

lemma build_entries_extends: "build_entries env i es built st = (st', r) \<Longrightarrow> extends_config st st'"
proof (induction es arbitrary: built st)
  case (Cons e es)
  show ?case
  proof (cases "new_persistent_config (env_var_for i (ce_key e)) (config_path_for i (ce_key e)) (config_default env i e) st")
    case (Inl x)
    then show ?thesis using Cons.prems extends_refl by simp
  next
    case (Inr p)
    obtain st1 k where p: "p = (st1, k)" by fastforce
    have "extends_config st1 st'" using Cons.prems by (intro Cons.IH) (simp add: Inr p)
    then show ?thesis using extends_trans new_entry_extends Inr p by blast
  qed
qed (simp add: extends_refl)

lemma set_entries_extends:
  "extends_config st (fold (\<lambda>(key, i). app_set_entry (env_var_for m key) i) built st)"
proof (induction built arbitrary: st)
  case (Cons p built)
  obtain key k where p: "p = (key, k)" by fastforce
  have "extends_config st (app_set_entry (env_var_for m key) k st)"
    using env_var_named[of m key] by (auto simp: app_set_entry_def extends_config_def update_conv')
  then show ?case using Cons.IH extends_trans by (simp add: p)
qed (simp add: extends_refl)

lemma attach_mod_config_extends: "attach_mod_config env m st = (st', r) \<Longrightarrow> extends_config st st'"
  using set_entries_extends build_entries_extends extends_trans
  by (fastforce simp: attach_mod_config_def build_mod_config_def split: prod.splits sum.splits)

lemma attach_configs_extends: "attach_configs env loaded (st, errors) = (st', errors') \<Longrightarrow> extends_config st st'"
proof (induction loaded arbitrary: st errors)
  case (Cons p loaded)
  obtain st1 r where r: "attach_mod_config env (lm_manifest (snd p)) st = (st1, r)" by fastforce
  from Cons.prems have "\<exists>es. attach_configs env loaded (st1, es) = (st', errors')"
    using r by (cases p; cases r) (auto simp: attach_configs_def)
  then show ?case using Cons.IH attach_mod_config_extends[OF r] extends_trans by blast
qed (simp add: attach_configs_def extends_refl)

lemma extends_get:
  assumes "extends_config st st'" and "map_of (cs_app st) key = Some k" and "k < length (cs_registry st)" and "\<not> prefix ''MOD_'' key"
  shows "app_get key st' = app_get key st" and "map_of (cs_app st') key = Some k" and "k < length (cs_registry st')"
  using assms by (auto simp: extends_config_def app_get_def prefix_def nth_append)

lemma app_set_value_get:
  assumes "app_set_value key v st = (st', Inr ())" and "map_of (cs_app st) key = Some k" and "k < length (cs_registry st)"
  shows "app_get key st' = Inr v"
  using assms by (auto simp: app_set_value_def save_entry_def app_get_def save_to_db_def Let_def split: if_splits sum.splits)

lemma load_mod_config:
  assumes "load_mod env m taken app = (app', taken', r)"
  shows "as_config app' = as_config app" and "r = Inr lm \<Longrightarrow> lm_manifest lm = m"
  using assms by (cases rule: load_mod_stages; force dest: attach_ws_keeps)+

lemma mem_alist_update: "p \<in> set (AList.update k v d) \<Longrightarrow> p = (k, v) \<or> p \<in> set d"
  by (induction d) (auto split: if_splits)

lemma load_all_config:
  assumes "load_all env ms taken app res = (app', taken', res')"
  shows "as_config app' = as_config app \<and> (\<forall>(i, lm)\<in>set (lr_loaded res'). (i, lm) \<in> set (lr_loaded res) \<or> lm_manifest lm \<in> set ms)"
  using assms
proof (induction ms arbitrary: taken app res)
  case (Cons m ms)
  obtain app1 taken1 r where l: "load_mod env m taken app = (app1, taken1, r)" by (metis prod_cases3)
  show ?case
  proof (cases r)
    case (Inl e)
    then show ?thesis using Cons.IH[of taken1 app1 "res\<lparr>lr_errors := lr_errors res @ [Disabled (mm_id m) e]\<rparr>"] Cons.prems l
        load_mod_config(1)[OF l] by fastforce
  next
    case (Inr lm)
    then show ?thesis using Cons.IH[of taken1 app1 "res\<lparr>lr_loaded := AList.update (mm_id m) lm (lr_loaded res)\<rparr>"] Cons.prems l
        load_mod_config(1)[OF l] load_mod_config(2)[OF l Inr] by (fastforce dest: mem_alist_update)
  qed
qed simp

lemma load_mods_config:
  assumes "load_mods env ms app = (app', res)"
  shows "as_config app' = as_config app" and "(i, lm) \<in> set (lr_loaded res) \<Longrightarrow> lm_manifest lm \<in> set ms"
  using assms load_all_config[of env ms "map (\<lambda>p. (p, Core)) (core_prefixes app)" app "\<lparr>lr_loaded = [], lr_errors = []\<rparr>"]
  by (auto simp: load_mods_def split: prod.splits)

lemma loaded_manifest_valid: "load_manifest src path v = Inr m \<Longrightarrow> validate_semantics m v = Inr ()"
  by (auto simp: load_manifest_def split: option.splits json.splits sum.splits)

lemma validate_directory: "validate_semantics (m\<lparr>mm_directory := x\<rparr>) v = validate_semantics m v"
  by (cases m, hypsubst) (unfold validate_semantics_def mod_manifest.select_convs mod_manifest.update_convs, rule refl)

lemma discovered_valid:
  assumes "m \<in> set (discovered_manifests (discover src resolve disk dirs ids v))"
  shows "validate_semantics m v = Inr ()"
proof -
  let ?f = "resolve_mod src resolve (fst (scan disk dirs)) v"
  let ?l = "dr_loaded (discover src resolve disk dirs ids v)"
  from assms obtain i where "i \<in> fst ` set ?l" "m = the (map_of ?l i)"
    by (auto simp: discovered_manifests_def loaded_ids_def)
  then have "(i, m) \<in> set ?l" using map_of_SomeD weak_map_of_SomeI by (fastforce simp: image_iff)
  then have "?f i = Inr m" by (simp add: discovered loaded_members)
  then show ?thesis
    by (auto simp: resolve_mod_installs validate_directory dest: loaded_manifest_valid split: list.splits sum.splits if_splits)
qed

definition declared_paths :: "(string \<times> loaded_mod) list \<Rightarrow> string list list" where
  "declared_paths loaded = concat (map (\<lambda>(i, lm). map (scope_segments \<circ> se_id) (mm_scopes (lm_manifest lm))) loaded)"

lemma seed_loaded_fold: "seed_loaded loaded d = fold seed_path (declared_paths loaded) d"
  by (induction loaded arbitrary: d) (auto simp: seed_loaded_def declared_paths_def seed_defaults_fold)

lemma declared_paths_rooted:
  assumes "\<And>i lm. (i, lm) \<in> set loaded \<Longrightarrow> validate_semantics (lm_manifest lm) v = Inr ()"
  shows "list_all (\<lambda>ks. hd ks = ''mods'') (declared_paths loaded)"
proof -
  have "hd (scope_segments (se_id s)) = ''mods''" if "(i, lm) \<in> set loaded" "s \<in> set (mm_scopes (lm_manifest lm))" for i lm s
    using that(2) validated(2)[OF assms[OF that(1)]] segments_in_namespace[OF _ valid_id_no_dot[OF validated(1)[OF assms[OF that(1)]]]]
    by (fastforce simp: list_all_iff)
  then show ?thesis by (auto simp: declared_paths_def list_all_iff)
qed

text \<open>
  C23: Booting grants nothing. If the boot with its mods succeeds, the permission check gives every user
  the answer it gave before, for every key that is not the parent of a scope a loaded mod declares;
  the settings of the mods, which are attached on the way, do not get in the way of the permissions.
\<close>

theorem booting_grants_nothing:
  assumes "boot_mods env dirs ids v app = (app', Inr res)"
    and "as_config app = Some st" and "map_of (cs_app st) ''USER_PERMISSIONS'' = Some k" and "k < length (cs_registry st)"
    and "app_get ''USER_PERMISSIONS'' st = Inr (JObj defaults)"
    and "list_all (\<lambda>ks. \<not> strict_prefix (scope_segments key) ks) (declared_paths (lr_loaded res))"
  shows "\<exists>defaults'. user_permissions app' = Inr (JObj defaults') \<and>
    has_permission d user key defaults' groups = has_permission d user key defaults groups \<and> as_mods app' = Some res"
proof -
  define found where "found = discover (be_source env) (be_resolve env) (be_disk env) dirs ids v"
  obtain app1 res0 where l: "load_mods (be_load env) (discovered_manifests found) app = (app1, res0)" by fastforce
  have cfg: "as_config app1 = Some st" using load_mods_config(1)[OF l] assms(2) by simp
  let ?errors = "map Not_discovered (dr_errors found) @ lr_errors res0"
  obtain st1 errors where a: "attach_configs (be_environ env) (lr_loaded res0) (st, ?errors) = (st1, errors)" by fastforce
  note ext = extends_get[OF attach_configs_extends[OF a] assms(3,4)]
  have perms: "app_get ''USER_PERMISSIONS'' st1 = Inr (JObj defaults)" using ext assms(5) by simp
  obtain st2 r where s: "seed_permissions (lr_loaded res0) st1 = (st2, r)" by fastforce
  have fin: "r = Inr ()" "app' = app1\<lparr>as_config := Some st2, as_mods := Some res\<rparr>" "lr_loaded res = lr_loaded res0"
    using assms(1) by (auto simp: boot_mods_def found_def[symmetric] l cfg a s Let_def split: sum.splits)
  have valid: "validate_semantics (lm_manifest lm) v = Inr ()" if "(i, lm) \<in> set (lr_loaded res0)" for i lm
    using load_mods_config(2)[OF l that] discovered_valid unfolding found_def by blast
  have "\<exists>d'. app_set_value ''USER_PERMISSIONS'' (JObj d') st1 = (st2, Inr ()) \<and> d' = seed_loaded (lr_loaded res0) defaults"
    using s fin(1) by (auto simp: seed_permissions_def perms permissions_dict_def seed_loaded_def split: if_splits)
  then have get: "app_get ''USER_PERMISSIONS'' st2 = Inr (JObj (seed_loaded (lr_loaded res0) defaults))"
    using app_set_value_get ext(2,3) by auto
  have "resolve_permission (JObj (seed_loaded (lr_loaded res0) defaults)) (scope_segments key) = resolve_permission (JObj defaults) (scope_segments key)"
    unfolding seed_loaded_fold using declared_paths_rooted[OF valid] assms(6) fin(3) by (intro seeded_resolve) auto
  then have "has_permission d user key (seed_loaded (lr_loaded res0) defaults) groups = has_permission d user key defaults groups"
    by (simp add: has_permission_def scope_segments_def)
  with get fin show ?thesis by (simp add: user_permissions_def)
qed

definition example_boot :: boot_env where
  "example_boot = \<lparr>be_source = \<lparr>ms_read = (\<lambda>p. Some (snd p)), ms_yaml = (\<lambda>s. Some (JObj [(''id'', JStr s)])),
       ms_schema = (\<lambda>d. case map_of d ''id'' of Some (JStr i) \<Rightarrow> Inr (example_mod i) | _ \<Rightarrow> Inl ''id'')\<rparr>,
     be_resolve = (\<lambda>p. fst p @ ''/'' @ snd p),
     be_disk = (\<lambda>p. if p = ''/mods'' then Some [\<lparr>de_name = ''crew'', de_is_dir = True, de_has_manifest = True\<rparr>] else None),
     be_environ = Map.empty, be_load = example_load_env\<rparr>"

definition example_settings :: config_state where
  "example_settings = \<lparr>cs_enabled = True, cs_data = [], cs_db = None,
     cs_registry = [\<lparr>pc_env_name = ''USER_PERMISSIONS'', pc_config_path = ''user.permissions'', pc_env_value = JObj [],
       pc_config_value = JNull, pc_value = JObj [(''chat'', JObj [(''delete'', JBool True)])]\<rparr>], cs_app = [(''USER_PERMISSIONS'', 0)]\<rparr>"

abbreviation booted :: "app_state \<times> load_result result" where
  "booted \<equiv> boot_mods example_boot [''/mods''] [''crew''] ''0.6.1'' (example_app\<lparr>as_config := Some example_settings\<rparr>)"

lemma booted_loads:
  "(case snd booted of Inr res \<Rightarrow> map fst (lr_loaded res) = [''crew''] \<and> lr_errors res = [] \<and>
      list_all (\<lambda>ks. \<not> strict_prefix (scope_segments ''mods.crew.read'') ks) (declared_paths (lr_loaded res)) | Inl _ \<Rightarrow> False)"
  by code_simp

theorem booting_grants_nothing_witness:
  "\<exists>res. snd booted = Inr res \<and> map fst (lr_loaded res) = [''crew''] \<and>
     (\<exists>defaults'. user_permissions (fst booted) = Inr (JObj defaults') \<and>
        has_permission Sqlite ''u'' ''mods.crew.read'' defaults' [] = False)"
proof -
  obtain res where res: "snd booted = Inr res" "map fst (lr_loaded res) = [''crew'']"
    "list_all (\<lambda>ks. \<not> strict_prefix (scope_segments ''mods.crew.read'') ks) (declared_paths (lr_loaded res))"
    using booted_loads by (cases "snd booted") simp_all
  have run: "booted = (fst booted, Inr res)" using res(1) by (metis prod.collapse)
  have cfg: "as_config (example_app\<lparr>as_config := Some example_settings\<rparr>) = Some example_settings" by simp
  have key: "map_of (cs_app example_settings) ''USER_PERMISSIONS'' = Some 0" "0 < length (cs_registry example_settings)"
    "app_get ''USER_PERMISSIONS'' example_settings = Inr (JObj [(''chat'', JObj [(''delete'', JBool True)])])"
    by (simp_all add: example_settings_def app_get_def)
  have no: "has_permission Sqlite ''u'' ''mods.crew.read'' [(''chat'', JObj [(''delete'', JBool True)])] [] = False" by code_simp
  show ?thesis
    using booting_grants_nothing[OF run cfg key res(3), of Sqlite "''u''" "[]"] res no by auto
qed

section \<open>The order of the routes\<close>

lemma filter_remove1: "P a \<Longrightarrow> filter P (remove1 a rs) = remove1 a (filter P rs)"
  by (induction rs) auto

lemma filter_remove1_other: "\<not> P a \<Longrightarrow> filter P (remove1 a rs) = filter P rs"
  by (induction rs) auto

lemma move_last:
  "filter P u = l \<Longrightarrow> fold (\<lambda>r rs. remove1 r rs @ [r]) l (u @ d) = filter (\<lambda>r. \<not> P r) u @ d @ l"
proof (induction l arbitrary: u d)
  case Nil
  then have "filter (\<lambda>r. \<not> P r) u = u" by (auto simp: filter_empty_conv filter_id_conv)
  then show ?case by simp
next
  case (Cons a l)
  have "a \<in> set (filter P u)" using Cons.prems by simp
  then have a: "P a" "a \<in> set u" by simp_all
  have "filter P (remove1 a u) = l" using a(1) Cons.prems by (simp add: filter_remove1)
  from Cons.IH[OF this, of "d @ [a]"] show ?case using a by (simp add: remove1_append filter_remove1_other)
qed

text \<open>
  The page that catches every path comes last. Moving it after the mods were mounted leaves every
  other route where it was, in the same order, in front of it.
\<close>

theorem catch_all_comes_last:
  "as_routes (move_spa_mount_last app) =
     filter (\<lambda>r. rt_name r \<noteq> ''spa-static-files'') (as_routes app) @ filter (\<lambda>r. rt_name r = ''spa-static-files'') (as_routes app)"
  using move_last[of "\<lambda>r. rt_name r = ''spa-static-files''" "as_routes app" _ "[]"] by (simp add: move_spa_mount_last_def)

section \<open>What the frontend manifest points at\<close>

definition plain_files :: "file_system \<Rightarrow> string list \<Rightarrow> bool" where
  "plain_files fs base \<longleftrightarrow>
     (\<forall>entries name mtime. fs_list fs base = Some entries \<longrightarrow> (name, True, mtime) \<in> set entries \<longrightarrow>
        fs_is_file fs (base @ [name]) \<and> fs_resolve fs (path_text base @ ''/'' @ name) = base @ [name])"

lemma bundle_suffix:
  assumes "BUNDLE_ENTRY_GLOB name"
  shows "path_suffix name = ''.js''" and "\<not> prefix ''/'' name"
proof -
  obtain pre where pre: "drop 6 name = pre @ ''.js''" using assms by (auto simp: BUNDLE_ENTRY_GLOB_def suffix_def)
  obtain rest where rest: "name = ''entry.'' @ rest" using assms by (auto simp: BUNDLE_ENTRY_GLOB_def prefix_def)
  have name: "name = (''entry.'' @ pre) @ ''.js''" using pre rest by simp
  have "rev name = ''sj.'' @ rev (''entry.'' @ pre)" by (simp only: name rev_append) simp
  then have "takeWhile (\<lambda>c. c \<noteq> CHR ''.'') (rev name) = ''sj''" by simp
  then show "path_suffix name = ''.js''" by (simp add: path_suffix_def name)
  show "\<not> prefix ''/'' name" by (simp add: name)
qed

text \<open>
  The frontend manifest never points at a missing file. Where the manifest of a loaded mod names a
  bundle, asking for that bundle at the asset surface of the mod returns the file in the directory
  of the mod, provided the files listed there are regular files and no links.
\<close>

theorem manifest_points_at_a_served_file:
  assumes "serve_frontend_manifest fs i app = Inr fm" and "fm_bundle_url fm = Some url"
    and "find_loaded app i = Some lm" and "mm_directory (lm_manifest lm) = Some dir" and "plain_files fs (fs_resolve fs dir)"
  shows "\<exists>entry. url = ''/static/mods/'' @ i @ ''/'' @ entry \<and> serve_mod_asset fs i entry app = Inr (fs_resolve fs dir @ [entry])"
proof -
  obtain entry where e: "discover_bundle_entry fs dir = Some entry" "url = ''/static/mods/'' @ i @ ''/'' @ entry"
    using assms(1-4) by (auto simp: serve_frontend_manifest_def Let_def split: if_splits option.splits)
  obtain entries x xs where l: "fs_list fs (fs_resolve fs dir) = Some entries"
    "filter (\<lambda>(name, is_file, mtime). BUNDLE_ENTRY_GLOB name \<and> is_file) entries = x # xs"
    "entry = fst (max_by (\<lambda>(name, is_file, mtime). mtime) x xs)"
    using e(1) by (auto simp: discover_bundle_entry_def split: option.splits list.splits)
  obtain e' flag mtime where best: "max_by (\<lambda>(name, is_file, mtime). mtime) x xs = (e', flag, mtime)" by (metis prod_cases3)
  have "(e', flag, mtime) \<in> set (x # xs)" using max_by_mem[of "\<lambda>(name, is_file, mtime). mtime" x xs] best by simp
  then have "(e', flag, mtime) \<in> set (filter (\<lambda>(name, is_file, mtime). BUNDLE_ENTRY_GLOB name \<and> is_file) entries)" by (simp only: l(2))
  then have m: "(entry, True, mtime) \<in> set entries" "BUNDLE_ENTRY_GLOB entry" using l(3) best by auto
  have f: "fs_is_file fs (fs_resolve fs dir @ [entry])" "fs_resolve fs (path_text (fs_resolve fs dir) @ ''/'' @ entry) = fs_resolve fs dir @ [entry]"
    using assms(5) l(1) m(1) unfolding plain_files_def by blast+
  have s: "lower ''.js'' \<in> set SERVABLE_ASSET_SUFFIXES" by code_simp
  have "resolve_mod_asset fs dir entry = Inr (fs_resolve fs dir @ [entry])"
    using f s bundle_suffix[OF m(2)] by (simp add: resolve_mod_asset_def path_join_def is_servable_asset_def file_name_def Let_def)
  then show ?thesis using e(2) assms(3,4) by (simp add: serve_mod_asset_def)
qed

definition example_files :: file_system where
  "example_files = \<lparr>fs_resolve = (\<lambda>p. tl (split_on (CHR ''/'') p)), fs_is_file = (\<lambda>p. True),
     fs_list = (\<lambda>p. if p = [''mods'', ''crew''] then Some [(''entry.b2.js'', True, 7), (''entry.a1.js'', True, 3)] else None)\<rparr>"

definition example_frontend_app :: app_state where
  "example_frontend_app = example_app\<lparr>as_mods := Some \<lparr>lr_loaded = [(''crew'', (example_loaded ''crew'')\<lparr>lm_manifest :=
     (example_mod ''crew'')\<lparr>mm_directory := Some ''/mods/crew'', mm_frontend := Some \<lparr>fb_bundle_url = [], fb_view = [], fb_label = [],
       fb_icon = [], fb_add_to_nav = True, fb_scopes = [''mods.crew.read''], fb_tag = None\<rparr>\<rparr>\<rparr>)], lr_errors = []\<rparr>\<rparr>"

theorem manifest_points_at_a_served_file_witness:
  "serve_mod_asset example_files ''crew'' ''entry.b2.js'' example_frontend_app = Inr [''mods'', ''crew'', ''entry.b2.js'']"
proof -
  have res: "fs_resolve example_files ''/mods/crew'' = [''mods'', ''crew'']" by code_simp
  have pl: "plain_files example_files (fs_resolve example_files ''/mods/crew'')"
    unfolding res by (auto simp: plain_files_def example_files_def path_text_def)
  have m: "serve_frontend_manifest example_files ''crew'' example_frontend_app =
      Inr \<lparr>fm_mod_id = ''crew'', fm_tag = Some ''mod-crew'', fm_status = ''ok'', fm_bundle_url = Some ''/static/mods/crew/entry.b2.js''\<rparr>"
    by code_simp
  obtain lm where lm: "find_loaded example_frontend_app ''crew'' = Some lm" "mm_directory (lm_manifest lm) = Some ''/mods/crew''"
    by (simp add: find_loaded_def example_frontend_app_def)
  show ?thesis using manifest_points_at_a_served_file[OF m _ lm pl] res by auto
qed

end
