(* ===== verification/Chat_Streams.thy ===== *)
theory Chat_Streams
  imports Selfai_Prelude "HOL-Library.AList" "HOL-Library.Sublist"
begin

text \<open>
  The translation of streamed answers between the OpenAI and the Anthropic form (\<open>utils/response.py\<close>).
  A stream arrives as pieces of text that are cut anywhere; a line reader collects them and hands
  every complete line to a translator, a state machine that answers with frames. The frames are data
  here; writing one as text is the JSON printer, a parameter like the JSON parser (\<open>json.loads\<close>).
  Identifiers the code draws at random are parameters too.

  A raised exception ends a stream (\<open>Raised\<close>); the frames sent before it stay sent.

  The lemmas show that how a stream is cut into pieces never matters, that the Anthropic stream the
  server sends is always bracketed the way the protocol wants and always ends, unless tool calls are
  interleaved, and that no text and no tool argument is lost or reordered.
\<close>

section \<open>Lines of a stream\<close>

datatype halt = Running | Returned | Raised py_exn

text \<open>\<open>while "\n" in buffer\<close>: the complete lines are handled in order, until the translator stops.\<close>

fun run_lines :: "('s \<Rightarrow> string \<Rightarrow> 's \<times> 'o list \<times> halt) \<Rightarrow> 's \<Rightarrow> string list \<Rightarrow> 's \<times> 'o list \<times> halt" where
  "run_lines step s [] = (s, [], Running)"
| "run_lines step s (l # ls) =
     (case step s l of
        (s', out, Running) \<Rightarrow> (case run_lines step s' ls of (s'', out', h) \<Rightarrow> (s'', out @ out', h))
      | (s', out, h) \<Rightarrow> (s', out, h))"

definition NEWLINE :: char where
  "NEWLINE = char_of (10 :: nat)"

fun run_pieces ::
    "('s \<Rightarrow> string \<Rightarrow> 's \<times> 'o list \<times> halt) \<Rightarrow> 's \<Rightarrow> string \<Rightarrow> string list \<Rightarrow> 's \<times> 'o list \<times> halt" where
  "run_pieces step s buffer [] = (s, [], Running)"
| "run_pieces step s buffer (raw # raws) =
     (let parts = split_on NEWLINE (buffer @ raw)
      in case run_lines step s (butlast parts) of
           (s', out, Running) \<Rightarrow> (case run_pieces step s' (last parts) raws of (s'', out', h) \<Rightarrow> (s'', out @ out', h))
         | (s', out, h) \<Rightarrow> (s', out, h))"

section \<open>Reading untyped values\<close>

definition json_get :: "string \<Rightarrow> json \<Rightarrow> json option result" where
  "json_get k v = (case v of JObj kvs \<Rightarrow> Inr (map_of kvs k) | _ \<Rightarrow> Inl AttributeError)"

text \<open>\<open>v.get(k) or default\<close>.\<close>

definition json_get_or :: "string \<Rightarrow> json \<Rightarrow> json \<Rightarrow> json result" where
  "json_get_or k v d =
     (case json_get k v of
        Inl e \<Rightarrow> Inl e
      | Inr None \<Rightarrow> Inr d
      | Inr (Some x) \<Rightarrow> Inr (if json_truthy x then x else d))"

text \<open>\<open>v.get(k, default)\<close>.\<close>

definition json_get_default :: "string \<Rightarrow> json \<Rightarrow> json \<Rightarrow> json result" where
  "json_get_default k v d = (case json_get k v of Inl e \<Rightarrow> Inl e | Inr None \<Rightarrow> Inr d | Inr (Some x) \<Rightarrow> Inr x)"

text \<open>A value as a dict key: numbers that are equal are the same key; lists and dicts are none.\<close>

definition dict_key :: "json \<Rightarrow> json result" where
  "dict_key v =
     (case v of
        JList _ \<Rightarrow> Inl TypeError
      | JObj _ \<Rightarrow> Inl TypeError
      | JBool b \<Rightarrow> Inr (JInt (if b then 1 else 0))
      | JFloat q \<Rightarrow> Inr (if q = of_int \<lfloor>q\<rfloor> then JInt \<lfloor>q\<rfloor> else v)
      | _ \<Rightarrow> Inr v)"

text \<open>\<open>xs[0]\<close> and \<open>for x in xs\<close>; a string gives its characters and a dict its keys.\<close>

definition first_item :: "json \<Rightarrow> json result" where
  "first_item v =
     (case v of
        JList (x # xs) \<Rightarrow> Inr x
      | JStr (c # cs) \<Rightarrow> Inr (JStr [c])
      | JObj _ \<Rightarrow> Inl KeyError
      | _ \<Rightarrow> Inl TypeError)"

definition json_items :: "json \<Rightarrow> json list result" where
  "json_items v =
     (case v of
        JList xs \<Rightarrow> Inr xs
      | JStr s \<Rightarrow> Inr (map (\<lambda>c. JStr [c]) s)
      | JObj kvs \<Rightarrow> Inr (map (\<lambda>(k, x). JStr k) kvs)
      | _ \<Rightarrow> Inl TypeError)"

text \<open>\<open>d.update(v)\<close>, with anything that is no dict refused.\<close>

definition dict_update :: "(string \<times> json) list \<Rightarrow> json \<Rightarrow> (string \<times> json) list result" where
  "dict_update d v = (case v of JObj kvs \<Rightarrow> Inr (fold (\<lambda>(k, x). AList.update k x) kvs d) | _ \<Rightarrow> Inl TypeError)"

section \<open>From OpenAI to Anthropic\<close>

definition OPENAI_FINISH_REASON_MAP :: "(string \<times> string) list" where
  "OPENAI_FINISH_REASON_MAP = [(''stop'', ''end_turn''), (''length'', ''max_tokens''), (''tool_calls'', ''tool_use''),
     (''function_call'', ''tool_use''), (''content_filter'', ''refusal'')]"

definition number_or_0 :: "json option \<Rightarrow> json" where
  "number_or_0 v = (case v of None \<Rightarrow> JInt 0 | Some x \<Rightarrow> if json_truthy x then x else JInt 0)"

definition copy_fields :: "string list \<Rightarrow> (string \<times> json) list \<Rightarrow> (string \<times> json) list" where
  "copy_fields fields d = List.map_filter (\<lambda>f. map_option (\<lambda>v. (f, v)) (map_of d f)) fields"

definition CACHE_FIELDS :: "string list" where
  "CACHE_FIELDS = [''cache_creation_input_tokens'', ''cache_read_input_tokens'']"

definition openai_usage_to_anthropic :: "(string \<times> json) list \<Rightarrow> (string \<times> json) list" where
  "openai_usage_to_anthropic usage =
     [(''input_tokens'', number_or_0 (map_of usage ''prompt_tokens'')),
      (''output_tokens'', number_or_0 (map_of usage ''completion_tokens''))] @ copy_fields CACHE_FIELDS usage"

datatype block_kind = Text_block | Tool_block json json

datatype block_delta = Text_delta json | Input_json_delta json

datatype frame =
    Message_start json
  | Block_start nat block_kind
  | Block_delta nat block_delta
  | Block_stop nat
  | Message_delta string "(string \<times> json) list"
  | Message_stop

record a_stream =
  st_model :: json
  st_started :: bool
  st_next :: nat
  st_open :: "string option"
  st_tool_block :: "(json \<times> nat) list"
  st_stop :: string
  st_usage :: "(string \<times> json) list"

definition initial_stream :: "string option \<Rightarrow> a_stream" where
  "initial_stream model =
     \<lparr>st_model = JStr (case nonempty model of None \<Rightarrow> ''self-ai'' | Some m \<Rightarrow> m), st_started = False, st_next = 0,
      st_open = None, st_tool_block = [], st_stop = ''end_turn'', st_usage = []\<rparr>"

definition start_message :: "a_stream \<Rightarrow> a_stream \<times> frame list" where
  "start_message st = (if st_started st then (st, []) else (st\<lparr>st_started := True\<rparr>, [Message_start (st_model st)]))"

definition emit_text :: "json \<Rightarrow> a_stream \<Rightarrow> a_stream \<times> frame list" where
  "emit_text text st =
     (let closing = (if st_open st = Some ''tool_use'' then [Block_stop (st_next st - 1)] else []);
          op = (if st_open st = Some ''tool_use'' then None else st_open st)
      in if op = None
         then (st\<lparr>st_open := Some ''text'', st_next := st_next st + 1\<rparr>,
               closing @ [Block_start (st_next st) Text_block, Block_delta (st_next st) (Text_delta text)])
         else (st, closing @ [Block_delta (st_next st - 1) (Text_delta text)]))"

text \<open>\<open>toolu\<close> stands for the random identifier of a call that came without one.\<close>

definition open_call :: "(nat \<Rightarrow> string) \<Rightarrow> json \<Rightarrow> json \<Rightarrow> json \<Rightarrow> a_stream \<Rightarrow> a_stream \<times> frame list" where
  "open_call toolu key call_id name st =
     (if map_of (st_tool_block st) key \<noteq> None then (st, [])
      else (st\<lparr>st_tool_block := AList.update key (st_next st) (st_tool_block st), st_open := Some ''tool_use'',
               st_next := st_next st + 1\<rparr>,
            (if st_open st \<noteq> None then [Block_stop (st_next st - 1)] else []) @
            [Block_start (st_next st) (Tool_block (if json_truthy call_id then call_id else JStr (toolu (st_next st))) name)]))"

text \<open>What the code reads of a call: its key, its id and its function.\<close>

record call_delta =
  cd_key :: json
  cd_id :: json
  cd_function :: json

definition or_null :: "json option \<Rightarrow> json" where
  "or_null v = (case v of None \<Rightarrow> JNull | Some x \<Rightarrow> x)"

definition read_call :: "json \<Rightarrow> call_delta result" where
  "read_call call =
     (case (json_get_default ''index'' call (JInt 0), json_get_or ''function'' call (JObj []), json_get ''id'' call) of
        (Inr index, Inr f, Inr i) \<Rightarrow>
          (case dict_key index of Inl e \<Rightarrow> Inl e | Inr key \<Rightarrow> Inr \<lparr>cd_key = key, cd_id = or_null i, cd_function = f\<rparr>)
      | _ \<Rightarrow> Inl AttributeError)"

definition cd_arguments :: "call_delta \<Rightarrow> json" where
  "cd_arguments c = (case json_get ''arguments'' (cd_function c) of Inr a \<Rightarrow> or_null a | Inl _ \<Rightarrow> JNull)"

text \<open>A function that is no dict raises when its name is read, after the open block was closed, or when its arguments are.\<close>

definition emit_call :: "(nat \<Rightarrow> string) \<Rightarrow> call_delta \<Rightarrow> a_stream \<Rightarrow> a_stream \<times> frame list \<times> halt" where
  "emit_call toolu c st =
     (case json_get ''name'' (cd_function c) of
        Inl e \<Rightarrow> (st, if map_of (st_tool_block st) (cd_key c) = None \<and> st_open st \<noteq> None then [Block_stop (st_next st - 1)] else [], Raised e)
      | Inr name \<Rightarrow>
          (let (st1, out) = open_call toolu (cd_key c) (cd_id c) (or_null name) st
           in (st1, out @ (if json_truthy (cd_arguments c)
                           then [Block_delta (the (map_of (st_tool_block st1) (cd_key c))) (Input_json_delta (cd_arguments c))] else []),
               Running)))"

fun emit_calls :: "(nat \<Rightarrow> string) \<Rightarrow> json list \<Rightarrow> a_stream \<Rightarrow> a_stream \<times> frame list \<times> halt" where
  "emit_calls toolu [] st = (st, [], Running)"
| "emit_calls toolu (x # xs) st =
     (case read_call x of
        Inl e \<Rightarrow> (st, [], Raised e)
      | Inr c \<Rightarrow>
          (case emit_call toolu c st of
             (st1, out, Running) \<Rightarrow> (case emit_calls toolu xs st1 of (st2, out', h) \<Rightarrow> (st2, out @ out', h))
           | (st1, out, h) \<Rightarrow> (st1, out, h)))"

definition finish_choice :: "json \<Rightarrow> a_stream \<Rightarrow> a_stream \<times> halt" where
  "finish_choice choice st =
     (case json_get ''finish_reason'' choice of
        Inl e \<Rightarrow> (st, Raised e)
      | Inr r \<Rightarrow>
          if \<not> json_truthy (or_null r) then (st, Running)
          else (case or_null r of
                  JStr s \<Rightarrow> (st\<lparr>st_stop := (case map_of OPENAI_FINISH_REASON_MAP s of None \<Rightarrow> ''end_turn'' | Some t \<Rightarrow> t)\<rparr>, Running)
                | JList _ \<Rightarrow> (st, Raised TypeError)
                | JObj _ \<Rightarrow> (st, Raised TypeError)
                | _ \<Rightarrow> (st\<lparr>st_stop := ''end_turn''\<rparr>, Running)))"

definition emit_delta :: "(nat \<Rightarrow> string) \<Rightarrow> json \<Rightarrow> json \<Rightarrow> a_stream \<Rightarrow> a_stream \<times> frame list \<times> halt" where
  "emit_delta toolu choice delta st =
     (case json_get ''content'' delta of
        Inl e \<Rightarrow> (st, [], Raised e)
      | Inr content \<Rightarrow>
          (let (st1, out1) = (if json_truthy (or_null content) then emit_text (or_null content) st else (st, []))
           in case json_get_or ''tool_calls'' delta (JList []) of
                Inl e \<Rightarrow> (st1, out1, Raised e)
              | Inr calls \<Rightarrow>
                  (case json_items calls of
                     Inl e \<Rightarrow> (st1, out1, Raised e)
                   | Inr xs \<Rightarrow>
                       (case emit_calls toolu xs st1 of
                          (st2, out2, Running) \<Rightarrow> (case finish_choice choice st2 of (st3, h) \<Rightarrow> (st3, out1 @ out2, h))
                        | (st2, out2, h) \<Rightarrow> (st2, out1 @ out2, h)))))"

text \<open>A chunk before its delta: the model it names, its usage, its first choice.\<close>

definition read_chunk :: "string option \<Rightarrow> json \<Rightarrow> a_stream \<Rightarrow> (a_stream \<times> json \<times> json) result" where
  "read_chunk model chunk st =
     (case json_get ''model'' chunk of
        Inl e \<Rightarrow> Inl e
      | Inr m \<Rightarrow>
          (let st1 = (if model = None \<and> json_truthy (or_null m) then st\<lparr>st_model := or_null m\<rparr> else st)
           in case json_get ''usage'' chunk of
                Inl e \<Rightarrow> Inl e
              | Inr u \<Rightarrow>
                  (case (if json_truthy (or_null u) then dict_update (st_usage st1) (or_null u) else Inr (st_usage st1)) of
                     Inl e \<Rightarrow> Inl e
                   | Inr usage \<Rightarrow>
                       (case json_get_or ''choices'' chunk (JList [JObj []]) of
                          Inl e \<Rightarrow> Inl e
                        | Inr choices \<Rightarrow>
                            (case first_item choices of
                               Inl e \<Rightarrow> Inl e
                             | Inr choice \<Rightarrow>
                                 (case json_get_or ''delta'' choice (JObj []) of
                                    Inl e \<Rightarrow> Inl e
                                  | Inr delta \<Rightarrow> Inr (st1\<lparr>st_usage := usage\<rparr>, choice, delta)))))))"

definition openai_chunk :: "(nat \<Rightarrow> string) \<Rightarrow> string option \<Rightarrow> json \<Rightarrow> a_stream \<Rightarrow> a_stream \<times> frame list \<times> halt" where
  "openai_chunk toolu model chunk st =
     (case read_chunk model chunk st of
        Inl e \<Rightarrow> (st, [], Raised e)
      | Inr (st1, choice, delta) \<Rightarrow>
          (let (st2, out) = start_message st1; (st3, out', h) = emit_delta toolu choice delta st2
           in (st3, out @ out', h)))"

text \<open>The payload of a line; \<open>None\<close> for a line that carries none.\<close>

definition payload_of :: "string \<Rightarrow> string option" where
  "payload_of line =
     (let l = py_strip line
      in if \<not> prefix ''data:'' l then None
         else let p = py_strip (drop 5 l) in if p = [] then None else Some p)"

definition openai_line ::
    "(string \<Rightarrow> json option) \<Rightarrow> (nat \<Rightarrow> string) \<Rightarrow> string option \<Rightarrow> a_stream \<Rightarrow> string \<Rightarrow> a_stream \<times> frame list \<times> halt" where
  "openai_line loads toolu model st line =
     (case payload_of line of
        None \<Rightarrow> (st, [], Running)
      | Some p \<Rightarrow>
          if p = ''[DONE]'' then (st, [], Running)
          else case loads p of None \<Rightarrow> (st, [], Running) | Some chunk \<Rightarrow> openai_chunk toolu model chunk st)"

definition finish_stream :: "a_stream \<Rightarrow> frame list" where
  "finish_stream st =
     snd (start_message st) @ (if st_open st \<noteq> None then [Block_stop (st_next st - 1)] else []) @
     [Message_delta (st_stop st) (openai_usage_to_anthropic (st_usage st)), Message_stop]"

definition convert_streaming_response_openai_to_anthropic ::
    "(string \<Rightarrow> json option) \<Rightarrow> (nat \<Rightarrow> string) \<Rightarrow> string option \<Rightarrow> string list \<Rightarrow> frame list \<times> halt" where
  "convert_streaming_response_openai_to_anthropic loads toolu model raws =
     (case run_pieces (openai_line loads toolu model) (initial_stream model) [] raws of
        (st, out, Running) \<Rightarrow> (out @ finish_stream st, Running)
      | (st, out, h) \<Rightarrow> (out, h))"

section \<open>From Anthropic to OpenAI\<close>

definition ANTHROPIC_STOP_REASON_MAP :: "(string \<times> string) list" where
  "ANTHROPIC_STOP_REASON_MAP = [(''end_turn'', ''stop''), (''stop_sequence'', ''stop''), (''max_tokens'', ''length''),
     (''tool_use'', ''tool_calls''), (''pause_turn'', ''stop''), (''refusal'', ''content_filter'')]"

text \<open>\<open>a + b\<close> on the values a usage block can hold.\<close>

fun as_number :: "json \<Rightarrow> json" where
  "as_number (JBool b) = JInt (if b then 1 else 0)"
| "as_number v = v"

fun add_values :: "json \<Rightarrow> json \<Rightarrow> json result" where
  "add_values (JInt a) (JInt b) = Inr (JInt (a + b))"
| "add_values (JFloat a) (JFloat b) = Inr (JFloat (a + b))"
| "add_values (JInt a) (JFloat b) = Inr (JFloat (of_int a + b))"
| "add_values (JFloat a) (JInt b) = Inr (JFloat (a + of_int b))"
| "add_values (JStr a) (JStr b) = Inr (JStr (a @ b))"
| "add_values (JList a) (JList b) = Inr (JList (a @ b))"
| "add_values _ _ = Inl TypeError"

definition json_add :: "json \<Rightarrow> json \<Rightarrow> json result" where
  "json_add a b = add_values (as_number a) (as_number b)"

definition anthropic_usage_to_openai :: "(string \<times> json) list \<Rightarrow> (string \<times> json) list result" where
  "anthropic_usage_to_openai usage =
     (let p = number_or_0 (map_of usage ''input_tokens''); c = number_or_0 (map_of usage ''output_tokens'')
      in case json_add p c of
           Inl e \<Rightarrow> Inl e
         | Inr t \<Rightarrow> Inr ([(''prompt_tokens'', p), (''completion_tokens'', c), (''total_tokens'', t)] @ copy_fields CACHE_FIELDS usage))"

datatype chunk_delta =
    Role_delta
  | Content_delta json
  | Reasoning_delta json
  | Call_start nat json json
  | Call_arguments nat json
  | Error_delta json
  | Empty_delta

datatype o_frame =
    Chunk json chunk_delta "string option" "(string \<times> json) list option"
  | Done

record o_stream =
  os_model :: json
  os_usage :: "(string \<times> json) list"
  os_finish :: "string option"
  os_tools :: "(json \<times> nat) list"
  os_next :: nat

definition initial_o_stream :: o_stream where
  "initial_o_stream = \<lparr>os_model = JStr ''anthropic'', os_usage = [], os_finish = None, os_tools = [], os_next = 0\<rparr>"

definition update_usage :: "json option \<Rightarrow> o_stream \<Rightarrow> o_stream result" where
  "update_usage u st =
     (if json_truthy (or_null u)
      then case dict_update (os_usage st) (or_null u) of Inl e \<Rightarrow> Inl e | Inr d \<Rightarrow> Inr (st\<lparr>os_usage := d\<rparr>)
      else Inr st)"

definition raises :: "'s \<Rightarrow> py_exn \<Rightarrow> 's \<times> 'o list \<times> halt" where
  "raises st e = (st, [], Raised e)"

definition on_message_start :: "json \<Rightarrow> o_stream \<Rightarrow> o_stream \<times> o_frame list \<times> halt" where
  "on_message_start event st =
     (case json_get_default ''message'' event (JObj []) of
        Inl e \<Rightarrow> raises st e
      | Inr message \<Rightarrow>
          (case (json_get_default ''model'' message (os_model st), json_get ''usage'' message) of
             (Inr model, Inr u) \<Rightarrow>
               (case update_usage u (st\<lparr>os_model := model\<rparr>) of
                  Inl e \<Rightarrow> raises st e
                | Inr st1 \<Rightarrow> (st1, [Chunk (os_model st1) Role_delta None None], Running))
           | _ \<Rightarrow> raises st AttributeError))"

definition on_block_start :: "json \<Rightarrow> o_stream \<Rightarrow> o_stream \<times> o_frame list \<times> halt" where
  "on_block_start event st =
     (case json_get_default ''content_block'' event (JObj []) of
        Inl e \<Rightarrow> raises st e
      | Inr (JObj block) \<Rightarrow>
          if map_of block ''type'' \<noteq> Some (JStr ''tool_use'') then (st, [], Running)
          else (case json_get_default ''index'' event (JInt 0) of
                  Inl e \<Rightarrow> raises st e
                | Inr index \<Rightarrow>
                    (case dict_key index of
                       Inl e \<Rightarrow> raises st e
                     | Inr key \<Rightarrow>
                         (st\<lparr>os_tools := AList.update key (os_next st) (os_tools st), os_next := os_next st + 1\<rparr>,
                          [Chunk (os_model st) (Call_start (os_next st) (or_null (map_of block ''id'')) (or_null (map_of block ''name''))) None None],
                          Running)))
      | Inr _ \<Rightarrow> raises st AttributeError)"

definition on_block_delta :: "json \<Rightarrow> o_stream \<Rightarrow> o_stream \<times> o_frame list \<times> halt" where
  "on_block_delta event st =
     (case json_get_default ''delta'' event (JObj []) of
        Inl e \<Rightarrow> raises st e
      | Inr (JObj d) \<Rightarrow>
          (let field = (\<lambda>k. or_null (map_of d k)); kind = map_of d ''type''
           in if kind = Some (JStr ''text_delta'')
              then (st, if json_truthy (field ''text'') then [Chunk (os_model st) (Content_delta (field ''text'')) None None] else [], Running)
              else if kind = Some (JStr ''thinking_delta'')
              then (st, if json_truthy (field ''thinking'') then [Chunk (os_model st) (Reasoning_delta (field ''thinking'')) None None] else [], Running)
              else if kind = Some (JStr ''input_json_delta'')
              then (case json_get_default ''index'' event (JInt 0) of
                      Inl e \<Rightarrow> raises st e
                    | Inr index \<Rightarrow>
                        (case dict_key index of
                           Inl e \<Rightarrow> raises st e
                         | Inr key \<Rightarrow>
                             (case map_of (os_tools st) key of
                                None \<Rightarrow> (st, [], Running)
                              | Some i \<Rightarrow>
                                  (st, if json_truthy (field ''partial_json'')
                                       then [Chunk (os_model st) (Call_arguments i (field ''partial_json'')) None None] else [], Running))))
              else (st, [], Running))
      | Inr _ \<Rightarrow> raises st AttributeError)"

definition on_message_delta :: "json \<Rightarrow> o_stream \<Rightarrow> o_stream \<times> o_frame list \<times> halt" where
  "on_message_delta event st =
     (case json_get_default ''delta'' event (JObj []) of
        Inr (JObj d) \<Rightarrow>
          (let reason = or_null (map_of d ''stop_reason'');
               set = (\<lambda>s. st\<lparr>os_finish := Some s\<rparr>)
           in case (if \<not> json_truthy reason then Inr st
                    else case reason of
                           JStr s \<Rightarrow> Inr (set (case map_of ANTHROPIC_STOP_REASON_MAP s of None \<Rightarrow> ''stop'' | Some t \<Rightarrow> t))
                         | JList _ \<Rightarrow> Inl TypeError
                         | JObj _ \<Rightarrow> Inl TypeError
                         | _ \<Rightarrow> Inr (set ''stop'')) of
                Inl e \<Rightarrow> raises st e
              | Inr st1 \<Rightarrow>
                  (case json_get ''usage'' event of
                     Inl e \<Rightarrow> raises st1 e
                   | Inr u \<Rightarrow> (case update_usage u st1 of Inl e \<Rightarrow> raises st1 e | Inr st2 \<Rightarrow> (st2, [], Running))))
      | _ \<Rightarrow> raises st AttributeError)"

definition on_error :: "json \<Rightarrow> o_stream \<Rightarrow> o_stream \<times> o_frame list \<times> halt" where
  "on_error event st =
     (case json_get_default ''error'' event (JObj []) of
        Inl e \<Rightarrow> raises st e
      | Inr err \<Rightarrow>
          (case json_get_default ''message'' err (JStr ''Anthropic stream error'') of
             Inl e \<Rightarrow> raises st e
           | Inr m \<Rightarrow> (st, [Chunk (os_model st) (Error_delta m) (Some ''stop'') None, Done], Returned)))"

definition on_message_stop :: "o_stream \<Rightarrow> o_stream \<times> o_frame list \<times> halt" where
  "on_message_stop st =
     (let reason = (case os_finish st of None \<Rightarrow> ''stop'' | Some r \<Rightarrow> r)
      in if os_usage st = [] then (st, [Chunk (os_model st) Empty_delta (Some reason) None], Running)
         else case anthropic_usage_to_openai (os_usage st) of
                Inl e \<Rightarrow> raises st e
              | Inr u \<Rightarrow> (st, [Chunk (os_model st) Empty_delta (Some reason) (Some u)], Running))"

definition anthropic_event :: "json \<Rightarrow> o_stream \<Rightarrow> o_stream \<times> o_frame list \<times> halt" where
  "anthropic_event event st =
     (case json_get ''type'' event of
        Inl e \<Rightarrow> raises st e
      | Inr t \<Rightarrow>
          if t = Some (JStr ''message_start'') then on_message_start event st
          else if t = Some (JStr ''content_block_start'') then on_block_start event st
          else if t = Some (JStr ''content_block_delta'') then on_block_delta event st
          else if t = Some (JStr ''message_delta'') then on_message_delta event st
          else if t = Some (JStr ''error'') then on_error event st
          else if t = Some (JStr ''message_stop'') then on_message_stop st
          else (st, [], Running))"

definition anthropic_line :: "(string \<Rightarrow> json option) \<Rightarrow> o_stream \<Rightarrow> string \<Rightarrow> o_stream \<times> o_frame list \<times> halt" where
  "anthropic_line loads st line =
     (case payload_of line of
        None \<Rightarrow> (st, [], Running)
      | Some p \<Rightarrow> (case loads p of None \<Rightarrow> (st, [], Running) | Some event \<Rightarrow> anthropic_event event st))"

definition convert_streaming_response_anthropic_to_openai :: "(string \<Rightarrow> json option) \<Rightarrow> string list \<Rightarrow> o_frame list \<times> halt" where
  "convert_streaming_response_anthropic_to_openai loads raws =
     (case run_pieces (anthropic_line loads) initial_o_stream [] raws of
        (st, out, Running) \<Rightarrow> (out @ [Done], Running)
      | (st, out, h) \<Rightarrow> (out, h))"

section \<open>A stream may be cut anywhere\<close>

lemma split_on_cut:
  "split_on q (s @ t) = butlast (split_on q s) @ split_on q (last (split_on q s) @ t)"
proof (induction q s rule: split_on.induct)
  case (2 q c cs)
  have "split_on q cs \<noteq> []" by simp
  then show ?case using 2 by (cases "split_on q cs") (auto split: list.splits)
qed simp

lemma run_lines_append:
  "run_lines step s (xs @ ys) =
     (case run_lines step s xs of
        (s', out, Running) \<Rightarrow> (case run_lines step s' ys of (s'', out', h) \<Rightarrow> (s'', out @ out', h))
      | (s', out, h) \<Rightarrow> (s', out, h))"
  by (induction xs arbitrary: s) (auto split: prod.splits halt.splits)

definition lines_of :: "string \<Rightarrow> string list" where
  "lines_of text = butlast (split_on NEWLINE text)"

lemma lines_of_cut: "lines_of (s @ t) = lines_of s @ lines_of (last (split_on NEWLINE s) @ t)"
  by (simp add: lines_of_def split_on_cut[of NEWLINE s t] butlast_append)

lemma last_split_cut: "last (split_on q (s @ t)) = last (split_on q (last (split_on q s) @ t))"
  by (simp add: split_on_cut[of q s t])

lemma run_pieces_lines:
  assumes "lines_of buffer = []"
  shows "run_pieces step s buffer raws = run_lines step s (lines_of (buffer @ concat raws))"
  using assms
proof (induction raws arbitrary: s buffer)
  case (Cons raw raws)
  let ?b = "last (split_on NEWLINE (buffer @ raw))"
  have free: "lines_of ?b = []"
    using lines_of_cut[of "buffer @ raw" "[]"] by (simp add: lines_of_def)
  have "run_lines step s (lines_of (buffer @ concat (raw # raws))) =
        run_lines step s (lines_of (buffer @ raw) @ lines_of (?b @ concat raws))"
    using lines_of_cut[of "buffer @ raw" "concat raws"] by simp
  then show ?case
    using Cons.IH[OF free] by (simp add: run_lines_append lines_of_def[of "buffer @ raw"] Let_def)
qed simp

text \<open>
  What the line reader needs of a translator, and what it gives in return: a translator looks at a
  line only without the blanks around it, and does nothing on an empty one.
\<close>

locale line_translator =
  fixes step :: "'s \<Rightarrow> string \<Rightarrow> 's \<times> 'o list \<times> halt"
  assumes strips: "step s (py_strip l) = step s l"
    and blank: "step s [] = (s, [], Running)"
begin

lemma cut_anywhere: "run_pieces step s [] raws = run_lines step s (lines_of (concat raws))"
  by (rule run_pieces_lines[of "[]", simplified]) (simp add: lines_of_def)

lemma carriage_returns: "run_lines step s (map py_strip ls) = run_lines step s ls"
  by (induction ls arbitrary: s) (simp_all add: strips)

lemma keep_alives: "run_lines step s (filter (\<lambda>l. py_strip l \<noteq> []) ls) = run_lines step s ls"
proof (induction ls arbitrary: s)
  case (Cons l ls)
  have "step s l = (s, [], Running)" if "py_strip l = []" for s using strips[of s l] blank that by simp
  then show ?case using Cons.IH by (simp split: prod.split halt.split)
qed simp

lemma same_lines:
  assumes "map py_strip (filter (\<lambda>l. py_strip l \<noteq> []) (lines_of (concat raws))) =
           map py_strip (filter (\<lambda>l. py_strip l \<noteq> []) (lines_of (concat raws')))"
  shows "run_pieces step s [] raws = run_pieces step s [] raws'"
  unfolding cut_anywhere using assms carriage_returns keep_alives by metis

end

lemma dropWhile_strip: "dropWhile P (rev (dropWhile P (rev (dropWhile P s)))) = rev (dropWhile P (rev (dropWhile P s)))"
proof (cases "dropWhile P s")
  case (Cons c cs)
  then have c: "\<not> P c" by (metis dropWhile_eq_Cons_conv)
  have "rev (dropWhile P (rev (c # cs))) = c # rev (dropWhile P (rev cs))"
    using c by (cases "\<exists>x\<in>set (rev cs). \<not> P x") (auto simp: dropWhile_append)
  then show ?thesis using Cons c by simp
next
  case Nil
  then show ?thesis by (simp only:) simp
qed

lemma py_strip_idem: "py_strip (py_strip s) = py_strip s"
  by (simp add: py_strip_def rstrip_by_def dropWhile_strip)

lemma payload_of_strip: "payload_of (py_strip l) = payload_of l"
  by (simp add: payload_of_def py_strip_idem)

interpretation to_anthropic: line_translator "openai_line loads toolu model"
  by unfold_locales (simp_all add: openai_line_def payload_of_strip, simp add: payload_of_def py_strip_def rstrip_by_def)

interpretation to_openai: line_translator "anthropic_line loads"
  by unfold_locales (simp_all add: anthropic_line_def payload_of_strip, simp add: payload_of_def py_strip_def rstrip_by_def)

definition meaningful_lines :: "string list \<Rightarrow> string list" where
  "meaningful_lines raws = map py_strip (filter (\<lambda>l. py_strip l \<noteq> []) (lines_of (concat raws)))"



section \<open>The protocol\<close>

text \<open>
  What an Anthropic client accepts: one message, its blocks numbered from 0, one open at a time, a
  delta only for the open block. The lenient reading also takes tool arguments for a block that was
  closed already.
\<close>

datatype phase = Before | Between nat | Inside nat | Closing | Ended

fun is_arguments :: "block_delta \<Rightarrow> bool" where
  "is_arguments (Input_json_delta a) = True"
| "is_arguments (Text_delta t) = False"

fun accept :: "bool \<Rightarrow> phase \<Rightarrow> frame \<Rightarrow> phase option" where
  "accept strict Before (Message_start m) = Some (Between 0)"
| "accept strict (Between n) (Block_start k b) = (if k = n then Some (Inside n) else None)"
| "accept strict (Inside n) (Block_delta k d) =
     (if k = n \<or> \<not> strict \<and> k < n \<and> is_arguments d then Some (Inside n) else None)"
| "accept strict (Inside n) (Block_stop k) = (if k = n then Some (Between (Suc n)) else None)"
| "accept strict (Between n) (Message_delta r u) = Some Closing"
| "accept strict Closing Message_stop = Some Ended"
| "accept strict p f = None"

fun accepts :: "bool \<Rightarrow> phase \<Rightarrow> frame list \<Rightarrow> phase option" where
  "accepts strict p [] = Some p"
| "accepts strict p (f # fs) = (case accept strict p f of None \<Rightarrow> None | Some q \<Rightarrow> accepts strict q fs)"

lemma accepts_append:
  "accepts strict p (fs @ gs) = (case accepts strict p fs of None \<Rightarrow> None | Some q \<Rightarrow> accepts strict q gs)"
  by (induction strict p fs rule: accepts.induct) (auto split: option.splits)

text \<open>What a stream says, in order: pieces of text, and pieces of calls.\<close>

datatype utterance = Says json | Calls json json

definition utterance_of_call :: "json \<Rightarrow> utterance list" where
  "utterance_of_call x = (case read_call x of Inl _ \<Rightarrow> [] | Inr c \<Rightarrow> [Calls (cd_key c) (cd_arguments c)])"

definition utterances_of_delta :: "json \<Rightarrow> utterance list" where
  "utterances_of_delta delta =
     (case json_get ''content'' delta of Inl _ \<Rightarrow> [] | Inr c \<Rightarrow> if json_truthy (or_null c) then [Says (or_null c)] else []) @
     (case json_get_or ''tool_calls'' delta (JList []) of
        Inl _ \<Rightarrow> [] | Inr calls \<Rightarrow> (case json_items calls of Inl _ \<Rightarrow> [] | Inr xs \<Rightarrow> concat (map utterance_of_call xs)))"

definition utterances_of_chunk :: "string option \<Rightarrow> json \<Rightarrow> a_stream \<Rightarrow> utterance list" where
  "utterances_of_chunk model chunk st = (case read_chunk model chunk st of Inl _ \<Rightarrow> [] | Inr (st1, choice, delta) \<Rightarrow> utterances_of_delta delta)"

text \<open>
  Calls are in order if the arguments of a call that was begun come before any text and before the
  next call. The context is the call being written, the calls seen, and whether all was in order.
\<close>

type_synonym call_context = "json option \<times> json list \<times> bool"

fun track :: "call_context \<Rightarrow> utterance \<Rightarrow> call_context" where
  "track (cur, seen, ok) (Says t) = (None, seen, ok)"
| "track (cur, seen, ok) (Calls k a) =
     (if k \<in> set seen then (cur, seen, ok \<and> (json_truthy a \<longrightarrow> cur = Some k)) else (Some k, k # seen, ok))"

definition track_all :: "call_context \<Rightarrow> utterance list \<Rightarrow> call_context" where
  "track_all ctx us = foldl track ctx us"

lemma track_all_simps [simp]: "track_all ctx [] = ctx" "track_all ctx (u # us) = track_all (track ctx u) us"
  "track_all ctx (us @ vs) = track_all (track_all ctx us) vs"
  by (simp_all add: track_all_def)

lemma track_ok: "snd (snd (track ctx u)) \<Longrightarrow> snd (snd ctx)"
  by (cases ctx; cases u) (auto split: if_splits)

lemma track_all_ok: "snd (snd (track_all ctx us)) \<Longrightarrow> snd (snd ctx)"
proof (induction us arbitrary: ctx)
  case (Cons u us)
  then show ?case using track_ok[of ctx u] Cons.IH[of "track ctx u"] by simp
qed simp

definition stream_ok :: "a_stream \<Rightarrow> bool" where
  "stream_ok st \<longleftrightarrow> (st_open st = None \<longleftrightarrow> st_next st = 0) \<and> (st_next st > 0 \<longrightarrow> st_started st) \<and>
     st_open st \<in> {None, Some ''text'', Some ''tool_use''} \<and>
     (\<forall>k n. map_of (st_tool_block st) k = Some n \<longrightarrow> n < st_next st) \<and>
     (\<forall>k k' n. map_of (st_tool_block st) k = Some n \<longrightarrow> map_of (st_tool_block st) k' = Some n \<longrightarrow> k = k')"

definition phase_of :: "a_stream \<Rightarrow> phase" where
  "phase_of st = (if \<not> st_started st then Before else if st_open st = None then Between (st_next st) else Inside (st_next st - 1))"

definition linked :: "a_stream \<Rightarrow> call_context \<Rightarrow> bool" where
  "linked st ctx \<longleftrightarrow> set (fst (snd ctx)) = dom (map_of (st_tool_block st)) \<and>
     (\<forall>k. fst ctx = Some k \<longrightarrow> map_of (st_tool_block st) k = Some (st_next st - 1))"

fun texts_in :: "utterance list \<Rightarrow> json list" where
  "texts_in [] = []"
| "texts_in (Says t # us) = t # texts_in us"
| "texts_in (Calls k a # us) = texts_in us"

fun arguments_in :: "utterance list \<Rightarrow> (json \<times> json) list" where
  "arguments_in [] = []"
| "arguments_in (Says t # us) = arguments_in us"
| "arguments_in (Calls k a # us) = (if json_truthy a then [(k, a)] else []) @ arguments_in us"

fun texts_out :: "frame list \<Rightarrow> json list" where
  "texts_out [] = []"
| "texts_out (Block_delta i (Text_delta t) # fs) = t # texts_out fs"
| "texts_out (f # fs) = texts_out fs"

fun arguments_out :: "frame list \<Rightarrow> (nat \<times> json) list" where
  "arguments_out [] = []"
| "arguments_out (Block_delta i (Input_json_delta a) # fs) = (i, a) # arguments_out fs"
| "arguments_out (f # fs) = arguments_out fs"

lemma texts_in_append [simp]: "texts_in (us @ vs) = texts_in us @ texts_in vs"
  by (induction us rule: texts_in.induct) simp_all

lemma arguments_in_append [simp]: "arguments_in (us @ vs) = arguments_in us @ arguments_in vs"
  by (induction us rule: arguments_in.induct) simp_all

lemma texts_out_append [simp]: "texts_out (fs @ gs) = texts_out fs @ texts_out gs"
  by (induction fs rule: texts_out.induct) simp_all

lemma arguments_out_append [simp]: "arguments_out (fs @ gs) = arguments_out fs @ arguments_out gs"
  by (induction fs rule: arguments_out.induct) simp_all

text \<open>A state that was reached from another by frames that tell what was said in between.\<close>

definition tells :: "bool \<Rightarrow> a_stream \<Rightarrow> call_context \<Rightarrow> a_stream \<Rightarrow> frame list \<Rightarrow> utterance list \<Rightarrow> bool" where
  "tells strict st ctx st' out us \<longleftrightarrow>
     stream_ok st' \<and> linked st' (track_all ctx us) \<and> map_of (st_tool_block st) \<subseteq>\<^sub>m map_of (st_tool_block st') \<and>
     ((strict \<longrightarrow> snd (snd (track_all ctx us))) \<longrightarrow> accepts strict (phase_of st) out = Some (phase_of st')) \<and>
     texts_out out = texts_in us \<and>
     (\<forall>(k, a)\<in>set (arguments_in us). k \<in> dom (map_of (st_tool_block st'))) \<and>
     arguments_out out = map (\<lambda>(k, a). (the (map_of (st_tool_block st') k), a)) (arguments_in us)"

lemma tells_refl: "stream_ok st \<Longrightarrow> linked st ctx \<Longrightarrow> tells strict st ctx st [] []"
  by (simp add: tells_def)

lemma tells_trans:
  assumes "tells strict st ctx st1 out us" and "tells strict st1 (track_all ctx us) st2 out' us'"
  shows "tells strict st ctx st2 (out @ out') (us @ us')"
proof -
  from assms(1) have a: "map_of (st_tool_block st) \<subseteq>\<^sub>m map_of (st_tool_block st1)" "texts_out out = texts_in us"
    "(strict \<longrightarrow> snd (snd (track_all ctx us))) \<Longrightarrow> accepts strict (phase_of st) out = Some (phase_of st1)"
    "\<forall>(k, a)\<in>set (arguments_in us). k \<in> dom (map_of (st_tool_block st1))"
    "arguments_out out = map (\<lambda>(k, a). (the (map_of (st_tool_block st1) k), a)) (arguments_in us)"
    by (simp_all add: tells_def)
  from assms(2) have b: "map_of (st_tool_block st1) \<subseteq>\<^sub>m map_of (st_tool_block st2)" "texts_out out' = texts_in us'"
    "(strict \<longrightarrow> snd (snd (track_all ctx (us @ us')))) \<Longrightarrow> accepts strict (phase_of st1) out' = Some (phase_of st2)"
    "\<forall>(k, a)\<in>set (arguments_in us'). k \<in> dom (map_of (st_tool_block st2))"
    "arguments_out out' = map (\<lambda>(k, a). (the (map_of (st_tool_block st2) k), a)) (arguments_in us')"
    "stream_ok st2" "linked st2 (track_all ctx (us @ us'))"
    by (simp_all add: tells_def)
  have keep: "map_of (st_tool_block st2) k = map_of (st_tool_block st1) k" if "(k, a) \<in> set (arguments_in us)" for k a
  proof -
    have "k \<in> dom (map_of (st_tool_block st1))" using a(4) that by blast
    then show ?thesis using b(1) by (simp only: map_le_def)
  qed
  then have "arguments_out out = map (\<lambda>(k, a). (the (map_of (st_tool_block st2) k), a)) (arguments_in us)"
    using a(5) by auto
  moreover have "\<forall>(k, a)\<in>set (arguments_in us). k \<in> dom (map_of (st_tool_block st2))"
    using a(4) keep by fastforce
  moreover have "accepts strict (phase_of st) (out @ out') = Some (phase_of st2)"
    if "strict \<longrightarrow> snd (snd (track_all ctx (us @ us')))"
    using a(3) b(3) that track_all_ok[of "track_all ctx us" us'] by (simp add: accepts_append)
  moreover have "map_of (st_tool_block st) \<subseteq>\<^sub>m map_of (st_tool_block st2)" using a(1) b(1) by (rule map_le_trans)
  moreover have "texts_out (out @ out') = texts_in (us @ us')" by (simp add: a(2) b(2))
  moreover have "\<forall>(k, a)\<in>set (arguments_in (us @ us')). k \<in> dom (map_of (st_tool_block st2))"
    using calculation(2) b(4) by (simp only: arguments_in_append set_append ball_Un) 
  ultimately show ?thesis using b(5-7) unfolding tells_def arguments_out_append arguments_in_append map_append
    by (intro conjI impI) (blast | simp only:)+
qed

definition sound :: "bool \<Rightarrow> a_stream \<Rightarrow> call_context \<Rightarrow> a_stream \<times> frame list \<times> halt \<Rightarrow> utterance list \<Rightarrow> bool" where
  "sound strict st ctx r us =
     (case r of (st', out, h) \<Rightarrow>
        if h = Running then tells strict st ctx st' out us
        else (strict \<longrightarrow> snd (snd (track_all ctx us))) \<longrightarrow> accepts strict (phase_of st) out \<noteq> None)"

lemma sound_after:
  assumes "tells strict st ctx st1 out us" and "sound strict st1 (track_all ctx us) (st2, out', h) us'"
  shows "sound strict st ctx (st2, out @ out', h) (us @ us')"
proof (cases "h = Running")
  case True
  then show ?thesis using assms tells_trans by (simp add: sound_def)
next
  case False
  have "accepts strict (phase_of st) (out @ out') \<noteq> None" if ok: "strict \<longrightarrow> snd (snd (track_all ctx (us @ us')))"
  proof -
    have "strict \<longrightarrow> snd (snd (track_all ctx us))" using ok track_all_ok[of "track_all ctx us" us'] by simp
    then have "accepts strict (phase_of st) out = Some (phase_of st1)" using assms(1) by (simp add: tells_def)
    moreover have "accepts strict (phase_of st1) out' \<noteq> None" using assms(2) False ok by (simp add: sound_def)
    ultimately show ?thesis by (simp add: accepts_append)
  qed
  with False show ?thesis by (simp add: sound_def)
qed

lemma sound_more:
  assumes "sound strict st ctx (st', out, h) us" and "h \<noteq> Running"
  shows "sound strict st ctx (st', out, h) (us @ vs)"
  using assms track_all_ok[of "track_all ctx us" vs] by (auto simp: sound_def)

lemma sound_silent [simp]: "h \<noteq> Running \<Longrightarrow> sound strict st ctx (st', [], h) us"
  by (simp add: sound_def)

lemma emit_text_tells:
  assumes "stream_ok st" and "st_started st" and "linked st ctx" and "emit_text t st = (st', out)"
  shows "tells strict st ctx st' out [Says t] \<and> st_started st'"
proof -
  obtain cur seen ok where ctx: "ctx = (cur, seen, ok)" by (metis prod_cases3)
  consider "st_open st = None" "st_next st = 0" | "st_open st = Some ''text''" "st_next st > 0" | "st_open st = Some ''tool_use''" "st_next st > 0"
    using assms(1) by (auto simp: stream_ok_def)
  then show ?thesis
  proof cases
    case 1
    then show ?thesis using assms by (auto simp: ctx emit_text_def tells_def stream_ok_def linked_def phase_of_def)
  next
    case 2
    then show ?thesis using assms by (auto simp: ctx emit_text_def tells_def stream_ok_def linked_def phase_of_def)
  next
    case 3
    then show ?thesis using assms
      by (auto simp: ctx emit_text_def tells_def stream_ok_def linked_def phase_of_def less_Suc_eq)
  qed
qed

lemma stream_ok_call:
  assumes "stream_ok st" and "map_of (st_tool_block st) k = None" and "st_started st"
  shows "stream_ok (st\<lparr>st_tool_block := AList.update k (st_next st) (st_tool_block st), st_open := Some ''tool_use'', st_next := st_next st + 1\<rparr>)"
  using assms by (auto simp: stream_ok_def update_conv' less_Suc_eq split: if_splits)

lemma linked_call:
  assumes "linked st (cur, seen, ok)" and "map_of (st_tool_block st) k = None"
  shows "linked (st\<lparr>st_tool_block := AList.update k (st_next st) (st_tool_block st), st_open := Some ''tool_use'', st_next := st_next st + 1\<rparr>)
           (Some k, k # seen, ok)"
  using assms by (auto simp: linked_def update_conv')

lemma open_call_new:
  assumes "stream_ok st" and "st_started st" and "linked st (cur, seen, ok)" and "map_of (st_tool_block st) k = None"
    and "open_call toolu k i n st = (st', out)"
  shows "tells strict st (cur, seen, ok) st' out [Calls k JNull] \<and> st_started st' \<and> map_of (st_tool_block st') k = Some (st_next st' - 1) \<and> st_open st' = Some ''tool_use''"
proof -
  have "k \<notin> set seen" using assms(3,4) by (auto simp: linked_def)
  moreover have "map_of (st_tool_block st) \<subseteq>\<^sub>m map_of (AList.update k (st_next st) (st_tool_block st))"
    using assms(4) by (auto simp: map_le_def update_conv')
  moreover have "st_open st = None \<longleftrightarrow> st_next st = 0" using assms(1) by (simp add: stream_ok_def)
  ultimately show ?thesis
    using assms(2,4,5) stream_ok_call[OF assms(1,4,2)] linked_call[OF assms(3,4)]
    by (cases "st_open st") (auto simp: open_call_def tells_def phase_of_def update_conv')
qed

lemma arguments_tells:
  assumes "stream_ok st" and "st_started st" and "linked st (cur, seen, ok)" and "map_of (st_tool_block st) k = Some n" and "json_truthy a"
  shows "tells strict st (cur, seen, ok) st [Block_delta n (Input_json_delta a)] [Calls k a]"
proof -
  have n: "n < st_next st" "k \<in> set seen" using assms(1,3,4) by (auto simp: stream_ok_def linked_def)
  have "st_open st \<noteq> None" using assms(1) n by (auto simp: stream_ok_def)
  moreover have "n = st_next st - 1" if "cur = Some k" using assms(3,4) that by (simp add: linked_def)
  ultimately show ?thesis using assms n by (auto simp: tells_def phase_of_def linked_def)
qed

lemma emit_call_sound:
  assumes "stream_ok st" and "st_started st" and "linked st ctx" and "emit_call toolu c st = (st', out, h)"
  shows "sound strict st ctx (st', out, h) [Calls (cd_key c) (cd_arguments c)] \<and> (h = Running \<longrightarrow> st_started st')"
proof -
  obtain cur seen ok where ctx: "ctx = (cur, seen, ok)" by (metis prod_cases3)
  let ?k = "cd_key c" and ?a = "cd_arguments c"
  show ?thesis
  proof (cases "json_get ''name'' (cd_function c)")
    case (Inl e)
    have "st_open st \<noteq> None \<Longrightarrow> st_next st > 0" using assms(1) by (auto simp: stream_ok_def)
    then show ?thesis using assms(2,4) Inl by (auto simp: emit_call_def sound_def phase_of_def)
  next
    case (Inr name)
    obtain st1 out1 where o1: "open_call toolu ?k (cd_id c) (or_null name) st = (st1, out1)" by fastforce
    have res: "st' = st1" "h = Running" "out = out1 @ (if json_truthy ?a then [Block_delta (the (map_of (st_tool_block st1) ?k)) (Input_json_delta ?a)] else [])"
      using assms(4) Inr o1 by (auto simp: emit_call_def)
    show ?thesis
    proof (cases "map_of (st_tool_block st) ?k")
      case (Some n)
      then have same: "st1 = st" "out1 = []" using o1 by (auto simp: open_call_def)
      have k: "?k \<in> set seen" using Some assms(3) by (auto simp: linked_def ctx)
      show ?thesis
      proof (cases "json_truthy ?a")
        case True
        then show ?thesis using arguments_tells[OF assms(1,2) assms(3)[unfolded ctx] Some True] res same Some assms(2)
          by (simp add: sound_def ctx)
      next
        case False
        then show ?thesis using res same k assms(1-3) by (simp add: sound_def tells_def ctx)
      qed
    next
      case None
      note new = open_call_new[OF assms(1,2) assms(3)[unfolded ctx] None o1]
      have k: "?k \<notin> set seen" using None assms(3) by (auto simp: linked_def ctx)
      show ?thesis
      proof (cases "json_truthy ?a")
        case True
        have l: "stream_ok st1" "linked st1 (Some ?k, ?k # seen, ok)" using new[of strict] k by (simp_all add: tells_def)
        have "tells strict st1 (Some ?k, ?k # seen, ok) st1 [Block_delta (st_next st1 - 1) (Input_json_delta ?a)] [Calls ?k ?a]"
          using arguments_tells[OF l(1) _ l(2) _ True] new by blast
        moreover have "tells strict st (cur, seen, ok) st1 out1 [Calls ?k JNull]" using new by blast
        ultimately have "tells strict st (cur, seen, ok) st1 (out1 @ [Block_delta (st_next st1 - 1) (Input_json_delta ?a)]) ([Calls ?k JNull] @ [Calls ?k ?a])"
          using k by (intro tells_trans) simp_all
        then show ?thesis using res new k True by (simp add: sound_def tells_def ctx)
      next
        case False
        then show ?thesis using res new[of strict] k by (simp add: sound_def tells_def ctx)
      qed
    qed
  qed
qed

lemma emit_calls_sound:
  assumes "stream_ok st" and "st_started st" and "linked st ctx" and "emit_calls toolu xs st = (st', out, h)"
  shows "sound strict st ctx (st', out, h) (concat (map utterance_of_call xs)) \<and> (h = Running \<longrightarrow> st_started st')"
  using assms
proof (induction xs arbitrary: st ctx out)
  case Nil
  then show ?case by (simp add: sound_def tells_refl)
next
  case (Cons x xs)
  show ?case
  proof (cases "read_call x")
    case (Inl e)
    then show ?thesis using Cons.prems(4) by auto
  next
    case (Inr c)
    let ?us = "[Calls (cd_key c) (cd_arguments c)]"
    have u: "concat (map utterance_of_call (x # xs)) = ?us @ concat (map utterance_of_call xs)"
      by (simp add: utterance_of_call_def Inr)
    obtain st1 out1 h1 where c: "emit_call toolu c st = (st1, out1, h1)" by (metis prod_cases3)
    note one = emit_call_sound[OF Cons.prems(1-3) c, of strict]
    show ?thesis
    proof (cases "h1 = Running")
      case False
      then have "(st', out, h) = (st1, out1, h1)" using Cons.prems(4) Inr c by (cases h1) auto
      then show ?thesis using sound_more[of strict st ctx st1 out1 h1 ?us "concat (map utterance_of_call xs)"] one False unfolding u by auto
    next
      case True
      obtain out2 where r: "emit_calls toolu xs st1 = (st', out2, h)" "out = out1 @ out2"
        using Cons.prems(4) Inr c True by (auto split: prod.splits)
      have t: "tells strict st ctx st1 out1 ?us" "st_started st1" using one True by (auto simp: sound_def)
      then have "stream_ok st1" "linked st1 (track_all ctx ?us)" by (simp_all add: tells_def)
      from Cons.IH[OF this(1) t(2) this(2) r(1)] show ?thesis
        unfolding u r(2) using sound_after[OF t(1)] by blast
    qed
  qed
qed

lemma finish_choice_keeps:
  "finish_choice choice st = (st', h) \<Longrightarrow> st_open st' = st_open st \<and> st_next st' = st_next st \<and> st_started st' = st_started st \<and>
     st_tool_block st' = st_tool_block st"
  by (auto simp: finish_choice_def split: sum.splits if_splits json.splits)

lemma same_blocks:
  assumes "st_open st2 = st_open st1 \<and> st_next st2 = st_next st1 \<and> st_started st2 = st_started st1 \<and> st_tool_block st2 = st_tool_block st1"
  shows "stream_ok st2 = stream_ok st1" "phase_of st2 = phase_of st1" "linked st2 = linked st1" "st_tool_block st2 = st_tool_block st1"
  using assms by (simp_all add: stream_ok_def phase_of_def linked_def fun_eq_iff)

lemma tells_same_blocks:
  assumes "tells strict st ctx st1 out us" and "st_open st2 = st_open st1 \<and> st_next st2 = st_next st1 \<and> st_started st2 = st_started st1 \<and> st_tool_block st2 = st_tool_block st1"
  shows "tells strict st ctx st2 out us"
  using assms(1) by (simp add: tells_def same_blocks[OF assms(2)])

lemma emit_delta_sound:
  assumes "stream_ok st" and "st_started st" and "linked st ctx" and "emit_delta toolu choice delta st = (st', out, h)"
  shows "sound strict st ctx (st', out, h) (utterances_of_delta delta) \<and> (h = Running \<longrightarrow> st_started st')"
proof (cases "json_get ''content'' delta")
  case (Inl e)
  then show ?thesis using assms(4) by (auto simp: emit_delta_def)
next
  case (Inr content)
  let ?t = "or_null content" and ?us1 = "if json_truthy (or_null content) then [Says (or_null content)] else []"
  obtain st1 out1 where e: "(if json_truthy ?t then emit_text ?t st else (st, [])) = (st1, out1)" by fastforce
  have one: "tells strict st ctx st1 out1 ?us1" "st_started st1"
    using emit_text_tells[OF assms(1-3), of ?t st1 out1 strict] e assms(1-3) tells_refl by (auto split: if_splits)
  then have ok1: "stream_ok st1" "linked st1 (track_all ctx ?us1)" by (simp_all only: tells_def)
  obtain kvs where d: "delta = JObj kvs" using Inr by (cases delta) (simp_all add: json_get_def)
  then obtain calls where calls: "json_get_or ''tool_calls'' delta (JList []) = Inr calls"
    by (cases "map_of kvs ''tool_calls''") (simp_all add: json_get_or_def json_get_def)
  show ?thesis
  proof (cases "json_items calls")
    case (Inl e')
    then have "out = out1" "h \<noteq> Running" "utterances_of_delta delta = ?us1 @ []"
      using assms(4) e Inr calls by (auto simp: emit_delta_def utterances_of_delta_def Let_def split: prod.splits)
    then show ?thesis using sound_after[OF one(1) sound_silent, of h st' "[]"] by auto
  next
    case xs: (Inr xs)
    have u: "utterances_of_delta delta = ?us1 @ concat (map utterance_of_call xs)"
      using Inr calls xs by (simp add: utterances_of_delta_def)
    obtain st2 out2 h2 where c: "emit_calls toolu xs st1 = (st2, out2, h2)" by (metis prod_cases3)
    note two = emit_calls_sound[OF ok1(1) one(2) ok1(2) c, of strict]
    have out: "out = out1 @ out2" using assms(4) e Inr calls xs c
      by (auto simp: emit_delta_def Let_def split: prod.splits halt.splits)
    show ?thesis
    proof (cases "h2 = Running")
      case False
      then have "(st', h) = (st2, h2)" using assms(4) e Inr calls xs c
        by (cases h2) (auto simp: emit_delta_def Let_def split: prod.splits)
      then show ?thesis using sound_after[OF one(1), of st2 out2 h2] two False unfolding u out by auto
    next
      case True
      then have f: "finish_choice choice st2 = (st', h)" using assms(4) e Inr calls xs c
        by (auto simp: emit_delta_def Let_def split: prod.splits)
      have t2: "tells strict st1 (track_all ctx ?us1) st2 out2 (concat (map utterance_of_call xs))" "st_started st2"
        using two True by (auto simp: sound_def)
      note t3 = tells_same_blocks[OF t2(1) finish_choice_keeps[OF f]]
      have "tells strict st ctx st' out (utterances_of_delta delta)" unfolding u out by (rule tells_trans[OF one(1) t3])
      then show ?thesis using finish_choice_keeps[OF f] t2(2) by (cases h) (auto simp: sound_def tells_def)
    qed
  qed
qed

lemma read_chunk_keeps:
  "read_chunk model chunk st = Inr (st1, choice, delta) \<Longrightarrow>
     st_open st1 = st_open st \<and> st_next st1 = st_next st \<and> st_started st1 = st_started st \<and> st_tool_block st1 = st_tool_block st"
  by (auto simp: read_chunk_def Let_def split: sum.splits if_splits)

lemma read_chunk_anywhere:
  "(case read_chunk model chunk st of Inl _ \<Rightarrow> None | Inr (st1, choice, delta) \<Rightarrow> Some (choice, delta)) =
   (case read_chunk model chunk st' of Inl _ \<Rightarrow> None | Inr (st1, choice, delta) \<Rightarrow> Some (choice, delta))"
  by (auto simp: read_chunk_def dict_update_def Let_def split: sum.splits if_splits json.splits option.splits)

lemma utterances_anywhere: "utterances_of_chunk model chunk st = utterances_of_chunk model chunk st'"
  using read_chunk_anywhere[of model chunk st st'] by (auto simp: utterances_of_chunk_def split: sum.splits prod.splits)

lemma start_message_tells:
  assumes "stream_ok st" and "linked st ctx" and "start_message st = (st', out)"
  shows "tells strict st ctx st' out [] \<and> st_started st'"
  using assms by (auto simp: start_message_def tells_def stream_ok_def linked_def phase_of_def split: if_splits)

lemma openai_chunk_sound:
  assumes "stream_ok st" and "linked st ctx" and "openai_chunk toolu model chunk st = (st', out, h)"
  shows "sound strict st ctx (st', out, h) (utterances_of_chunk model chunk st)"
proof (cases "read_chunk model chunk st")
  case (Inl e)
  then show ?thesis using assms(3) by (auto simp: openai_chunk_def)
next
  case (Inr r)
  obtain st1 choice delta where r: "r = (st1, choice, delta)" by (metis prod_cases3)
  note k = read_chunk_keeps[OF Inr[unfolded r]]
  obtain st2 out2 where s: "start_message st1 = (st2, out2)" by fastforce
  obtain out3 where e: "emit_delta toolu choice delta st2 = (st', out3, h)" "out = out2 @ out3"
    using assms(3) Inr r s by (auto simp: openai_chunk_def split: prod.splits)
  have ok: "stream_ok st1" "linked st1 ctx" using assms(1,2) by (simp_all add: same_blocks[OF k])
  note t = start_message_tells[OF ok s, of strict]
  have "tells strict st ctx st2 out2 []" using t by (simp add: tells_def same_blocks[OF k])
  moreover have "sound strict st2 (track_all ctx []) (st', out3, h) (utterances_of_delta delta)"
    using emit_delta_sound[OF _ _ _ e(1), of "track_all ctx []" strict] t by (simp add: tells_def)
  ultimately have "sound strict st ctx (st', out2 @ out3, h) ([] @ utterances_of_delta delta)" by (rule sound_after)
  then show ?thesis using Inr r e(2) by (simp add: utterances_of_chunk_def)
qed

definition utterances_of_line :: "(string \<Rightarrow> json option) \<Rightarrow> string option \<Rightarrow> string \<Rightarrow> utterance list" where
  "utterances_of_line loads model line =
     (case payload_of line of
        None \<Rightarrow> []
      | Some p \<Rightarrow> if p = ''[DONE]'' then []
                  else (case loads p of None \<Rightarrow> [] | Some chunk \<Rightarrow> utterances_of_chunk model chunk (initial_stream model)))"

lemma openai_line_sound:
  assumes "stream_ok st" and "linked st ctx" and "openai_line loads toolu model st line = (st', out, h)"
  shows "sound strict st ctx (st', out, h) (utterances_of_line loads model line)"
  using assms openai_chunk_sound[OF assms(1,2), of toolu model _ st' out h strict] utterances_anywhere[of model _ st "initial_stream model"]
    tells_refl[OF assms(1,2), of strict]
  by (auto simp: openai_line_def utterances_of_line_def sound_def split: option.splits if_splits)

lemma run_lines_sound:
  assumes "stream_ok st" and "linked st ctx" and "run_lines (openai_line loads toolu model) st ls = (st', out, h)"
  shows "sound strict st ctx (st', out, h) (concat (map (utterances_of_line loads model) ls))"
  using assms
proof (induction ls arbitrary: st ctx out)
  case Nil
  then show ?case by (simp add: sound_def tells_refl)
next
  case (Cons l ls)
  obtain st1 out1 h1 where c: "openai_line loads toolu model st l = (st1, out1, h1)" by (metis prod_cases3)
  note one = openai_line_sound[OF Cons.prems(1,2) c, of strict]
  show ?case
  proof (cases "h1 = Running")
    case False
    then have "(st', out, h) = (st1, out1, h1)" using Cons.prems(3) c by (cases h1) auto
    then show ?thesis using sound_more[of strict st ctx st1 out1 h1 "utterances_of_line loads model l"] one False by auto
  next
    case True
    obtain out2 where r: "run_lines (openai_line loads toolu model) st1 ls = (st', out2, h)" "out = out1 @ out2"
      using Cons.prems(3) c True by (auto split: prod.splits)
    have t: "tells strict st ctx st1 out1 (utterances_of_line loads model l)" using one True by (simp add: sound_def)
    then have "stream_ok st1" "linked st1 (track_all ctx (utterances_of_line loads model l))" by (simp_all add: tells_def)
    from Cons.IH[OF this r(1)] show ?thesis using sound_after[OF t] r(2) by simp
  qed
qed

text \<open>What a stream of pieces says.\<close>

definition said :: "(string \<Rightarrow> json option) \<Rightarrow> string option \<Rightarrow> string list \<Rightarrow> utterance list" where
  "said loads model raws = concat (map (utterances_of_line loads model) (lines_of (concat raws)))"

definition calls_in_order :: "utterance list \<Rightarrow> bool" where
  "calls_in_order us = snd (snd (track_all (None, [], True) us))"

lemma initial_stream_ok: "stream_ok (initial_stream model)" "linked (initial_stream model) (None, [], True)" "phase_of (initial_stream model) = Before"
  by (simp_all add: initial_stream_def stream_ok_def linked_def phase_of_def)

lemma finish_stream_accepted:
  assumes "stream_ok st"
  shows "accepts strict (phase_of st) (finish_stream st) = Some Ended" and "texts_out (finish_stream st) = []" and "arguments_out (finish_stream st) = []"
  using assms by (auto simp: finish_stream_def start_message_def phase_of_def stream_ok_def)

lemma converted:
  assumes "convert_streaming_response_openai_to_anthropic loads toolu model raws = (out, h)"
  obtains st out1 where "sound strict (initial_stream model) (None, [], True) (st, out1, h) (said loads model raws)"
    "out = (if h = Running then out1 @ finish_stream st else out1)"
proof -
  obtain st out1 h1 where r: "run_pieces (openai_line loads toolu model) (initial_stream model) [] raws = (st, out1, h1)" by (metis prod_cases3)
  from run_lines_sound[OF initial_stream_ok(1,2) r[unfolded to_anthropic.cut_anywhere], of strict]
  have "sound strict (initial_stream model) (None, [], True) (st, out1, h1) (said loads model raws)" by (simp add: said_def)
  with assms r that show thesis by (cases h1) (auto simp: convert_streaming_response_openai_to_anthropic_def)
qed

text \<open>
  C3: The stream an Anthropic client gets is well formed. Whatever the pieces are, the frames are a
  beginning of a well-formed message; if no exception ends the stream they are a whole one: it
  starts, its blocks are numbered, opened and closed one after the other, and it ends. Where the
  arguments of every call come in one run, each delta is for the block that is open; in any case
  it is for one that was opened.
\<close>

theorem anthropic_stream_is_well_formed:
  assumes "convert_streaming_response_openai_to_anthropic loads toolu model raws = (out, h)"
    and "strict \<longrightarrow> calls_in_order (said loads model raws)"
  shows "(if h = Running then accepts strict Before out = Some Ended else accepts strict Before out \<noteq> None)"
proof -
  obtain st out1 where s: "sound strict (initial_stream model) (None, [], True) (st, out1, h) (said loads model raws)"
    "out = (if h = Running then out1 @ finish_stream st else out1)" using converted[OF assms(1)] by blast
  show ?thesis
    using s assms(2) finish_stream_accepted(1)[of st strict]
    by (cases "h = Running") (simp_all add: sound_def tells_def calls_in_order_def initial_stream_ok(3) accepts_append)
qed


definition chunk_with :: "(string \<times> json) list \<Rightarrow> json" where
  "chunk_with delta = JObj [(''choices'', JList [JObj [(''delta'', JObj delta)]])]"

definition call_with :: "int \<Rightarrow> string \<Rightarrow> json" where
  "call_with i a = JObj [(''index'', JInt i), (''id'', JStr ''c''), (''function'', JObj [(''name'', JStr ''f''), (''arguments'', JStr a)])]"

text \<open>A parser for the examples: the payload \<open>t\<close> is a text, a digit is a piece of the call of that index.\<close>

definition example_loads :: "string \<Rightarrow> json option" where
  "example_loads p =
     (if p = ''t'' then Some (chunk_with [(''content'', JStr ''hello'')])
      else if p = ''0'' then Some (chunk_with [(''tool_calls'', JList [call_with 0 ''a''])])
      else if p = ''1'' then Some (chunk_with [(''tool_calls'', JList [call_with 1 ''b''])]) else None)"

definition example_lines :: "string list \<Rightarrow> string list" where
  "example_lines ps = map (\<lambda>p. ''data: '' @ p @ [NEWLINE, NEWLINE]) ps"

theorem anthropic_stream_is_well_formed_witness:
  "let raws = example_lines [''t'', ''0'', ''0'', ''1'', ''t''];
       r = convert_streaming_response_openai_to_anthropic example_loads (\<lambda>n. []) None raws
   in calls_in_order (said example_loads None raws) \<and> snd r = Running \<and> length (fst r) = 16 \<and> accepts True Before (fst r) = Some Ended"
proof -
  define raws where "raws = example_lines [''t'', ''0'', ''0'', ''1'', ''t'']"
  define r where "r = convert_streaming_response_openai_to_anthropic example_loads (\<lambda>n. []) None raws"
  have o: "True \<longrightarrow> calls_in_order (said example_loads None raws)" unfolding raws_def by code_simp
  have h: "snd r = Running" "length (fst r) = 16" unfolding r_def raws_def by code_simp+
  have "convert_streaming_response_openai_to_anthropic example_loads (\<lambda>n. []) None raws = (fst r, Running)"
    using h(1) unfolding r_def by (metis prod.collapse)
  from anthropic_stream_is_well_formed[OF this o] show ?thesis
    using o h unfolding r_def raws_def Let_def by simp
qed


text \<open>
  Interleaved calls break the protocol: when the arguments of a call go on after the next call was
  begun, a delta is sent for a block that was closed.
\<close>

theorem interleaved_calls_write_to_a_closed_block:
  "let r = convert_streaming_response_openai_to_anthropic example_loads (\<lambda>n. []) None (example_lines [''0'', ''1'', ''0''])
   in snd r = Running \<and> accepts True Before (fst r) = None \<and> accepts False Before (fst r) = Some Ended"
  by code_simp

section \<open>The OpenAI stream\<close>

fun call_starts :: "o_frame list \<Rightarrow> nat list" where
  "call_starts [] = []"
| "call_starts (Chunk m (Call_start i d n) f u # fs) = i # call_starts fs"
| "call_starts (x # fs) = call_starts fs"

lemma call_starts_append [simp]: "call_starts (fs @ gs) = call_starts fs @ call_starts gs"
  by (induction fs rule: call_starts.induct) simp_all

definition argument_indices :: "o_frame list \<Rightarrow> nat set" where
  "argument_indices fs = {i. \<exists>m a f u. Chunk m (Call_arguments i a) f u \<in> set fs}"

definition o_step :: "o_stream \<Rightarrow> o_stream \<times> o_frame list \<times> halt \<Rightarrow> bool" where
  "o_step st r =
     (case r of (st', out, h) \<Rightarrow>
        os_next st \<le> os_next st' \<and> call_starts out = [os_next st..<os_next st'] \<and>
        (\<forall>n\<in>ran (map_of (os_tools st')). n < os_next st') \<and> (\<forall>n\<in>argument_indices out. n < os_next st') \<and>
        (if h = Returned then \<exists>pre. out = pre @ [Done] \<and> Done \<notin> set pre else Done \<notin> set out))"

lemma update_usage_keeps: "update_usage u st = Inr st' \<Longrightarrow> os_next st' = os_next st \<and> os_tools st' = os_tools st"
  by (auto simp: update_usage_def split: if_splits sum.splits)

lemmas o_step_defs = o_step_def argument_indices_def raises_def

lemma o_step_handlers:
  assumes "\<forall>n\<in>ran (map_of (os_tools st)). n < os_next st"
  shows "o_step st (on_message_start event st)" and "o_step st (on_block_start event st)" and "o_step st (on_block_delta event st)"
    and "o_step st (on_message_delta event st)" and "o_step st (on_error event st)" and "o_step st (on_message_stop st)"
proof -
  show "o_step st (on_message_start event st)"
    using assms by (auto simp: on_message_start_def o_step_defs split: sum.splits dest!: update_usage_keeps)
  have "n < Suc (os_next st)" if "n \<in> ran (map_of (AList.update k (os_next st) (os_tools st)))" for k n
    using assms that by (auto simp: ran_def update_conv' less_Suc_eq split: if_splits)
  then show "o_step st (on_block_start event st)"
    using assms by (auto simp: on_block_start_def o_step_defs split: sum.splits json.splits)
  show "o_step st (on_block_delta event st)"
    using assms by (auto simp: on_block_delta_def o_step_defs Let_def ran_def split: sum.splits json.splits option.splits)
  show "o_step st (on_message_delta event st)"
    using assms by (auto simp: on_message_delta_def o_step_defs Let_def split: sum.splits json.splits option.splits if_splits dest!: update_usage_keeps)
  show "o_step st (on_error event st)"
    using assms by (auto simp: on_error_def o_step_defs split: sum.splits)
  show "o_step st (on_message_stop st)"
    using assms by (auto simp: on_message_stop_def o_step_defs Let_def split: sum.splits)
qed

lemma o_step_line:
  assumes "\<forall>n\<in>ran (map_of (os_tools st)). n < os_next st"
  shows "o_step st (anthropic_line loads st line)"
  using o_step_handlers[OF assms] assms
  by (auto simp: anthropic_line_def anthropic_event_def split: option.splits sum.splits) (auto simp: o_step_defs)

lemma argument_indices_append [simp]: "argument_indices (fs @ gs) = argument_indices fs \<union> argument_indices gs"
  by (auto simp: argument_indices_def)

lemma o_step_trans:
  assumes "o_step st (st1, out1, Running)" and "o_step st1 (st2, out2, h)"
  shows "o_step st (st2, out1 @ out2, h)"
proof -
  have "[os_next st..<os_next st2] = [os_next st..<os_next st1] @ [os_next st1..<os_next st2]"
    using assms upt_add_eq_append[of "os_next st" "os_next st1" "os_next st2 - os_next st1"] by (simp add: o_step_def)
  moreover have "\<forall>n\<in>argument_indices (out1 @ out2). n < os_next st2" using assms unfolding o_step_def by force
  moreover have "if h = Returned then \<exists>pre. out1 @ out2 = pre @ [Done] \<and> Done \<notin> set pre else Done \<notin> set (out1 @ out2)"
  proof (cases "h = Returned")
    case True
    then obtain pre where "out2 = pre @ [Done]" "Done \<notin> set pre" using assms(2) by (auto simp: o_step_def)
    moreover have "Done \<notin> set out1" using assms(1) by (simp add: o_step_def)
    ultimately show ?thesis using True by (intro if_P[THEN iffD2] exI[of _ "out1 @ pre"]) simp_all
  qed (use assms in \<open>simp add: o_step_def\<close>)
  ultimately show ?thesis using assms by (simp add: o_step_def)
qed

lemma o_step_lines:
  assumes "\<forall>n\<in>ran (map_of (os_tools st)). n < os_next st"
  shows "o_step st (run_lines (anthropic_line loads) st ls)"
  using assms
proof (induction ls arbitrary: st)
  case (Cons l ls)
  obtain st1 out1 h1 where c: "anthropic_line loads st l = (st1, out1, h1)" by (metis prod_cases3)
  have one: "o_step st (st1, out1, h1)" using o_step_line[OF Cons.prems, of loads l] c by simp
  show ?case
  proof (cases "h1 = Running")
    case True
    obtain st2 out2 h2 where r: "run_lines (anthropic_line loads) st1 ls = (st2, out2, h2)" by (metis prod_cases3)
    have "o_step st1 (st2, out2, h2)" using Cons.IH[of st1] one r by (simp add: o_step_def)
    with one True have "o_step st (st2, out1 @ out2, h2)" by (intro o_step_trans[of st st1]) simp_all
    then show ?thesis using c r True by simp
  next
    case False
    then have "run_lines (anthropic_line loads) st (l # ls) = (st1, out1, h1)" using c by (cases h1) auto
    then show ?thesis using one by simp
  qed
qed (simp add: o_step_defs)

text \<open>
  C25: The stream an OpenAI client gets ends exactly once and numbers its calls. Whatever the pieces are,
  the calls are numbered from 0 without gaps in the order they begin, arguments are only sent for a
  call with such a number, and the final marker comes exactly once, as the last frame, unless an
  exception ends the stream; then it never comes.
\<close>

theorem openai_stream_is_well_formed:
  "case convert_streaming_response_anthropic_to_openai loads raws of (out, h) \<Rightarrow>
     (\<exists>n. call_starts out = [0..<n] \<and> argument_indices out \<subseteq> {0..<n}) \<and>
     (case h of Raised e \<Rightarrow> Done \<notin> set out | _ \<Rightarrow> \<exists>pre. out = pre @ [Done] \<and> Done \<notin> set pre)"
proof -
  obtain st out h where r: "run_pieces (anthropic_line loads) initial_o_stream [] raws = (st, out, h)" by (metis prod_cases3)
  have o: "o_step initial_o_stream (st, out, h)"
    using o_step_lines[of initial_o_stream loads "lines_of (concat raws)"] r[unfolded to_openai.cut_anywhere]
    by (simp add: initial_o_stream_def)
  have z: "os_next initial_o_stream = 0" by (simp add: initial_o_stream_def)
  have n: "\<exists>n. call_starts (out @ fs) = [0..<n] \<and> argument_indices (out @ fs) \<subseteq> {0..<n}" if "fs = [] \<or> fs = [Done]" for fs
  proof -
    have "argument_indices fs = {}" "call_starts fs = []" using that by (auto simp: argument_indices_def)
    then show ?thesis using o by (intro exI[of _ "os_next st"]) (auto simp: o_step_def z)
  qed
  show ?thesis
    using o n[of "[]"] n[of "[Done]"] by (cases h) (simp_all add: convert_streaming_response_anthropic_to_openai_def r o_step_def z)
qed

end
