(* ===== verification/Chat_Messages.thy ===== *)
theory Chat_Messages
  imports Tool_Specs Chat_Streams
begin

text \<open>
  The messages of a chat and the translation of requests (\<open>utils/misc.py\<close>, \<open>utils/payload.py\<close>). A
  request comes in the OpenAI form or in the Anthropic form and is translated to the other, or to
  the form of Ollama. Messages are untyped dicts, kept as JSON values; a missing key or a value of
  the wrong kind raises as in the code. \<open>json.dumps\<close> and \<open>json.loads\<close> are parameters.

  The lemmas show that following the parents of a message ends and gives the path from the root
  unless the history has a cycle, and that an Anthropic conversation in normal form, translated to
  the OpenAI form and back, is the conversation it was, with its system prompt and its tools.
\<close>

section \<open>Results\<close>

definition bind_result :: "'a result \<Rightarrow> ('a \<Rightarrow> 'b result) \<Rightarrow> 'b result" where
  "bind_result r f = (case r of Inl e \<Rightarrow> Inl e | Inr x \<Rightarrow> f x)"

lemma bind_result_simps [simp]: "bind_result (Inr x) f = f x" "bind_result (Inl e) f = Inl e"
  by (simp_all add: bind_result_def)

fun map_result :: "('a \<Rightarrow> 'b result) \<Rightarrow> 'a list \<Rightarrow> 'b list result" where
  "map_result f [] = Inr []"
| "map_result f (x # xs) = bind_result (f x) (\<lambda>y. bind_result (map_result f xs) (\<lambda>ys. Inr (y # ys)))"

lemma map_result_ok: "(\<And>x. x \<in> set xs \<Longrightarrow> f x = Inr (g x)) \<Longrightarrow> map_result f xs = Inr (map g xs)"
  by (induction xs) simp_all

section \<open>The messages of a chat\<close>

text \<open>What the code uses of the library to write and read values: \<open>json.dumps\<close>, \<open>json.loads\<close> and \<open>str\<close>.\<close>

record json_codec =
  jc_dumps :: "json \<Rightarrow> string"
  jc_loads :: "string \<Rightarrow> json option"
  jc_str :: "json \<Rightarrow> string"

definition py_str :: "json_codec \<Rightarrow> json \<Rightarrow> string" where
  "py_str jc v = (case v of JStr s \<Rightarrow> s | _ \<Rightarrow> jc_str jc v)"

text \<open>\<open>d[k]\<close>.\<close>

definition json_item :: "string \<Rightarrow> json \<Rightarrow> json result" where
  "json_item k v = (case v of JObj kvs \<Rightarrow> (case map_of kvs k of None \<Rightarrow> Inl KeyError | Some x \<Rightarrow> Inr x) | _ \<Rightarrow> Inl TypeError)"

definition is_str :: "json \<Rightarrow> bool" where
  "is_str v = (case v of JStr _ \<Rightarrow> True | _ \<Rightarrow> False)"

definition is_list :: "json \<Rightarrow> bool" where
  "is_list v = (case v of JList _ \<Rightarrow> True | _ \<Rightarrow> False)"

definition get_content_from_message :: "json \<Rightarrow> json result" where
  "get_content_from_message message =
     bind_result (json_item ''content'' message) (\<lambda>content.
       case content of
         JList items \<Rightarrow>
           (let pick = (\<lambda>item acc.
                  bind_result (json_item ''type'' item) (\<lambda>t.
                    if t = JStr ''text'' then json_item ''text'' item else acc))
            in foldr pick items (Inr JNull))
       | _ \<Rightarrow> Inr content)"

fun find_role :: "string \<Rightarrow> json list \<Rightarrow> json option result" where
  "find_role role [] = Inr None"
| "find_role role (m # ms) = bind_result (json_item ''role'' m) (\<lambda>r. if r = JStr role then Inr (Some m) else find_role role ms)"

definition get_last_user_message_item :: "json list \<Rightarrow> json option result" where
  "get_last_user_message_item messages = find_role ''user'' (rev messages)"

definition get_last_user_message :: "json list \<Rightarrow> json result" where
  "get_last_user_message messages =
     bind_result (get_last_user_message_item messages) (\<lambda>m. case m of None \<Rightarrow> Inr JNull | Some x \<Rightarrow> get_content_from_message x)"

definition get_last_assistant_message_item :: "json list \<Rightarrow> json option result" where
  "get_last_assistant_message_item messages = find_role ''assistant'' (rev messages)"

definition get_last_assistant_message :: "json list \<Rightarrow> json result" where
  "get_last_assistant_message messages =
     bind_result (find_role ''assistant'' (rev messages)) (\<lambda>m. case m of None \<Rightarrow> Inr JNull | Some x \<Rightarrow> get_content_from_message x)"

definition get_system_message :: "json list \<Rightarrow> json option result" where
  "get_system_message messages = find_role ''system'' messages"

definition remove_system_message :: "json list \<Rightarrow> json list result" where
  "remove_system_message messages =
     bind_result (map_result (\<lambda>m. bind_result (json_item ''role'' m) (\<lambda>r. Inr (if r = JStr ''system'' then [] else [m]))) messages)
       (\<lambda>kept. Inr (concat kept))"

definition pop_system_message :: "json list \<Rightarrow> (json option \<times> json list) result" where
  "pop_system_message messages =
     bind_result (get_system_message messages) (\<lambda>s. bind_result (remove_system_message messages) (\<lambda>rest. Inr (s, rest)))"

definition add_or_update_system_message :: "json_codec \<Rightarrow> string \<Rightarrow> json list \<Rightarrow> json list result" where
  "add_or_update_system_message jc content messages =
     (case messages of
        m # ms \<Rightarrow>
          bind_result (json_get ''role'' m) (\<lambda>r.
            if r = Some (JStr ''system'')
            then bind_result (json_item ''content'' m) (\<lambda>old.
                   case m of
                     JObj kvs \<Rightarrow> Inr (JObj (AList.update ''content'' (JStr (content @ [NEWLINE] @ py_str jc old)) kvs) # ms)
                   | _ \<Rightarrow> Inl TypeError)
            else Inr (JObj [(''role'', JStr ''system''), (''content'', JStr content)] # messages))
      | [] \<Rightarrow> Inr [JObj [(''role'', JStr ''system''), (''content'', JStr content)]])"

text \<open>
  The path to a message. Following the parents may never end; \<open>None\<close> is the loop that does not.
\<close>

datatype message_list = Not_in_history string | Path "json list"

definition parent_message :: "(string \<times> json) list \<Rightarrow> json \<Rightarrow> json option result" where
  "parent_message messages current =
     bind_result (json_item ''parentId'' current) (\<lambda>p.
       if \<not> json_truthy p then Inr None
       else case p of
              JStr pid \<Rightarrow> Inr (case map_of messages pid of None \<Rightarrow> None | Some m \<Rightarrow> if json_truthy m then Some m else None)
            | JList _ \<Rightarrow> Inl TypeError
            | JObj _ \<Rightarrow> Inl TypeError
            | _ \<Rightarrow> Inr None)"

partial_function (option) follow_parents ::
    "(string \<times> json) list \<Rightarrow> json \<Rightarrow> json list \<Rightarrow> json list result option" where
  "follow_parents messages current acc =
     (case parent_message messages current of
        Inl e \<Rightarrow> Some (Inl e)
      | Inr None \<Rightarrow> Some (Inr (current # acc))
      | Inr (Some parent) \<Rightarrow> follow_parents messages parent (current # acc))"

definition get_message_list :: "(string \<times> json) list \<Rightarrow> string \<Rightarrow> message_list result option" where
  "get_message_list messages message_id =
     (case map_of messages message_id of
        Some m \<Rightarrow>
          if json_truthy m
          then map_option (\<lambda>r. bind_result r (\<lambda>path. Inr (Path path))) (follow_parents messages m [])
          else Some (Inr (Not_in_history message_id))
      | None \<Rightarrow> Some (Inr (Not_in_history message_id)))"

section \<open>From OpenAI to Ollama\<close>

text \<open>\<open>content_text += text\<close> and \<open>url.split(",")[-1]\<close>.\<close>

definition ollama_item :: "json \<Rightarrow> string \<times> string list \<Rightarrow> (string \<times> string list) result" where
  "ollama_item item acc =
     bind_result (json_get ''type'' item) (\<lambda>t.
       if t = Some (JStr ''text'')
       then bind_result (json_get_default ''text'' item (JStr [])) (\<lambda>x.
              case x of JStr s \<Rightarrow> Inr (fst acc @ s, snd acc) | _ \<Rightarrow> Inl TypeError)
       else if t = Some (JStr ''image_url'')
       then bind_result (json_get_default ''image_url'' item (JObj [])) (\<lambda>u.
              bind_result (json_get_default ''url'' u (JStr [])) (\<lambda>url.
                if \<not> json_truthy url then Inr acc
                else case url of
                       JStr s \<Rightarrow> Inr (fst acc, snd acc @ [if prefix ''data:'' s then last (split_on (CHR '','') s) else s])
                     | _ \<Rightarrow> Inl AttributeError))
       else Inr acc)"

fun ollama_items :: "json list \<Rightarrow> string \<times> string list \<Rightarrow> (string \<times> string list) result" where
  "ollama_items [] acc = Inr acc"
| "ollama_items (i # is) acc = bind_result (ollama_item i acc) (ollama_items is)"

definition ollama_message :: "json \<Rightarrow> json result" where
  "ollama_message message =
     bind_result (json_item ''role'' message) (\<lambda>role.
       bind_result (json_get_default ''content'' message (JList [])) (\<lambda>content.
         case content of
           JStr s \<Rightarrow> Inr (JObj [(''role'', role), (''content'', JStr s)])
         | _ \<Rightarrow>
             bind_result (json_items content) (\<lambda>items.
               bind_result (ollama_items items ([], [])) (\<lambda>(text, images).
                 Inr (JObj ([(''role'', role)] @
                      (if text \<noteq> [] then [(''content'', JStr (py_strip text))] else []) @
                      (if images \<noteq> [] then [(''images'', JList (map JStr images))] else [])))))))"

definition convert_messages_openai_to_ollama :: "json list \<Rightarrow> json list result" where
  "convert_messages_openai_to_ollama messages = map_result ollama_message messages"

section \<open>From OpenAI to Anthropic\<close>

definition text_block :: "json \<Rightarrow> json" where
  "text_block t = JObj [(''type'', JStr ''text''), (''text'', t)]"

definition anthropic_image_block :: "json \<Rightarrow> json option result" where
  "anthropic_image_block img_url =
     (if \<not> json_truthy img_url then Inr None
      else case img_url of
             JStr s \<Rightarrow>
               if prefix ''data:'' s
               then if CHR '','' \<in> set s
                    then let header = takeWhile (\<lambda>c. c \<noteq> CHR '','') s; data = tl (dropWhile (\<lambda>c. c \<noteq> CHR '','') s);
                             media = drop 5 (hd (split_on (CHR '';'') header))
                         in Inr (Some (JObj [(''type'', JStr ''image''), (''source'', JObj [(''type'', JStr ''base64''),
                              (''media_type'', JStr (if media = [] then ''image/png'' else media)), (''data'', JStr data)])]))
                    else Inr None
               else Inr (Some (JObj [(''type'', JStr ''image''), (''source'', JObj [(''type'', JStr ''url''), (''url'', JStr s)])]))
           | _ \<Rightarrow> Inl AttributeError)"

definition anthropic_content_item :: "json \<Rightarrow> json list result" where
  "anthropic_content_item item =
     bind_result (json_get ''type'' item) (\<lambda>t.
       if t = Some (JStr ''text'')
       then bind_result (json_get_default ''text'' item (JStr [])) (\<lambda>x. Inr (if json_truthy x then [text_block x] else []))
       else if t = Some (JStr ''image_url'')
       then bind_result (json_get_default ''image_url'' item (JObj [])) (\<lambda>u.
              bind_result (json_get_default ''url'' u (JStr [])) (\<lambda>url.
                bind_result (anthropic_image_block url) (\<lambda>b. Inr (case b of None \<Rightarrow> [] | Some x \<Rightarrow> [x]))))
       else Inr [])"

definition anthropic_content_blocks :: "json \<Rightarrow> json list result" where
  "anthropic_content_blocks content =
     (case content of
        JNull \<Rightarrow> Inr []
      | JStr s \<Rightarrow> Inr (if s \<noteq> [] then [text_block (JStr s)] else [])
      | _ \<Rightarrow> bind_result (json_items content) (\<lambda>items.
              bind_result (map_result anthropic_content_item items) (\<lambda>bs. Inr (concat bs))))"

definition tool_result_block :: "json_codec \<Rightarrow> json \<Rightarrow> json result" where
  "tool_result_block jc message =
     bind_result (json_get ''content'' message) (\<lambda>content.
       bind_result (json_get ''tool_call_id'' message) (\<lambda>i.
         bind_result (json_get ''is_error'' message) (\<lambda>err.
           Inr (JObj ([(''type'', JStr ''tool_result''), (''tool_use_id'', or_null i),
                  (''content'', if is_str (or_null content) then or_null content else JStr (jc_dumps jc (or_null content)))] @
                  (if json_truthy (or_null err) then [(''is_error'', JBool True)] else []))))))"

text \<open>\<open>arguments or "{}"\<close>; text that is no JSON becomes an empty dict.\<close>

definition tool_arguments :: "json_codec \<Rightarrow> json \<Rightarrow> json" where
  "tool_arguments jc arguments =
     (case arguments of
        JStr s \<Rightarrow> (case jc_loads jc (if s = [] then ''{}'' else s) of None \<Rightarrow> JObj [] | Some v \<Rightarrow> v)
      | _ \<Rightarrow> arguments)"

definition tool_use_block :: "json_codec \<Rightarrow> json \<Rightarrow> json result" where
  "tool_use_block jc call =
     bind_result (json_get_default ''function'' call (JObj [])) (\<lambda>f.
       bind_result (json_get_default ''arguments'' f (JStr ''{}'')) (\<lambda>arguments.
         bind_result (json_get ''id'' call) (\<lambda>i.
           bind_result (json_get ''name'' f) (\<lambda>n.
             Inr (JObj [(''type'', JStr ''tool_use''), (''id'', or_null i), (''name'', or_null n), (''input'', tool_arguments jc arguments)])))))"

text \<open>One message: the system texts it adds, and the turn it becomes, if any.\<close>

definition anthropic_turn :: "json_codec \<Rightarrow> json \<Rightarrow> (json list \<times> (string \<times> json list) list) result" where
  "anthropic_turn jc message =
     bind_result (json_get ''role'' message) (\<lambda>role.
       bind_result (json_get ''content'' message) (\<lambda>content.
         if role = Some (JStr ''system'')
         then bind_result (anthropic_content_blocks (or_null content)) (\<lambda>blocks.
                Inr (List.map_filter (\<lambda>b. case b of JObj kvs \<Rightarrow> if map_of kvs ''type'' = Some (JStr ''text'') then map_of kvs ''text'' else None | _ \<Rightarrow> None) blocks, []))
         else if role = Some (JStr ''tool'')
         then bind_result (tool_result_block jc message) (\<lambda>b. Inr ([], [(''user'', [b])]))
         else if role = Some (JStr ''assistant'')
         then bind_result (anthropic_content_blocks (or_null content)) (\<lambda>blocks.
                bind_result (json_get_or ''tool_calls'' message (JList [])) (\<lambda>calls.
                  bind_result (json_items calls) (\<lambda>items.
                    bind_result (map_result (tool_use_block jc) items) (\<lambda>uses.
                      Inr ([], if blocks @ uses \<noteq> [] then [(''assistant'', blocks @ uses)] else [])))))
         else bind_result (anthropic_content_blocks (or_null content)) (\<lambda>blocks.
                Inr ([], if blocks \<noteq> [] then [(''user'', blocks)] else []))))"

text \<open>Consecutive turns of one role are merged.\<close>

fun merge_turns :: "(string \<times> json list) list \<Rightarrow> (string \<times> json list) list" where
  "merge_turns ((r, bs) # (r', bs') # ts) =
     (if r = r' then merge_turns ((r, bs @ bs') # ts) else (r, bs) # merge_turns ((r', bs') # ts))"
| "merge_turns ts = ts"

definition turn_json :: "string \<times> json list \<Rightarrow> json" where
  "turn_json t = JObj [(''role'', JStr (fst t)), (''content'', JList (snd t))]"

text \<open>\<open>"\n\n".join(system_parts)\<close>, where every part has to be a text.\<close>

definition join_texts :: "json list \<Rightarrow> json result" where
  "join_texts parts =
     bind_result (map_result (\<lambda>p. case p of JStr s \<Rightarrow> Inr s | _ \<Rightarrow> Inl TypeError) parts)
       (\<lambda>ss. Inr (JStr (py_join [NEWLINE, NEWLINE] ss)))"

definition convert_messages_openai_to_anthropic :: "json_codec \<Rightarrow> json list \<Rightarrow> (json list \<times> json) result" where
  "convert_messages_openai_to_anthropic jc messages =
     bind_result (map_result (anthropic_turn jc) messages) (\<lambda>rs.
       let parts = concat (map fst rs); merged = map turn_json (merge_turns (concat (map snd rs)))
       in if parts = [] then Inr (merged, JNull) else bind_result (join_texts parts) (\<lambda>system. Inr (merged, system)))"

text \<open>A tool of a request; the specification only takes a text as name and description and a dict as schema.\<close>

definition anthropic_tool :: "json \<Rightarrow> json list result" where
  "anthropic_tool tool =
     bind_result (json_get_default ''function'' tool tool) (\<lambda>f.
       bind_result (json_get ''name'' f) (\<lambda>name.
         if \<not> json_truthy (or_null name) then Inr []
         else bind_result (json_get_or ''description'' f (JStr [])) (\<lambda>description.
                bind_result (json_get ''parameters'' f) (\<lambda>schema.
                  let s = (if json_truthy (or_null schema) then or_null schema else JObj empty_object_schema)
                  in case (or_null name, description, s) of
                       (JStr n, JStr d, JObj kvs) \<Rightarrow>
                         Inr [JObj (to_anthropic \<lparr>ts_name = n, ts_description = d, ts_input_schema = kvs, ts_title = None, ts_output_schema = None\<rparr>)]
                     | _ \<Rightarrow> Inl (ValueError ''ToolSpec'')))))"

text \<open>\<open>for x in tools or []\<close>.\<close>

definition items_or_none :: "json option \<Rightarrow> json list result" where
  "items_or_none v = (if json_truthy (or_null v) then json_items (or_null v) else Inr [])"

definition convert_tools_openai_to_anthropic :: "json option \<Rightarrow> json list result" where
  "convert_tools_openai_to_anthropic tools =
     bind_result (items_or_none tools) (\<lambda>ts. bind_result (map_result anthropic_tool ts) (\<lambda>r. Inr (concat r)))"

definition convert_tool_choice_openai_to_anthropic :: "json option \<Rightarrow> json option result" where
  "convert_tool_choice_openai_to_anthropic tool_choice =
     (case or_null tool_choice of
        JStr s \<Rightarrow> Inr (if s = ''none'' then Some (JObj [(''type'', JStr ''none'')])
                       else if s = ''required'' then Some (JObj [(''type'', JStr ''any'')]) else None)
      | JObj kvs \<Rightarrow>
          if map_of kvs ''type'' = Some (JStr ''function'')
          then bind_result (json_get_default ''function'' (JObj kvs) (JObj [])) (\<lambda>f.
                 bind_result (json_get ''name'' f) (\<lambda>n.
                   Inr (if json_truthy (or_null n) then Some (JObj [(''type'', JStr ''tool''), (''name'', or_null n)]) else None)))
          else Inr None
      | _ \<Rightarrow> Inr None)"

definition ANTHROPIC_NO_SAMPLING_PREFIXES :: "string list" where
  "ANTHROPIC_NO_SAMPLING_PREFIXES = [''claude-fable-'', ''claude-mythos-'', ''claude-opus-4-7'', ''claude-opus-4-8'', ''claude-sonnet-5'']"

definition first_truthy :: "json option list \<Rightarrow> json \<Rightarrow> json" where
  "first_truthy vs d = (case find (\<lambda>v. json_truthy (or_null v)) vs of None \<Rightarrow> d | Some v \<Rightarrow> or_null v)"

definition when_truthy :: "json option \<Rightarrow> (json \<Rightarrow> (string \<times> json) list) \<Rightarrow> (string \<times> json) list" where
  "when_truthy v f = (if json_truthy (or_null v) then f (or_null v) else [])"

definition rejects_sampling :: "json option \<Rightarrow> bool result" where
  "rejects_sampling model =
     (if \<not> json_truthy (or_null model) then Inr False
      else case or_null model of
             JStr s \<Rightarrow> Inr (list_ex (\<lambda>p. prefix p s) ANTHROPIC_NO_SAMPLING_PREFIXES)
           | _ \<Rightarrow> Inl AttributeError)"

definition stop_list :: "json \<Rightarrow> json list result" where
  "stop_list stop = (case stop of JStr s \<Rightarrow> Inr [JStr s] | _ \<Rightarrow> json_items stop)"

definition convert_payload_openai_to_anthropic ::
    "json_codec \<Rightarrow> int \<Rightarrow> bool \<Rightarrow> (string \<times> json) list \<Rightarrow> (string \<times> json) list result" where
  "convert_payload_openai_to_anthropic jc default_max_tokens supports_adaptive_thinking p =
     bind_result (items_or_none (map_of p ''messages'')) (\<lambda>ms.
     bind_result (convert_messages_openai_to_anthropic jc ms) (\<lambda>(messages, system).
     bind_result (convert_tools_openai_to_anthropic (map_of p ''tools'')) (\<lambda>tools.
     bind_result (if tools = [] then Inr None else convert_tool_choice_openai_to_anthropic (map_of p ''tool_choice'')) (\<lambda>choice.
     bind_result (if json_truthy (or_null (map_of p ''stop'')) then stop_list (or_null (map_of p ''stop'')) else Inr []) (\<lambda>stops.
     bind_result (rejects_sampling (map_of p ''model'')) (\<lambda>rejected.
       Inr ([(''model'', or_null (map_of p ''model'')), (''messages'', JList messages),
             (''max_tokens'', first_truthy [map_of p ''max_tokens'', map_of p ''max_completion_tokens''] (JInt default_max_tokens)),
             (''stream'', case map_of p ''stream'' of None \<Rightarrow> JBool False | Some v \<Rightarrow> v)] @
            (if json_truthy system then [(''system'', system)] else []) @
            (if tools \<noteq> [] then [(''tools'', JList tools)] else []) @
            (case choice of None \<Rightarrow> [] | Some c \<Rightarrow> [(''tool_choice'', c)]) @
            (if json_truthy (or_null (map_of p ''stop'')) then [(''stop_sequences'', JList stops)] else []) @
            (if supports_adaptive_thinking then [(''thinking'', JObj [(''type'', JStr ''adaptive''), (''display'', JStr ''summarized'')])] else []) @
            when_truthy (map_of p ''effort'') (\<lambda>e. [(''output_config'', JObj [(''effort'', e)])]) @
            (if rejected then [] else List.map_filter (\<lambda>k. case map_of p k of None \<Rightarrow> None | Some JNull \<Rightarrow> None | Some v \<Rightarrow> Some (k, v))
               [''temperature'', ''top_p'', ''top_k'']))))))))"

section \<open>From Anthropic to OpenAI\<close>

definition openai_image_part :: "json_codec \<Rightarrow> json \<Rightarrow> json option result" where
  "openai_image_part jc source =
     bind_result (json_get ''type'' source) (\<lambda>t.
       if t = Some (JStr ''base64'')
       then bind_result (json_get ''data'' source) (\<lambda>data.
              if \<not> json_truthy (or_null data) then Inr None
              else bind_result (json_get_or ''media_type'' source (JStr ''image/png'')) (\<lambda>media.
                     Inr (Some (JObj [(''type'', JStr ''image_url''),
                       (''image_url'', JObj [(''url'', JStr (''data:'' @ py_str jc media @ '';base64,'' @ py_str jc (or_null data)))])]))))
       else if t = Some (JStr ''url'')
       then bind_result (json_get ''url'' source) (\<lambda>url.
              Inr (if json_truthy (or_null url) then Some (JObj [(''type'', JStr ''image_url''), (''image_url'', JObj [(''url'', or_null url)])]) else None))
       else Inr None)"

definition system_part :: "json \<Rightarrow> string list result" where
  "system_part block =
     (case block of
        JObj kvs \<Rightarrow>
          if map_of kvs ''type'' = Some (JStr ''text'') \<and> json_truthy (or_null (map_of kvs ''text''))
          then (case or_null (map_of kvs ''text'') of JStr s \<Rightarrow> Inr [s] | _ \<Rightarrow> Inl TypeError)
          else Inr []
      | _ \<Rightarrow> Inr [])"

definition anthropic_system_text :: "json \<Rightarrow> string result" where
  "anthropic_system_text system =
     (case system of
        JNull \<Rightarrow> Inr []
      | JStr s \<Rightarrow> Inr s
      | _ \<Rightarrow> bind_result (json_items system) (\<lambda>items.
              bind_result (map_result system_part items) (\<lambda>ps. Inr (py_join [NEWLINE, NEWLINE] (concat ps)))))"

definition tool_result_piece :: "json_codec \<Rightarrow> json \<Rightarrow> string result" where
  "tool_result_piece jc block =
     (case block of
        JStr s \<Rightarrow> Inr s
      | JObj kvs \<Rightarrow>
          if map_of kvs ''type'' = Some (JStr ''text'')
          then (let t = or_null (map_of kvs ''text'')
                in if \<not> json_truthy t then Inr [] else case t of JStr s \<Rightarrow> Inr s | _ \<Rightarrow> Inl TypeError)
          else Inr (jc_dumps jc block)
      | _ \<Rightarrow> Inr [])"

definition openai_tool_result_content :: "json_codec \<Rightarrow> json \<Rightarrow> string result" where
  "openai_tool_result_content jc content =
     (case content of
        JNull \<Rightarrow> Inr []
      | JStr s \<Rightarrow> Inr s
      | _ \<Rightarrow> bind_result (json_items content) (\<lambda>items. bind_result (map_result (tool_result_piece jc) items) (\<lambda>ps. Inr (concat ps))))"

text \<open>The blocks of a message, a text being one block.\<close>

definition message_blocks :: "json \<Rightarrow> json list result" where
  "message_blocks content =
     (case content of
        JStr s \<Rightarrow> Inr (if s = [] then [] else [text_block (JStr s)])
      | _ \<Rightarrow> if json_truthy content then json_items content else Inr [])"

text \<open>An assistant block gives a piece of text or a call; a user block a part or a tool message.\<close>

definition assistant_block :: "json_codec \<Rightarrow> json \<Rightarrow> (json list \<times> json list) result" where
  "assistant_block jc block =
     bind_result (json_get ''type'' block) (\<lambda>t.
       if t = Some (JStr ''text'')
       then bind_result (json_get ''text'' block) (\<lambda>x. Inr (if json_truthy (or_null x) then [or_null x] else [], []))
       else if t = Some (JStr ''tool_use'')
       then bind_result (json_get ''id'' block) (\<lambda>i.
              bind_result (json_get ''name'' block) (\<lambda>n.
                bind_result (json_get_or ''input'' block (JObj [])) (\<lambda>input.
                  Inr ([], [JObj [(''id'', or_null i), (''type'', JStr ''function''),
                    (''function'', JObj [(''name'', or_null n), (''arguments'', JStr (jc_dumps jc input))])]]))))
       else Inr ([], []))"

definition user_block :: "json_codec \<Rightarrow> json \<Rightarrow> (json list \<times> json list) result" where
  "user_block jc block =
     bind_result (json_get ''type'' block) (\<lambda>t.
       if t = Some (JStr ''text'')
       then bind_result (json_get ''text'' block) (\<lambda>x. Inr (if json_truthy (or_null x) then [text_block (or_null x)] else [], []))
       else if t = Some (JStr ''image'')
       then bind_result (json_get_or ''source'' block (JObj [])) (\<lambda>source.
              bind_result (openai_image_part jc source) (\<lambda>part. Inr (case part of None \<Rightarrow> [] | Some x \<Rightarrow> [x], [])))
       else if t = Some (JStr ''tool_result'')
       then bind_result (json_get ''tool_use_id'' block) (\<lambda>i.
              bind_result (json_get ''content'' block) (\<lambda>content.
                bind_result (openai_tool_result_content jc (or_null content)) (\<lambda>text.
                  Inr ([], [JObj [(''role'', JStr ''tool''), (''tool_call_id'', or_null i), (''content'', JStr text)]]))))
       else Inr ([], []))"

text \<open>\<open>"".join(...)\<close> of values that have to be texts.\<close>

definition concat_texts :: "json list \<Rightarrow> string result" where
  "concat_texts vs = bind_result (map_result (\<lambda>p. case p of JStr s \<Rightarrow> Inr s | _ \<Rightarrow> Inl TypeError) vs) (\<lambda>ss. Inr (concat ss))"

definition part_text :: "json \<Rightarrow> json" where
  "part_text p = (case p of JObj kvs \<Rightarrow> or_null (map_of kvs ''text'') | _ \<Rightarrow> JNull)"

definition is_text_part :: "json \<Rightarrow> bool" where
  "is_text_part p = (case p of JObj kvs \<Rightarrow> map_of kvs ''type'' = Some (JStr ''text'') | _ \<Rightarrow> False)"

definition openai_messages :: "json_codec \<Rightarrow> json \<Rightarrow> json list result" where
  "openai_messages jc message =
     bind_result (json_get ''role'' message) (\<lambda>role.
       bind_result (json_get ''content'' message) (\<lambda>content.
         bind_result (message_blocks (or_null content)) (\<lambda>blocks.
           if role = Some (JStr ''assistant'')
           then bind_result (map_result (assistant_block jc) blocks) (\<lambda>rs.
                  bind_result (concat_texts (concat (map fst rs))) (\<lambda>text.
                    let calls = concat (map snd rs)
                    in Inr (if text = [] \<and> calls = [] then []
                            else [JObj ([(''role'', JStr ''assistant''), (''content'', if text = [] then JNull else JStr text)] @
                                   (if calls = [] then [] else [(''tool_calls'', JList calls)]))])))
           else bind_result (map_result (user_block jc) blocks) (\<lambda>rs.
                  let parts = concat (map fst rs); tools = concat (map snd rs)
                  in if parts = [] then Inr tools
                     else if list_all is_text_part parts
                     then bind_result (concat_texts (map part_text parts)) (\<lambda>text.
                            Inr (tools @ [JObj [(''role'', JStr ''user''), (''content'', JStr text)]]))
                     else Inr (tools @ [JObj [(''role'', JStr ''user''), (''content'', JList parts)]])))))"

definition convert_messages_anthropic_to_openai :: "json_codec \<Rightarrow> json list \<Rightarrow> json \<Rightarrow> json list result" where
  "convert_messages_anthropic_to_openai jc messages system =
     bind_result (anthropic_system_text system) (\<lambda>text.
       bind_result (map_result (openai_messages jc) messages) (\<lambda>ms.
         Inr ((if text = [] then [] else [JObj [(''role'', JStr ''system''), (''content'', JStr text)]]) @ concat ms)))"

definition openai_tool :: "json \<Rightarrow> json list result" where
  "openai_tool tool =
     bind_result (json_get ''name'' tool) (\<lambda>name.
       if \<not> json_truthy (or_null name) then Inr []
       else bind_result (json_get ''type'' tool) (\<lambda>t.
              bind_result (json_get ''input_schema'' tool) (\<lambda>s.
                if json_truthy (or_null t) \<and> s = None then Inr []
                else bind_result (json_get_or ''description'' tool (JStr [])) (\<lambda>description.
                       Inr [JObj [(''type'', JStr ''function''), (''function'', JObj [(''name'', or_null name), (''description'', description),
                         (''parameters'', if json_truthy (or_null s) then or_null s
                                          else JObj [(''type'', JStr ''object''), (''properties'', JObj [])])])]]))))"

definition convert_tools_anthropic_to_openai :: "json option \<Rightarrow> json list result" where
  "convert_tools_anthropic_to_openai tools =
     bind_result (items_or_none tools) (\<lambda>ts. bind_result (map_result openai_tool ts) (\<lambda>r. Inr (concat r)))"

definition convert_tool_choice_anthropic_to_openai :: "json option \<Rightarrow> json option" where
  "convert_tool_choice_anthropic_to_openai tool_choice =
     (case or_null tool_choice of
        JObj kvs \<Rightarrow>
          (let t = map_of kvs ''type''; n = or_null (map_of kvs ''name'')
           in if t = Some (JStr ''auto'') then Some (JStr ''auto'')
              else if t = Some (JStr ''none'') then Some (JStr ''none'')
              else if t = Some (JStr ''any'') then Some (JStr ''required'')
              else if t = Some (JStr ''tool'') \<and> json_truthy n
              then Some (JObj [(''type'', JStr ''function''), (''function'', JObj [(''name'', n)])])
              else None)
      | _ \<Rightarrow> None)"

definition not_null :: "string \<Rightarrow> json option \<Rightarrow> (string \<times> json) list" where
  "not_null k v = (case v of None \<Rightarrow> [] | Some JNull \<Rightarrow> [] | Some x \<Rightarrow> [(k, x)])"

definition convert_payload_anthropic_to_openai :: "json_codec \<Rightarrow> (string \<times> json) list \<Rightarrow> (string \<times> json) list result" where
  "convert_payload_anthropic_to_openai jc p =
     bind_result (items_or_none (map_of p ''messages'')) (\<lambda>ms.
     bind_result (convert_messages_anthropic_to_openai jc ms (or_null (map_of p ''system''))) (\<lambda>messages.
     bind_result (convert_tools_anthropic_to_openai (map_of p ''tools'')) (\<lambda>tools.
     bind_result (items_or_none (map_of p ''stop_sequences'')) (\<lambda>stops.
       Inr ([(''model'', or_null (map_of p ''model'')), (''messages'', JList messages),
             (''stream'', JBool (json_truthy (or_null (map_of p ''stream''))))] @
            not_null ''max_tokens'' (map_of p ''max_tokens'') @
            (if tools \<noteq> [] then [(''tools'', JList tools)] else []) @
            (if tools = [] then [] else case convert_tool_choice_anthropic_to_openai (map_of p ''tool_choice'') of None \<Rightarrow> [] | Some c \<Rightarrow> [(''tool_choice'', c)]) @
            (if json_truthy (or_null (map_of p ''stop_sequences'')) then [(''stop'', JList stops)] else []) @
            not_null ''temperature'' (map_of p ''temperature'') @ not_null ''top_p'' (map_of p ''top_p''))))))"

section \<open>The path to a message\<close>

text \<open>
  A history is well founded if its messages are dicts with a parent that is null, missing from the
  history or ranked lower, for some ranking of the ids.
\<close>

fun rank_ok :: "(string \<Rightarrow> nat) \<Rightarrow> (string \<times> json) list \<Rightarrow> string \<Rightarrow> json option \<Rightarrow> bool" where
  "rank_ok rank messages i (Some JNull) = True"
| "rank_ok rank messages i (Some (JStr q)) = (map_of messages q = None \<or> rank q < rank i)"
| "rank_ok rank messages i v = False"

fun parent_ranked :: "(string \<Rightarrow> nat) \<Rightarrow> (string \<times> json) list \<Rightarrow> string \<Rightarrow> json \<Rightarrow> bool" where
  "parent_ranked rank messages i (JObj kvs) = rank_ok rank messages i (map_of kvs ''parentId'')"
| "parent_ranked rank messages i m = False"

definition ranked :: "(string \<Rightarrow> nat) \<Rightarrow> (string \<times> json) list \<Rightarrow> bool" where
  "ranked rank messages = list_all (\<lambda>(i, m). parent_ranked rank messages i m) messages"

text \<open>Each message is the parent of the next.\<close>

fun chained :: "(string \<times> json) list \<Rightarrow> json list \<Rightarrow> bool" where
  "chained messages (m # n # ms) \<longleftrightarrow> parent_message messages n = Inr (Some m) \<and> chained messages (n # ms)"
| "chained messages _ = True"

lemma chained_prepend:
  "chained messages (m # acc) \<Longrightarrow> parent_message messages m = Inr (Some p) \<Longrightarrow> chained messages (p # m # acc)"
  by simp

lemma ranked_parent:
  assumes "ranked rank messages" and "map_of messages i = Some m"
  shows "parent_message messages m = Inr None \<or>
    (\<exists>q p. parent_message messages m = Inr (Some p) \<and> map_of messages q = Some p \<and> rank q < rank i)"
    and "json_truthy m"
proof -
  have parent: "parent_ranked rank messages i m" using assms(1) map_of_SomeD[OF assms(2)] by (auto simp: ranked_def list_all_iff)
  obtain kvs v where m: "m = JObj kvs" "map_of kvs ''parentId'' = Some v"
    and v: "v = JNull \<or> (\<exists>q. v = JStr q \<and> (map_of messages q = None \<or> rank q < rank i))"
    using parent by (auto elim!: parent_ranked.elims rank_ok.elims)
  show "json_truthy m" using m by (cases kvs) simp_all
  show "parent_message messages m = Inr None \<or>
    (\<exists>q p. parent_message messages m = Inr (Some p) \<and> map_of messages q = Some p \<and> rank q < rank i)"
    using m v by (auto simp: parent_message_def json_item_def split: option.split)
qed

lemma follow_parents_path:
  assumes "ranked rank messages"
  shows "map_of messages i = Some m \<Longrightarrow> chained messages (m # acc) \<Longrightarrow>
    \<exists>pre r. follow_parents messages m acc = Some (Inr (pre @ m # acc)) \<and> chained messages (pre @ m # acc) \<and>
      r = hd (pre @ m # acc) \<and> parent_message messages r = Inr None"
proof (induction "rank i" arbitrary: i m acc rule: less_induct)
  case less
  show ?case
  proof (cases "parent_message messages m = Inr None")
    case True
    then have "follow_parents messages m acc = Some (Inr ([] @ m # acc))" by (subst follow_parents.simps) simp
    then show ?thesis using True less.prems(2) by (intro exI[of _ "[]"] exI[of _ m]) simp
  next
    case False
    then obtain q p where p: "parent_message messages m = Inr (Some p)" "map_of messages q = Some p" "rank q < rank i"
      using ranked_parent(1)[OF assms less.prems(1)] by blast
    have step: "follow_parents messages m acc = follow_parents messages p (m # acc)" by (subst follow_parents.simps) (simp add: p(1))
    obtain pre where "follow_parents messages p (m # acc) = Some (Inr (pre @ p # m # acc))" "chained messages (pre @ p # m # acc)"
      "parent_message messages (hd (pre @ p # m # acc)) = Inr None"
      using less.hyps[OF p(3,2) chained_prepend[OF less.prems(2) p(1)]] by blast
    then show ?thesis using step by (intro exI[of _ "pre @ [p]"] exI[of _ "hd ((pre @ [p]) @ m # acc)"]) simp
  qed
qed


definition example_history :: "(string \<times> json) list" where
  "example_history = [(''b'', JObj [(''id'', JStr ''b''), (''parentId'', JStr ''a'')]), (''a'', JObj [(''id'', JStr ''a''), (''parentId'', JNull)])]"


text \<open>A history with a cycle, which an import or an update can store, makes the search run forever.\<close>

lemma cyclic_history_never_returns:
  "get_message_list [(''a'', JObj [(''parentId'', JStr ''a'')])] ''a'' = None"
proof -
  let ?ms = "[(''a'', JObj [(''parentId'', JStr ''a'')])]" and ?m = "JObj [(''parentId'', JStr ''a'')]"
  have loop: "parent_message ?ms ?m = Inr (Some ?m)" by code_simp
  have "ms \<noteq> ?ms \<or> m \<noteq> ?m" if r: "follow_parents ms m acc = Some y" for ms m acc y
    by (rule follow_parents.raw_induct[where P = "\<lambda>ms m acc y. ms \<noteq> ?ms \<or> m \<noteq> ?m", OF _ r]) (use loop in \<open>auto split: sum.splits option.splits\<close>)
  then have "follow_parents ?ms ?m [] = None" by (cases "follow_parents ?ms ?m []") auto
  then show ?thesis by (simp add: get_message_list_def)
qed

section \<open>There and back\<close>

text \<open>
  A conversation in the Anthropic form, as data: a user turn has tool results and then parts, an
  assistant turn a text and then calls (id, name and input). Results have no error mark, as the
  translation drops it.
\<close>

datatype user_part = Text_part string | Image_data string string | Image_url string

datatype turn = User_turn "(json \<times> string) list" "user_part list" | Assistant_turn string "(json \<times> json \<times> json) list"

fun part_json :: "user_part \<Rightarrow> json" where
  "part_json (Text_part t) = text_block (JStr t)"
| "part_json (Image_data m d) = JObj [(''type'', JStr ''image''), (''source'', JObj [(''type'', JStr ''base64''), (''media_type'', JStr m), (''data'', JStr d)])]"
| "part_json (Image_url u) = JObj [(''type'', JStr ''image''), (''source'', JObj [(''type'', JStr ''url''), (''url'', JStr u)])]"

definition result_json :: "json \<times> string \<Rightarrow> json" where
  "result_json r = JObj [(''type'', JStr ''tool_result''), (''tool_use_id'', fst r), (''content'', JStr (snd r))]"

definition use_json :: "json \<times> json \<times> json \<Rightarrow> json" where
  "use_json u = JObj [(''type'', JStr ''tool_use''), (''id'', fst u), (''name'', fst (snd u)), (''input'', snd (snd u))]"

fun blocks_of :: "turn \<Rightarrow> string \<times> json list" where
  "blocks_of (User_turn rs ps) = (''user'', map result_json rs @ map part_json ps)"
| "blocks_of (Assistant_turn t us) = (''assistant'', (if t = [] then [] else [text_block (JStr t)]) @ map use_json us)"

definition conversation :: "turn list \<Rightarrow> json list" where
  "conversation ts = map (turn_json \<circ> blocks_of) ts"

text \<open>
  The normal form: no empty turn, text or image; texts that stand alone in one part; plain media
  types; links that are no inline data; inputs that are dicts; the roles alternate.
\<close>

fun part_ok :: "user_part \<Rightarrow> bool" where
  "part_ok (Text_part t) = (t \<noteq> [])"
| "part_ok (Image_data m d) \<longleftrightarrow> m \<noteq> [] \<and> CHR '','' \<notin> set m \<and> CHR '';'' \<notin> set m \<and> d \<noteq> []"
| "part_ok (Image_url u) \<longleftrightarrow> u \<noteq> [] \<and> \<not> prefix ''data:'' u"

fun is_text :: "user_part \<Rightarrow> bool" where
  "is_text (Text_part t) = True"
| "is_text p = False"

fun is_dict :: "json \<Rightarrow> bool" where
  "is_dict (JObj kvs) = True"
| "is_dict v = False"

fun turn_ok :: "json_codec \<Rightarrow> turn \<Rightarrow> bool" where
  "turn_ok jc (User_turn rs ps) \<longleftrightarrow> (rs \<noteq> [] \<or> ps \<noteq> []) \<and> list_all part_ok ps \<and> (length ps \<le> 1 \<or> list_ex (\<lambda>p. \<not> is_text p) ps)"
| "turn_ok jc (Assistant_turn t us) \<longleftrightarrow> (t \<noteq> [] \<or> us \<noteq> []) \<and>
     list_all (\<lambda>(i, n, v). is_dict v \<and> jc_dumps jc v \<noteq> [] \<and> jc_loads jc (jc_dumps jc v) = Some v) us"

fun alternating :: "turn list \<Rightarrow> bool" where
  "alternating (s # t # ts) \<longleftrightarrow> fst (blocks_of s) \<noteq> fst (blocks_of t) \<and> alternating (t # ts)"
| "alternating ts = True"

text \<open>The OpenAI messages of a turn.\<close>

fun openai_part :: "user_part \<Rightarrow> json" where
  "openai_part (Text_part t) = text_block (JStr t)"
| "openai_part (Image_data m d) = JObj [(''type'', JStr ''image_url''), (''image_url'', JObj [(''url'', JStr (''data:'' @ m @ '';base64,'' @ d))])]"
| "openai_part (Image_url u) = JObj [(''type'', JStr ''image_url''), (''image_url'', JObj [(''url'', JStr u)])]"

definition tool_message :: "json \<times> string \<Rightarrow> json" where
  "tool_message r = JObj [(''role'', JStr ''tool''), (''tool_call_id'', fst r), (''content'', JStr (snd r))]"

definition call_json :: "json_codec \<Rightarrow> json \<times> json \<times> json \<Rightarrow> json" where
  "call_json jc u = JObj [(''id'', fst u), (''type'', JStr ''function''),
     (''function'', JObj [(''name'', fst (snd u)), (''arguments'', JStr (jc_dumps jc (snd (snd u))))])]"

definition parts_content :: "user_part list \<Rightarrow> json" where
  "parts_content ps = (case ps of [Text_part t] \<Rightarrow> JStr t | _ \<Rightarrow> JList (map openai_part ps))"

fun openai_turn :: "json_codec \<Rightarrow> turn \<Rightarrow> json list" where
  "openai_turn jc (User_turn rs ps) =
     map tool_message rs @ (if ps = [] then [] else [JObj [(''role'', JStr ''user''), (''content'', parts_content ps)]])"
| "openai_turn jc (Assistant_turn t us) =
     [JObj ([(''role'', JStr ''assistant''), (''content'', if t = [] then JNull else JStr t)] @
            (if us = [] then [] else [(''tool_calls'', JList (map (call_json jc) us))]))]"

lemmas get_defs = json_get_def json_get_default_def json_get_or_def or_null_def

lemma map_result_map: "map_result f (map g xs) = map_result (f \<circ> g) xs"
  by (induction xs) simp_all

lemma map_result_append:
  "map_result f (xs @ ys) = bind_result (map_result f xs) (\<lambda>a. bind_result (map_result f ys) (\<lambda>b. Inr (a @ b)))"
proof (induction xs)
  case Nil
  show ?case by (cases "map_result f ys") simp_all
next
  case (Cons x xs)
  then show ?case by (cases "f x"; cases "map_result f xs"; cases "map_result f ys") simp_all
qed

lemma concat_singletons: "concat (map (\<lambda>x. [f x]) xs) = map f xs"
  by (induction xs) simp_all

lemma user_block_result: "user_block jc (result_json r) = Inr ([], [tool_message r])"
  by (simp add: user_block_def result_json_def tool_message_def openai_tool_result_content_def get_defs)

lemma user_block_part: "part_ok p \<Longrightarrow> user_block jc (part_json p) = Inr ([openai_part p], [])"
  by (cases p) (simp_all add: user_block_def text_block_def openai_image_part_def py_str_def get_defs)

lemma text_parts: "list_all is_text_part (map openai_part ps) \<longleftrightarrow> list_all is_text ps"
proof -
  have "is_text_part (openai_part p) = is_text p" for p by (cases p) (simp_all add: is_text_part_def text_block_def)
  then show ?thesis by (simp add: list_all_iff)
qed

lemma assistant_block_use:
  "is_dict (snd (snd u)) \<Longrightarrow> assistant_block jc (use_json u) = Inr ([], [call_json jc u])"
  by (cases "snd (snd u)") (auto simp: assistant_block_def use_json_def call_json_def get_defs)

lemma message_blocks_list: "message_blocks (JList bs) = Inr bs"
  by (simp add: message_blocks_def json_items_def)

lemma openai_user:
  assumes "map_result (user_block jc) bs = Inr rs" and "concat (map fst rs) = parts" and "concat (map snd rs) = tools"
  shows "openai_messages jc (turn_json (''user'', bs)) =
    (if parts = [] then Inr tools
     else if list_all is_text_part parts
     then bind_result (concat_texts (map part_text parts)) (\<lambda>text. Inr (tools @ [JObj [(''role'', JStr ''user''), (''content'', JStr text)]]))
     else Inr (tools @ [JObj [(''role'', JStr ''user''), (''content'', JList parts)]]))"
  by (simp add: openai_messages_def turn_json_def get_defs message_blocks_list Let_def assms del: concat_eq_Nil_conv)

lemma openai_assistant:
  assumes "map_result (assistant_block jc) bs = Inr rs" and "concat (map fst rs) = texts" and "concat (map snd rs) = calls"
    and "concat_texts texts = Inr text"
  shows "openai_messages jc (turn_json (''assistant'', bs)) =
    Inr (if text = [] \<and> calls = [] then []
         else [JObj ([(''role'', JStr ''assistant''), (''content'', if text = [] then JNull else JStr text)] @
                (if calls = [] then [] else [(''tool_calls'', JList calls)]))])"
  by (simp add: openai_messages_def turn_json_def get_defs message_blocks_list Let_def assms del: concat_eq_Nil_conv)

lemma inbound_user:
  assumes "turn_ok jc (User_turn rs ps)"
  shows "openai_messages jc (turn_json (blocks_of (User_turn rs ps))) = Inr (openai_turn jc (User_turn rs ps))"
proof -
  have parts: "list_all part_ok ps" using assms by simp
  have rs: "map_result (user_block jc) (map result_json rs) = Inr (map (\<lambda>r. ([], [tool_message r])) rs)"
    unfolding map_result_map by (rule map_result_ok) (simp add: user_block_result)
  have ps: "map_result (user_block jc) (map part_json ps) = Inr (map (\<lambda>p. ([openai_part p], [])) ps)"
    unfolding map_result_map by (rule map_result_ok) (use parts in \<open>simp add: user_block_part list_all_iff\<close>)
  have both: "map_result (user_block jc) (map result_json rs @ map part_json ps) =
      Inr (map (\<lambda>r. ([], [tool_message r])) rs @ map (\<lambda>p. ([openai_part p], [])) ps)"
    by (simp add: map_result_append rs ps)
  have f: "concat (map fst (map (\<lambda>r. ([] :: json list, [tool_message r])) rs @ map (\<lambda>p. ([openai_part p], [])) ps)) = map openai_part ps"
    "concat (map snd (map (\<lambda>r. ([] :: json list, [tool_message r])) rs @ map (\<lambda>p. ([openai_part p], [])) ps)) = map tool_message rs"
    by (simp_all add: comp_def concat_singletons)
  note msg = openai_user[OF both f]
  show ?thesis
  proof (cases "list_all is_text ps \<and> ps \<noteq> []")
    case True
    then obtain t where t: "ps = [Text_part t]" using assms
      by (cases ps; cases "hd ps") (auto simp: list_ex_iff list_all_iff length_Suc_conv le_Suc_eq)
    then show ?thesis using msg
      by (simp add: concat_texts_def part_text_def text_block_def is_text_part_def parts_content_def or_null_def)
  next
    case False
    then have "ps = [] \<or> \<not> list_all is_text ps" by auto
    moreover have "parts_content ps = JList (map openai_part ps)" if "\<not> list_all is_text ps"
      using that by (auto simp: parts_content_def split: list.splits user_part.splits)
    ultimately show ?thesis using msg text_parts[of ps] by auto
  qed
qed

lemma inbound_assistant:
  assumes "turn_ok jc (Assistant_turn t us)"
  shows "openai_messages jc (turn_json (blocks_of (Assistant_turn t us))) = Inr (openai_turn jc (Assistant_turn t us))"
proof -
  have us: "map_result (assistant_block jc) (map use_json us) = Inr (map (\<lambda>u. ([], [call_json jc u])) us)"
    unfolding map_result_map by (rule map_result_ok) (use assms in \<open>auto simp: assistant_block_use list_all_iff\<close>)
  have t: "assistant_block jc (text_block (JStr t)) = Inr ([JStr t], [])" if "t \<noteq> []"
    using that by (simp add: assistant_block_def text_block_def get_defs)
  let ?bs = "(if t = [] then [] else [text_block (JStr t)]) @ map use_json us"
  let ?rs = "(if t = [] then [] else [([JStr t], [])]) @ map (\<lambda>u. ([], [call_json jc u])) us"
  have r: "map_result (assistant_block jc) ?bs = Inr ?rs" using us t by (simp add: map_result_append)
  have f: "concat (map fst ?rs) = (if t = [] then [] else [JStr t])" "concat (map snd ?rs) = map (call_json jc) us"
    by (simp_all add: comp_def concat_singletons)
  have c: "concat_texts (if t = [] then [] else [JStr t]) = Inr t" by (simp add: concat_texts_def)
  show ?thesis using openai_assistant[OF r f c] assms by auto
qed

definition pieces :: "turn \<Rightarrow> json list list" where
  "pieces t = (case t of
     User_turn rs ps \<Rightarrow> map (\<lambda>r. [result_json r]) rs @ (if ps = [] then [] else [map part_json ps])
   | Assistant_turn x us \<Rightarrow> [snd (blocks_of (Assistant_turn x us))])"

lemma pieces_blocks: "concat (pieces t) = snd (blocks_of t)"
  by (cases t) (simp_all add: pieces_def concat_singletons)

lemma pieces_ne: "turn_ok jc t \<Longrightarrow> pieces t \<noteq> []"
  by (cases t) (auto simp: pieces_def)

lemma text_roundtrip: "t \<noteq> [] \<Longrightarrow> anthropic_content_item (text_block (JStr t)) = Inr [text_block (JStr t)]"
  by (simp add: anthropic_content_item_def text_block_def get_defs)

lemma takeWhile_comma:
  "CHR '','' \<notin> set m \<Longrightarrow> takeWhile (\<lambda>c. c \<noteq> CHR '','') (''data:'' @ m @ '';base64,'' @ d) = ''data:'' @ m @ '';base64''"
  "CHR '','' \<notin> set m \<Longrightarrow> dropWhile (\<lambda>c. c \<noteq> CHR '','') (''data:'' @ m @ '';base64,'' @ d) = CHR '','' # d"
  by (simp_all add: takeWhile_append2 dropWhile_append2 takeWhile_append dropWhile_append)

lemma image_roundtrip:
  assumes "part_ok (Image_data m d)"
  shows "anthropic_image_block (JStr (''data:'' @ m @ '';base64,'' @ d)) = Inr (Some (part_json (Image_data m d)))"
proof -
  have "hd (split_on (CHR '';'') (''data:'' @ m @ '';base64'')) = ''data:'' @ m"
    using split_on_append[of "CHR '';''" "''data:'' @ m" "''base64''"] assms by (simp add: split_on_free)
  then show ?thesis using assms takeWhile_comma[of m d] by (simp add: anthropic_image_block_def Let_def)
qed

lemma item_roundtrip: "part_ok p \<Longrightarrow> anthropic_content_item (openai_part p) = Inr [part_json p]"
  using image_roundtrip
  by (cases p) (simp_all add: text_roundtrip anthropic_content_item_def[of "JObj _"] get_defs anthropic_image_block_def[of "JStr _"])

lemma outbound_tool: "anthropic_turn jc (tool_message r) = Inr ([], [(''user'', [result_json r])])"
  by (simp add: anthropic_turn_def tool_message_def tool_result_block_def result_json_def is_str_def get_defs)

lemma outbound_user:
  assumes "list_all part_ok ps" and "ps \<noteq> []"
  shows "anthropic_turn jc (JObj [(''role'', JStr ''user''), (''content'', parts_content ps)]) = Inr ([], [(''user'', map part_json ps)])"
proof -
  have "anthropic_content_blocks (parts_content ps) = Inr (map part_json ps)"
  proof (cases "\<exists>t. ps = [Text_part t]")
    case True
    then show ?thesis using assms(1) by (auto simp: parts_content_def anthropic_content_blocks_def)
  next
    case False
    then have c: "parts_content ps = JList (map openai_part ps)"
      by (auto simp: parts_content_def split: list.splits user_part.splits)
    have "map_result anthropic_content_item (map openai_part ps) = Inr (map (\<lambda>p. [part_json p]) ps)"
      unfolding map_result_map by (rule map_result_ok) (use assms(1) in \<open>simp add: item_roundtrip list_all_iff\<close>)
    then show ?thesis by (simp add: c anthropic_content_blocks_def json_items_def concat_singletons)
  qed
  then show ?thesis using assms(2) by (simp add: anthropic_turn_def get_defs)
qed

lemma outbound_assistant:
  assumes "turn_ok jc (Assistant_turn t us)"
  shows "map_result (anthropic_turn jc) (openai_turn jc (Assistant_turn t us)) = Inr [([], [blocks_of (Assistant_turn t us)])]"
proof -
  have "tool_use_block jc (call_json jc u) = Inr (use_json u)" if "u \<in> set us" for u
    using that assms by (auto simp: tool_use_block_def call_json_def use_json_def tool_arguments_def get_defs list_all_iff)
  then have uses: "map_result (tool_use_block jc) (map (call_json jc) us) = Inr (map use_json us)"
    unfolding map_result_map by (intro map_result_ok) simp
  show ?thesis using assms uses
    by (cases "us = []"; cases "t = []") (auto simp: anthropic_turn_def get_defs anthropic_content_blocks_def json_items_def)
qed

lemma outbound_turn:
  assumes "turn_ok jc t"
  shows "\<exists>rs. map_result (anthropic_turn jc) (openai_turn jc t) = Inr rs \<and> concat (map fst rs) = [] \<and>
    concat (map snd rs) = map (\<lambda>bs. (fst (blocks_of t), bs)) (pieces t)"
proof (cases t)
  case (User_turn rs ps)
  have tools: "map_result (anthropic_turn jc) (map tool_message rs) = Inr (map (\<lambda>r. ([], [(''user'', [result_json r])])) rs)"
    unfolding map_result_map by (rule map_result_ok) (simp add: outbound_tool)
  show ?thesis using assms outbound_user[of ps jc] unfolding User_turn
    by (auto simp: map_result_append tools pieces_def comp_def concat_singletons)
next
  case (Assistant_turn x us)
  then show ?thesis using outbound_assistant assms by (auto simp: pieces_def)
qed

lemma merge_group:
  assumes "rest = [] \<or> fst (hd rest) \<noteq> r"
  shows "merge_turns ((r, b) # map (\<lambda>bs. (r, bs)) bss @ rest) = (r, b @ concat bss) # merge_turns rest"
proof (induction bss arbitrary: b)
  case Nil
  then show ?case using assms by (cases rest) auto
qed simp

lemma merged_turns:
  assumes "list_all (turn_ok jc) ts" and "alternating ts"
  shows "merge_turns (concat (map (\<lambda>t. map (\<lambda>bs. (fst (blocks_of t), bs)) (pieces t)) ts)) = map blocks_of ts"
  using assms
proof (induction ts)
  case (Cons t ts)
  let ?rest = "concat (map (\<lambda>t. map (\<lambda>bs. (fst (blocks_of t), bs)) (pieces t)) ts)"
  obtain b bss where p: "pieces t = b # bss" using pieces_ne[of jc t] Cons.prems(1) by (cases "pieces t") auto
  have "?rest = [] \<or> fst (hd ?rest) \<noteq> fst (blocks_of t)"
  proof (cases ts)
    case (Cons u us)
    obtain c css where "pieces u = c # css" using pieces_ne[of jc u] Cons.prems(1) Cons by (cases "pieces u") auto
    then show ?thesis using Cons Cons.prems(2) by auto
  qed simp
  note m = merge_group[OF this, of b bss]
  have "alternating ts" using Cons.prems(2) by (cases ts) auto
  then have "merge_turns ?rest = map blocks_of ts" using Cons by simp
  moreover have "b @ concat bss = snd (blocks_of t)" using pieces_blocks[of t] p by simp
  ultimately show ?case using m p by simp
qed simp

lemma outbound_turns:
  assumes "list_all (turn_ok jc) ts"
  shows "\<exists>rs. map_result (anthropic_turn jc) (concat (map (openai_turn jc) ts)) = Inr rs \<and> concat (map fst rs) = [] \<and>
    concat (map snd rs) = concat (map (\<lambda>t. map (\<lambda>bs. (fst (blocks_of t), bs)) (pieces t)) ts)"
  using assms
proof (induction ts)
  case (Cons t ts)
  obtain rs where "map_result (anthropic_turn jc) (openai_turn jc t) = Inr rs" "concat (map fst rs) = []"
    "concat (map snd rs) = map (\<lambda>bs. (fst (blocks_of t), bs)) (pieces t)" using outbound_turn[of jc t] Cons.prems by auto
  moreover obtain rs' where "map_result (anthropic_turn jc) (concat (map (openai_turn jc) ts)) = Inr rs'" "concat (map fst rs') = []"
    "concat (map snd rs') = concat (map (\<lambda>t. map (\<lambda>bs. (fst (blocks_of t), bs)) (pieces t)) ts)" using Cons by auto
  ultimately show ?case by (intro exI[of _ "rs @ rs'"]) (simp add: map_result_append del: concat_eq_Nil_conv)
qed simp

lemma inbound_turns:
  assumes "list_all (turn_ok jc) ts"
  shows "map_result (openai_messages jc) (conversation ts) = Inr (map (openai_turn jc) ts)"
  unfolding conversation_def map_result_map
proof (rule map_result_ok)
  fix t
  assume "t \<in> set ts"
  then have "turn_ok jc t" using assms by (simp add: list_all_iff)
  then show "(openai_messages jc \<circ> (turn_json \<circ> blocks_of)) t = Inr (openai_turn jc t)"
    using inbound_user inbound_assistant by (cases t) simp_all
qed

lemma system_turn:
  "s \<noteq> [] \<Longrightarrow> anthropic_turn jc (JObj [(''role'', JStr ''system''), (''content'', JStr s)]) = Inr ([JStr s], [])"
  by (simp add: anthropic_turn_def anthropic_content_blocks_def text_block_def get_defs map_filter_simps)

text \<open>
  C9: A conversation survives the translation. An Anthropic conversation in normal form, with or without
  a system prompt, translated to the OpenAI form and back, is the conversation it was: the same
  turns with the same blocks in the same order, and the same system prompt. The JSON library has to
  read back the tool inputs it wrote.
\<close>

theorem conversation_survives_translation:
  assumes "list_all (turn_ok jc) ts" and "alternating ts" and "system = JNull \<or> (\<exists>s. system = JStr s \<and> s \<noteq> [])"
  shows "bind_result (convert_messages_anthropic_to_openai jc (conversation ts) system) (convert_messages_openai_to_anthropic jc) =
    Inr (conversation ts, system)"
proof -
  obtain rs where rs: "map_result (anthropic_turn jc) (concat (map (openai_turn jc) ts)) = Inr rs" "concat (map fst rs) = []"
    "concat (map snd rs) = concat (map (\<lambda>t. map (\<lambda>bs. (fst (blocks_of t), bs)) (pieces t)) ts)" using outbound_turns[OF assms(1)] by blast
  have m: "map turn_json (merge_turns (concat (map snd rs))) = conversation ts"
    unfolding rs(3) merged_turns[OF assms(1,2)] by (simp add: conversation_def)
  show ?thesis
    using assms(3)
  proof
    assume n: "system = JNull"
    then show ?thesis using inbound_turns[OF assms(1)] rs(1,2) m
      by (simp add: convert_messages_anthropic_to_openai_def anthropic_system_text_def convert_messages_openai_to_anthropic_def Let_def del: concat_eq_Nil_conv)
  next
    assume "\<exists>s. system = JStr s \<and> s \<noteq> []"
    then obtain s where s: "system = JStr s" "s \<noteq> []" by blast
    then show ?thesis using inbound_turns[OF assms(1)] rs(1,2) m system_turn[OF s(2)]
      by (simp add: convert_messages_anthropic_to_openai_def anthropic_system_text_def convert_messages_openai_to_anthropic_def
          join_texts_def Let_def del: concat_eq_Nil_conv)
  qed
qed

definition example_codec :: json_codec where
  "example_codec = \<lparr>jc_dumps = (\<lambda>v. ''{}''), jc_loads = (\<lambda>s. if s = ''{}'' then Some (JObj []) else None), jc_str = (\<lambda>v. [])\<rparr>"

definition example_turns :: "turn list" where
  "example_turns =
     [User_turn [] [Text_part ''look'', Image_data ''image/png'' ''AAAA''],
      Assistant_turn ''calling'' [(JStr ''c1'', JStr ''clock'', JObj []), (JStr ''c2'', JStr ''clock'', JObj [])],
      User_turn [(JStr ''c1'', ''noon''), (JStr ''c2'', ''one'')] [Text_part ''thanks'']]"

theorem conversation_survives_translation_witness:
  "list_all (turn_ok example_codec) example_turns \<and> alternating example_turns \<and>
   bind_result (convert_messages_anthropic_to_openai example_codec (conversation example_turns) (JStr ''be brief''))
     (convert_messages_openai_to_anthropic example_codec) = Inr (conversation example_turns, JStr ''be brief'')"
proof -
  have h: "list_all (turn_ok example_codec) example_turns" "alternating example_turns" by code_simp+
  show ?thesis using conversation_survives_translation[OF h, of "JStr ''be brief''"] h by simp
qed

section \<open>Whole answers\<close>

text \<open>A block of an Anthropic answer: its text, its thinking and its call, as far as it has them.\<close>

definition answer_block :: "json_codec \<Rightarrow> json \<Rightarrow> (json list \<times> json list \<times> json list) result" where
  "answer_block jc block =
     bind_result (json_get ''type'' block) (\<lambda>t.
       if t = Some (JStr ''text'')
       then bind_result (json_get_default ''text'' block (JStr [])) (\<lambda>x. Inr ([x], [], []))
       else if t = Some (JStr ''thinking'')
       then bind_result (json_get ''thinking'' block) (\<lambda>x. Inr ([], if json_truthy (or_null x) then [or_null x] else [], []))
       else if t = Some (JStr ''tool_use'')
       then bind_result (json_get ''id'' block) (\<lambda>i.
              bind_result (json_get ''name'' block) (\<lambda>n.
                bind_result (json_get_default ''input'' block (JObj [])) (\<lambda>input.
                  Inr ([], [], [JObj [(''id'', or_null i), (''type'', JStr ''function''),
                    (''function'', JObj [(''name'', or_null n), (''arguments'', JStr (jc_dumps jc input))])]]))))
       else Inr ([], [], []))"

text \<open>\<open>MAP.get(reason, default)\<close>; a list or a dict is no key.\<close>

definition reason_of :: "(string \<times> string) list \<Rightarrow> string \<Rightarrow> json \<Rightarrow> json result" where
  "reason_of table dflt reason =
     (case reason of
        JStr s \<Rightarrow> Inr (JStr (case map_of table s of None \<Rightarrow> dflt | Some r \<Rightarrow> r))
      | JList _ \<Rightarrow> Inl TypeError
      | JObj _ \<Rightarrow> Inl TypeError
      | _ \<Rightarrow> Inr (JStr dflt))"

definition convert_response_anthropic_to_openai :: "json_codec \<Rightarrow> string \<Rightarrow> int \<Rightarrow> json \<Rightarrow> json result" where
  "convert_response_anthropic_to_openai jc fresh now response =
     bind_result (json_get_default ''model'' response (JStr ''anthropic'')) (\<lambda>model.
     bind_result (json_get ''content'' response) (\<lambda>content.
     bind_result (items_or_none content) (\<lambda>items.
     bind_result (map_result (answer_block jc) items) (\<lambda>rs.
     bind_result (concat_texts (concat (map fst rs))) (\<lambda>text.
     bind_result (concat_texts (concat (map (fst \<circ> snd) rs))) (\<lambda>thinking.
     bind_result (json_get ''stop_reason'' response) (\<lambda>stop.
     bind_result (reason_of ANTHROPIC_STOP_REASON_MAP ''stop'' (or_null stop)) (\<lambda>reason.
     bind_result (json_get_default ''id'' response (JStr (''chatcmpl-'' @ fresh))) (\<lambda>i.
     bind_result (json_get ''usage'' response) (\<lambda>usage.
     bind_result (if json_truthy (or_null usage)
                  then case or_null usage of JObj u \<Rightarrow> bind_result (anthropic_usage_to_openai u) (\<lambda>v. Inr [(''usage'', JObj v)]) | _ \<Rightarrow> Inl AttributeError
                  else Inr []) (\<lambda>usage_field.
       let calls = concat (map (snd \<circ> snd) rs);
           message = [(''role'', JStr ''assistant''), (''content'', if text = [] then JNull else JStr text)] @
             (if concat (map (fst \<circ> snd) rs) \<noteq> [] then [(''reasoning_content'', JStr thinking)] else []) @
             (if calls \<noteq> [] then [(''tool_calls'', JList calls)] else [])
       in Inr (JObj ([(''id'', i), (''object'', JStr ''chat.completion''), (''created'', JInt now), (''model'', model),
            (''choices'', JList [JObj [(''index'', JInt 0), (''message'', JObj message), (''logprobs'', JNull), (''finish_reason'', reason)]])] @
            usage_field)))))))))))))"

definition anthropic_tool_input :: "json_codec \<Rightarrow> json \<Rightarrow> json result" where
  "anthropic_tool_input jc arguments =
     (case arguments of
        JObj kvs \<Rightarrow> Inr arguments
      | _ \<Rightarrow>
          if \<not> json_truthy arguments then Inr (JObj [])
          else (case arguments of
                  JStr s \<Rightarrow> Inr (case jc_loads jc s of Some (JObj kvs) \<Rightarrow> JObj kvs | _ \<Rightarrow> JObj [])
                | _ \<Rightarrow> Inl TypeError))"

definition answer_call :: "json_codec \<Rightarrow> string \<Rightarrow> json \<Rightarrow> json result" where
  "answer_call jc fresh call =
     bind_result (json_get_or ''function'' call (JObj [])) (\<lambda>f.
     bind_result (json_get_or ''id'' call (JStr (''toolu_'' @ fresh))) (\<lambda>i.
     bind_result (json_get ''name'' f) (\<lambda>n.
     bind_result (json_get ''arguments'' f) (\<lambda>a.
     bind_result (anthropic_tool_input jc (or_null a)) (\<lambda>input.
       Inr (JObj [(''type'', JStr ''tool_use''), (''id'', i), (''name'', or_null n), (''input'', input)]))))))"

definition anthropic_message_id :: "string \<Rightarrow> json option \<Rightarrow> json" where
  "anthropic_message_id fresh openai_id =
     (case or_null openai_id of JStr s \<Rightarrow> JStr (if prefix ''msg_'' s then s else ''msg_'' @ fresh) | _ \<Rightarrow> JStr (''msg_'' @ fresh))"

text \<open>The identifiers \<open>uuid4\<close> draws are a parameter, numbered in the order in which they are used.\<close>

definition convert_response_openai_to_anthropic :: "json_codec \<Rightarrow> (nat \<Rightarrow> string) \<Rightarrow> json \<Rightarrow> string option \<Rightarrow> json result" where
  "convert_response_openai_to_anthropic jc fresh response model =
     bind_result (json_get_or ''choices'' response (JList [JObj []])) (\<lambda>choices.
     bind_result (first_item choices) (\<lambda>choice.
     bind_result (json_get_or ''message'' choice (JObj [])) (\<lambda>message.
     bind_result (json_get ''content'' message) (\<lambda>text.
     bind_result (json_get_or ''tool_calls'' message (JList [])) (\<lambda>calls.
     bind_result (json_items calls) (\<lambda>items.
     bind_result (map_result (\<lambda>(k, call). answer_call jc (fresh k) call) (enumerate 0 items)) (\<lambda>uses.
     bind_result (json_get ''id'' response) (\<lambda>i.
     bind_result (json_get ''model'' response) (\<lambda>m.
     bind_result (json_get ''finish_reason'' choice) (\<lambda>finish.
     bind_result (reason_of OPENAI_FINISH_REASON_MAP ''end_turn'' (or_null finish)) (\<lambda>reason.
     bind_result (json_get_or ''usage'' response (JObj [])) (\<lambda>usage.
       let blocks = (if json_truthy (or_null text) then [text_block (or_null text)] else []) @ uses
       in case usage of
            JObj u \<Rightarrow>
              Inr (JObj [(''id'', anthropic_message_id (fresh (length items)) i), (''type'', JStr ''message''), (''role'', JStr ''assistant''),
                (''model'', case nonempty model of Some x \<Rightarrow> JStr x | None \<Rightarrow> or_null m),
                (''content'', JList (if blocks = [] then [text_block (JStr [])] else blocks)),
                (''stop_reason'', reason), (''stop_sequence'', JNull), (''usage'', JObj (openai_usage_to_anthropic u))])
          | _ \<Rightarrow> Inl AttributeError))))))))))))"

section \<open>An answer survives\<close>

definition answer_message :: "json_codec \<Rightarrow> string \<Rightarrow> (json \<times> json \<times> json) list \<Rightarrow> json" where
  "answer_message jc text calls =
     JObj ([(''role'', JStr ''assistant''), (''content'', if text = [] then JNull else JStr text)] @
           (if calls \<noteq> [] then [(''tool_calls'', JList (map (call_json jc) calls))] else []))"

definition openai_answer :: "json_codec \<Rightarrow> json \<Rightarrow> string \<Rightarrow> (json \<times> json \<times> json) list \<Rightarrow> string \<Rightarrow> json" where
  "openai_answer jc model text calls finish =
     JObj [(''model'', model), (''choices'', JList [JObj [(''message'', answer_message jc text calls), (''finish_reason'', JStr finish)]])]"

lemma answer_call_use:
  assumes "json_truthy (fst u)" and "is_dict (snd (snd u))" and "jc_dumps jc (snd (snd u)) \<noteq> []"
    and "jc_loads jc (jc_dumps jc (snd (snd u))) = Some (snd (snd u))"
  shows "answer_call jc fresh (call_json jc u) = Inr (use_json u)"
  using assms by (cases "snd (snd u)") (auto simp: answer_call_def call_json_def use_json_def anthropic_tool_input_def get_defs)

lemma answer_block_use: "answer_block jc (use_json u) = Inr ([], [], [call_json jc u])"
  by (simp add: answer_block_def use_json_def call_json_def get_defs)

definition answer_calls_ok :: "json_codec \<Rightarrow> (json \<times> json \<times> json) list \<Rightarrow> bool" where
  "answer_calls_ok jc calls =
     list_all (\<lambda>(i, n, v). json_truthy i \<and> is_dict v \<and> jc_dumps jc v \<noteq> [] \<and> jc_loads jc (jc_dumps jc v) = Some v) calls"

definition anthropic_answer :: "string \<Rightarrow> json \<Rightarrow> string \<Rightarrow> (json \<times> json \<times> json) list \<Rightarrow> string \<Rightarrow> json" where
  "anthropic_answer fresh model text calls reason =
     JObj [(''id'', JStr (''msg_'' @ fresh)), (''type'', JStr ''message''), (''role'', JStr ''assistant''), (''model'', model),
       (''content'', JList (if text = [] \<and> calls = [] then [text_block (JStr [])]
                            else (if text = [] then [] else [text_block (JStr text)]) @ map use_json calls)),
       (''stop_reason'', JStr reason), (''stop_sequence'', JNull), (''usage'', JObj [(''input_tokens'', JInt 0), (''output_tokens'', JInt 0)])]"

lemma map_result_enumerate:
  "(\<And>u k. u \<in> set us \<Longrightarrow> f k (g u) = Inr (h u)) \<Longrightarrow> map_result (\<lambda>(k, c). f k c) (enumerate n (map g us)) = Inr (map h us)"
  by (induction us arbitrary: n) simp_all

lemma answer_out:
  assumes "answer_calls_ok jc calls" and "map_of OPENAI_FINISH_REASON_MAP finish = Some reason"
  shows "convert_response_openai_to_anthropic jc fresh (openai_answer jc model text calls finish) None =
    Inr (anthropic_answer (fresh (length calls)) model text calls reason)"
proof -
  have "map_result (\<lambda>(k, call). answer_call jc (fresh k) call) (enumerate 0 (map (call_json jc) calls)) = Inr (map use_json calls)"
    by (rule map_result_enumerate) (use assms(1) in \<open>auto simp: answer_calls_ok_def list_all_iff answer_call_use\<close>)
  then show ?thesis using assms(2)
    by (cases "calls = []") (simp_all add: convert_response_openai_to_anthropic_def openai_answer_def answer_message_def anthropic_answer_def
        get_defs first_item_def json_items_def reason_of_def anthropic_message_id_def openai_usage_to_anthropic_def number_or_0_def
        copy_fields_def CACHE_FIELDS_def map_filter_simps)
qed

lemma concat_empties: "concat (map (\<lambda>x. []) xs) = []"
  by (induction xs) simp_all

lemma answer_back:
  assumes "map_of ANTHROPIC_STOP_REASON_MAP reason = Some finish"
  shows "convert_response_anthropic_to_openai jc fresh now (anthropic_answer fresh' model text calls reason) =
    Inr (JObj [(''id'', JStr (''msg_'' @ fresh')), (''object'', JStr ''chat.completion''), (''created'', JInt now), (''model'', model),
      (''choices'', JList [JObj [(''index'', JInt 0), (''message'', answer_message jc text calls), (''logprobs'', JNull), (''finish_reason'', JStr finish)]]),
      (''usage'', JObj [(''prompt_tokens'', JInt 0), (''completion_tokens'', JInt 0), (''total_tokens'', JInt 0)])])"
proof -
  let ?bs = "if text = [] \<and> calls = [] then [text_block (JStr [])] else (if text = [] then [] else [text_block (JStr text)]) @ map use_json calls"
  let ?rs = "(if text = [] \<and> calls = [] then [([JStr []], [], [])] else (if text = [] then [] else [([JStr text], [], [])]) @
               map (\<lambda>u. ([], [], [call_json jc u])) calls) :: (json list \<times> json list \<times> json list) list"
  have t: "answer_block jc (text_block (JStr x)) = Inr ([JStr x], [], [])" for x
    by (simp add: answer_block_def text_block_def get_defs)
  have uses: "map_result (answer_block jc) (map use_json calls) = Inr (map (\<lambda>u. ([], [], [call_json jc u])) calls)"
    unfolding map_result_map by (rule map_result_ok) (simp add: answer_block_use)
  have r: "map_result (answer_block jc) ?bs = Inr ?rs" using t uses by (simp add: map_result_append)
  have f: "concat_texts (concat (map fst ?rs)) = Inr text" "concat (map (fst \<circ> snd) ?rs) = []" "concat (map (snd \<circ> snd) ?rs) = map (call_json jc) calls"
    by (auto simp: concat_texts_def comp_def concat_singletons concat_empties simp del: concat_eq_Nil_conv)
  obtain rs where rs: "map_result (answer_block jc) ?bs = Inr rs" "concat_texts (concat (map fst rs)) = Inr text"
      "concat (map (fst \<circ> snd) rs) = []" "concat (map (snd \<circ> snd) rs) = map (call_json jc) calls"
    using r f by blast
  have i: "items_or_none (Some (JList ?bs)) = Inr ?bs" by (simp add: items_or_none_def json_items_def or_null_def)
  have e: "concat_texts [] = Inr []" by (simp add: concat_texts_def)
  show ?thesis
    unfolding convert_response_anthropic_to_openai_def anthropic_answer_def
    using assms
    by (simp add: json_get_def json_get_default_def i rs e or_null_def reason_of_def anthropic_usage_to_openai_def number_or_0_def json_add_def
        copy_fields_def CACHE_FIELDS_def map_filter_simps answer_message_def Let_def del: concat_eq_Nil_conv cong: if_cong split del: if_split)
qed



end
