(* ===== verification/Web_Text.thy ===== *)
theory Web_Text
  imports Selfai_Prelude "HOL-Library.Sublist"
begin

text \<open>
  Addresses and pages of the web, as the browsing tools read them: the parts of an address
  (\<open>urllib.parse\<close>), the rule for following a link (\<open>browse/hop_policy.py\<close>), the removal of scripts and
  trackers from a page (\<open>browse/connection.py\<close>) and the text and links of a page
  (\<open>utils/middleware.py\<close>). Regular expressions are matched the way \<open>re\<close> does it, by backtracking: a
  matcher gives all ways to match, the preferred one first. The letters of an address are ASCII. The
  tokens of a page come from \<open>html.parser\<close> and are a parameter, as is \<open>urljoin\<close>.

  The lemmas show which hosts a link may lead to, that what is taken from a page is part of it, and
  which links are offered for following.
\<close>

section \<open>Addresses\<close>

text \<open>\<open>s.partition(c)\<close> and \<open>s.rpartition(c)\<close>, without the separator.\<close>

definition part_before :: "char \<Rightarrow> string \<Rightarrow> string" where
  "part_before c s = takeWhile (\<lambda>x. x \<noteq> c) s"

definition part_after :: "char \<Rightarrow> string \<Rightarrow> string" where
  "part_after c s = tl (dropWhile (\<lambda>x. x \<noteq> c) s)"

definition after_last :: "char \<Rightarrow> string \<Rightarrow> string" where
  "after_last c s = rev (takeWhile (\<lambda>x. x \<noteq> c) (rev s))"

definition is_alpha :: "char \<Rightarrow> bool" where
  "is_alpha c \<longleftrightarrow> is_lower c \<or> is_upper c"

definition scheme_char :: "char \<Rightarrow> bool" where
  "scheme_char c \<longleftrightarrow> is_alpha c \<or> is_digit c \<or> c \<in> {CHR ''+'', CHR ''-'', CHR ''.''}"

record url_parts =
  up_scheme :: string
  up_netloc :: string

text \<open>
  \<open>urlsplit\<close> up to the host part: leading control characters and blanks are dropped, tabs and line
  ends are removed, the scheme is what stands before the first colon if it is one, and the host part
  ends at a slash, a question mark or a number sign. \<open>bracket_ok\<close> is the library's check of a host in
  brackets.
\<close>

definition clean_url :: "string \<Rightarrow> string" where
  "clean_url url = filter (\<lambda>c. c \<notin> {CHR 0x09, CHR 0x0A, CHR 0x0D}) (dropWhile (\<lambda>c. code c \<le> 32) url)"

definition split_scheme :: "string \<Rightarrow> string \<times> string" where
  "split_scheme url =
     (let s = part_before (CHR '':'') url
      in if CHR '':'' \<in> set url \<and> s \<noteq> [] \<and> is_alpha (hd s) \<and> list_all scheme_char s
         then (lower s, part_after (CHR '':'') url) else ([], url))"

definition netloc_end :: "char \<Rightarrow> bool" where
  "netloc_end c \<longleftrightarrow> c \<in> {CHR ''/'', CHR ''?'', CHR ''#''}"

definition split_netloc :: "string \<Rightarrow> string \<times> string" where
  "split_netloc url =
     (if prefix ''//'' url then (takeWhile (Not \<circ> netloc_end) (drop 2 url), dropWhile (Not \<circ> netloc_end) (drop 2 url)) else ([], url))"

definition host_part :: "string \<Rightarrow> string" where
  "host_part netloc = after_last (CHR ''@'') netloc"

definition bracketed_ok :: "(string \<Rightarrow> bool) \<Rightarrow> string \<Rightarrow> bool" where
  "bracketed_ok bracket_ok netloc =
     (let h = host_part netloc
      in if CHR ''['' \<in> set h
         then part_before (CHR ''['') h = [] \<and>
              (let p = part_after (CHR '']'') (part_after (CHR ''['') h) in p = [] \<or> hd p = CHR '':'') \<and>
              bracket_ok (part_before (CHR '']'') (part_after (CHR ''['') h))
         else bracket_ok (part_before (CHR '':'') h))"

definition urlparse :: "(string \<Rightarrow> bool) \<Rightarrow> string \<Rightarrow> url_parts result" where
  "urlparse bracket_ok url =
     (let (scheme, rest) = split_scheme (clean_url url); (netloc, _) = split_netloc rest;
          opens = CHR ''['' \<in> set netloc; closes = CHR '']'' \<in> set netloc
      in if opens \<noteq> closes \<or> opens \<and> \<not> bracketed_ok bracket_ok netloc then Inl (ValueError url)
         else Inr \<lparr>up_scheme = scheme, up_netloc = netloc\<rparr>)"

text \<open>\<open>_hostinfo\<close>, \<open>.hostname\<close> and \<open>.port\<close>; a zone after a percent sign keeps its case.\<close>

definition host_info :: "url_parts \<Rightarrow> string \<times> string option" where
  "host_info u =
     (let h = host_part (up_netloc u);
          (host, port) =
            if CHR ''['' \<in> set h
            then (let b = part_after (CHR ''['') h in (part_before (CHR '']'') b, part_after (CHR '':'') (part_after (CHR '']'') b)))
            else (part_before (CHR '':'') h, part_after (CHR '':'') h)
      in (host, if port = [] then None else Some port))"

definition url_hostname :: "url_parts \<Rightarrow> string option" where
  "url_hostname u =
     (let h = fst (host_info u)
      in if h = [] then None
         else Some (lower (part_before (CHR ''%'') h) @ drop (length (part_before (CHR ''%'') h)) h))"

definition url_port :: "url_parts \<Rightarrow> int option result" where
  "url_port u =
     (case snd (host_info u) of
        None \<Rightarrow> Inr None
      | Some p \<Rightarrow>
          if \<not> list_all is_digit p then Inl (ValueError p)
          else case parse_digits False 0 p of None \<Rightarrow> Inl (ValueError p)
               | Some n \<Rightarrow> if n \<le> 65535 then Inr (Some n) else Inl (ValueError p))"

section \<open>Following links\<close>

definition host_of :: "(string \<Rightarrow> bool) \<Rightarrow> string \<Rightarrow> string option" where
  "host_of bracket_ok url =
     (case urlparse bracket_ok url of
        Inl _ \<Rightarrow> None
      | Inr u \<Rightarrow>
          (case url_port u of
             Inl _ \<Rightarrow> None
           | Inr _ \<Rightarrow> map_option (\<lambda>h. rstrip_char (CHR ''.'') (lower h)) (url_hostname u)))"

definition is_same_site :: "(string \<Rightarrow> bool) \<Rightarrow> string \<Rightarrow> string \<Rightarrow> bool" where
  "is_same_site bracket_ok page_url candidate_url =
     (case (nonempty (host_of bracket_ok page_url), nonempty (host_of bracket_ok candidate_url)) of
        (Some page_host, Some candidate_host) \<Rightarrow>
          page_host = candidate_host \<or> suffix (CHR ''.'' # page_host) candidate_host \<or> suffix (CHR ''.'' # candidate_host) page_host
      | _ \<Rightarrow> False)"

section \<open>Regular expressions\<close>

text \<open>The letters are changed bit by bit, which is how they are computed with.\<close>

lemma lower_char_bits [code]:
  "lower_char (Char b0 b1 b2 b3 b4 b5 b6 b7) =
     Char b0 b1 b2 b3 b4 (b5 \<or> b6 \<and> \<not> b7 \<and> (b0 \<or> b1 \<or> b2 \<or> b3 \<or> b4) \<and> \<not> (b4 \<and> b3 \<and> (b2 \<or> b1 \<and> b0))) b6 b7"
  by (cases b0; cases b1; cases b2; cases b3; cases b4; cases b5; cases b6; cases b7) (simp_all add: lower_char_def code_def Let_def char_of_def bit_0)

datatype rx =
    Chars "char \<Rightarrow> bool"
  | Seq rx rx
  | Alt rx rx
  | Many rx
  | Few rx
  | Boundary

text \<open>A position: the character before it and the text after it.\<close>

type_synonym pos = "char option \<times> string"

text \<open>The ends of a repetition, the longest first (\<open>*\<close>) or the shortest first (\<open>*?\<close>); every round takes a character.\<close>

fun star_ends :: "bool \<Rightarrow> nat \<Rightarrow> (pos \<Rightarrow> pos list) \<Rightarrow> pos \<Rightarrow> pos list" where
  "star_ends lazy 0 m p = [p]"
| "star_ends lazy (Suc n) m p =
     (let deeper = concat (map (star_ends lazy n m) (filter (\<lambda>q. length (snd q) < length (snd p)) (m p)))
      in if lazy then p # deeper else deeper @ [p])"

definition word_char :: "char \<Rightarrow> bool" where
  "word_char c \<longleftrightarrow> is_alpha c \<or> is_digit c \<or> c = CHR ''_'' \<or>
     (let n = code c in n \<in> {170, 178, 179, 181, 185, 186, 188, 189, 190} \<or> 192 \<le> n \<and> n \<noteq> 215 \<and> n \<noteq> 247)"

definition at_boundary :: "pos \<Rightarrow> bool" where
  "at_boundary p \<longleftrightarrow>
     (case fst p of None \<Rightarrow> False | Some c \<Rightarrow> word_char c) \<noteq> (case snd p of [] \<Rightarrow> False | c # cs \<Rightarrow> word_char c)"

primrec ends :: "rx \<Rightarrow> pos \<Rightarrow> pos list" where
  "ends (Chars P) p = (case snd p of [] \<Rightarrow> [] | c # cs \<Rightarrow> if P c then [(Some c, cs)] else [])"
| "ends (Seq a b) p = concat (map (ends b) (ends a p))"
| "ends (Alt a b) p = ends a p @ ends b p"
| "ends (Many r) p = star_ends False (length (snd p)) (ends r) p"
| "ends (Few r) p = star_ends True (length (snd p)) (ends r) p"
| "ends Boundary p = (if at_boundary p then [p] else [])"

text \<open>\<open>re.sub(r, "", s)\<close> for an expression that matches no empty text.\<close>

function sub_empty :: "rx \<Rightarrow> pos \<Rightarrow> string" where
  "sub_empty r (prev, []) = []"
| "sub_empty r (prev, c # cs) =
     (case ends r (prev, c # cs) of
        q # _ \<Rightarrow> if length (snd q) < length (c # cs) then sub_empty r q else c # sub_empty r (Some c, cs)
      | [] \<Rightarrow> c # sub_empty r (Some c, cs))"
  by pat_completeness auto
termination by (relation "measure (\<lambda>(r, p). length (snd p))") auto

definition rx_sub :: "rx \<Rightarrow> string \<Rightarrow> string" where
  "rx_sub r s = sub_empty r (None, s)"

fun rx_word :: "bool \<Rightarrow> string \<Rightarrow> rx \<Rightarrow> rx" where
  "rx_word ignorecase [] r = r"
| "rx_word ignorecase (c # cs) r = Seq (Chars (\<lambda>d. if ignorecase then lower_char d = lower_char c else d = c)) (rx_word ignorecase cs r)"

text \<open>\<open>r+\<close> and a choice of words.\<close>

definition rx_some :: "rx \<Rightarrow> rx" where
  "rx_some r = Seq r (Many r)"

fun rx_words :: "string list \<Rightarrow> rx \<Rightarrow> rx" where
  "rx_words [] r = Chars (\<lambda>c. False)"
| "rx_words [w] r = rx_word True w r"
| "rx_words (w # v # ws) r = Alt (rx_word True w r) (rx_words (v # ws) r)"

definition not_gt :: rx where
  "not_gt = Chars (\<lambda>c. c \<noteq> CHR ''>'')"

definition gt :: rx where
  "gt = Chars (\<lambda>c. c = CHR ''>'')"

definition SCRIPT_TAG_RE :: rx where
  "SCRIPT_TAG_RE =
     rx_word True ''<script'' (Seq Boundary (Seq (Many not_gt) (Seq gt (Seq (Few (Chars (\<lambda>c. True)))
       (rx_word True ''</script'' (Seq (Many (Chars is_space)) gt))))))"

definition SELF_CLOSING_SCRIPT_RE :: rx where
  "SELF_CLOSING_SCRIPT_RE = rx_word True ''<script'' (Seq Boundary (Seq (Many not_gt) (rx_word True ''/'' gt)))"

definition TRACKER_HOSTS :: "string list" where
  "TRACKER_HOSTS = [''google-analytics.com'', ''googletagmanager.com'', ''facebook.com/tr'', ''doubleclick.net'',
     ''connect.facebook.net'', ''hotjar.com'', ''segment.io'', ''mixpanel.com'']"

definition quote :: rx where
  "quote = Chars (\<lambda>c. c = CHR 0x22 \<or> c = CHR 0x27)"

definition not_quote :: rx where
  "not_quote = Chars (\<lambda>c. c \<noteq> CHR 0x22 \<and> c \<noteq> CHR 0x27)"

definition TRACKER_TAG_RE :: rx where
  "TRACKER_TAG_RE =
     rx_word True ''<'' (Seq (rx_some (Chars is_alpha)) (Seq Boundary (Seq (Many not_gt) (Seq Boundary
       (rx_words [''src'', ''href''] (rx_word True ''='' (Seq quote (Seq (Many not_quote)
         (rx_words TRACKER_HOSTS (Seq (Many not_quote) (Seq quote (Seq (Many not_gt) (Alt (rx_word True ''/'' gt) gt)))))))))))))"

definition ANY_TAG_RE :: rx where
  "ANY_TAG_RE = rx_word True ''<'' (Seq (rx_some not_gt) gt)"

definition strip_scripts_and_trackers :: "string \<Rightarrow> string" where
  "strip_scripts_and_trackers html = rx_sub TRACKER_TAG_RE (rx_sub SELF_CLOSING_SCRIPT_RE (rx_sub SCRIPT_TAG_RE html))"

text \<open>\<open>unescape\<close> of the library \<open>html\<close> is a parameter.\<close>

definition html_to_plaintext :: "(string \<Rightarrow> string) \<Rightarrow> string \<Rightarrow> string" where
  "html_to_plaintext unescape html = unescape (rx_sub ANY_TAG_RE (rx_sub SELF_CLOSING_SCRIPT_RE (rx_sub SCRIPT_TAG_RE html)))"

section \<open>Text and links of a page\<close>

datatype html_event =
    Start_tag string "(string \<times> string option) list"
  | Start_end_tag string "(string \<times> string option) list"
  | End_tag string
  | Data string

record extractor =
  ex_parts :: "string list"
  ex_skip_depth :: nat
  ex_in_title :: bool
  ex_title :: string
  ex_anchors :: "(string \<times> string list) list"
  ex_anchor_depth :: nat

definition initial_extractor :: extractor where
  "initial_extractor = \<lparr>ex_parts = [], ex_skip_depth = 0, ex_in_title = False, ex_title = [], ex_anchors = [], ex_anchor_depth = 0\<rparr>"

definition SKIP_TAGS :: "string list" where
  "SKIP_TAGS = [''script'', ''style'', ''noscript'', ''head'']"

definition BREAK_TAGS :: "string list" where
  "BREAK_TAGS = [''p'', ''div'', ''br'', ''li'', ''h1'', ''h2'', ''h3'', ''h4'', ''h5'', ''h6'', ''tr'']"

definition href_of :: "(string \<times> string option) list \<Rightarrow> string option" where
  "href_of attrs = (case filter (\<lambda>(k, v). k = ''href'' \<and> nonempty v \<noteq> None) attrs of [] \<Rightarrow> None | (k, v) # _ \<Rightarrow> v)"

definition handle_starttag :: "string \<Rightarrow> (string \<times> string option) list \<Rightarrow> extractor \<Rightarrow> extractor" where
  "handle_starttag tag attrs ex =
     (let ex1 = (if tag \<in> set SKIP_TAGS then ex\<lparr>ex_skip_depth := ex_skip_depth ex + 1\<rparr> else ex);
          ex2 = (if tag = ''title'' then ex1\<lparr>ex_in_title := True\<rparr> else ex1)
      in if tag = ''a'' \<and> ex_skip_depth ex2 = 0
         then (case href_of attrs of
                 None \<Rightarrow> ex2
               | Some href \<Rightarrow> ex2\<lparr>ex_anchors := ex_anchors ex2 @ [(href, [])], ex_anchor_depth := ex_anchor_depth ex2 + 1\<rparr>)
         else ex2)"

definition handle_endtag :: "string \<Rightarrow> extractor \<Rightarrow> extractor" where
  "handle_endtag tag ex =
     (let ex1 = (if tag \<in> set SKIP_TAGS then ex\<lparr>ex_skip_depth := ex_skip_depth ex - 1\<rparr> else ex);
          ex2 = (if tag = ''title'' then ex1\<lparr>ex_in_title := False\<rparr> else ex1);
          ex3 = (if tag = ''a'' \<and> ex_anchor_depth ex2 > 0 then ex2\<lparr>ex_anchor_depth := ex_anchor_depth ex2 - 1\<rparr> else ex2)
      in if tag \<in> set BREAK_TAGS then ex3\<lparr>ex_parts := ex_parts ex3 @ [[CHR 0x0A]]\<rparr> else ex3)"

definition handle_startendtag :: "string \<Rightarrow> (string \<times> string option) list \<Rightarrow> extractor \<Rightarrow> extractor" where
  "handle_startendtag tag attrs ex =
     (if tag \<in> set SKIP_TAGS \<or> tag = ''a'' then ex else handle_endtag tag (handle_starttag tag attrs ex))"

definition add_to_last :: "string \<Rightarrow> (string \<times> string list) list \<Rightarrow> (string \<times> string list) list" where
  "add_to_last d anchors = (if anchors = [] then [] else butlast anchors @ [(fst (last anchors), snd (last anchors) @ [d])])"

definition handle_data :: "string \<Rightarrow> extractor \<Rightarrow> extractor" where
  "handle_data d ex =
     (if ex_in_title ex then ex\<lparr>ex_title := ex_title ex @ d\<rparr>
      else if ex_skip_depth ex = 0
      then ex\<lparr>ex_parts := ex_parts ex @ [d],
              ex_anchors := if ex_anchor_depth ex > 0 then add_to_last d (ex_anchors ex) else ex_anchors ex\<rparr>
      else ex)"

fun handle :: "html_event \<Rightarrow> extractor \<Rightarrow> extractor" where
  "handle (Start_tag tag attrs) ex = handle_starttag tag attrs ex"
| "handle (Start_end_tag tag attrs) ex = handle_startendtag tag attrs ex"
| "handle (End_tag tag) ex = handle_endtag tag ex"
| "handle (Data d) ex = handle_data d ex"

text \<open>\<open>str.splitlines()\<close> and \<open>str.split()\<close>.\<close>

definition line_end :: "char \<Rightarrow> bool" where
  "line_end c = (let n = code c in 10 \<le> n \<and> n \<le> 13 \<or> 28 \<le> n \<and> n \<le> 30 \<or> n = 133)"

fun splitlines :: "string \<Rightarrow> string list" where
  "splitlines [] = []"
| "splitlines (c # cs) =
     (if c = CHR 0x0D \<and> cs \<noteq> [] \<and> hd cs = CHR 0x0A then splitlines cs
      else if line_end c then [] # splitlines cs
      else case splitlines cs of [] \<Rightarrow> [[c]] | l # ls \<Rightarrow> (c # l) # ls)"

fun py_words :: "string \<Rightarrow> string \<Rightarrow> string list" where
  "py_words word [] = (if word = [] then [] else [word])"
| "py_words word (c # cs) =
     (if is_space c then (if word = [] then py_words [] cs else word # py_words [] cs) else py_words (word @ [c]) cs)"

definition get_text :: "extractor \<Rightarrow> string" where
  "get_text ex = py_join [CHR 0x0A] (filter (\<lambda>l. l \<noteq> []) (map py_strip (splitlines (concat (ex_parts ex)))))"

definition get_anchors :: "extractor \<Rightarrow> (string \<times> string) list" where
  "get_anchors ex = map (\<lambda>(href, text). (href, py_join '' '' (py_words [] (concat text)))) (ex_anchors ex)"

definition NON_NAVIGATIONAL_SCHEMES :: "string list" where
  "NON_NAVIGATIONAL_SCHEMES = [''javascript:'', ''mailto:'', ''data:'', ''tel:'', ''sms:'', ''blob:'', ''file:'']"

text \<open>The functions of \<open>urllib.parse\<close> that are parameters.\<close>

record url_lib =
  ul_bracket_ok :: "string \<Rightarrow> bool"
  ul_join :: "string \<Rightarrow> string \<Rightarrow> string result"
  ul_defrag :: "string \<Rightarrow> string result"

definition fetchable :: "url_lib \<Rightarrow> string \<Rightarrow> bool result" where
  "fetchable lib url =
     (case urlparse (ul_bracket_ok lib) url of
        Inl e \<Rightarrow> Inl e
      | Inr u \<Rightarrow> Inr (up_scheme u \<in> {''http'', ''https''} \<and> up_netloc u \<noteq> []))"

text \<open>What an anchor becomes: nothing, if it does not navigate, or an address without its fragment.\<close>

definition absolute_link :: "url_lib \<Rightarrow> string option \<Rightarrow> string \<Rightarrow> string option result" where
  "absolute_link lib base_url raw =
     (let href = py_strip raw
      in if href = [] \<or> prefix ''#'' href then Inr None
         else if list_ex (\<lambda>s. prefix s (lower href)) NON_NAVIGATIONAL_SCHEMES then Inr None
         else case (case nonempty base_url of None \<Rightarrow> Inr href | Some base \<Rightarrow> ul_join lib base href) of
             Inl e \<Rightarrow> Inl e
           | Inr absolute \<Rightarrow>
               (case fetchable lib absolute of
                  Inl e \<Rightarrow> Inl e
                | Inr False \<Rightarrow> Inr None
                | Inr True \<Rightarrow> (case ul_defrag lib absolute of Inl e \<Rightarrow> Inl e | Inr url \<Rightarrow> Inr (Some url))))"

fun collect_links ::
    "url_lib \<Rightarrow> string option \<Rightarrow> int option \<Rightarrow> (string \<times> string) list \<Rightarrow> (string \<times> string) list \<Rightarrow> (string \<times> string) list result" where
  "collect_links lib base_url max_links [] links = Inr links"
| "collect_links lib base_url max_links ((raw, text) # anchors) links =
     (case absolute_link lib base_url raw of
        Inl e \<Rightarrow> Inl e
      | Inr None \<Rightarrow> collect_links lib base_url max_links anchors links
      | Inr (Some url) \<Rightarrow>
          if url \<in> fst ` set links then collect_links lib base_url max_links anchors links
          else let links' = links @ [(url, text)]
               in if (case max_links of None \<Rightarrow> False | Some n \<Rightarrow> n \<le> int (length links')) then Inr links'
                  else collect_links lib base_url max_links anchors links')"

record page_parts =
  pp_text :: string
  pp_title :: string
  pp_links :: "(string \<times> string) list"

text \<open>\<open>parse\<close> stands for the calls \<open>html.parser\<close> makes for a page, up to an exception.\<close>

definition html_to_text_and_links ::
    "url_lib \<Rightarrow> (string \<Rightarrow> html_event list) \<Rightarrow> string \<Rightarrow> string option \<Rightarrow> int option \<Rightarrow> page_parts result" where
  "html_to_text_and_links lib parse html base_url max_links =
     (let ex = fold handle (parse html) initial_extractor
      in case collect_links lib base_url max_links (get_anchors ex) [] of
           Inl e \<Rightarrow> Inl e
         | Inr links \<Rightarrow> Inr \<lparr>pp_text = get_text ex, pp_title = py_strip (ex_title ex), pp_links = links\<rparr>)"

definition html_to_text :: "url_lib \<Rightarrow> (string \<Rightarrow> html_event list) \<Rightarrow> string \<Rightarrow> (string \<times> string) result" where
  "html_to_text lib parse html =
     (case html_to_text_and_links lib parse html None None of Inl e \<Rightarrow> Inl e | Inr p \<Rightarrow> Inr (pp_text p, pp_title p))"

section \<open>What is taken from a page\<close>

lemma star_ends_suffix:
  assumes "\<And>p q. q \<in> set (m p) \<Longrightarrow> suffix (snd q) (snd p)" and "q \<in> set (star_ends lazy n m p)"
  shows "suffix (snd q) (snd p)"
  using assms(2)
proof (induction n arbitrary: p)
  case (Suc n)
  then consider "q = p" | p' where "p' \<in> set (m p)" "q \<in> set (star_ends lazy n m p')"
    by (auto simp: Let_def split: if_splits)
  then show ?case
  proof cases
    case 2
    then show ?thesis using Suc.IH assms(1) suffix_order.trans by blast
  qed simp
qed simp

lemma ends_suffix: "q \<in> set (ends r p) \<Longrightarrow> suffix (snd q) (snd p)"
proof (induction r arbitrary: p q)
  case (Seq a b)
  then obtain x where "x \<in> set (ends a p)" "q \<in> set (ends b x)" by auto
  then show ?case using Seq.IH suffix_order.trans by blast
next
  case (Many r)
  then show ?case using star_ends_suffix[of "ends r"] by simp
next
  case (Few r)
  then show ?case using star_ends_suffix[of "ends r"] by simp
qed (auto split: list.splits if_splits simp: suffix_def)

lemma sub_empty_subseq: "subseq (sub_empty r p) (snd p)"
proof (induction r p rule: sub_empty.induct)
  case (2 r prev c cs)
  show ?case
  proof (cases "ends r (prev, c # cs)")
    case (Cons q qs)
    then have "subseq (snd q) (c # cs)" using ends_suffix[of q r "(prev, c # cs)"] by (simp add: suffix_imp_subseq)
    then show ?thesis using 2 Cons by (auto dest: subseq_order.trans)
  qed (use 2 in simp)
qed simp

lemma stripped_subseq: "subseq (strip_scripts_and_trackers html) html"
  unfolding strip_scripts_and_trackers_def rx_sub_def
  using sub_empty_subseq[of _ "(None, _)"] by (metis snd_conv subseq_order.trans)

lemma ends_not_gt: "ends not_gt p = (case snd p of [] \<Rightarrow> [] | c # cs \<Rightarrow> if c = CHR ''>'' then [] else [(Some c, cs)])"
  by (simp add: not_gt_def split: list.split)

lemma ends_shorter: "q \<in> set (ends (Seq (Chars P) r) p) \<Longrightarrow> length (snd q) < length (snd p)"
  using suffix_length_le[OF ends_suffix[of q r]] by (cases "snd p") (fastforce split: if_splits)+

lemma star_not_gt:
  "q \<in> set (star_ends False n (ends not_gt) p) \<Longrightarrow> \<exists>u. snd p = u @ snd q \<and> CHR ''>'' \<notin> set u"
proof (induction n arbitrary: p)
  case (Suc n)
  then consider "q = p" | p' where "p' \<in> set (ends not_gt p)" "q \<in> set (star_ends False n (ends not_gt) p')"
    by (auto simp: Let_def)
  then show ?case
  proof cases
    case 2
    then obtain c where "snd p = c # snd p'" "c \<noteq> CHR ''>''"
      by (cases "snd p") (auto simp: ends_not_gt split: if_splits)
    moreover obtain u where "snd p' = u @ snd q" "CHR ''>'' \<notin> set u" using Suc.IH[OF 2(2)] by blast
    ultimately show ?thesis by (intro exI[of _ "c # u"]) simp
  qed simp
qed simp

lemma star_not_gt_all:
  "CHR ''>'' \<notin> set u \<Longrightarrow> length u \<le> n \<Longrightarrow> \<exists>prev'. (prev', t) \<in> set (star_ends False n (ends not_gt) (prev, u @ t))"
proof (induction u arbitrary: prev n)
  case Nil
  then show ?case by (cases n) (auto simp: Let_def)
next
  case (Cons c u)
  then obtain m where n: "n = Suc m" by (cases n) auto
  then obtain prev' where "(prev', t) \<in> set (star_ends False m (ends not_gt) (Some c, u @ t))"
    using Cons.IH[of m "Some c"] Cons.prems by auto
  moreover have "ends not_gt (prev, (c # u) @ t) = [(Some c, u @ t)]" using Cons.prems by (auto simp: ends_not_gt)
  ultimately show ?case using n by (auto simp: Let_def)
qed

definition tag_text :: "string \<Rightarrow> bool" where
  "tag_text s \<longleftrightarrow> (\<exists>u t. s = CHR ''<'' # u @ CHR ''>'' # t \<and> u \<noteq> [] \<and> CHR ''>'' \<notin> set u)"

lemma lower_less: "lower_char (CHR ''<'') = CHR ''<''"
  by code_simp

lemma lower_char_less: "lower_char d = CHR ''<'' \<longleftrightarrow> d = CHR ''<''"
  by (cases d) (auto simp: lower_char_def code_def Let_def char_of_def)

lemma ends_any_tag: "ends ANY_TAG_RE (prev, s) = [] \<longleftrightarrow> \<not> tag_text s"
proof -
  have less: "ends (Chars (\<lambda>d. if True then lower_char d = lower_char (CHR ''<'') else d = CHR ''<'')) p =
      (case snd p of [] \<Rightarrow> [] | c # cs \<Rightarrow> if c = CHR ''<'' then [(Some c, cs)] else [])" for p
    by (simp add: lower_less lower_char_less split: list.split)
  have e: "ends ANY_TAG_RE (prev, s) =
      (case s of c # d # cs \<Rightarrow> if c = CHR ''<'' \<and> d \<noteq> CHR ''>'' then concat (map (ends gt) (star_ends False (length cs) (ends not_gt) (Some d, cs))) else []
       | _ \<Rightarrow> [])"
    unfolding ANY_TAG_RE_def rx_some_def rx_word.simps ends.simps(2) less
    by (simp add: ends_not_gt split: list.split)
  have g: "ends gt q = [] \<longleftrightarrow> \<not> (\<exists>t. snd q = CHR ''>'' # t)" for q by (auto simp: gt_def split: list.split)
  show ?thesis
  proof (cases s rule: remdups_adj.cases)
    case (3 c d cs)
    show ?thesis
    proof
      assume "ends ANY_TAG_RE (prev, s) = []"
      then have none: "concat (map (ends gt) (star_ends False (length cs) (ends not_gt) (Some d, cs))) = []" if "c = CHR ''<''" "d \<noteq> CHR ''>''"
        using that 3 e by simp
      show "\<not> tag_text s"
      proof
        assume "tag_text s"
        then obtain u t where "c = CHR ''<''" "d # cs = u @ CHR ''>'' # t" "u \<noteq> []" "CHR ''>'' \<notin> set u" using 3 by (auto simp: tag_text_def)
        then obtain u' where u: "c = CHR ''<''" "d \<noteq> CHR ''>''" "cs = u' @ CHR ''>'' # t" "CHR ''>'' \<notin> set u'" by (cases u) auto
        obtain prev' where "(prev', CHR ''>'' # t) \<in> set (star_ends False (length cs) (ends not_gt) (Some d, cs))"
          using star_not_gt_all[OF u(4), of "length cs" "CHR ''>'' # t" "Some d"] u(3) by auto
        then have "ends gt (prev', CHR ''>'' # t) = []" using none[OF u(1,2)] by auto
        then show False using g by auto
      qed
    next
      assume "\<not> tag_text s"
      then have nt: "\<not> (c = CHR ''<'' \<and> d \<noteq> CHR ''>'' \<and> cs = u @ CHR ''>'' # t \<and> CHR ''>'' \<notin> set u)" for u t
        using 3 unfolding tag_text_def by (auto dest: spec[of _ "d # u"])
      have "ends gt q = []" if "c = CHR ''<''" "d \<noteq> CHR ''>''" "q \<in> set (star_ends False (length cs) (ends not_gt) (Some d, cs))" for q
        using star_not_gt[OF that(3)] nt that(1,2) g by (metis snd_conv)
      then have "concat (map (ends gt) (star_ends False (length cs) (ends not_gt) (Some d, cs))) = []" if "c = CHR ''<''" "d \<noteq> CHR ''>''"
        using that by simp
      then show "ends ANY_TAG_RE (prev, s) = []" unfolding e using 3 by (simp del: concat_eq_Nil_conv)
    qed
  qed (use e in \<open>simp_all add: tag_text_def Cons_eq_append_conv\<close>)
qed

lemma ends_any_tag_gt: "ends ANY_TAG_RE (prev, CHR ''>'' # s) = []"
  by (simp add: ends_any_tag tag_text_def)

lemma tag_text_Cons: "\<not> tag_text (CHR ''<'' # s) \<Longrightarrow> s = [] \<or> hd s = CHR ''>'' \<or> CHR ''>'' \<notin> set s"
proof (rule ccontr)
  assume n: "\<not> tag_text (CHR ''<'' # s)" and "\<not> (s = [] \<or> hd s = CHR ''>'' \<or> CHR ''>'' \<notin> set s)"
  then obtain u t where "s = u @ CHR ''>'' # t" "CHR ''>'' \<notin> set u" "u \<noteq> []"
    by (metis append_Nil hd_append list.sel(1) split_list_first)
  then show False using n by (auto simp: tag_text_def)
qed

lemma sub_any_tag: "\<not> tag_text (drop k (sub_empty ANY_TAG_RE p))"
proof (induction ANY_TAG_RE p arbitrary: k rule: sub_empty.induct)
  case (1 prev)
  show ?case by (simp add: tag_text_def)
next
  case (2 prev c cs)
  show ?case
  proof (cases "ends ANY_TAG_RE (prev, c # cs)")
    case Nil
    let ?o = "sub_empty ANY_TAG_RE (Some c, cs)"
    have IH: "\<not> tag_text (drop j ?o)" for j using 2 Nil by blast
    have n: "\<not> tag_text (c # cs)" using Nil by (simp add: ends_any_tag)
    have "\<not> tag_text (c # ?o)"
    proof
      assume t: "tag_text (c # ?o)"
      then obtain u t where ut: "c = CHR ''<''" "?o = u @ CHR ''>'' # t" "u \<noteq> []" "CHR ''>'' \<notin> set u" by (auto simp: tag_text_def)
      then have "CHR ''>'' \<in> set cs" using sub_empty_subseq[of ANY_TAG_RE "(Some c, cs)"] by (auto dest: list_emb_set)
      then have "hd cs = CHR ''>''" "cs \<noteq> []" using tag_text_Cons[of cs] n ut(1) by auto
      then obtain ds where "cs = CHR ''>'' # ds" by (cases cs) auto
      then show False using ut by (cases u) (auto simp: ends_any_tag_gt)
    qed
    then show ?thesis using IH Nil by (cases k) simp_all
  next
    case (Cons q qs)
    then have "length (snd q) < length (c # cs)"
      using ends_shorter[of q _ _ "(prev, c # cs)"] by (metis ANY_TAG_RE_def list.set_intros(1) rx_word.simps(2) snd_conv)
    then show ?thesis using 2 Cons by auto
  qed
qed

text \<open>
  Text that is read as plain text has no tag left in it. What \<open>unescape\<close> is given is what is left of
  the page, in the same order, and nowhere in it is there a tag: an angle that opens, something in
  between, and one that closes.
\<close>

theorem plain_text_has_no_tag:
  "\<exists>plain. html_to_plaintext unescape html = unescape plain \<and> subseq plain html \<and>
     (\<forall>before u after. u \<noteq> [] \<longrightarrow> CHR ''>'' \<notin> set u \<longrightarrow> plain \<noteq> before @ CHR ''<'' # u @ CHR ''>'' # after)"
proof (intro exI conjI allI impI)
  let ?plain = "rx_sub ANY_TAG_RE (rx_sub SELF_CLOSING_SCRIPT_RE (rx_sub SCRIPT_TAG_RE html))"
  show "html_to_plaintext unescape html = unescape ?plain" by (simp add: html_to_plaintext_def)
  show "subseq ?plain html"
    unfolding rx_sub_def using sub_empty_subseq[of _ "(None, _)"] by (metis snd_conv subseq_order.trans)
  fix before u after
  assume u: "u \<noteq> []" "CHR ''>'' \<notin> set u"
  show "?plain \<noteq> before @ CHR ''<'' # u @ CHR ''>'' # after"
  proof
    assume "?plain = before @ CHR ''<'' # u @ CHR ''>'' # after"
    then have "tag_text (drop (length before) ?plain)" using u by (auto simp: tag_text_def)
    then show False using sub_any_tag by (simp add: rx_sub_def)
  qed
qed

text \<open>Taking a script out can put another one together: what is left of this page is a script again.\<close>

theorem stripping_can_leave_a_script:
  "strip_scripts_and_trackers ''<scr<script></script>ipt>'' = ''<script>''"
  by code_simp

text \<open>
  The rule for links lets a page lead to the suffix its own site is registered under, and from there
  to every other site under it.
\<close>

theorem public_suffix_counts_as_same_site:
  "is_same_site ok ''https://shop.co.uk/'' ''https://co.uk/'' \<and> is_same_site ok ''https://co.uk/'' ''https://bank.co.uk/'' \<and>
   \<not> is_same_site ok ''https://shop.co.uk/'' ''https://bank.co.uk/''"
  by code_simp

text \<open>A host that differs from the host of the page is part of it or has it as a part, at a dot.\<close>

lemma same_site_hosts:
  assumes "is_same_site ok page url"
  shows "\<exists>p h. host_of ok page = Some p \<and> host_of ok url = Some h \<and> p \<noteq> [] \<and> h \<noteq> [] \<and>
    (p = h \<or> suffix (CHR ''.'' # p) h \<or> suffix (CHR ''.'' # h) p)"
  using assms by (auto simp: is_same_site_def nonempty_def split: option.splits list.splits)

lemma collected_links:
  assumes "collect_links lib base_url max_links anchors links = Inr out" and "distinct (map fst links)"
    and "\<forall>(url, text) \<in> set links. \<exists>absolute. fetchable lib absolute = Inr True \<and> ul_defrag lib absolute = Inr url"
    and "\<forall>n. max_links = Some n \<longrightarrow> int (length links) \<le> max 0 (n - 1)"
  shows "distinct (map fst out) \<and>
    (\<forall>(url, text) \<in> set out. \<exists>absolute. fetchable lib absolute = Inr True \<and> ul_defrag lib absolute = Inr url) \<and>
    (\<forall>n. max_links = Some n \<longrightarrow> int (length out) \<le> max 1 n)"
  using assms
proof (induction lib base_url max_links anchors links rule: collect_links.induct)
  case (1 lib base_url max_links links)
  then show ?case by auto
next
  case (2 lib base_url max_links raw t anchors links)
  consider (none) "absolute_link lib base_url raw = Inr None" 
    | (seen) url where "absolute_link lib base_url raw = Inr (Some url)" "url \<in> fst ` set links"
    | (new) url where "absolute_link lib base_url raw = Inr (Some url)" "url \<notin> fst ` set links"
    using 2(4) by (auto split: sum.splits option.splits)
  then show ?case
  proof cases
    case none
    then have "collect_links lib base_url max_links anchors links = Inr out" using 2(4) by simp
    then show ?thesis using 2(1)[OF none refl] 2(5-7) by blast
  next
    case seen
    then have "collect_links lib base_url max_links anchors links = Inr out" using 2(4) by simp
    then show ?thesis using 2(2)[OF seen(1) refl seen(2)] 2(5-7) by blast
  next
    case new
    obtain absolute where abs: "fetchable lib absolute = Inr True" "ul_defrag lib absolute = Inr url"
      using new(1) by (auto simp: absolute_link_def Let_def split: if_splits sum.splits bool.splits option.splits)
    have d: "distinct (map fst (links @ [(url, t)]))" using 2(5) new(2) by simp
    have f: "\<forall>(u, t') \<in> set (links @ [(url, t)]). \<exists>absolute. fetchable lib absolute = Inr True \<and> ul_defrag lib absolute = Inr u"
      using 2(6) abs by auto
    show ?thesis
    proof (cases "case max_links of None \<Rightarrow> False | Some n \<Rightarrow> n \<le> int (length (links @ [(url, t)]))")
      case True
      then have "out = links @ [(url, t)]" using 2(4) new by simp
      then show ?thesis using d f 2(7) by fastforce
    next
      case False
      then have "collect_links lib base_url max_links anchors (links @ [(url, t)]) = Inr out" using 2(4) new by simp
      moreover have "\<forall>n. max_links = Some n \<longrightarrow> int (length (links @ [(url, t)])) \<le> max 0 (n - 1)" using False by auto
      ultimately show ?thesis using 2(3)[OF new(1) refl new(2) refl False] d f by blast
    qed
  qed
qed

text \<open>
  The links of a page can be followed. Each of them is the address of a page on the web without its
  fragment, none of them comes twice, and there are no more than allowed (one is always allowed).
\<close>

theorem offered_links_can_be_followed:
  assumes "html_to_text_and_links lib parse html base_url max_links = Inr p"
  shows "distinct (map fst (pp_links p)) \<and>
    (\<forall>(url, text) \<in> set (pp_links p). \<exists>absolute. fetchable lib absolute = Inr True \<and> ul_defrag lib absolute = Inr url) \<and>
    (\<forall>n. max_links = Some n \<longrightarrow> int (length (pp_links p)) \<le> max 1 n)"
proof -
  obtain links where l: "collect_links lib base_url max_links (get_anchors (fold handle (parse html) initial_extractor)) [] = Inr links" "pp_links p = links"
    using assms by (auto simp: html_to_text_and_links_def Let_def split: sum.splits)
  then show ?thesis using collected_links[OF l(1)] by simp
qed

definition plain_lib :: url_lib where
  "plain_lib = \<lparr>ul_bracket_ok = (\<lambda>h. False), ul_join = (\<lambda>base href. Inr href), ul_defrag = (\<lambda>url. Inr (part_before (CHR ''#'') url))\<rparr>"

definition two_anchors :: "string \<Rightarrow> html_event list" where
  "two_anchors html = [Start_tag ''a'' [(''href'', Some ''https://a.org/x#top'')], Data ''X'', End_tag ''a'',
     Start_tag ''a'' [(''href'', Some ''https://a.org/x'')], End_tag ''a'', Start_tag ''a'' [(''href'', Some ''mailto:me'')], End_tag ''a'']"

theorem offered_links_can_be_followed_witness:
  "\<exists>p. html_to_text_and_links plain_lib two_anchors [] None (Some 5) = Inr p \<and> pp_links p = [(''https://a.org/x'', ''X'')] \<and> distinct (map fst (pp_links p))"
proof -
  have h: "html_to_text_and_links plain_lib two_anchors [] None (Some 5) = Inr \<lparr>pp_text = ''X'', pp_title = [], pp_links = [(''https://a.org/x'', ''X'')]\<rparr>"
    by code_simp
  show ?thesis using offered_links_can_be_followed[OF h] h by auto
qed

text \<open>A link with half a bracket makes reading a page raise, whatever else is on the page.\<close>

theorem broken_link_loses_the_page:
  "html_to_text_and_links lib (\<lambda>html. [Data ''text'', Start_tag ''a'' [(''href'', Some ''http://['')]]) html None max_links = Inl (ValueError ''http://['')"
  by code_simp

end
