(* ===== verification/Browse.thy ===== *)
theory Browse
  imports Web_Text Access_Control "HOL-Library.Multiset" Complex_Main
begin

text \<open>
  The browsing tools: access profiles (\<open>browse/profiles.py\<close>, \<open>browse/reference_profiles.py\<close>), the
  connection to the browser service with its guards and retries (\<open>browse/connection.py\<close>), the respect
  for \<open>robots.txt\<close> (\<open>browse/robots.py\<close>) and the three tools of \<open>utils/middleware.py\<close> that a model can
  call: \<open>web_fetch\<close>, \<open>web_search\<close> and \<open>deep_research\<close>.

  What the browser service answers, how names resolve, what \<open>ipaddress\<close> and \<open>robotparser\<close> say and what
  the search engine finds are parameters. The coroutines of a batch share only the state that is kept
  per origin and guarded by a lock per origin, so a batch is run one coroutine after the other in an
  order the environment chooses; the clock read under the lock of an origin does not go back, and
  nothing is assumed of the clocks of different origins. Status events are left out.

  The lemmas show that nothing is sent past the guards, that a research stays within its budget and
  ends, that it follows links only from site to site of the same name, and that it keeps to the rules
  and delays a site declares.
\<close>

section \<open>Profiles\<close>

record browse_profile =
  bp_name :: string
  bp_allowlist :: "string list"
  bp_blocklist :: "string list"
  bp_timeout_seconds :: rat
  bp_retry_count :: int
  bp_extra :: "(string \<times> json) list option"

type_synonym profile_registry = "(string \<times> browse_profile) list"

definition register_profile :: "browse_profile \<Rightarrow> profile_registry \<Rightarrow> profile_registry" where
  "register_profile profile reg = AList.update (bp_name profile) profile reg"

text \<open>The \<open>ProfileNotFoundError\<close> is a \<open>KeyError\<close>.\<close>

definition resolve_profile :: "string \<Rightarrow> profile_registry \<Rightarrow> browse_profile result" where
  "resolve_profile name reg = (case map_of reg name of None \<Rightarrow> Inl KeyError | Some p \<Rightarrow> Inr p)"

definition GENERAL_SEARCH_PROFILE :: browse_profile where
  "GENERAL_SEARCH_PROFILE = \<lparr>bp_name = ''general-search'', bp_allowlist = [], bp_blocklist = [],
     bp_timeout_seconds = 20, bp_retry_count = 0, bp_extra = None\<rparr>"

definition WEATHER_SEARCH_PROFILE :: browse_profile where
  "WEATHER_SEARCH_PROFILE = \<lparr>bp_name = ''weather-search'',
     bp_allowlist = [''weather.com'', ''wunderground.com'', ''noaa.gov'', ''accuweather.com''], bp_blocklist = [],
     bp_timeout_seconds = 20, bp_retry_count = 1, bp_extra = Some [(''location_based'', JBool True)]\<rparr>"

definition DIRECT_FETCH_PROFILE :: browse_profile where
  "DIRECT_FETCH_PROFILE = \<lparr>bp_name = ''direct-fetch'', bp_allowlist = [], bp_blocklist = [],
     bp_timeout_seconds = 25, bp_retry_count = 1, bp_extra = None\<rparr>"

definition LINK_FOLLOW_PROFILE :: browse_profile where
  "LINK_FOLLOW_PROFILE = \<lparr>bp_name = ''link-follow'', bp_allowlist = [], bp_blocklist = [],
     bp_timeout_seconds = 20, bp_retry_count = 0, bp_extra = None\<rparr>"

definition register_reference_profiles :: "profile_registry \<Rightarrow> profile_registry" where
  "register_reference_profiles reg =
     register_profile LINK_FOLLOW_PROFILE (register_profile DIRECT_FETCH_PROFILE
       (register_profile WEATHER_SEARCH_PROFILE (register_profile GENERAL_SEARCH_PROFILE reg)))"

section \<open>The connection\<close>

record ip_flags =
  ip_is_private :: bool
  ip_is_loopback :: bool
  ip_is_link_local :: bool

text \<open>
  What looking a name up gives: the addresses, an \<open>OSError\<close>, or the \<open>UnicodeError\<close> of a name with a
  label that is empty or too long.
\<close>

datatype lookup = Resolved "string list" | Lookup_failed | Lookup_raised

record service_request =
  sr_url :: string
  sr_target :: string
  sr_timeout_ms :: int
  sr_api_key :: "string option"
  sr_client_timeout :: rat

text \<open>
  An answer of the browser service: the exception the call or the reading of the body ends with, or a
  status, the body as text and the content found in it.
\<close>

datatype service_reply = Call_raised string | Reply nat string "string option"

datatype fetch_error =
    No_service
  | Literal_address string
  | Resolves_to_address string
  | On_blocklist string
  | Not_on_allowlist string
  | Credentials_rejected nat
  | Bad_status nat string
  | No_usable_content
  | Fetch_failed string

datatype fetch_result = Success string | Failure fetch_error

type_synonym origin = "string \<times> string"

text \<open>
  The environment. Answers depend on how many requests were sent before. \<open>be_lapse o k\<close> is the time
  that passes before the \<open>k\<close>-th reading of the clock under the lock of an origin. \<open>be_order k\<close> is the
  order in which the coroutines of a batch run and \<open>be_cancelled k\<close> says that the batch is
  cancelled by its time limit after so many of them.
\<close>

record browse_env =
  be_service_url :: string
  be_api_key :: "string option"
  be_lib :: url_lib
  be_parse :: "string \<Rightarrow> html_event list"
  be_unescape :: "string \<Rightarrow> string"
  be_ip_address :: "string \<Rightarrow> ip_flags option"
  be_lookup :: "nat \<Rightarrow> string \<Rightarrow> lookup"
  be_service :: "nat \<Rightarrow> service_request \<Rightarrow> service_reply"
  be_robots_parses :: "string list \<Rightarrow> bool"
  be_can_fetch :: "string list \<Rightarrow> string \<Rightarrow> string \<Rightarrow> bool"
  be_crawl_delay :: "string list \<Rightarrow> string \<Rightarrow> rat option option"
  be_search :: "string \<Rightarrow> (string \<times> string) list result"
  be_profiles :: profile_registry
  be_lapse :: "origin \<Rightarrow> nat \<Rightarrow> rat"
  be_loop_time :: "nat \<Rightarrow> rat"
  be_order :: "nat \<Rightarrow> nat list"
  be_cancelled :: "nat \<Rightarrow> nat option"

definition hostname_matches_list :: "string \<Rightarrow> string list \<Rightarrow> bool" where
  "hostname_matches_list hostname patterns =
     list_ex (\<lambda>pattern. lower hostname = lower pattern \<or> suffix (CHR ''.'' # lower pattern) (lower hostname)) patterns"

definition blocked_flags :: "ip_flags \<Rightarrow> bool" where
  "blocked_flags ip \<longleftrightarrow> ip_is_private ip \<or> ip_is_loopback ip \<or> ip_is_link_local ip"

definition is_blocked_literal_ip_host :: "browse_env \<Rightarrow> string \<Rightarrow> bool" where
  "is_blocked_literal_ip_host env hostname =
     (case be_ip_address env hostname of None \<Rightarrow> False | Some ip \<Rightarrow> blocked_flags ip)"

definition hostname_resolves_to_blocked_ip :: "browse_env \<Rightarrow> nat \<Rightarrow> string \<Rightarrow> bool result" where
  "hostname_resolves_to_blocked_ip env t hostname =
     (case be_lookup env t hostname of
        Lookup_raised \<Rightarrow> Inl (ValueError hostname)
      | Lookup_failed \<Rightarrow> Inr False
      | Resolved addresses \<Rightarrow> Inr (list_ex (is_blocked_literal_ip_host env) addresses))"

definition DEFAULT_TIMEOUT_SECONDS :: rat where
  "DEFAULT_TIMEOUT_SECONDS = 10"

definition request_for :: "browse_env \<Rightarrow> string \<Rightarrow> browse_profile \<Rightarrow> service_request" where
  "request_for env url profile =
     (let t = (if bp_timeout_seconds profile \<noteq> 0 then bp_timeout_seconds profile else DEFAULT_TIMEOUT_SECONDS)
      in \<lparr>sr_url = rstrip_char (CHR ''/'') (be_service_url env) @ ''/scrape'', sr_target = url,
          sr_timeout_ms = max 1000 \<lfloor>(t - 3) * 1000\<rfloor>, sr_api_key = nonempty (be_api_key env), sr_client_timeout = t\<rparr>)"

text \<open>The content of a good reply, after the page was reduced; \<open>None\<close> is no usable content.\<close>

definition usable :: "browse_env \<Rightarrow> bool \<Rightarrow> string option \<Rightarrow> string option" where
  "usable env raw_text content =
     (case nonempty content of
        None \<Rightarrow> None
      | Some c \<Rightarrow>
          (let c' = (if raw_text then html_to_plaintext (be_unescape env) c else strip_scripts_and_trackers c)
           in if py_strip c' = [] then None else Some c'))"

fun attempts ::
    "browse_env \<Rightarrow> service_request \<Rightarrow> bool \<Rightarrow> nat \<Rightarrow> service_request list \<Rightarrow> fetch_result option \<Rightarrow> service_request list \<times> fetch_result option" where
  "attempts env req raw_text 0 sent last_result = (sent, last_result)"
| "attempts env req raw_text (Suc n) sent last_result =
     (case be_service env (length sent) req of
        Call_raised e \<Rightarrow> attempts env req raw_text n (sent @ [req]) (Some (Failure (Fetch_failed e)))
      | Reply status body content \<Rightarrow>
          if status = 401 \<or> status = 403 then (sent @ [req], Some (Failure (Credentials_rejected status)))
          else if status \<noteq> 200 then attempts env req raw_text n (sent @ [req]) (Some (Failure (Bad_status status (take 500 body))))
          else case usable env raw_text content of
              None \<Rightarrow> attempts env req raw_text n (sent @ [req]) (Some (Failure No_usable_content))
            | Some c \<Rightarrow> (sent @ [req], Some (Success c)))"

text \<open>The guards before a request: the first reason to refuse it, or the exception they end with.\<close>

definition guard :: "browse_env \<Rightarrow> nat \<Rightarrow> string \<Rightarrow> browse_profile \<Rightarrow> fetch_error option result" where
  "guard env t url profile =
     (case urlparse (ul_bracket_ok (be_lib env)) url of
        Inl e \<Rightarrow> Inl e
      | Inr u \<Rightarrow>
          (case nonempty (url_hostname u) of
             None \<Rightarrow> Inr None
           | Some h \<Rightarrow>
               if is_blocked_literal_ip_host env h then Inr (Some (Literal_address h))
               else case hostname_resolves_to_blocked_ip env t h of
                   Inl e \<Rightarrow> Inl e
                 | Inr True \<Rightarrow> Inr (Some (Resolves_to_address h))
                 | Inr False \<Rightarrow>
                     if bp_blocklist profile \<noteq> [] \<and> hostname_matches_list h (bp_blocklist profile) then Inr (Some (On_blocklist h))
                     else if bp_allowlist profile \<noteq> [] \<and> \<not> hostname_matches_list h (bp_allowlist profile) then Inr (Some (Not_on_allowlist h))
                     else Inr None))"

text \<open>\<open>None\<close> is returned when a profile leaves no attempt at all.\<close>

definition browse_fetch ::
    "browse_env \<Rightarrow> service_request list \<Rightarrow> string \<Rightarrow> browse_profile \<Rightarrow> bool \<Rightarrow> service_request list \<times> fetch_result option result" where
  "browse_fetch env sent url profile raw_text =
     (if be_service_url env = [] then (sent, Inr (Some (Failure No_service)))
      else case guard env (length sent) url profile of
          Inl e \<Rightarrow> (sent, Inl e)
        | Inr (Some reason) \<Rightarrow> (sent, Inr (Some (Failure reason)))
        | Inr None \<Rightarrow>
            (let (sent', r) = attempts env (request_for env url profile) raw_text (nat (bp_retry_count profile + 1)) sent None
             in (sent', Inr r)))"

section \<open>robots.txt\<close>

definition origin_key :: "browse_env \<Rightarrow> string \<Rightarrow> origin option" where
  "origin_key env url =
     (case urlparse (ul_bracket_ok (be_lib env)) url of
        Inl _ \<Rightarrow> None
      | Inr u \<Rightarrow> if up_scheme u = [] \<or> up_netloc u = [] then None else Some (up_scheme u, up_netloc u))"

definition robots_url :: "origin \<Rightarrow> string" where
  "robots_url origin = fst origin @ ''://'' @ snd origin @ ''/robots.txt''"

text \<open>
  The state of a traversal: the requests sent, the parsed files (\<open>None\<close> is one that allows everything;
  a parsed file is its lines), the time from which an origin may be fetched again, and per origin the
  clock as last read and how often it was read.
\<close>

record web =
  web_log :: "service_request list"
  web_robots :: "(origin \<times> string list option) list"
  web_next_ok :: "(origin \<times> rat) list"
  web_clock :: "origin \<Rightarrow> rat"
  web_ticks :: "origin \<Rightarrow> nat"
  web_spaced :: "(origin \<times> rat \<times> rat) list"

text \<open>Every method of a missing result raises an \<open>AttributeError\<close>.\<close>

definition parser_for :: "browse_env \<Rightarrow> origin \<Rightarrow> browse_profile \<Rightarrow> web \<Rightarrow> web \<times> string list option result" where
  "parser_for env origin profile w =
     (case map_of (web_robots w) origin of
        Some p \<Rightarrow> (w, Inr p)
      | None \<Rightarrow>
          (let (sent, r) = browse_fetch env (web_log w) (robots_url origin) profile True; w1 = w\<lparr>web_log := sent\<rparr>
           in case r of
                Inl e \<Rightarrow> (w1, Inl e)
              | Inr None \<Rightarrow> (w1, Inl AttributeError)
              | Inr (Some f) \<Rightarrow>
                  (let p = (case f of
                       Success content \<Rightarrow> (if py_strip content \<noteq> [] \<and> be_robots_parses env (splitlines content) then Some (splitlines content) else None)
                     | Failure _ \<Rightarrow> None)
                   in (w1\<lparr>web_robots := AList.update origin p (web_robots w1)\<rparr>, Inr p))))"

definition is_allowed :: "browse_env \<Rightarrow> string \<Rightarrow> string \<Rightarrow> browse_profile \<Rightarrow> web \<Rightarrow> web \<times> bool result" where
  "is_allowed env user_agent url profile w =
     (case origin_key env url of
        None \<Rightarrow> (w, Inr False)
      | Some origin \<Rightarrow>
          (case parser_for env origin profile w of
             (w', Inl e) \<Rightarrow> (w', Inl e)
           | (w', Inr None) \<Rightarrow> (w', Inr True)
           | (w', Inr (Some ls)) \<Rightarrow> (w', Inr (be_can_fetch env ls user_agent url))))"

text \<open>\<open>be_crawl_delay\<close> is \<open>None\<close> where the library raises.\<close>

definition crawl_delay :: "browse_env \<Rightarrow> string \<Rightarrow> string \<Rightarrow> browse_profile \<Rightarrow> web \<Rightarrow> web \<times> rat option result" where
  "crawl_delay env user_agent url profile w =
     (case origin_key env url of
        None \<Rightarrow> (w, Inr None)
      | Some origin \<Rightarrow>
          (case parser_for env origin profile w of
             (w', Inl e) \<Rightarrow> (w', Inl e)
           | (w', Inr None) \<Rightarrow> (w', Inr None)
           | (w', Inr (Some ls)) \<Rightarrow> (w', Inr (case be_crawl_delay env ls user_agent of None \<Rightarrow> None | Some d \<Rightarrow> d))))"

fun crawl_delays :: "browse_env \<Rightarrow> string \<Rightarrow> string list \<Rightarrow> browse_profile \<Rightarrow> web \<Rightarrow> web \<times> rat list result" where
  "crawl_delays env user_agent [] profile w = (w, Inr [])"
| "crawl_delays env user_agent (u # us) profile w =
     (case crawl_delay env user_agent u profile w of
        (w1, Inl e) \<Rightarrow> (w1, Inl e)
      | (w1, Inr d) \<Rightarrow>
          (case crawl_delays env user_agent us profile w1 of
             (w2, Inl e) \<Rightarrow> (w2, Inl e)
           | (w2, Inr ds) \<Rightarrow> (w2, Inr ((case d of None \<Rightarrow> [] | Some x \<Rightarrow> [x]) @ ds))))"

definition max_crawl_delay :: "browse_env \<Rightarrow> string \<Rightarrow> string list \<Rightarrow> browse_profile \<Rightarrow> web \<Rightarrow> web \<times> rat option result" where
  "max_crawl_delay env user_agent urls profile w =
     (case crawl_delays env user_agent urls profile w of
        (w', Inl e) \<Rightarrow> (w', Inl e)
      | (w', Inr []) \<Rightarrow> (w', Inr None)
      | (w', Inr (d # ds)) \<Rightarrow> (w', Inr (Some (fold max ds d))))"

section \<open>One fetch of a research\<close>

record research_config =
  rc_max_depth :: int
  rc_max_pages :: int
  rc_max_seconds :: rat
  rc_concurrency :: int
  rc_chars_per_page :: int
  rc_max_links :: int
  rc_max_crawl_delay :: rat
  rc_respect_robots :: bool
  rc_user_agent :: string
  rc_fetch_max_chars :: int

datatype outcome = By_robots | Fetched fetch_result | Fetch_raised py_exn

definition read_clock :: "browse_env \<Rightarrow> origin \<Rightarrow> web \<Rightarrow> web \<times> rat" where
  "read_clock env orig w =
     (let t = web_clock w orig + be_lapse env orig (web_ticks w orig)
      in (w\<lparr>web_clock := (web_clock w)(orig := t), web_ticks := (web_ticks w)(orig := web_ticks w orig + 1)\<rparr>, t))"

definition plain_fetch :: "browse_env \<Rightarrow> string \<Rightarrow> browse_profile \<Rightarrow> web \<Rightarrow> web \<times> outcome" where
  "plain_fetch env url profile w =
     (let (sent, r) = browse_fetch env (web_log w) url profile False
      in (w\<lparr>web_log := sent\<rparr>, case r of Inl e \<Rightarrow> Fetch_raised e | Inr None \<Rightarrow> Fetch_raised AttributeError | Inr (Some f) \<Rightarrow> Fetched f))"

definition next_ok :: "origin \<Rightarrow> web \<Rightarrow> rat" where
  "next_ok orig w = (case map_of (web_next_ok w) orig of None \<Rightarrow> 0 | Some t \<Rightarrow> t)"

text \<open>The part under the lock of an origin that declares a delay.\<close>

definition spaced_fetch :: "browse_env \<Rightarrow> rat \<Rightarrow> origin \<Rightarrow> rat \<Rightarrow> string \<Rightarrow> browse_profile \<Rightarrow> web \<Rightarrow> web \<times> outcome" where
  "spaced_fetch env deadline orig delay url profile w =
     (let (w1, now) = read_clock env orig w; wait = next_ok orig w - now;
          (w2, later) = (if wait > 0 then read_clock env orig w1 else (w1, now))
      in if wait > 0 \<and> later + wait \<ge> deadline then (w2, By_robots)
         else let w3 = (if wait > 0 then w2\<lparr>web_clock := (web_clock w2)(orig := later + wait)\<rparr> else w2);
                  (w4, start) = read_clock env orig w3
              in plain_fetch env url profile
                   (w4\<lparr>web_next_ok := AList.update orig (start + delay) (web_next_ok w4), web_spaced := web_spaced w4 @ [(orig, start, delay)]\<rparr>))"

definition gated_fetch :: "browse_env \<Rightarrow> research_config \<Rightarrow> rat \<Rightarrow> browse_profile \<Rightarrow> string \<Rightarrow> web \<Rightarrow> web \<times> outcome" where
  "gated_fetch env cfg deadline profile url w =
     (if \<not> rc_respect_robots cfg then plain_fetch env url profile w
      else case is_allowed env (rc_user_agent cfg) url profile w of
          (w1, Inl e) \<Rightarrow> (w1, Fetch_raised e)
        | (w1, Inr False) \<Rightarrow> (w1, By_robots)
        | (w1, Inr True) \<Rightarrow>
            (case crawl_delay env (rc_user_agent cfg) url profile w1 of
               (w2, Inl e) \<Rightarrow> (w2, Fetch_raised e)
             | (w2, Inr None) \<Rightarrow> plain_fetch env url profile w2
             | (w2, Inr (Some delay)) \<Rightarrow>
                 if delay = 0 then plain_fetch env url profile w2
                 else if delay > rc_max_crawl_delay cfg then (w2, By_robots)
                 else case urlparse (ul_bracket_ok (be_lib env)) url of
                     Inl e \<Rightarrow> (w2, Fetch_raised e)
                   | Inr u \<Rightarrow> spaced_fetch env deadline (up_scheme u, up_netloc u) delay url profile w2))"

section \<open>The research\<close>

record page =
  pg_url :: string
  pg_title :: string
  pg_text :: string
  pg_depth :: nat

record research =
  rs_frontier :: "(string \<times> nat) list"
  rs_queued :: "string list"
  rs_pages :: "page list"
  rs_refused_hops :: nat
  rs_disallowed :: nat
  rs_web :: web

definition follow_link :: "browse_env \<Rightarrow> string \<Rightarrow> nat \<Rightarrow> string \<Rightarrow> research \<Rightarrow> research" where
  "follow_link env url depth link st =
     (if link \<in> set (rs_queued st) then st
      else if \<not> is_same_site (ul_bracket_ok (be_lib env)) url link then st\<lparr>rs_refused_hops := rs_refused_hops st + 1\<rparr>
      else st\<lparr>rs_queued := rs_queued st @ [link], rs_frontier := rs_frontier st @ [(link, depth + 1)]\<rparr>)"

definition page_of :: "string \<times> nat \<Rightarrow> page_parts \<Rightarrow> page" where
  "page_of target p = \<lparr>pg_url = fst target, pg_title = pp_title p, pg_text = pp_text p, pg_depth = snd target\<rparr>"

definition take_outcome :: "browse_env \<Rightarrow> research_config \<Rightarrow> string \<times> nat \<Rightarrow> outcome \<Rightarrow> research \<Rightarrow> research result" where
  "take_outcome env cfg target out st =
     (case out of
        Fetch_raised _ \<Rightarrow> Inr st
      | By_robots \<Rightarrow> Inr (st\<lparr>rs_disallowed := rs_disallowed st + 1\<rparr>)
      | Fetched (Failure _) \<Rightarrow> Inr st
      | Fetched (Success content) \<Rightarrow>
          (case html_to_text_and_links (be_lib env) (be_parse env) content (Some (fst target)) (Some (rc_max_links cfg)) of
             Inl e \<Rightarrow> Inl e
           | Inr p \<Rightarrow>
               if py_strip (pp_text p) = [] then Inr st
               else let st1 = st\<lparr>rs_pages := rs_pages st @ [page_of target p]\<rparr>
                    in if int (snd target) + 1 > rc_max_depth cfg then Inr st1
                       else Inr (fold (follow_link env (fst target) (snd target)) (map fst (pp_links p)) st1)))"

fun take_outcomes :: "browse_env \<Rightarrow> research_config \<Rightarrow> ((string \<times> nat) \<times> outcome) list \<Rightarrow> research \<Rightarrow> research result" where
  "take_outcomes env cfg [] st = Inr st"
| "take_outcomes env cfg ((target, out) # rest) st =
     (case take_outcome env cfg target out st of Inl e \<Rightarrow> Inl e | Inr st' \<Rightarrow> take_outcomes env cfg rest st')"

fun run_coroutines ::
    "browse_env \<Rightarrow> research_config \<Rightarrow> rat \<Rightarrow> browse_profile \<Rightarrow> string list \<Rightarrow> nat list \<Rightarrow> web \<Rightarrow> web \<times> (nat \<times> outcome) list" where
  "run_coroutines env cfg deadline profile urls [] w = (w, [])"
| "run_coroutines env cfg deadline profile urls (i # is) w =
     (let (w1, out) = gated_fetch env cfg deadline profile (urls ! i) w;
          (w2, outs) = run_coroutines env cfg deadline profile urls is w1
      in (w2, (i, out) # outs))"

definition batch_order :: "browse_env \<Rightarrow> nat \<Rightarrow> nat \<Rightarrow> nat list" where
  "batch_order env k n = (if sort (be_order env k) = [0..<n] then be_order env k else [0..<n])"

text \<open>The flag says that the time limit of the batch ran out. A coroutine that was cancelled counts as run.\<close>

definition one_batch ::
    "browse_env \<Rightarrow> research_config \<Rightarrow> rat \<Rightarrow> browse_profile \<Rightarrow> nat \<Rightarrow> research \<Rightarrow> research \<times> bool result" where
  "one_batch env cfg deadline profile k st =
     (let n = nat (min (max 1 (rc_concurrency cfg)) (rc_max_pages cfg - int (length (rs_pages st))));
          batch = take n (rs_frontier st); st1 = st\<lparr>rs_frontier := drop (length batch) (rs_frontier st)\<rparr>;
          order = batch_order env k (length batch)
      in case be_cancelled env k of
           Some m \<Rightarrow> (st1\<lparr>rs_web := fst (run_coroutines env cfg deadline profile (map fst batch) (take m order) (rs_web st))\<rparr>, Inr True)
         | None \<Rightarrow>
             (let (w, outs) = run_coroutines env cfg deadline profile (map fst batch) order (rs_web st)
              in case take_outcomes env cfg (zip batch (map (\<lambda>i. the (map_of outs i)) [0..<length batch])) (st1\<lparr>rs_web := w\<rparr>) of
                   Inl e \<Rightarrow> (st1\<lparr>rs_web := w\<rparr>, Inl e)
                 | Inr st' \<Rightarrow> (st', Inr False)))"

section \<open>The research ends\<close>

text \<open>How deep a link can still lead.\<close>

definition depth_left :: "research_config \<Rightarrow> string \<times> nat \<Rightarrow> nat" where
  "depth_left cfg target = nat (rc_max_depth cfg + 1 - int (snd target))"

lemma follow_links_frontier:
  "\<exists>new. rs_frontier (fold (follow_link env url depth) links st) = rs_frontier st @ map (\<lambda>l. (l, depth + 1)) new"
proof (induction links arbitrary: st)
  case (Cons l ls)
  obtain new where "rs_frontier (fold (follow_link env url depth) ls (follow_link env url depth l st)) =
      rs_frontier (follow_link env url depth l st) @ map (\<lambda>l. (l, depth + 1)) new"
    using Cons.IH by blast
  moreover have "rs_frontier (follow_link env url depth l st) = rs_frontier st \<or>
      rs_frontier (follow_link env url depth l st) = rs_frontier st @ map (\<lambda>l. (l, depth + 1)) [l]"
    by (simp add: follow_link_def)
  ultimately show ?case by (metis append.assoc fold_simps(2) map_append)
qed simp

lemma take_outcome_cases:
  assumes "take_outcome env cfg target out st = Inr st'"
  obtains (skipped) "st' = st"
  | (robots) "out = By_robots" "st' = st\<lparr>rs_disallowed := rs_disallowed st + 1\<rparr>"
  | (last) content p where "out = Fetched (Success content)"
      "html_to_text_and_links (be_lib env) (be_parse env) content (Some (fst target)) (Some (rc_max_links cfg)) = Inr p"
      "py_strip (pp_text p) \<noteq> []" "st' = st\<lparr>rs_pages := rs_pages st @ [page_of target p]\<rparr>"
  | (read) content p where "out = Fetched (Success content)"
      "html_to_text_and_links (be_lib env) (be_parse env) content (Some (fst target)) (Some (rc_max_links cfg)) = Inr p"
      "py_strip (pp_text p) \<noteq> []" "int (snd target) + 1 \<le> rc_max_depth cfg"
      "st' = fold (follow_link env (fst target) (snd target)) (map fst (pp_links p)) (st\<lparr>rs_pages := rs_pages st @ [page_of target p]\<rparr>)"
proof (cases out)
  case (Fetched f)
  show thesis
  proof (cases f)
    case (Success content)
    then show thesis using assms Fetched last read skipped
      by (auto simp: take_outcome_def Let_def split: sum.splits if_splits)
  next
    case (Failure e)
    then show thesis using assms Fetched skipped by (simp add: take_outcome_def)
  qed
next
  case (Fetch_raised e)
  then show thesis using assms skipped by (simp add: take_outcome_def)
next
  case By_robots
  then show thesis using assms robots by (simp add: take_outcome_def)
qed

lemma take_outcome_frontier:
  assumes "take_outcome env cfg target out st = Inr st'"
  shows "\<exists>new. rs_frontier st' = rs_frontier st @ new \<and> (\<forall>t \<in> set new. depth_left cfg t < depth_left cfg target)"
  using assms
proof (cases rule: take_outcome_cases)
  case (read content p)
  then show ?thesis
    using follow_links_frontier[of env "fst target" "snd target" "map fst (pp_links p)" "st\<lparr>rs_pages := rs_pages st @ [page_of target p]\<rparr>"]
    by (auto simp: depth_left_def)
qed simp_all

lemma take_outcomes_frontier:
  assumes "take_outcomes env cfg rest st = Inr st'"
  shows "\<exists>new. rs_frontier st' = rs_frontier st @ new \<and> (\<forall>t \<in> set new. \<exists>u \<in> set (map fst rest). depth_left cfg t < depth_left cfg u)"
  using assms
proof (induction env cfg rest st rule: take_outcomes.induct)
  case (2 env cfg target out rest st)
  then obtain st1 where st1: "take_outcome env cfg target out st = Inr st1" "take_outcomes env cfg rest st1 = Inr st'"
    by (auto split: sum.splits)
  obtain new1 where "rs_frontier st1 = rs_frontier st @ new1" "\<forall>t \<in> set new1. depth_left cfg t < depth_left cfg target"
    using take_outcome_frontier[OF st1(1)] by blast
  moreover obtain new2 where "rs_frontier st' = rs_frontier st1 @ new2" "\<forall>t \<in> set new2. \<exists>u \<in> set (map fst rest). depth_left cfg t < depth_left cfg u"
    using 2(1)[OF st1] by blast
  ultimately show ?case by (intro exI[of _ "new1 @ new2"]) fastforce
qed simp

lemma one_batch_shape:
  assumes "one_batch env cfg deadline profile k st = (st', r)" and "rs_frontier st \<noteq> []" and "int (length (rs_pages st)) < rc_max_pages cfg"
  shows "\<exists>batch rest new. rs_frontier st = batch @ rest \<and> batch \<noteq> [] \<and> rs_frontier st' = rest @ new \<and>
    (\<forall>t \<in> set new. \<exists>u \<in> set batch. depth_left cfg t < depth_left cfg u)"
proof -
  define n where "n = nat (min (max 1 (rc_concurrency cfg)) (rc_max_pages cfg - int (length (rs_pages st))))"
  let ?batch = "take n (rs_frontier st)"
  have b: "?batch \<noteq> []" using assms(2,3) by (simp add: n_def)
  have split: "rs_frontier st = ?batch @ drop (length ?batch) (rs_frontier st)" by (simp add: min_def)
  show ?thesis
  proof (cases "be_cancelled env k")
    case (Some m)
    then have "rs_frontier st' = drop (length ?batch) (rs_frontier st) @ []" using assms(1) by (auto simp: one_batch_def Let_def n_def)
    with b split show ?thesis by (intro exI[of _ ?batch] exI[of _ "drop (length ?batch) (rs_frontier st)"] exI[of _ "[]"]) simp
  next
    case None
    show ?thesis
    proof (cases r)
      case (Inl e)
      then have "rs_frontier st' = drop (length ?batch) (rs_frontier st) @ []"
        using assms(1) None by (auto simp: one_batch_def Let_def n_def split: prod.splits sum.splits)
      with b split show ?thesis by (intro exI[of _ ?batch] exI[of _ "drop (length ?batch) (rs_frontier st)"] exI[of _ "[]"]) simp
    next
    case (Inr timed_out)
    then obtain outs w where t: "take_outcomes env cfg (zip ?batch outs) (st\<lparr>rs_frontier := drop (length ?batch) (rs_frontier st), rs_web := w\<rparr>) = Inr st'"
      "length outs = length ?batch"
      using assms(1) None by (auto simp: one_batch_def Let_def n_def split: prod.splits sum.splits)
    obtain new where "rs_frontier st' = drop (length ?batch) (rs_frontier st) @ new"
      "\<forall>t \<in> set new. \<exists>u \<in> set (map fst (zip ?batch outs)). depth_left cfg t < depth_left cfg u"
      using take_outcomes_frontier[OF t(1)] by auto
    with b split t(2) show ?thesis by (intro exI[of _ ?batch] exI[of _ "drop (length ?batch) (rs_frontier st)"] exI[of _ new]) simp
    qed
  qed
qed

lemma one_batch_smaller:
  assumes "one_batch env cfg deadline profile k st = (st', r)" and "rs_frontier st \<noteq> []" and "int (length (rs_pages st)) < rc_max_pages cfg"
  shows "(image_mset (depth_left cfg) (mset (rs_frontier st')), image_mset (depth_left cfg) (mset (rs_frontier st))) \<in> mult less_than"
proof -
  obtain batch rest new where b: "rs_frontier st = batch @ rest" "batch \<noteq> []" "rs_frontier st' = rest @ new"
    "\<forall>t \<in> set new. \<exists>u \<in> set batch. depth_left cfg t < depth_left cfg u"
    using one_batch_shape[OF assms] by blast
  have "(image_mset (depth_left cfg) (mset rest) + image_mset (depth_left cfg) (mset new),
      image_mset (depth_left cfg) (mset rest) + image_mset (depth_left cfg) (mset batch)) \<in> mult less_than"
    by (rule one_step_implies_mult) (use b in \<open>auto\<close>)
  then show ?thesis using b by (simp add: add.commute)
qed

datatype stop_reason = Time_limit | Page_limit

function research_loop ::
    "browse_env \<Rightarrow> research_config \<Rightarrow> rat \<Rightarrow> browse_profile \<Rightarrow> nat \<Rightarrow> research \<Rightarrow> research \<times> stop_reason option result" where
  "research_loop env cfg deadline profile k st =
     (if rs_frontier st = [] \<or> int (length (rs_pages st)) \<ge> rc_max_pages cfg then (st, Inr None)
      else if deadline - be_loop_time env k \<le> 0 then (st, Inr (Some Time_limit))
      else case one_batch env cfg deadline profile k st of
          (st', Inl e) \<Rightarrow> (st', Inl e)
        | (st', Inr True) \<Rightarrow> (st', Inr (Some Time_limit))
        | (st', Inr False) \<Rightarrow> research_loop env cfg deadline profile (k + 1) st')"
  by pat_completeness auto
termination
  by (relation "inv_image (mult less_than) (\<lambda>(env, cfg, deadline, profile, k, st). image_mset (depth_left cfg) (mset (rs_frontier st)))")
    (auto intro: wf_mult one_batch_smaller[OF sym])

declare research_loop.simps [simp del]

lemma research_loop_invariant:
  assumes "research_loop env cfg deadline profile k st = (st', r)" and "I st"
    and "\<And>k st st' r. I st \<Longrightarrow> one_batch env cfg deadline profile k st = (st', r) \<Longrightarrow> rs_frontier st \<noteq> [] \<Longrightarrow>
      int (length (rs_pages st)) < rc_max_pages cfg \<Longrightarrow> I st'"
  shows "I st'"
  using assms
proof (induction env cfg deadline profile k st rule: research_loop.induct)
  case (1 env cfg deadline profile k st)
  show ?case
  proof (cases "rs_frontier st = [] \<or> int (length (rs_pages st)) \<ge> rc_max_pages cfg \<or> deadline - be_loop_time env k \<le> 0")
    case True
    then show ?thesis using 1(2,3) by (subst (asm) research_loop.simps) (auto split: if_splits)
  next
    case False
    obtain st1 r1 where b: "one_batch env cfg deadline profile k st = (st1, r1)" by fastforce
    have I1: "I st1" using 1(4)[OF 1(3) b] False by simp
    show ?thesis
    proof (cases "r1 = Inr False")
      case True
      then have "research_loop env cfg deadline profile (k + 1) st1 = (st', r)"
        using 1(2) b False by (subst (asm) research_loop.simps) simp
      moreover have "\<not> (rs_frontier st = [] \<or> rc_max_pages cfg \<le> int (length (rs_pages st)))" "\<not> deadline - be_loop_time env k \<le> 0"
        using False by auto
      ultimately show ?thesis using 1(1)[OF _ _ b[symmetric] True] 1(4) I1 by simp
    next
      case False
      then have "st' = st1" using 1(2) b \<open>\<not> (rs_frontier st = [] \<or> _ \<or> _)\<close>
        by (subst (asm) research_loop.simps) (auto split: sum.splits bool.splits)
      then show ?thesis using I1 by simp
    qed
  qed
qed

section \<open>The tools\<close>

text \<open>A block of an answer: the text of a page under its address, and whether it was cut.\<close>

record source_block =
  sb_name :: string
  sb_url :: string
  sb_text :: string
  sb_truncated :: bool

text \<open>\<open>text[:n]\<close>.\<close>

definition first_chars :: "int \<Rightarrow> string \<Rightarrow> string" where
  "first_chars n s = (if 0 \<le> n then take (nat n) s else take (nat (int (length s) + n)) s)"

definition source_block_of :: "int \<Rightarrow> string \<Rightarrow> string \<Rightarrow> string \<Rightarrow> source_block" where
  "source_block_of n url title t =
     (let long = int (length t) > n
      in \<lparr>sb_name = (if title \<noteq> [] then title else url), sb_url = url, sb_text = (if long then first_chars n t else t), sb_truncated = long\<rparr>)"

datatype research_answer =
    Research_not_permitted
  | No_search_results
  | No_pages_read
  | Report "source_block list" "stop_reason option" nat nat
  | Research_failed py_exn

definition initial_research :: "browse_env \<Rightarrow> service_request list \<Rightarrow> research" where
  "initial_research env sent = \<lparr>rs_frontier = [], rs_queued = [], rs_pages = [], rs_refused_hops = 0, rs_disallowed = 0,
     rs_web = \<lparr>web_log = sent, web_robots = [], web_next_ok = [], web_clock = (\<lambda>orig. be_loop_time env 0), web_ticks = (\<lambda>orig. 0), web_spaced = []\<rparr>\<rparr>"

definition run_deep_research_tool_call ::
    "dialect \<Rightarrow> browse_env \<Rightarrow> research_config \<Rightarrow> (string \<times> json) list \<Rightarrow> group list \<Rightarrow> user \<Rightarrow> string \<Rightarrow> service_request list \<Rightarrow> research \<times> research_answer" where
  "run_deep_research_tool_call d env cfg permissions groups user query sent =
     (let st0 = initial_research env sent
      in if \<not> has_browsing_access d user permissions groups then (st0, Research_not_permitted)
         else case be_search env query of
             Inl e \<Rightarrow> (st0, Research_failed e)
           | Inr [] \<Rightarrow> (st0, No_search_results)
           | Inr (r # rs) \<Rightarrow>
               (case resolve_profile ''link-follow'' (be_profiles env) of
                  Inl e \<Rightarrow> (st0, Research_failed e)
                | Inr profile \<Rightarrow>
                    (let links = map fst (r # rs);
                         st1 = st0\<lparr>rs_frontier := map (\<lambda>link. (link, 0)) links, rs_queued := links\<rparr>
                     in case research_loop env cfg (be_loop_time env 0 + rc_max_seconds cfg) profile 1 st1 of
                          (st, Inl e) \<Rightarrow> (st, Research_failed e)
                        | (st, Inr stop) \<Rightarrow>
                            (let stop' = (if stop = None \<and> int (length (rs_pages st)) \<ge> rc_max_pages cfg then Some Page_limit else stop)
                             in if rs_pages st = [] then (st, No_pages_read)
                                else (st, Report (map (\<lambda>p. source_block_of (rc_chars_per_page cfg) (pg_url p) (pg_title p) (pg_text p)) (rs_pages st))
                                            stop' (rs_refused_hops st) (rs_disallowed st))))))"

datatype page_answer =
    Fetch_not_permitted
  | No_url_given
  | Not_a_web_address string
  | Could_not_read fetch_error
  | No_readable_text
  | Page source_block
  | Fetch_raises py_exn

definition has_url_scheme :: "string \<Rightarrow> bool" where
  "has_url_scheme url \<longleftrightarrow>
     (let s = part_before (CHR '':'') url in CHR '':'' \<in> set url \<and> s \<noteq> [] \<and> is_alpha (hd s) \<and> list_all scheme_char s)"

definition run_web_fetch_tool_call ::
    "dialect \<Rightarrow> browse_env \<Rightarrow> research_config \<Rightarrow> (string \<times> json) list \<Rightarrow> group list \<Rightarrow> user \<Rightarrow> string \<Rightarrow> service_request list \<Rightarrow>
     service_request list \<times> page_answer result" where
  "run_web_fetch_tool_call d env cfg permissions groups user raw sent =
     (if \<not> has_browsing_access d user permissions groups then (sent, Inr Fetch_not_permitted)
      else if py_strip raw = [] then (sent, Inr No_url_given)
      else let url = (if has_url_scheme (py_strip raw) then py_strip raw else ''https://'' @ py_strip raw)
           in case fetchable (be_lib env) url of
                Inl e \<Rightarrow> (sent, Inl e)
              | Inr False \<Rightarrow> (sent, Inr (Not_a_web_address url))
              | Inr True \<Rightarrow>
                  (case resolve_profile ''direct-fetch'' (be_profiles env) of
                     Inl e \<Rightarrow> (sent, Inr (Fetch_raises e))
                   | Inr profile \<Rightarrow>
                       (case browse_fetch env sent url profile False of
                          (sent', Inl e) \<Rightarrow> (sent', Inr (Fetch_raises e))
                        | (sent', Inr None) \<Rightarrow> (sent', Inr (Fetch_raises AttributeError))
                        | (sent', Inr (Some (Failure e))) \<Rightarrow> (sent', Inr (Could_not_read e))
                        | (sent', Inr (Some (Success content))) \<Rightarrow>
                            (case html_to_text_and_links (be_lib env) (be_parse env) content (Some url) None of
                               Inl e \<Rightarrow> (sent', Inr (Fetch_raises e))
                             | Inr p \<Rightarrow>
                                 if py_strip (pp_text p) = [] then (sent', Inr No_readable_text)
                                 else (sent', Inr (Page (source_block_of (rc_fetch_max_chars cfg) url (pp_title p) (pp_text p))))))))"

datatype search_answer =
    Search_not_permitted
  | Search_found_nothing
  | No_page_could_be_read nat
  | Documents "(string \<times> string \<times> string) list"
  | Search_failed py_exn

fun fetch_results :: "browse_env \<Rightarrow> browse_profile \<Rightarrow> string list \<Rightarrow> service_request list \<Rightarrow> service_request list \<times> fetch_result option result list" where
  "fetch_results env profile [] sent = (sent, [])"
| "fetch_results env profile (url # urls) sent =
     (let (sent1, r) = browse_fetch env sent url profile False; (sent2, rs) = fetch_results env profile urls sent1 in (sent2, r # rs))"

text \<open>The first exception of the calls that are awaited together.\<close>

definition gathered :: "'a result list \<Rightarrow> 'a list result" where
  "gathered rs = (case filter (\<lambda>r. \<exists>e. r = Inl e) rs of Inl e # _ \<Rightarrow> Inl e | _ \<Rightarrow> Inr (map (\<lambda>r. case r of Inr x \<Rightarrow> x) rs))"

fun documents :: "browse_env \<Rightarrow> ((string \<times> string) \<times> fetch_result option) list \<Rightarrow> (string \<times> string \<times> string) list result" where
  "documents env [] = Inr []"
| "documents env (((link, title), r) # rest) =
     (case r of
        None \<Rightarrow> Inl AttributeError
      | Some (Failure _) \<Rightarrow> documents env rest
      | Some (Success content) \<Rightarrow>
          (case html_to_text (be_lib env) (be_parse env) content of
             Inl e \<Rightarrow> Inl e
           | Inr (t, page_title) \<Rightarrow>
               if py_strip t = [] then documents env rest
               else case documents env rest of
                   Inl e \<Rightarrow> Inl e
                 | Inr docs \<Rightarrow> Inr ((link, if page_title \<noteq> [] then page_title else title, t) # docs)))"

text \<open>The tool up to the documents it stores; storing them and ranking their parts is another component's work.\<close>

definition run_web_search_tool_call ::
    "dialect \<Rightarrow> browse_env \<Rightarrow> (string \<times> json) list \<Rightarrow> group list \<Rightarrow> user \<Rightarrow> string \<Rightarrow> service_request list \<Rightarrow> service_request list \<times> search_answer" where
  "run_web_search_tool_call d env permissions groups user query sent =
     (if \<not> has_browsing_access d user permissions groups then (sent, Search_not_permitted)
      else case be_search env query of
          Inl e \<Rightarrow> (sent, Search_failed e)
        | Inr results \<Rightarrow>
            if results = [] then (sent, Search_found_nothing)
            else case resolve_profile ''general-search'' (be_profiles env) of
                Inl e \<Rightarrow> (sent, Search_failed e)
              | Inr profile \<Rightarrow>
                  (let (sent', rs) = fetch_results env profile (map fst results) sent
                   in (sent', case gathered rs of
                          Inl e \<Rightarrow> Search_failed e
                        | Inr fetched \<Rightarrow>
                            (case documents env (zip results fetched) of
                               Inl e \<Rightarrow> Search_failed e
                             | Inr docs \<Rightarrow> if docs = [] then No_page_could_be_read (length results) else Documents docs))))"

section \<open>Examples\<close>

definition browsing_example :: browse_env where
  "browsing_example = \<lparr>be_service_url = ''http://pw'', be_api_key = None, be_lib = plain_lib,
     be_parse = (\<lambda>html. if html = ''a'' then [Data ''A'', Start_tag ''a'' [(''href'', Some ''https://a.org/b'')], End_tag ''a'',
         Start_tag ''a'' [(''href'', Some ''https://evil.org/'')], End_tag ''a''] else [Data ''B'']),
     be_unescape = (\<lambda>s. s), be_ip_address = (\<lambda>h. None), be_lookup = (\<lambda>t h. Resolved []),
     be_service = (\<lambda>t q. Reply 200 [] (Some (if sr_target q = ''https://a.org/'' then ''a'' else ''b''))),
     be_robots_parses = (\<lambda>ls. True), be_can_fetch = (\<lambda>ls ua url. True), be_crawl_delay = (\<lambda>ls ua. Some (Some 2)),
     be_search = (\<lambda>q. Inr [(''https://a.org/'', ''A'')]), be_profiles = register_reference_profiles [],
     be_lapse = (\<lambda>orig k. 1), be_loop_time = (\<lambda>k. 0), be_order = (\<lambda>k. []), be_cancelled = (\<lambda>k. None)\<rparr>"

definition browsing_limits :: research_config where
  "browsing_limits = \<lparr>rc_max_depth = 2, rc_max_pages = 5, rc_max_seconds = 60, rc_concurrency = 3, rc_chars_per_page = 100, rc_max_links = 10,
     rc_max_crawl_delay = 5, rc_respect_robots = True, rc_user_agent = ''self'', rc_fetch_max_chars = 100\<rparr>"

definition research_example :: "research \<times> research_answer" where
  "research_example = run_deep_research_tool_call Sqlite browsing_example browsing_limits [] [] \<lparr>u_id = ''u'', u_role = ''admin''\<rparr> ''q'' []"

lemma example_pages: "map pg_url (rs_pages (fst research_example)) = [''https://a.org/'', ''https://a.org/b'']"
  by code_simp

lemma example_requests: "map sr_target (web_log (rs_web (fst research_example))) = [''https://a.org/robots.txt'', ''https://a.org/'', ''https://a.org/b'']"
  by code_simp

lemma example_times: "web_spaced (rs_web (fst research_example)) = [((''https'', ''a.org''), 2, 2), ((''https'', ''a.org''), 6, 2)]"
  by code_simp

section \<open>Nothing is sent past the guards\<close>

lemma url_hostname_nonempty: "url_hostname u = Some h \<Longrightarrow> nonempty (Some h) = Some h"
  by (cases h) (auto simp: url_hostname_def Let_def lower_def split: if_splits)

lemma attempts_sent:
  assumes "attempts env req raw_text n sent l = (sent', r)"
  shows "\<exists>m \<le> n. sent' = sent @ replicate m req \<and> (\<forall>c. r = Some (Success c) \<longrightarrow> l = Some (Success c) \<or> m > 0 \<and> py_strip c \<noteq> [])"
  using assms
proof (induction n arbitrary: sent l)
  case (Suc n)
  have more: ?case if a1: "attempts env req raw_text n (sent @ [req]) l' = (sent', r)" and a2: "\<forall>c. l' \<noteq> Some (Success c)" for l'
  proof -
    obtain m where "m \<le> n" "sent' = sent @ req # replicate m req" "\<forall>c. r = Some (Success c) \<longrightarrow> py_strip c \<noteq> []"
      using Suc.IH[OF a1] a2 by auto
    then show ?thesis by (intro exI[of _ "Suc m"]) simp
  qed
  have last_one: ?case if "sent' = sent @ [req]" "\<forall>c. r = Some (Success c) \<longrightarrow> py_strip c \<noteq> []"
    using that by (intro exI[of _ 1]) simp
  have u: "py_strip c \<noteq> []" if "usable env raw_text content = Some c" for content c
    using that by (auto simp: usable_def Let_def split: option.splits if_splits)
  show ?case
  proof (cases "be_service env (length sent) req")
    case (Call_raised e)
    then show ?thesis using Suc.prems more by simp
  next
    case (Reply status body content)
    then show ?thesis using Suc.prems more last_one u
      by (cases "usable env raw_text content") (auto split: if_splits)
  qed
qed auto

text \<open>
  C6: Nothing is sent past the guards. A fetch sends only its own request, at most once more than the
  profile has retries, and only if the service is configured and the host of the address, where it has
  one, is no blocked address itself, resolves to none, is not on the blocklist of the profile and is on
  its allowlist if there is one. A page that is returned is never blank.
\<close>

theorem nothing_is_sent_past_the_guards:
  assumes "browse_fetch env sent url profile raw_text = (sent', r)"
  shows "\<exists>m. sent' = sent @ replicate m (request_for env url profile) \<and> int m \<le> max 0 (bp_retry_count profile + 1) \<and>
    (m > 0 \<longrightarrow> be_service_url env \<noteq> [] \<and>
       (\<exists>u. urlparse (ul_bracket_ok (be_lib env)) url = Inr u \<and>
         (\<forall>h. url_hostname u = Some h \<longrightarrow> \<not> is_blocked_literal_ip_host env h \<and>
            hostname_resolves_to_blocked_ip env (length sent) h = Inr False \<and> \<not> hostname_matches_list h (bp_blocklist profile) \<and>
            (bp_allowlist profile \<noteq> [] \<longrightarrow> hostname_matches_list h (bp_allowlist profile))))) \<and>
    (\<forall>c. r = Inr (Some (Success c)) \<longrightarrow> m > 0 \<and> py_strip c \<noteq> [])"
proof (cases "be_service_url env \<noteq> [] \<and> guard env (length sent) url profile = Inr None")
  case True
  then obtain r' where a: "attempts env (request_for env url profile) raw_text (nat (bp_retry_count profile + 1)) sent None = (sent', r')" "r = Inr r'"
    using assms by (auto simp: browse_fetch_def split: prod.splits)
  obtain u where u: "urlparse (ul_bracket_ok (be_lib env)) url = Inr u" using True by (auto simp: guard_def split: sum.splits)
  have g: "\<not> is_blocked_literal_ip_host env h \<and> hostname_resolves_to_blocked_ip env (length sent) h = Inr False \<and>
      \<not> hostname_matches_list h (bp_blocklist profile) \<and> (bp_allowlist profile \<noteq> [] \<longrightarrow> hostname_matches_list h (bp_allowlist profile))"
    if "url_hostname u = Some h" for h
    using True u that url_hostname_nonempty[OF that]
    by (auto simp: guard_def hostname_matches_list_def split: if_splits sum.splits bool.splits)
  obtain m where "m \<le> nat (bp_retry_count profile + 1)" "sent' = sent @ replicate m (request_for env url profile)"
    "\<forall>c. r' = Some (Success c) \<longrightarrow> m > 0 \<and> py_strip c \<noteq> []"
    using attempts_sent[OF a(1)] by auto
  then show ?thesis using True u g a(2) by (intro exI[of _ m]) auto
next
  case False
  then have "sent' = sent" "\<forall>c. r \<noteq> Inr (Some (Success c))"
    using assms by (auto simp: browse_fetch_def split: if_splits sum.splits option.splits)
  then show ?thesis by (intro exI[of _ 0]) simp
qed

theorem nothing_is_sent_past_the_guards_witness:
  "\<exists>sent. browse_fetch browsing_example [] ''https://a.org/'' DIRECT_FETCH_PROFILE False = (sent, Inr (Some (Success ''a''))) \<and> length sent = 1 \<and>
     hostname_resolves_to_blocked_ip browsing_example 0 ''a.org'' = Inr False"
proof -
  have h: "browse_fetch browsing_example [] ''https://a.org/'' DIRECT_FETCH_PROFILE False =
      ([request_for browsing_example ''https://a.org/'' DIRECT_FETCH_PROFILE], Inr (Some (Success ''a'')))" by code_simp
  obtain u where u: "urlparse (ul_bracket_ok (be_lib browsing_example)) ''https://a.org/'' = Inr u" "url_hostname u = Some ''a.org''"
    by (rule that[of "\<lparr>up_scheme = ''https'', up_netloc = ''a.org''\<rparr>"]) code_simp+
  show ?thesis using nothing_is_sent_past_the_guards[OF h] h u by auto
qed

section \<open>What a fetch leaves in the state\<close>

lemma browse_fetch_sent:
  assumes "browse_fetch env sent url profile raw_text = (sent', r)"
  shows "\<exists>new. sent' = sent @ new \<and> (\<forall>q \<in> set new. sr_target q = url)"
proof (cases "be_service_url env \<noteq> [] \<and> guard env (length sent) url profile = Inr None")
  case True
  then obtain r' where a: "attempts env (request_for env url profile) raw_text (nat (bp_retry_count profile + 1)) sent None = (sent', r')"
    using assms by (auto simp: browse_fetch_def split: prod.splits)
  then show ?thesis using attempts_sent[OF a] by (auto simp: request_for_def Let_def)
next
  case False
  then show ?thesis using assms by (auto simp: browse_fetch_def split: if_splits sum.splits option.splits)
qed

text \<open>A step for an address asks only for it and for the rules of its origin, and forgets no rules.\<close>

definition serves :: "browse_env \<Rightarrow> string \<Rightarrow> service_request \<Rightarrow> bool" where
  "serves env url q \<longleftrightarrow> sr_target q = url \<or> (\<exists>orig. origin_key env url = Some orig \<and> sr_target q = robots_url orig)"

definition extends :: "browse_env \<Rightarrow> string \<Rightarrow> web \<Rightarrow> web \<Rightarrow> bool" where
  "extends env url w w' \<longleftrightarrow>
     map_of (web_robots w) \<subseteq>\<^sub>m map_of (web_robots w') \<and> (\<exists>new. web_log w' = web_log w @ new \<and> (\<forall>q \<in> set new. serves env url q))"

lemma web_extends_refl: "extends env url w w"
  by (simp add: extends_def)

lemma web_extends_trans: "extends env url w1 w2 \<Longrightarrow> extends env url w2 w3 \<Longrightarrow> extends env url w1 w3"
  unfolding extends_def by (auto intro: map_le_trans)

definition same_times :: "web \<Rightarrow> web \<Rightarrow> bool" where
  "same_times w w' \<longleftrightarrow> web_next_ok w' = web_next_ok w \<and> web_clock w' = web_clock w \<and> web_spaced w' = web_spaced w"

lemma same_times_trans: "same_times w1 w2 \<Longrightarrow> same_times w2 w3 \<Longrightarrow> same_times w1 w3"
  by (simp add: same_times_def)

definition robots_allow :: "browse_env \<Rightarrow> string \<Rightarrow> (origin \<times> string list option) list \<Rightarrow> string \<Rightarrow> bool" where
  "robots_allow env user_agent robots url \<longleftrightarrow>
     (\<exists>orig p. origin_key env url = Some orig \<and> map_of robots orig = Some p \<and>
        (case p of None \<Rightarrow> True | Some ls \<Rightarrow> be_can_fetch env ls user_agent url))"

lemma robots_allow_mono:
  "robots_allow env ua robots url \<Longrightarrow> map_of robots \<subseteq>\<^sub>m map_of robots' \<Longrightarrow> robots_allow env ua robots' url"
  unfolding robots_allow_def map_le_def by (metis domI)

lemma parser_for_step:
  assumes "parser_for env orig profile w = (w', r)" and "origin_key env url = Some orig"
  shows "extends env url w w' \<and> same_times w w' \<and> (\<forall>p. r = Inr p \<longrightarrow> map_of (web_robots w') orig = Some p)"
proof (cases "map_of (web_robots w) orig")
  case (Some p)
  then show ?thesis using assms by (auto simp: parser_for_def web_extends_refl same_times_def)
next
  case None
  obtain sent f where f: "browse_fetch env (web_log w) (robots_url orig) profile True = (sent, f)" by fastforce
  obtain new where new: "sent = web_log w @ new" "\<forall>q \<in> set new. sr_target q = robots_url orig" using browse_fetch_sent[OF f] by blast
  then have "\<forall>q \<in> set new. serves env url q" using assms(2) by (simp add: serves_def)
  then show ?thesis using assms(1) None f new(1)
    by (auto simp: parser_for_def extends_def same_times_def map_le_def update_conv' Let_def split: sum.splits option.splits)
qed

lemma is_allowed_step:
  assumes "is_allowed env ua url profile w = (w', r)"
  shows "extends env url w w' \<and> same_times w w' \<and> (r = Inr True \<longrightarrow> robots_allow env ua (web_robots w') url)"
proof (cases "origin_key env url")
  case None
  then show ?thesis using assms by (auto simp: is_allowed_def web_extends_refl same_times_def)
next
  case (Some orig)
  obtain p where p: "parser_for env orig profile w = (w', p)"
    using assms Some by (auto simp: is_allowed_def split: prod.splits sum.splits option.splits)
  show ?thesis using parser_for_step[OF p Some] assms Some p
    by (auto simp: is_allowed_def robots_allow_def split: sum.splits option.splits)
qed

lemma crawl_delay_step:
  assumes "crawl_delay env ua url profile w = (w', r)"
  shows "extends env url w w' \<and> same_times w w'"
proof (cases "origin_key env url")
  case None
  then show ?thesis using assms by (simp add: crawl_delay_def web_extends_refl same_times_def)
next
  case (Some orig)
  obtain p where p: "parser_for env orig profile w = (w', p)"
    using assms Some by (auto simp: crawl_delay_def split: prod.splits sum.splits option.splits)
  show ?thesis using parser_for_step[OF p Some] by simp
qed

lemma plain_fetch_step:
  assumes "plain_fetch env url profile w = (w', out)"
  shows "extends env url w w' \<and> same_times w w' \<and> web_robots w' = web_robots w \<and> out \<noteq> By_robots"
proof -
  obtain sent r where f: "browse_fetch env (web_log w) url profile False = (sent, r)" by fastforce
  obtain new where "sent = web_log w @ new" "\<forall>q \<in> set new. sr_target q = url" using browse_fetch_sent[OF f] by blast
  then show ?thesis using assms f by (auto simp: plain_fetch_def extends_def same_times_def serves_def split: sum.splits option.splits)
qed

text \<open>
  The times of the fetches made under a declared delay: none exceeds what is accepted, a later fetch of
  an origin comes no earlier than the delay after an earlier one, and what is remembered of the origin
  is not before that.
\<close>

definition spacing :: "research_config \<Rightarrow> web \<Rightarrow> bool" where
  "spacing cfg w \<longleftrightarrow>
     sorted_wrt (\<lambda>(o1, t1, d1) (o2, t2, d2). o1 = o2 \<longrightarrow> t1 + d1 \<le> t2) (web_spaced w) \<and>
     (\<forall>(orig, t, d) \<in> set (web_spaced w). d \<le> rc_max_crawl_delay cfg \<and> t + d \<le> max (next_ok orig w) (web_clock w orig))"

lemma spacing_same: "spacing cfg w \<Longrightarrow> same_times w w' \<Longrightarrow> spacing cfg w'"
  by (auto simp: spacing_def same_times_def next_ok_def)

lemma spacing_later:
  assumes "spacing cfg w" and "web_spaced w' = web_spaced w" and "web_next_ok w' = web_next_ok w" and "\<And>orig. web_clock w orig \<le> web_clock w' orig"
  shows "spacing cfg w'"
proof -
  have "t + d \<le> max (next_ok orig w') (web_clock w' orig)" if "(orig, t, d) \<in> set (web_spaced w)" for orig t d
    using assms(1,3) assms(4)[of orig] that by (fastforce simp: spacing_def next_ok_def)
  then show ?thesis using assms(1,2) by (auto simp: spacing_def)
qed

lemma spacing_add:
  assumes "spacing cfg w" and "web_spaced w' = web_spaced w @ [(orig, start, delay)]" and "delay \<le> rc_max_crawl_delay cfg"
    and "max (next_ok orig w) (web_clock w orig) \<le> start" and "next_ok orig w' = start + delay" and "web_clock w' orig = start"
    and "\<And>x. x \<noteq> orig \<Longrightarrow> next_ok x w' = next_ok x w \<and> web_clock w' x = web_clock w x"
  shows "spacing cfg w'"
proof -
  have old: "t + d \<le> start" if "(orig, t, d) \<in> set (web_spaced w)" for t d
    using assms(1,4) that by (fastforce simp: spacing_def)
  have "d \<le> rc_max_crawl_delay cfg \<and> t + d \<le> max (next_ok x w') (web_clock w' x)" if "(x, t, d) \<in> set (web_spaced w')" for x t d
  proof (cases "x = orig")
    case True
    then show ?thesis using that assms(1,2,3,5,6) old by (fastforce simp: spacing_def)
  next
    case False
    then show ?thesis using that assms(1,2) assms(7)[OF False] by (fastforce simp: spacing_def)
  qed
  moreover have "sorted_wrt (\<lambda>(o1, t1, d1) (o2, t2, d2). o1 = o2 \<longrightarrow> t1 + d1 \<le> t2) (web_spaced w')"
    using assms(1,2) old by (auto simp: spacing_def sorted_wrt_append)
  ultimately show ?thesis by (auto simp: spacing_def)
qed

lemma spaced_fetch_cases:
  assumes "spaced_fetch env deadline orig delay url profile w = (w', out)"
  obtains (refused) t n where "w' = w\<lparr>web_clock := (web_clock w)(orig := t), web_ticks := n\<rparr>" "out = By_robots"
      "(\<forall>k. 0 \<le> be_lapse env orig k) \<longrightarrow> web_clock w orig \<le> t"
  | (fetched) start n where "plain_fetch env url profile (w\<lparr>web_clock := (web_clock w)(orig := start), web_ticks := n,
        web_next_ok := AList.update orig (start + delay) (web_next_ok w), web_spaced := web_spaced w @ [(orig, start, delay)]\<rparr>) = (w', out)"
      "(\<forall>k. 0 \<le> be_lapse env orig k) \<longrightarrow> max (next_ok orig w) (web_clock w orig) \<le> start"
proof -
  let ?l = "\<lambda>k. be_lapse env orig (web_ticks w orig + k)"
  let ?now = "web_clock w orig + ?l 0"
  let ?wait = "next_ok orig w - ?now"
  consider (go) "?wait \<le> 0" | (no) "?wait > 0" "deadline \<le> ?now + ?l 1 + ?wait" | (sleep) "?wait > 0" "\<not> deadline \<le> ?now + ?l 1 + ?wait"
    by linarith
  then show thesis
  proof cases
    case go
    have "(\<forall>k. 0 \<le> be_lapse env orig k) \<longrightarrow> max (next_ok orig w) (web_clock w orig) \<le> ?now + ?l 1" using go by (auto simp: add_increasing2)
    then show thesis using assms go by (intro fetched[where start = "?now + ?l 1"]) (simp_all add: spaced_fetch_def read_clock_def Let_def)
  next
    case no
    have "(\<forall>k. 0 \<le> be_lapse env orig k) \<longrightarrow> web_clock w orig \<le> ?now + ?l 1" by simp
    then show thesis using assms no by (intro refused[where t = "?now + ?l 1"]) (auto simp: spaced_fetch_def read_clock_def Let_def)
  next
    case sleep
    have "(\<forall>k. 0 \<le> be_lapse env orig k) \<longrightarrow> max (next_ok orig w) (web_clock w orig) \<le> ?now + ?l 1 + ?wait + ?l 2"
    proof
      assume "\<forall>k. 0 \<le> be_lapse env orig k"
      then have "0 \<le> ?l 0" "0 \<le> ?l 1" "0 \<le> ?l 2" by blast+
      then show "max (next_ok orig w) (web_clock w orig) \<le> ?now + ?l 1 + ?wait + ?l 2" using sleep(1) unfolding max.bounded_iff by linarith
    qed
    then show thesis using assms sleep by (intro fetched[where start = "?now + ?l 1 + ?wait + ?l 2"]) (simp_all add: spaced_fetch_def read_clock_def Let_def)
  qed
qed

lemma extends_same: "web_log w' = web_log w \<Longrightarrow> web_robots w' = web_robots w \<Longrightarrow> extends env url w w'"
  by (simp add: extends_def)

lemma spaced_fetch_step:
  assumes "spaced_fetch env deadline orig delay url profile w = (w', out)"
  shows "extends env url w w' \<and> web_robots w' = web_robots w"
  using assms
proof (cases rule: spaced_fetch_cases)
  case (refused t n)
  then show ?thesis by (simp add: extends_same)
next
  case (fetched start n)
  note p = plain_fetch_step[OF fetched(1)]
  have "extends env url w w'" by (rule web_extends_trans[OF extends_same p[THEN conjunct1]]) simp_all
  then show ?thesis using p by simp
qed

lemma spaced_fetch_spacing:
  assumes "spaced_fetch env deadline orig delay url profile w = (w', out)" and "\<And>k. 0 \<le> be_lapse env orig k"
    and "delay \<le> rc_max_crawl_delay cfg" and "spacing cfg w"
  shows "spacing cfg w'"
  using assms(1)
proof (cases rule: spaced_fetch_cases)
  case (refused t n)
  then show ?thesis using assms(2) by (intro spacing_later[OF assms(4)]) auto
next
  case (fetched start n)
  have "spacing cfg (w\<lparr>web_clock := (web_clock w)(orig := start), web_ticks := n,
      web_next_ok := AList.update orig (start + delay) (web_next_ok w), web_spaced := web_spaced w @ [(orig, start, delay)]\<rparr>)"
    by (rule spacing_add[OF assms(4), of _ orig start delay]) (use fetched(2) assms(2,3) in \<open>auto simp: next_ok_def update_conv'\<close>)
  then show ?thesis using plain_fetch_step[OF fetched(1)] spacing_same by blast
qed

lemma gated_fetch_step:
  assumes "gated_fetch env cfg deadline profile url w = (w', out)"
  shows "extends env url w w' \<and> ((\<forall>orig k. 0 \<le> be_lapse env orig k) \<longrightarrow> spacing cfg w \<longrightarrow> spacing cfg w') \<and>
    (rc_respect_robots cfg \<longrightarrow> (\<forall>f. out = Fetched f \<longrightarrow> robots_allow env (rc_user_agent cfg) (web_robots w') url))"
proof (cases "rc_respect_robots cfg")
  case False
  then show ?thesis using assms plain_fetch_step[of env url profile w w' out] spacing_same by (auto simp: gated_fetch_def)
next
  case True
  obtain w1 a where a: "is_allowed env (rc_user_agent cfg) url profile w = (w1, a)" by fastforce
  note s1 = is_allowed_step[OF a]
  show ?thesis
  proof (cases "a = Inr True")
    case False
    then have "w' = w1" "\<forall>f. out \<noteq> Fetched f" using assms True a by (auto simp: gated_fetch_def split: sum.splits bool.splits)
    then show ?thesis using s1 spacing_same by blast
  next
    case allowed: True
    obtain w2 d where d: "crawl_delay env (rc_user_agent cfg) url profile w1 = (w2, d)" by fastforce
    note s2 = crawl_delay_step[OF d]
    have e: "extends env url w w2" "same_times w w2" using s1 s2 web_extends_trans same_times_trans by blast+
    have al: "robots_allow env (rc_user_agent cfg) (web_robots w3) url" if "web_robots w3 = web_robots w2" for w3
      using that s1 s2 allowed robots_allow_mono unfolding extends_def by metis
    consider (stop) "w' = w2" "\<forall>f. out \<noteq> Fetched f" | (plain) "plain_fetch env url profile w2 = (w', out)"
      | (spaced) delay orig where "delay \<le> rc_max_crawl_delay cfg" "spaced_fetch env deadline orig delay url profile w2 = (w', out)"
      using assms True a allowed d by (auto simp: gated_fetch_def not_less split: sum.splits option.splits if_splits)
    then show ?thesis
    proof cases
      case stop
      then show ?thesis using e spacing_same by blast
    next
      case plain
      then show ?thesis using plain_fetch_step[OF plain] e al web_extends_trans same_times_trans spacing_same by metis
    next
      case spaced
      have "(\<forall>orig k. 0 \<le> be_lapse env orig k) \<longrightarrow> spacing cfg w \<longrightarrow> spacing cfg w'"
        using spaced_fetch_spacing[OF spaced(2) _ spaced(1)] spacing_same[OF _ e(2)] by blast
      then show ?thesis using spaced_fetch_step[OF spaced(2)] e al web_extends_trans by blast
    qed
  qed
qed

section \<open>What a batch does\<close>

definition extends_for :: "browse_env \<Rightarrow> string set \<Rightarrow> web \<Rightarrow> web \<Rightarrow> bool" where
  "extends_for env urls w w' \<longleftrightarrow>
     map_of (web_robots w) \<subseteq>\<^sub>m map_of (web_robots w') \<and> (\<exists>new. web_log w' = web_log w @ new \<and> (\<forall>q \<in> set new. \<exists>url \<in> urls. serves env url q))"

lemma extends_for_mono:
  assumes "extends_for env urls w w'" and "urls \<subseteq> urls'"
  shows "extends_for env urls' w w'"
proof -
  obtain new where n: "web_log w' = web_log w @ new" "\<forall>q \<in> set new. \<exists>url \<in> urls. serves env url q"
    using assms(1) unfolding extends_for_def by blast
  then have "\<forall>q \<in> set new. \<exists>url \<in> urls'. serves env url q" using assms(2) by blast
  then show ?thesis using assms(1) n(1) unfolding extends_for_def by blast
qed

lemma run_coroutines_step:
  assumes "run_coroutines env cfg deadline profile urls is w = (w', outs)"
  shows "extends_for env ((!) urls ` set is) w w' \<and> map fst outs = is \<and>
    ((\<forall>orig k. 0 \<le> be_lapse env orig k) \<longrightarrow> spacing cfg w \<longrightarrow> spacing cfg w') \<and>
    (rc_respect_robots cfg \<longrightarrow> (\<forall>i f. (i, Fetched f) \<in> set outs \<longrightarrow> robots_allow env (rc_user_agent cfg) (web_robots w') (urls ! i)))"
  using assms
proof (induction "is" arbitrary: w w' outs)
  case Nil
  then show ?case by (auto simp: extends_for_def)
next
  case (Cons i "is")
  obtain w1 out where g: "gated_fetch env cfg deadline profile (urls ! i) w = (w1, out)" by fastforce
  obtain outs' where r: "run_coroutines env cfg deadline profile urls is w1 = (w', outs')" "outs = (i, out) # outs'"
    using Cons.prems g by (auto split: prod.splits)
  note s1 = gated_fetch_step[OF g] and s2 = Cons.IH[OF r(1)]
  have sub: "map_of (web_robots w1) \<subseteq>\<^sub>m map_of (web_robots w')" using s2 by (simp add: extends_for_def)
  have "extends_for env ((!) urls ` set (i # is)) w w'"
    using s1 s2 unfolding extends_def extends_for_def by (fastforce intro: map_le_trans)
  moreover have "robots_allow env (rc_user_agent cfg) (web_robots w') (urls ! j)"
    if "rc_respect_robots cfg" "(j, Fetched f) \<in> set outs" for j f
    using that s1 s2 r(2) robots_allow_mono[OF _ sub] by auto
  ultimately show ?case using s1 s2 r(2) by auto
qed

lemma batch_order_set: "set (batch_order env k n) = {0..<n}" "distinct (batch_order env k n)"
proof -
  have "set (be_order env k) = {0..<n} \<and> distinct (be_order env k)" if "sort (be_order env k) = [0..<n]"
    using that by (metis distinct_sort distinct_upt set_sort set_upt)
  then show "set (batch_order env k n) = {0..<n}" "distinct (batch_order env k n)" by (auto simp: batch_order_def)
qed

lemma one_batch_cases:
  assumes "one_batch env cfg deadline profile k st = (st', r)" and "int (length (rs_pages st)) < rc_max_pages cfg"
  obtains batch rest w where "rs_frontier st = batch @ rest" "extends_for env (fst ` set batch) (rs_web st) w"
      "(\<forall>orig k. 0 \<le> be_lapse env orig k) \<longrightarrow> spacing cfg (rs_web st) \<longrightarrow> spacing cfg w"
      "st' = st\<lparr>rs_frontier := rest, rs_web := w\<rparr>"
  | batch rest w outs where "rs_frontier st = batch @ rest" "extends_for env (fst ` set batch) (rs_web st) w"
      "(\<forall>orig k. 0 \<le> be_lapse env orig k) \<longrightarrow> spacing cfg (rs_web st) \<longrightarrow> spacing cfg w"
      "take_outcomes env cfg (zip batch outs) (st\<lparr>rs_frontier := rest, rs_web := w\<rparr>) = Inr st'"
      "length outs = length batch" "int (length (rs_pages st)) + int (length batch) \<le> rc_max_pages cfg"
      "\<forall>i < length batch. rc_respect_robots cfg \<longrightarrow> (\<forall>f. outs ! i = Fetched f \<longrightarrow> robots_allow env (rc_user_agent cfg) (web_robots w) (fst (batch ! i)))"
proof -
  define n where "n = nat (min (max 1 (rc_concurrency cfg)) (rc_max_pages cfg - int (length (rs_pages st))))"
  define batch where "batch = take n (rs_frontier st)"
  define rest where "rest = drop (length batch) (rs_frontier st)"
  define order where "order = batch_order env k (length batch)"
  have f: "rs_frontier st = batch @ rest" by (simp add: batch_def rest_def min_def)
  have size: "int (length (rs_pages st)) + int (length batch) \<le> rc_max_pages cfg" using assms(2) by (simp add: batch_def n_def)
  have urls: "(!) (map fst batch) ` set is \<subseteq> fst ` set batch" if "set is \<subseteq> {0..<length batch}" for "is"
    using that by (auto simp: subset_eq)
  have ext: "extends_for env (fst ` set batch) w1 w2" if "extends_for env ((!) (map fst batch) ` set is) w1 w2" "set is \<subseteq> {0..<length batch}" for w1 w2 "is"
    by (rule extends_for_mono[OF that(1) urls[OF that(2)]])
  show thesis
  proof (cases "be_cancelled env k")
    case (Some m)
    obtain w outs where run: "run_coroutines env cfg deadline profile (map fst batch) (take m order) (rs_web st) = (w, outs)" by fastforce
    have "set (take m order) \<subseteq> {0..<length batch}" using set_take_subset[of m order] by (simp add: order_def batch_order_set)
    moreover have "st' = st\<lparr>rs_frontier := rest, rs_web := w\<rparr>"
      using assms(1) Some run by (simp add: one_batch_def Let_def n_def batch_def rest_def order_def)
    ultimately show thesis using that(1)[OF f] run_coroutines_step[OF run] ext by blast
  next
    case None
    obtain w outs where run: "run_coroutines env cfg deadline profile (map fst batch) order (rs_web st) = (w, outs)" by fastforce
    note s = run_coroutines_step[OF run]
    have ord: "set order \<subseteq> {0..<length batch}" by (simp add: order_def batch_order_set)
    let ?outs = "map (\<lambda>i. the (map_of outs i)) [0..<length batch]"
    have res: "(case take_outcomes env cfg (zip batch ?outs) (st\<lparr>rs_frontier := rest, rs_web := w\<rparr>) of
        Inl e \<Rightarrow> (st\<lparr>rs_frontier := rest, rs_web := w\<rparr>, Inl e) | Inr st' \<Rightarrow> (st', Inr False)) = (st', r)"
      using assms(1) None run
      unfolding one_batch_def Let_def n_def[symmetric] batch_def[symmetric] rest_def[symmetric] order_def[symmetric] by simp
    have "(i, ?outs ! i) \<in> set outs" if "i < length batch" for i
    proof -
      have "i \<in> fst ` set outs" using that s by (metis atLeastLessThan_iff batch_order_set(1) image_set le0 order_def)
      then obtain x where "map_of outs i = Some x" by (metis map_of_eq_None_iff not_None_eq)
      then show ?thesis using that by (auto dest: map_of_SomeD)
    qed
    then have "\<forall>i < length batch. rc_respect_robots cfg \<longrightarrow> (\<forall>f. ?outs ! i = Fetched f \<longrightarrow> robots_allow env (rc_user_agent cfg) (web_robots w) (fst (batch ! i)))"
      using s by (metis nth_map)
    moreover have "extends_for env (fst ` set batch) (rs_web st) w" using ext s ord by blast
    ultimately show thesis using that(1)[OF f] that(2)[OF f _ _ _ _ size, of w ?outs] s res
      by (auto split: sum.splits)
  qed
qed

section \<open>Where a research goes\<close>

text \<open>An address reached from the results of the search, going from page to page of the same site.\<close>

inductive reached :: "(string \<Rightarrow> bool) \<Rightarrow> string list \<Rightarrow> string \<Rightarrow> nat \<Rightarrow> bool" for bracket_ok seeds where
  seed: "url \<in> set seeds \<Longrightarrow> reached bracket_ok seeds url 0"
| hop: "reached bracket_ok seeds url depth \<Longrightarrow> is_same_site bracket_ok url link \<Longrightarrow> reached bracket_ok seeds link (Suc depth)"

definition eligible :: "browse_env \<Rightarrow> research_config \<Rightarrow> string list \<Rightarrow> string \<Rightarrow> nat \<Rightarrow> bool" where
  "eligible env cfg seeds url depth \<longleftrightarrow> reached (ul_bracket_ok (be_lib env)) seeds url depth \<and> int depth \<le> max 0 (rc_max_depth cfg)"

definition page_ok :: "browse_env \<Rightarrow> research_config \<Rightarrow> string list \<Rightarrow> web \<Rightarrow> page \<Rightarrow> bool" where
  "page_ok env cfg seeds w p \<longleftrightarrow> eligible env cfg seeds (pg_url p) (pg_depth p) \<and>
     (rc_respect_robots cfg \<longrightarrow> robots_allow env (rc_user_agent cfg) (web_robots w) (pg_url p))"

text \<open>What holds while some addresses of a batch are still to be looked at.\<close>

definition on_course :: "browse_env \<Rightarrow> research_config \<Rightarrow> string list \<Rightarrow> (string \<times> nat) list \<Rightarrow> research \<Rightarrow> bool" where
  "on_course env cfg seeds pending st \<longleftrightarrow>
     (\<forall>(url, depth) \<in> set (pending @ rs_frontier st). eligible env cfg seeds url depth) \<and>
     (\<forall>p \<in> set (rs_pages st). page_ok env cfg seeds (rs_web st) p) \<and>
     int (length (rs_pages st)) + int (length pending) \<le> max 0 (rc_max_pages cfg)"

definition no_repeats :: "(string \<times> nat) list \<Rightarrow> research \<Rightarrow> bool" where
  "no_repeats pending st \<longleftrightarrow>
     distinct (map fst pending @ map fst (rs_frontier st) @ map pg_url (rs_pages st)) \<and>
     set (map fst pending @ map fst (rs_frontier st) @ map pg_url (rs_pages st)) \<subseteq> set (rs_queued st)"

lemma follow_link_on_course:
  assumes "on_course env cfg seeds pending st" and "eligible env cfg seeds url depth" and "int depth + 1 \<le> rc_max_depth cfg"
  shows "on_course env cfg seeds pending (follow_link env url depth link st)"
  using assms by (auto simp: on_course_def follow_link_def eligible_def intro: hop)

lemma follow_links_on_course:
  "on_course env cfg seeds pending st \<Longrightarrow> eligible env cfg seeds url depth \<Longrightarrow> int depth + 1 \<le> rc_max_depth cfg \<Longrightarrow>
    on_course env cfg seeds pending (fold (follow_link env url depth) links st)"
  by (induction links arbitrary: st) (simp_all add: follow_link_on_course)

lemma follow_links_web: "rs_web (fold (follow_link env url depth) links st) = rs_web st"
  by (induction links arbitrary: st) (simp_all add: follow_link_def)

lemma follow_links_no_repeats: "no_repeats pending st \<Longrightarrow> no_repeats pending (fold (follow_link env url depth) links st)"
proof (induction links arbitrary: st)
  case (Cons l ls)
  have "no_repeats pending (follow_link env url depth l st)" using Cons.prems by (auto simp: no_repeats_def follow_link_def)
  then show ?case using Cons.IH by simp
qed simp

lemma take_outcome_on_course:
  assumes "take_outcome env cfg target out st = Inr st'" and "on_course env cfg seeds (target # pending) st"
    and "rc_respect_robots cfg \<longrightarrow> (\<forall>f. out = Fetched f \<longrightarrow> robots_allow env (rc_user_agent cfg) (web_robots (rs_web st)) (fst target))"
  shows "on_course env cfg seeds pending st' \<and> rs_web st' = rs_web st"
proof -
  have el: "eligible env cfg seeds (fst target) (snd target)" using assms(2) by (auto simp: on_course_def)
  have page: "on_course env cfg seeds pending (st\<lparr>rs_pages := rs_pages st @ [page_of target p]\<rparr>)" if "out = Fetched f" for p f
    using assms(2,3) el that by (auto simp: on_course_def page_ok_def page_of_def)
  show ?thesis using assms(1)
  proof (cases rule: take_outcome_cases)
    case (read content p)
    then show ?thesis using follow_links_on_course[OF page el] follow_links_web by auto
  next
    case (last content p)
    then show ?thesis using page by auto
  qed (use assms(2) in \<open>auto simp: on_course_def\<close>)
qed

lemma take_outcome_no_repeats:
  assumes "take_outcome env cfg target out st = Inr st'" and "no_repeats (target # pending) st"
  shows "no_repeats pending st'"
proof -
  have page: "no_repeats pending (st\<lparr>rs_pages := rs_pages st @ [page_of target p]\<rparr>)" for p
    using assms(2) by (auto simp: no_repeats_def page_of_def)
  show ?thesis using assms(1)
  proof (cases rule: take_outcome_cases)
    case (read content p)
    then show ?thesis using follow_links_no_repeats[OF page] by auto
  next
    case (last content p)
    then show ?thesis using page by auto
  qed (use assms(2) in \<open>auto simp: no_repeats_def\<close>)
qed

lemma take_outcomes_on_course:
  assumes "take_outcomes env cfg (zip batch outs) st = Inr st'" and "length outs = length batch" and "on_course env cfg seeds batch st"
    and "\<forall>i < length batch. rc_respect_robots cfg \<longrightarrow> (\<forall>f. outs ! i = Fetched f \<longrightarrow> robots_allow env (rc_user_agent cfg) (web_robots (rs_web st)) (fst (batch ! i)))"
  shows "on_course env cfg seeds [] st' \<and> rs_web st' = rs_web st"
  using assms
proof (induction batch arbitrary: outs st)
  case (Cons t ts)
  then obtain x xs where outs: "outs = x # xs" by (cases outs) auto
  obtain st1 where st1: "take_outcome env cfg t x st = Inr st1" "take_outcomes env cfg (zip ts xs) st1 = Inr st'"
    using Cons.prems(1) outs by (auto split: sum.splits)
  have "on_course env cfg seeds ts st1 \<and> rs_web st1 = rs_web st"
    using take_outcome_on_course[OF st1(1) Cons.prems(3)] Cons.prems(4) outs by auto
  moreover have "\<forall>i < length ts. rc_respect_robots cfg \<longrightarrow> (\<forall>f. xs ! i = Fetched f \<longrightarrow> robots_allow env (rc_user_agent cfg) (web_robots (rs_web st)) (fst (ts ! i)))"
    using Cons.prems(4) outs by auto
  ultimately show ?case using Cons.IH[OF st1(2)] Cons.prems(2) outs by simp
qed simp

lemma take_outcomes_no_repeats:
  assumes "take_outcomes env cfg (zip batch outs) st = Inr st'" and "length outs = length batch" and "no_repeats batch st"
  shows "no_repeats [] st'"
  using assms
proof (induction batch arbitrary: outs st)
  case (Cons t ts)
  then obtain x xs where outs: "outs = x # xs" by (cases outs) auto
  obtain st1 where "take_outcome env cfg t x st = Inr st1" "take_outcomes env cfg (zip ts xs) st1 = Inr st'"
    using Cons.prems(1) outs by (auto split: sum.splits)
  then show ?case using Cons.IH[of xs st1] take_outcome_no_repeats Cons.prems(2,3) outs by auto
qed simp

definition asked_for :: "browse_env \<Rightarrow> research_config \<Rightarrow> string list \<Rightarrow> service_request list \<Rightarrow> research \<Rightarrow> bool" where
  "asked_for env cfg seeds sent st \<longleftrightarrow>
     (\<exists>new. web_log (rs_web st) = sent @ new \<and> (\<forall>q \<in> set new. \<exists>url depth. eligible env cfg seeds url depth \<and> serves env url q))"

lemma batch_on_course:
  assumes "one_batch env cfg deadline profile k st = (st', r)" and "int (length (rs_pages st)) < rc_max_pages cfg"
    and "on_course env cfg seeds [] st"
  shows "on_course env cfg seeds [] st'"
proof -
  have page: "page_ok env cfg seeds w p" if "p \<in> set (rs_pages st)" "extends_for env U (rs_web st) w" for p w U
    using that assms(3) robots_allow_mono unfolding on_course_def page_ok_def extends_for_def by blast
  from assms(1,2) show ?thesis
  proof (cases rule: one_batch_cases)
    case (1 batch rest w)
    then show ?thesis using assms(3) page[OF _ 1(2)] by (auto simp: on_course_def)
  next
    case (2 batch rest w outs)
    have "on_course env cfg seeds batch (st\<lparr>rs_frontier := rest, rs_web := w\<rparr>)"
      using 2(1,6) assms(3) page[OF _ 2(2)] by (auto simp: on_course_def)
    then show ?thesis using take_outcomes_on_course[OF 2(4,5)] 2(7) by simp
  qed
qed

lemma take_outcomes_web: "take_outcomes env cfg pairs st = Inr st' \<Longrightarrow> rs_web st' = rs_web st"
proof (induction env cfg pairs st rule: take_outcomes.induct)
  case (2 env cfg target out rest st)
  then obtain st1 where st1: "take_outcome env cfg target out st = Inr st1" "take_outcomes env cfg rest st1 = Inr st'"
    by (auto split: sum.splits)
  have "rs_web st1 = rs_web st" using st1(1) by (cases rule: take_outcome_cases) (auto simp: follow_links_web)
  then show ?case using 2(1)[OF st1] by simp
qed simp

lemma batch_web:
  assumes "one_batch env cfg deadline profile k st = (st', r)" and "int (length (rs_pages st)) < rc_max_pages cfg"
  shows "extends_for env (fst ` set (rs_frontier st)) (rs_web st) (rs_web st') \<and>
    ((\<forall>orig k. 0 \<le> be_lapse env orig k) \<longrightarrow> spacing cfg (rs_web st) \<longrightarrow> spacing cfg (rs_web st'))"
  using assms
proof (cases rule: one_batch_cases)
  case (1 batch rest w)
  then show ?thesis using extends_for_mono[OF 1(2), of "fst ` set (rs_frontier st)"] by auto
next
  case (2 batch rest w outs)
  then show ?thesis using extends_for_mono[OF 2(2), of "fst ` set (rs_frontier st)"] take_outcomes_web[OF 2(4)] by auto
qed

lemma batch_asked_for:
  assumes "one_batch env cfg deadline profile k st = (st', r)" and "int (length (rs_pages st)) < rc_max_pages cfg"
    and "on_course env cfg seeds [] st" and "asked_for env cfg seeds sent st"
  shows "asked_for env cfg seeds sent st'"
proof -
  obtain new where new: "web_log (rs_web st') = web_log (rs_web st) @ new" "\<forall>q \<in> set new. \<exists>url \<in> fst ` set (rs_frontier st). serves env url q"
    using batch_web[OF assms(1,2)] unfolding extends_for_def by blast
  have "\<exists>url depth. eligible env cfg seeds url depth \<and> serves env url q" if q: "q \<in> set new" for q
  proof -
    obtain url where "url \<in> fst ` set (rs_frontier st)" "serves env url q" using new(2) q by blast
    then show ?thesis using assms(3) unfolding on_course_def by force
  qed
  moreover obtain old where "web_log (rs_web st) = sent @ old" "\<forall>q \<in> set old. \<exists>url depth. eligible env cfg seeds url depth \<and> serves env url q"
    using assms(4) unfolding asked_for_def by blast
  ultimately show ?thesis unfolding asked_for_def using new(1) by (intro exI[of _ "old @ new"]) auto
qed

lemma batch_no_repeats:
  assumes "one_batch env cfg deadline profile k st = (st', r)" and "int (length (rs_pages st)) < rc_max_pages cfg" and "no_repeats [] st"
  shows "no_repeats [] st'"
  using assms(1,2)
proof (cases rule: one_batch_cases)
  case (1 batch rest w)
  then show ?thesis using assms(3) by (auto simp: no_repeats_def)
next
  case (2 batch rest w outs)
  have "no_repeats batch (st\<lparr>rs_frontier := rest, rs_web := w\<rparr>)" using 2(1) assms(3) by (auto simp: no_repeats_def)
  then show ?thesis by (rule take_outcomes_no_repeats[OF 2(4,5)])
qed

definition found :: "browse_env \<Rightarrow> string \<Rightarrow> string list" where
  "found env query = (case be_search env query of Inl _ \<Rightarrow> [] | Inr results \<Rightarrow> map fst results)"

lemma research_run_cases:
  assumes "run_deep_research_tool_call d env cfg permissions groups user query sent = (st, ans)"
  obtains (idle) "st = initial_research env sent" "\<forall>blocks stop h b. ans \<noteq> Report blocks stop h b"
  | (ran) profile r where "has_browsing_access d user permissions groups"
      "research_loop env cfg (be_loop_time env 0 + rc_max_seconds cfg) profile 1
        ((initial_research env sent)\<lparr>rs_frontier := map (\<lambda>link. (link, 0)) (found env query), rs_queued := found env query\<rparr>) = (st, r)"
      "\<forall>blocks stop h b. ans = Report blocks stop h b \<longrightarrow>
         blocks = map (\<lambda>p. source_block_of (rc_chars_per_page cfg) (pg_url p) (pg_title p) (pg_text p)) (rs_pages st)"
proof (cases "has_browsing_access d user permissions groups")
  case False
  then show thesis using assms idle by (auto simp: run_deep_research_tool_call_def)
next
  case access: True
  show thesis
  proof (cases "\<exists>r0 rs profile. be_search env query = Inr (r0 # rs) \<and> resolve_profile ''link-follow'' (be_profiles env) = Inr profile")
    case False
    then show thesis using assms access idle
      by (auto simp: run_deep_research_tool_call_def Let_def split: sum.splits list.splits)
  next
    case True
    then obtain r0 rs profile where s: "be_search env query = Inr (r0 # rs)" "resolve_profile ''link-follow'' (be_profiles env) = Inr profile" by blast
    let ?st = "(initial_research env sent)\<lparr>rs_frontier := map (\<lambda>link. (link, 0)) (found env query), rs_queued := found env query\<rparr>"
    obtain st1 r where l: "research_loop env cfg (be_loop_time env 0 + rc_max_seconds cfg) profile 1 ?st = (st1, r)" by fastforce
    have f: "found env query = map fst (r0 # rs)" using s by (simp add: found_def)
    have "st = st1 \<and> (\<forall>blocks stop h b. ans = Report blocks stop h b \<longrightarrow>
        blocks = map (\<lambda>p. source_block_of (rc_chars_per_page cfg) (pg_url p) (pg_title p) (pg_text p)) (rs_pages st))"
      using assms access s l[unfolded f] unfolding run_deep_research_tool_call_def
      by (cases r) (auto simp: Let_def split: if_splits)
    then show thesis using ran[OF access] l by blast
  qed
qed

lemma research_invariant:
  assumes "run_deep_research_tool_call d env cfg permissions groups user query sent = (st, ans)"
  shows "on_course env cfg (found env query) [] st \<and> asked_for env cfg (found env query) sent st \<and>
    (distinct (found env query) \<longrightarrow> no_repeats [] st) \<and> ((\<forall>orig k. 0 \<le> be_lapse env orig k) \<longrightarrow> spacing cfg (rs_web st)) \<and>
    (has_browsing_access d user permissions groups \<or> web_log (rs_web st) = sent)"
  using assms
proof (cases rule: research_run_cases)
  case idle
  then show ?thesis by (simp add: on_course_def asked_for_def no_repeats_def spacing_def initial_research_def)
next
  case (ran profile r)
  let ?I = "\<lambda>st. on_course env cfg (found env query) [] st \<and> asked_for env cfg (found env query) sent st \<and>
    (distinct (found env query) \<longrightarrow> no_repeats [] st) \<and> ((\<forall>orig k. 0 \<le> be_lapse env orig k) \<longrightarrow> spacing cfg (rs_web st))"
  have "?I st"
  proof (rule research_loop_invariant[where I = ?I, OF ran(2)])
    show "?I ((initial_research env sent)\<lparr>rs_frontier := map (\<lambda>link. (link, 0)) (found env query), rs_queued := found env query\<rparr>)"
      by (auto simp: on_course_def asked_for_def no_repeats_def spacing_def initial_research_def eligible_def comp_def intro: seed)
  next
    fix k st st' r
    assume I: "?I st" and b: "one_batch env cfg (be_loop_time env 0 + rc_max_seconds cfg) profile k st = (st', r)"
      and p: "int (length (rs_pages st)) < rc_max_pages cfg"
    show "?I st'" using batch_on_course[OF b p] batch_asked_for[OF b p] batch_no_repeats[OF b p] batch_web[OF b p] I by blast
  qed
  then show ?thesis using ran(1) by simp
qed

text \<open>
  C8: A research goes only where the search or the same site leads. Every request it makes is for an
  address that the search returned, or that was reached from one by hops that each stay on the site of
  the page before and go no deeper than allowed, or for the rules of the origin of such an address; so
  is every page it reports. A user without the permission causes no request.
\<close>

theorem research_goes_only_where_it_may:
  assumes "run_deep_research_tool_call d env cfg permissions groups user query sent = (st, ans)"
  shows "(\<exists>new. web_log (rs_web st) = sent @ new \<and> (new \<noteq> [] \<longrightarrow> has_browsing_access d user permissions groups) \<and>
      (\<forall>q \<in> set new. \<exists>url depth. reached (ul_bracket_ok (be_lib env)) (found env query) url depth \<and> int depth \<le> max 0 (rc_max_depth cfg) \<and>
         (sr_target q = url \<or> (\<exists>orig. origin_key env url = Some orig \<and> sr_target q = robots_url orig)))) \<and>
    (\<forall>p \<in> set (rs_pages st). reached (ul_bracket_ok (be_lib env)) (found env query) (pg_url p) (pg_depth p))"
  using research_invariant[OF assms]
  unfolding on_course_def asked_for_def page_ok_def eligible_def serves_def by auto

theorem research_goes_only_where_it_may_witness:
  "map pg_url (rs_pages (fst research_example)) = [''https://a.org/'', ''https://a.org/b''] \<and>
   list_all (\<lambda>p. reached (ul_bracket_ok plain_lib) [''https://a.org/''] (pg_url p) (pg_depth p)) (rs_pages (fst research_example))"
proof -
  have h: "run_deep_research_tool_call Sqlite browsing_example browsing_limits [] [] \<lparr>u_id = ''u'', u_role = ''admin''\<rparr> ''q'' [] = (fst research_example, snd research_example)"
    by (simp add: research_example_def)
  show ?thesis using research_goes_only_where_it_may[OF h] example_pages by (auto simp: list_all_iff found_def browsing_example_def)
qed

text \<open>
  C17: A research stays within its budget. It ends, reads no more pages than allowed, none deeper than
  allowed and none twice if the search returned no address twice, and no text it reports is longer
  than allowed.
\<close>

theorem research_stays_in_its_budget:
  assumes "run_deep_research_tool_call d env cfg permissions groups user query sent = (st, ans)"
  shows "int (length (rs_pages st)) \<le> max 0 (rc_max_pages cfg) \<and> (\<forall>p \<in> set (rs_pages st). int (pg_depth p) \<le> max 0 (rc_max_depth cfg)) \<and>
    (distinct (found env query) \<longrightarrow> distinct (map pg_url (rs_pages st))) \<and>
    (\<forall>blocks stop hops skipped. ans = Report blocks stop hops skipped \<longrightarrow> map sb_url blocks = map pg_url (rs_pages st) \<and>
       (0 \<le> rc_chars_per_page cfg \<longrightarrow> (\<forall>b \<in> set blocks. int (length (sb_text b)) \<le> rc_chars_per_page cfg)))"
proof -
  have report: "map sb_url blocks = map pg_url (rs_pages st) \<and> (0 \<le> rc_chars_per_page cfg \<longrightarrow> (\<forall>b \<in> set blocks. int (length (sb_text b)) \<le> rc_chars_per_page cfg))"
    if "ans = Report blocks stop hops skipped" for blocks stop hops skipped
    using assms
  proof (cases rule: research_run_cases)
    case (ran profile r)
    then have "blocks = map (\<lambda>p. source_block_of (rc_chars_per_page cfg) (pg_url p) (pg_title p) (pg_text p)) (rs_pages st)" using that by blast
    then show ?thesis by (auto simp: source_block_of_def Let_def first_chars_def comp_def)
  qed (use that in simp)
  show ?thesis
    using research_invariant[OF assms] report
    unfolding on_course_def no_repeats_def page_ok_def eligible_def by auto
qed

theorem research_stays_in_its_budget_witness:
  "length (rs_pages (fst research_example)) = 2 \<and> distinct (map pg_url (rs_pages (fst research_example))) \<and>
   list_all (\<lambda>p. int (pg_depth p) \<le> 2) (rs_pages (fst research_example))"
proof -
  have h: "run_deep_research_tool_call Sqlite browsing_example browsing_limits [] [] \<lparr>u_id = ''u'', u_role = ''admin''\<rparr> ''q'' [] = (fst research_example, snd research_example)"
    by (simp add: research_example_def)
  have "length (rs_pages (fst research_example)) = 2" using arg_cong[OF example_pages, of length] by simp
  then show ?thesis using research_stays_in_its_budget[OF h] by (auto simp: list_all_iff found_def browsing_example_def browsing_limits_def)
qed



text \<open>An address in which no host is found passes every guard; the browser behind the service may find one.\<close>

theorem address_without_host_passes_the_guards:
  "guard env t ''http:///127.0.0.1/admin'' profile = Inr None"
  by code_simp

text \<open>A result that the search returns twice is read twice.\<close>

theorem repeated_result_is_read_twice:
  "map pg_url (rs_pages (fst (run_deep_research_tool_call Sqlite (browsing_example\<lparr>be_search := (\<lambda>q. Inr [(''https://a.org/'', ''A''), (''https://a.org/'', ''A'')])\<rparr>)
     (browsing_limits\<lparr>rc_max_depth := 0, rc_respect_robots := False\<rparr>) [] [] \<lparr>u_id = ''u'', u_role = ''admin''\<rparr> ''q'' []))) = [''https://a.org/'', ''https://a.org/'']"
  by code_simp

end
