(* ===== verification/Spec2Isabelle.thy ===== *)
theory Spec2Isabelle
  imports Vram_Poller Vram_Endpoints Gpu_Queue Model_Versions Chats Mod_Loader Chat_Messages Browse
begin

text \<open>
  A verification development for the backend of self.ai (\<open>src/api/selfai_ui\<close>, Python). The backend
  is a chat server for self-hosted models. Its own core logic is the sharing of one graphics card
  between inference, training, evaluation and data curation; the versioning of the models that
  training produces; the tables and permissions of a multi-user chat application; the mods that
  extend it; the translation between the two chat protocols it speaks; and the browsing tools it
  gives its models. Those are the parts modelled here. All theories are shallow embeddings: an operation of the source is a HOL
  function of the same name on explicit state, an exception is a value of a sum type, and what
  lies outside the source is an argument.

  \<^bold>\<open>How the parts interact.\<close> Consumers of the card register in the lease table and report what they
  hold. The poller relays their reports; the broker grants leases on the capacity that is left,
  asks holders to release, force-reaps silent ones through Kubernetes, and hands out exclusive
  leases. The GPU queue promotes, dispatches and settles jobs of four kinds, inside the job
  windows an administrator has set, and takes the card exclusively for curations and publishes.
  Chat requests to the local model pass the admission checks first. A finished publish becomes a
  version of a model line. Chats, folders, model lines and tools are owned by users and shared by
  access lists over groups. At the start the server discovers, checks and loads mods, which bring
  routes, socket namespaces, settings, scopes and tools. Requests come in and go out in the OpenAI
  or the Anthropic form, and answers and streams of the one are translated to the other. A model may
  ask for a web search, a page or a research over several pages; a browser service fetches them.

  \<^bold>\<open>Theories and sources.\<close>
  \<^item> \<open>Selfai_Prelude\<close>: Python idioms, JSON values, database tables (a list of rows with \<open>find_by\<close>,
    \<open>update_by\<close>, \<open>unique_by\<close>), SQL \<open>LIKE\<close> on the two databases, and the locale \<open>row_write\<close> of a row
    writer that keeps the primary key.
  \<^item> \<open>Vram_Leases\<close>: \<open>models/vram_leases.py\<close>, the lease table and the capacity arithmetic.
  \<^item> \<open>Vram_K8s\<close>: \<open>utils/vram_k8s.py\<close>, the reaper and its confirmation loop.
  \<^item> \<open>Vram_Broker\<close>: \<open>utils/vram_broker.py\<close>, grants, reclaim, escalation and exclusive leases.
  \<^item> \<open>Vram_Transports\<close>: \<open>utils/vram_llamolotl.py\<close>, \<open>vram_speak.py\<close>, \<open>vram_sketch.py\<close>,
    \<open>vram_curator.py\<close> and the dispatcher of \<open>main.py\<close>: release calls and the reading of replies.
  \<^item> \<open>Vram_Poller\<close>: \<open>utils/vram_state_source.py\<close> and \<open>utils/vram_poller.py\<close>.
  \<^item> \<open>Vram_Endpoints\<close>: \<open>routers/vram_leases.py\<close> and \<open>utils/vram_consumer_config.py\<close>.
  \<^item> \<open>Job_Windows\<close>: \<open>models/job_windows.py\<close>.
  \<^item> \<open>Gpu_Jobs\<close>: the job tables of \<open>models/curator_jobs.py\<close>, \<open>training.py\<close>, \<open>eval_jobs.py\<close> and
    \<open>model_versions.py\<close>.
  \<^item> \<open>Gpu_Admission\<close>: \<open>utils/lease_admission.py\<close>, \<open>vram_admission.py\<close>, \<open>model_vram.py\<close>.
  \<^item> \<open>Gpu_Dispatch\<close>, \<open>Gpu_Queue\<close>: \<open>utils/gpu_queue.py\<close> with the dispatch functions it calls in
    \<open>routers/training.py\<close> and \<open>routers/evaluations.py\<close>; first one job, then windows and the loop.
  \<^item> \<open>Access_Control\<close>: \<open>utils/access_control.py\<close>, \<open>models/groups.py\<close>, \<open>browse/access_control.py\<close>.
  \<^item> \<open>Model_Versions\<close>: \<open>models/model_versions.py\<close>, \<open>utils/model_versions.py\<close>,
    \<open>routers/model_versions.py\<close>.
  \<^item> \<open>Chats\<close>: \<open>models/chats.py\<close>, \<open>models/tags.py\<close>, \<open>models/folders.py\<close>, \<open>utils/folder_presets.py\<close>,
    \<open>routers/chats.py\<close>, \<open>routers/folders.py\<close>.
  \<^item> \<open>Tool_Specs\<close>: \<open>utils/toolspec.py\<close>, \<open>mods/tools.py\<close>: specifications of tools, their wire forms,
    the guard of a mod tool and the collision rule.
  \<^item> \<open>App_Config\<close>: the persistent settings of \<open>config.py\<close>, \<open>utils/config_redaction.py\<close> and the import
    and export of \<open>routers/configs.py\<close>.
  \<^item> \<open>Mods\<close>: \<open>mods/naming.py\<close>, \<open>manifest.py\<close>, \<open>validate.py\<close>, \<open>discovery.py\<close>, \<open>scopes.py\<close>,
    \<open>modconfig.py\<close>.
  \<^item> \<open>Mod_Loader\<close>: \<open>mods/loader.py\<close>, \<open>registry.py\<close>, \<open>assets.py\<close>, the endpoints \<open>routers/mods.py\<close>,
    \<open>mod_assets.py\<close>, \<open>mod_frontend_manifest.py\<close>, \<open>install_namespace_auth\<close> of \<open>socket/main.py\<close> and
    the reordering of the catch-all mount in \<open>main.py\<close>.
  \<^item> \<open>Chat_Streams\<close>: the two stream translations of \<open>utils/response.py\<close>.
  \<^item> \<open>Chat_Messages\<close>: \<open>utils/payload.py\<close> (messages, tools, requests), the whole answers of
    \<open>utils/response.py\<close> and the message helpers of \<open>utils/misc.py\<close>.
  \<^item> \<open>Web_Text\<close>: the parsing of addresses, \<open>browse/hop_policy.py\<close>, and the text and links of a page
    (\<open>browse/connection.py\<close>, \<open>utils/middleware.py\<close>), with the regular expressions they use.
  \<^item> \<open>Browse\<close>: \<open>browse/profiles.py\<close>, \<open>reference_profiles.py\<close>, \<open>connection.py\<close>, \<open>robots.py\<close> and the
    three browsing tools of \<open>utils/middleware.py\<close>.

  \<^bold>\<open>State and effects.\<close> A table is a list of rows in storage order and an operation returns the new
  table. The broker and the queue are coroutines: their code is atomic between two \<open>await\<close>s, so the
  model threads one state through them, and at each \<open>await\<close> the environment says what the call
  answers, how long it takes and which table calls other coroutines make meanwhile. Theorems hold
  for every environment. \<open>others_run\<close> (\<open>Chats\<close>) and \<open>version_step\<close> (\<open>Model_Versions\<close>) are step
  relations over whole requests; the queue loop is its run over a list of cycle environments.

  \<^bold>\<open>What the lemmas show.\<close> Of the card: a grant is covered by free capacity when it is written, takes
  nothing from equal or higher priority, reaps only on evidence and within a bounded time; an
  exclusive lease means a cleared card; nothing but a report, a reconcile or a confirmed reap
  lowers what a silent holder is charged. Of the queue: a window stays within its slots and hands
  over in priority order, no run starts on a card that is not cleared, finished jobs are final, and
  the card is given back. Of model lines: every history can be walked to its beginning, a version
  row is backed by a commit, a version resolves to itself or to nothing, and the picker shows a
  line once. Of users: what the client is shown agrees with what the server permits, requests of
  others leave a user's rows alone, a share link leads to its copy until it is ended, and deleting
  a folder removes exactly its tree. Of mods: no two routers overlap, a mod that fails leaves nothing
  behind, starting mods gives nobody a permission, two valid mods share no scope and no setting, a
  tool runs only for a user who holds its scope at that time, and the collision rule keeps every tool.
  Of settings: a saved one is what the next start reads, and an export hides exactly the sensitive
  leaves. Of the translation: the stream is well formed and loses nothing that was said however it
  is cut into pieces, and conversations and answers survive being translated back and forth; the
  path to a message in a history without cycles is found. Of browsing: nothing is sent past the guards,
  and a research goes only where the search or the same site leads, ends, stays within its pages and
  depth, and keeps to the rules and delays that sites declare. Some theorems record where the code departs from its
  intention: a second grant to a holder is not charged, a pending training is started twice, a
  foreign delete breaks a share link, a folder cycle loses chats, a scope above another one is granted
  to everyone, arguments of interleaved calls go to a closed block, a cyclic history is searched
  forever, an address without a host passes every guard of a fetch, and others next to them.

  \<^bold>\<open>Interfaces.\<close> \<open>row_write\<close>, a writer that keeps the primary key, is interpreted on the row writers
  of every table. It is extended for the lease table (\<open>registry_writer\<close>, \<open>measure_keeper\<close>,
  \<open>holding_keeper\<close>, \<open>ceiling_keeper\<close>: which charges a write leaves alone), for jobs (\<open>job_writer\<close>) and
  for chats (\<open>owned_write\<close>: a write that keeps the owner). \<open>pod_reaper\<close> is what the broker relies on of
  a reaper, discharged for the Kubernetes reaper, and \<open>release_client\<close> what a transport promises of
  its reading of replies, discharged for the plain and the curator transport. \<open>line_translator\<close> is a
  stream translation that ignores blanks around lines and empty lines; both directions are one.

  \<^bold>\<open>Bounds.\<close> The confirmation loop of the reaper sleeps a positive interval until its deadline and is
  run with the number of intervals that fit in the timeout plus two, which is shown to be enough.
  The provenance walk ends because it never visits a version twice. The recursion over folders has
  the interpreter's recursion limit as an argument; \<open>tree_fits\<close> says that a tree is shallower than
  that. The search for a message is a partial function, since it need not end; it is shown to return
  where \<open>ranked\<close> gives the messages numbers that fall towards the root. The loop of a research ends
  because a batch replaces addresses by links that can lead less deep: the multiset of the depths that
  are left falls. The other loops are structural.

  \<^bold>\<open>Assumptions.\<close> A single process runs the event loop. Database calls fail only where a theory says
  so. Strings have characters below code point 256; a stream is the text its pieces decode to. The
  JSON library, the Python object of a mod, the file system, random identifiers and the clock are
  parameters; so are the browser service, name lookup, the classes of IP addresses, the parser of
  \<open>robots.txt\<close>, the HTML tokenizer and the joining of addresses. Durations and times are rationals or integers.

  \<^bold>\<open>Not modelled.\<close> The pipeline of a chat request and the proxies, retrieval, audio, images, files,
  backup, authentication, most of the sockets, the Kubernetes client and the reading of manifest
  files: they are calls into libraries and services. The declarations of single settings are data.
  Further logic of the program that a later stage of this development takes up, in this order: the
  endpoints of the queue, of windows, of the curator and of groups; browsing (hop policy, robots
  rules); tokenization; the Ollama forms of requests and answers; the search over chats.
\<close>

end
